(* ===== verification/Prelude.thy ===== *)
theory Prelude
  imports Complex_Main "HOL-Library.Word" "HOL-Library.Multiset"
begin

text \<open>
  The shared prelude: the ways a C program of the repository can go wrong, written as a sum
  type; arrays as lists whose accesses are checked against their bounds; and the generic
  lemmas on lists that the component theories use.

  Every read or write of an array that the source does not guard goes through
  \<open>aget\<close> and \<open>aset\<close>, so an access outside the array is the value
  \<open>Inl OutOfBounds\<close> of the model and a theorem that a routine returns \<open>Inr\<close> is a
  memory-safety theorem.
\<close>

section \<open>Collections\<close>

named_theorems res_simps \<open>rewriting of the error monad\<close>
named_theorems arr_simps \<open>rewriting of checked array accesses\<close>
named_theorems clib_simps \<open>rewriting of the C library functions\<close>
named_theorems frame_simps \<open>fields an operation leaves alone\<close>

section \<open>Results\<close>

datatype c_error =
    OutOfBounds          \<comment> \<open>an array access outside the array\<close>
  | BufferOverflow       \<comment> \<open>a string written past the end of its buffer\<close>
  | Uninitialised        \<comment> \<open>a read of a local variable no statement has set\<close>
  | DivByZero            \<comment> \<open>an integer division or remainder by zero\<close>
  | BadArraySize         \<comment> \<open>a variable-length array of a size that is not positive\<close>
  | NullPointer          \<comment> \<open>an access through a null or an unset pointer\<close>
  | Deadlock             \<comment> \<open>every thread that is left waits for ever\<close>
  | KernelBug            \<comment> \<open>the failure of BUG()\<close>
  | Exit int             \<comment> \<open>a call of exit with this status\<close>

type_synonym 'a res = "c_error + 'a"

definition bindR :: "'a res \<Rightarrow> ('a \<Rightarrow> 'b res) \<Rightarrow> 'b res" where
  "bindR m f = (case m of Inl e \<Rightarrow> Inl e | Inr x \<Rightarrow> f x)"

lemma bindR_simps [simp, res_simps]:
  "bindR (Inr x) f = f x"
  "bindR (Inl e) f = Inl e"
  by (simp_all add: bindR_def)

lemma bindR_Inr_iff [res_simps]: "bindR m f = Inr y \<longleftrightarrow> (\<exists>x. m = Inr x \<and> f x = Inr y)"
  by (cases m) (auto simp: bindR_def)

lemma bindR_InrE:
  assumes "bindR m f = Inr y"
  obtains x where "m = Inr x" and "f x = Inr y"
  using assms by (auto simp: bindR_Inr_iff)

lemma bindR_Inl_iff: "bindR m f = Inl e \<longleftrightarrow> m = Inl e \<or> (\<exists>x. m = Inr x \<and> f x = Inl e)"
  by (cases m) (auto simp: bindR_def)

lemma bindR_assoc: "bindR (bindR m f) g = bindR m (\<lambda>x. bindR (f x) g)"
  by (cases m) (auto simp: bindR_def)

lemma bindR_cong [fundef_cong]:
  assumes "m = m'" and "\<And>x. m' = Inr x \<Longrightarrow> f x = f' x"
  shows "bindR m f = bindR m' f'"
  using assms by (cases m') (auto simp: bindR_def)

definition guardR :: "bool \<Rightarrow> c_error \<Rightarrow> unit res" where
  "guardR b e = (if b then Inr () else Inl e)"

lemma guardR_simps [simp, res_simps]:
  "guardR True e = Inr ()"
  "guardR False e = Inl e"
  by (simp_all add: guardR_def)

lemma guardR_Inr_iff [res_simps]: "guardR b e = Inr u \<longleftrightarrow> b"
  by (cases b) auto

section \<open>Arrays\<close>

definition aget :: "'a list \<Rightarrow> int \<Rightarrow> 'a res" where
  "aget xs i = (if 0 \<le> i \<and> i < int (length xs) then Inr (xs ! nat i) else Inl OutOfBounds)"

definition aset :: "'a list \<Rightarrow> int \<Rightarrow> 'a \<Rightarrow> 'a list res" where
  "aset xs i v =
     (if 0 \<le> i \<and> i < int (length xs) then Inr (xs[nat i := v]) else Inl OutOfBounds)"

lemma aget_in [arr_simps]: "i < length xs \<Longrightarrow> aget xs (int i) = Inr (xs ! i)"
  by (simp add: aget_def)

lemma aset_in [arr_simps]: "i < length xs \<Longrightarrow> aset xs (int i) v = Inr (xs[i := v])"
  by (simp add: aset_def)

lemma aset_out [arr_simps]: "i < 0 \<or> int (length xs) \<le> i \<Longrightarrow> aset xs i v = Inl OutOfBounds"
  by (auto simp: aset_def)

lemma aget_out [arr_simps]: "i < 0 \<or> int (length xs) \<le> i \<Longrightarrow> aget xs i = Inl OutOfBounds"
  by (auto simp: aget_def)

lemma aset_Inr_iff [arr_simps]:
  "aset xs i v = Inr ys \<longleftrightarrow> 0 \<le> i \<and> i < int (length xs) \<and> ys = xs[nat i := v]"
  by (auto simp: aset_def)

lemma aget_Inr_iff [arr_simps]:
  "aget xs i = Inr y \<longleftrightarrow> 0 \<le> i \<and> i < int (length xs) \<and> y = xs ! nat i"
  by (auto simp: aget_def)

section \<open>Lists\<close>

lemma set_list_update_distinct:
  assumes "distinct xs" and "j < length xs"
  shows "set (xs[j := v]) = insert v (set xs - {xs ! j})"
proof -
  have split: "xs = take j xs @ xs ! j # drop (Suc j) xs"
    using assms(2) by (simp add: id_take_nth_drop)
  have upd: "xs[j := v] = take j xs @ v # drop (Suc j) xs"
    using assms(2) by (simp add: upd_conv_take_nth_drop)
  have "xs ! j \<notin> set (take j xs)" and "xs ! j \<notin> set (drop (Suc j) xs)"
    using assms(1) split by (metis distinct.simps(2) distinct_append not_distinct_conv_prefix)
      (metis assms(1) split distinct.simps(2) distinct_append)
  moreover have "set xs = set (take j xs) \<union> insert (xs ! j) (set (drop (Suc j) xs))"
    using split by (metis list.simps(15) set_append)
  moreover have "set (xs[j := v]) = insert v (set (take j xs) \<union> set (drop (Suc j) xs))"
    using upd by auto
  ultimately show ?thesis by auto
qed

lemma distinct_list_update_fresh:
  "distinct xs \<Longrightarrow> v \<notin> set xs \<Longrightarrow> distinct (xs[j := v])"
  by (metis distinct_list_update Diff_iff)

lemma length_filter_mono:
  "(\<And>x. x \<in> set xs \<Longrightarrow> P x \<Longrightarrow> Q x) \<Longrightarrow> length (filter P xs) \<le> length (filter Q xs)"
  by (induction xs) auto

lemma sum_list_replicate_0 [simp]: "sum_list (replicate n (0::int)) = 0"
  by (induction n) auto

text \<open>The loop that keeps a running maximum.\<close>

lemma foldl_max_ge: "(n :: nat) \<le> foldl (\<lambda>w p. if w < f p then f p else w) n ps"
proof (induction ps arbitrary: n)
  case (Cons p ps)
  show ?case
  proof (cases "n < f p")
    case True
    with Cons.IH [of "f p"] show ?thesis by simp
  next
    case False
    with Cons.IH [of n] show ?thesis by simp
  qed
qed simp

lemma foldl_max_mem: "p \<in> set ps \<Longrightarrow> (f p :: nat) \<le> foldl (\<lambda>w p. if w < f p then f p else w) n ps"
proof (induction ps arbitrary: n)
  case (Cons q ps)
  show ?case
  proof (cases "p \<in> set ps")
    case False
    with Cons.prems have "p = q" by simp
    then have "f p \<le> (if n < f q then f q else n)" by simp
    also have "\<dots> \<le> foldl (\<lambda>w p. if w < f p then f p else w) (if n < f q then f q else n) ps" by (rule foldl_max_ge)
    finally show ?thesis by simp
  qed (simp add: Cons.IH)
qed simp

end
