(* ===== verification/Clib.thy ===== *)
theory Clib
  imports Prelude
begin

text \<open>
  The parts of the C library the programs use on strings and numbers, as executable
  functions on character lists: the \<open>ctype.h\<close> classes, decimal printing with the
  conversions the sources write (\<open>%d\<close>, \<open>%lu\<close>, \<open>%2d\<close>, \<open>%02d\<close>, \<open>%8lu\<close>),
  and scanning with \<open>%d\<close>, \<open>%lu\<close>, \<open>%s\<close> and \<open>atoi\<close>. A string holds no terminating
  NUL: \<open>strlen\<close> is \<open>length\<close>.

  The integer conversions are glibc's: the digits are read as a \<open>long\<close>, which saturates,
  and the \<open>long\<close> is truncated to the width of the target.

  The lemmas are the round trips: reading back what was printed gives the number.
\<close>

section \<open>Character classes\<close>

definition isdigit :: "char \<Rightarrow> bool" where
  "isdigit c \<longleftrightarrow> 48 \<le> (of_char c :: nat) \<and> (of_char c :: nat) \<le> 57"

definition isspace :: "char \<Rightarrow> bool" where
  "isspace c \<longleftrightarrow> (of_char c :: nat) = 32 \<or> 9 \<le> (of_char c :: nat) \<and> (of_char c :: nat) \<le> 13"

definition digit_char :: "nat \<Rightarrow> char" where
  "digit_char d = char_of (48 + d)"

definition digit_val :: "char \<Rightarrow> nat" where
  "digit_val c = of_char c - 48"

section \<open>Machine integers\<close>

type_synonym u64 = "64 word"
type_synonym s32 = "32 word"

text \<open>The value of a signed two's complement integer of 32 bits with the given residue.\<close>

definition to_int32 :: "int \<Rightarrow> int" where
  "to_int32 v = (v + 2 ^ 31) mod 2 ^ 32 - 2 ^ 31"

definition to_uint64 :: "int \<Rightarrow> int" where
  "to_uint64 v = v mod 2 ^ 64"

definition clamp_long :: "int \<Rightarrow> int" where
  "clamp_long v = max (- (2 ^ 63)) (min (2 ^ 63 - 1) v)"

definition clamp_ulong :: "int \<Rightarrow> int" where
  "clamp_ulong v = min (2 ^ 64 - 1) v"

text \<open>Division and remainder truncate towards zero.\<close>

definition c_div :: "int \<Rightarrow> int \<Rightarrow> int" where
  "c_div a b = sgn a * sgn b * (\<bar>a\<bar> div \<bar>b\<bar>)"

definition c_mod :: "int \<Rightarrow> int \<Rightarrow> int" where
  "c_mod a b = sgn a * (\<bar>a\<bar> mod \<bar>b\<bar>)"

section \<open>Printing\<close>

fun show_nat :: "nat \<Rightarrow> string" where
  "show_nat n =
     (if n < 10 then [digit_char n] else show_nat (n div 10) @ [digit_char (n mod 10)])"

declare show_nat.simps [simp del]

definition show_int :: "int \<Rightarrow> string" where
  "show_int v = (if v < 0 then CHR ''-'' # show_nat (nat (- v)) else show_nat (nat v))"

definition spaces :: "nat \<Rightarrow> string" where
  "spaces n = replicate n (CHR '' '')"

text \<open>A minimum field width: blanks on the left, or zeros after the sign.\<close>

definition pad_left :: "nat \<Rightarrow> string \<Rightarrow> string" where
  "pad_left w s = spaces (w - length s) @ s"

definition show_int_w :: "nat \<Rightarrow> int \<Rightarrow> string" where
  "show_int_w w v = pad_left w (show_int v)"

definition show_int_0w :: "nat \<Rightarrow> int \<Rightarrow> string" where
  "show_int_0w w v =
     (if v < 0
      then CHR ''-'' # replicate (w - 1 - length (show_nat (nat (- v)))) (CHR ''0'') @
             show_nat (nat (- v))
      else replicate (w - length (show_nat (nat v))) (CHR ''0'') @ show_nat (nat v))"

definition nl :: string where
  "nl = [CHR 0x0A]"

section \<open>Scanning\<close>

definition skip_ws :: "string \<Rightarrow> string" where
  "skip_ws s = dropWhile isspace s"

fun digits_val :: "nat \<Rightarrow> string \<Rightarrow> nat" where
  "digits_val acc [] = acc"
| "digits_val acc (c # cs) = (if isdigit c then digits_val (10 * acc + digit_val c) cs else acc)"

text \<open>An optional sign, then decimal digits: the sign, the digits and the rest.\<close>

definition take_sign :: "string \<Rightarrow> bool \<times> string" where
  "take_sign s =
     (case s of
        [] \<Rightarrow> (False, [])
      | c # cs \<Rightarrow> if c = CHR ''-'' then (True, cs) else if c = CHR ''+'' then (False, cs) else (False, s))"

datatype 'a scan = ScanEOF | ScanFail string | ScanOk 'a string

definition scan_number :: "string \<Rightarrow> int scan" where
  "scan_number s0 =
     (let s = skip_ws s0 in
      if s = [] then ScanEOF
      else (case take_sign s of (neg, ds) \<Rightarrow>
        if ds = [] \<or> \<not> isdigit (hd ds) then ScanFail ds
        else ScanOk (let v = int (digits_val 0 ds) in if neg then - v else v)
               (dropWhile isdigit ds)))"

text \<open>\<open>scanf("%d")\<close>, \<open>sscanf("%lu")\<close> and \<open>atoi\<close>.\<close>

definition scan_d :: "string \<Rightarrow> int scan" where
  "scan_d s =
     (case scan_number s of
        ScanOk v r \<Rightarrow> ScanOk (to_int32 (clamp_long v)) r
      | ScanEOF \<Rightarrow> ScanEOF
      | ScanFail r \<Rightarrow> ScanFail r)"

definition scan_lu :: "string \<Rightarrow> int scan" where
  "scan_lu s =
     (case scan_number s of
        ScanOk v r \<Rightarrow>
          ScanOk (if v < 0 then (if v < - (2 ^ 64 - 1) then 2 ^ 64 - 1 else to_uint64 v)
                  else clamp_ulong v) r
      | ScanEOF \<Rightarrow> ScanEOF
      | ScanFail r \<Rightarrow> ScanFail r)"

definition atoi :: "string \<Rightarrow> int" where
  "atoi s = (case scan_number s of ScanOk v r \<Rightarrow> to_int32 (clamp_long v) | _ \<Rightarrow> 0)"

text \<open>\<open>scanf("%s")\<close>: white space is skipped, then the longest run of other characters is read.\<close>

definition scan_s :: "string \<Rightarrow> string scan" where
  "scan_s s0 =
     (let s = skip_ws s0 in
      if s = [] then ScanEOF
      else ScanOk (takeWhile (\<lambda>c. \<not> isspace c) s) (dropWhile (\<lambda>c. \<not> isspace c) s))"

text \<open>\<open>fgets\<close> into a buffer of the given size: at most \<open>n - 1\<close> characters, through the newline.\<close>

definition fgets_line :: "nat \<Rightarrow> string \<Rightarrow> string \<times> string" where
  "fgets_line n s =
     (let k = length (takeWhile (\<lambda>c. c \<noteq> CHR 0x0A) s);
          m = min (n - 1) (Suc k)
      in (take m s, drop m s))"

section \<open>Lemmas\<close>

lemma of_char_digit_char [clib_simps]: "d < 10 \<Longrightarrow> (of_char (digit_char d) :: nat) = 48 + d"
  by (simp add: digit_char_def)

lemma isdigit_digit_char [simp, clib_simps]: "d < 10 \<Longrightarrow> isdigit (digit_char d)"
  by (simp add: isdigit_def clib_simps)

lemma digit_val_digit_char [simp, clib_simps]: "d < 10 \<Longrightarrow> digit_val (digit_char d) = d"
  by (simp add: digit_val_def clib_simps)

lemma isdigit_not_space: "isdigit c \<Longrightarrow> \<not> isspace c"
  by (auto simp: isdigit_def isspace_def)

lemma isdigit_not_sign: "isdigit c \<Longrightarrow> c \<noteq> CHR ''-'' \<and> c \<noteq> CHR ''+''"
  by (auto simp: isdigit_def)

lemma show_nat_nonempty [simp]: "show_nat n \<noteq> []"
  by (subst show_nat.simps) simp

lemma show_nat_digits: "\<forall>c \<in> set (show_nat n). isdigit c"
proof (induction n rule: show_nat.induct)
  case (1 n)
  then show ?case by (subst show_nat.simps) auto
qed

lemma hd_show_nat_digit: "isdigit (hd (show_nat n))"
  using show_nat_digits [of n] by simp

lemma digits_val_append:
  "\<forall>c \<in> set xs. isdigit c \<Longrightarrow> digits_val a (xs @ ys) = digits_val (digits_val a xs) ys"
  by (induction xs arbitrary: a) auto

lemma digits_val_stop: "ys = [] \<or> \<not> isdigit (hd ys) \<Longrightarrow> digits_val a ys = a"
  by (cases ys) auto

lemma digits_val_show_nat: "digits_val 0 (show_nat n) = n"
proof (induction n rule: show_nat.induct)
  case (1 n)
  show ?case
  proof (cases "n < 10")
    case True
    then show ?thesis by (subst show_nat.simps) simp
  next
    case False
    then have "digits_val 0 (show_nat n) =
        digits_val (digits_val 0 (show_nat (n div 10))) [digit_char (n mod 10)]"
      by (subst show_nat.simps) (simp add: digits_val_append show_nat_digits)
    with False "1.IH" show ?thesis by simp
  qed
qed

lemma dropWhile_isdigit_show_nat:
  "ys = [] \<or> \<not> isdigit (hd ys) \<Longrightarrow> dropWhile isdigit (show_nat n @ ys) = ys"
  using show_nat_digits [of n] by (cases ys) (auto simp: dropWhile_append3)

text \<open>Reading back a printed number, whatever follows it, as long as it is not a digit.\<close>

lemma scan_number_show_int:
  assumes "ys = [] \<or> \<not> isdigit (hd ys)"
  shows "scan_number (show_int v @ ys) = ScanOk v ys"
proof -
  have nat_case: "scan_number (show_nat n @ ys) = ScanOk (int n) ys" for n
  proof -
    obtain c cs where s: "show_nat n = c # cs" by (cases "show_nat n") auto
    with hd_show_nat_digit [of n] have c: "isdigit c" by simp
    then have "skip_ws (show_nat n @ ys) = show_nat n @ ys"
      by (simp add: s skip_ws_def isdigit_not_space)
    moreover have "take_sign (show_nat n @ ys) = (False, show_nat n @ ys)"
      using isdigit_not_sign [OF c] by (simp add: s take_sign_def)
    moreover have "digits_val 0 (show_nat n @ ys) = n"
      using assms by (simp add: digits_val_append show_nat_digits digits_val_show_nat digits_val_stop)
    ultimately show ?thesis
      using c dropWhile_isdigit_show_nat [OF assms, of n] by (simp add: scan_number_def s)
  qed
  have neg_case: "scan_number (CHR ''-'' # show_nat n @ ys) = ScanOk (- int n) ys" for n
  proof -
    obtain c cs where s: "show_nat n = c # cs" by (cases "show_nat n") auto
    with hd_show_nat_digit [of n] have c: "isdigit c" by simp
    have "skip_ws (CHR ''-'' # show_nat n @ ys) = CHR ''-'' # show_nat n @ ys"
      by (simp add: skip_ws_def isspace_def)
    moreover have "digits_val 0 (show_nat n @ ys) = n"
      using assms by (simp add: digits_val_append show_nat_digits digits_val_show_nat digits_val_stop)
    ultimately show ?thesis
      using c dropWhile_isdigit_show_nat [OF assms, of n] by (simp add: scan_number_def take_sign_def s)
  qed
  show ?thesis using nat_case neg_case by (simp add: show_int_def)
qed

lemma to_int32_id: "- (2 ^ 31) \<le> v \<Longrightarrow> v < 2 ^ 31 \<Longrightarrow> to_int32 v = v"
  by (simp add: to_int32_def)

lemma to_int32_range: "- (2 ^ 31) \<le> to_int32 v \<and> to_int32 v < 2 ^ 31"
  by (simp add: to_int32_def)

lemma clamp_long_id: "- (2 ^ 63) \<le> v \<Longrightarrow> v < 2 ^ 63 \<Longrightarrow> clamp_long v = v"
  by (simp add: clamp_long_def)

lemma scan_d_show_int:
  assumes "- (2 ^ 31) \<le> v" and "v < 2 ^ 31" and "ys = [] \<or> \<not> isdigit (hd ys)"
  shows "scan_d (show_int v @ ys) = ScanOk v ys"
  using assms by (simp add: scan_d_def scan_number_show_int to_int32_id clamp_long_id)

lemma atoi_show_int:
  assumes "- (2 ^ 31) \<le> v" and "v < 2 ^ 31"
  shows "atoi (show_int v) = v"
  using scan_number_show_int [of "[]" v] assms
  by (simp add: atoi_def to_int32_id clamp_long_id)

lemma c_mod_nonneg: "0 \<le> a \<Longrightarrow> 0 < b \<Longrightarrow> c_mod a b = a mod b"
  by (cases "a = 0") (auto simp: c_mod_def)

lemma c_div_mod: "c_div a b * b + c_mod a b = a"
proof -
  have "c_div a b * b = sgn a * (\<bar>a\<bar> div \<bar>b\<bar> * \<bar>b\<bar>)"
    by (simp add: c_div_def abs_sgn mult.assoc mult.left_commute mult.commute [of _ "sgn b"])
  then have "c_div a b * b + c_mod a b = sgn a * (\<bar>a\<bar> div \<bar>b\<bar> * \<bar>b\<bar> + \<bar>a\<bar> mod \<bar>b\<bar>)"
    by (simp only: c_mod_def distrib_left)
  then show ?thesis by (simp add: sgn_mult_abs)
qed

lemma c_mod_bound: "b \<noteq> 0 \<Longrightarrow> \<bar>c_mod a b\<bar> < \<bar>b\<bar>"
  by (cases "a = 0") (auto simp: c_mod_def abs_mult)

lemma pad_left_length: "length (pad_left w s) = max w (length s)"
  by (simp add: pad_left_def spaces_def)

lemma length_spaces [simp]: "length (spaces n) = n"
  by (simp add: spaces_def)

lemma skip_ws_length: "length (skip_ws s) \<le> length s"
  by (simp add: skip_ws_def length_dropWhile_le)

lemma scan_s_shorter: "scan_s s = ScanOk w r \<Longrightarrow> length r < length s"
proof -
  assume a: "scan_s s = ScanOk w r"
  then have ne: "skip_ws s \<noteq> []" and r: "r = dropWhile (\<lambda>c. \<not> isspace c) (skip_ws s)"
    by (auto simp: scan_s_def Let_def split: if_splits)
  from ne have "\<not> isspace (hd (skip_ws s))"
    unfolding skip_ws_def by (rule hd_dropWhile)
  with ne r have "length r < length (skip_ws s)"
    by (cases "skip_ws s") (auto simp: le_imp_less_Suc length_dropWhile_le)
  with skip_ws_length [of s] show ?thesis by simp
qed

end
