(* ===== verification/Paging.thy ===== *)
theory Paging
  imports Clib
begin

text \<open>
  The page replacement simulator, \<open>src/Assignment_5/simulator.c\<close>: the four algorithms, each
  as the body of its loop over the reference string with the same guards, early exits and array
  accesses, the rows and headers they print, the reading of the input file and the interactive
  loop of \<open>main\<close>.

  The arrays \<open>page_frame\<close> and \<open>reference_bit\<close> are lists as long as the \<open>frame_size\<close> the
  source declares them with. The locals that outlive one iteration are the fields of a record:
  the \<open>victim\<close> of FIFO and Second-Chance, and the counter \<open>page_fault\<close>.
\<close>

section \<open>State\<close>

record pgst =
  page_frame :: "int list"
  reference_bit :: "int list"
  page_fault :: int
  victim :: nat

text \<open>The declarations and \<open>memset\<close> calls at the head of the \<open>while\<close> loop of \<open>main\<close>.\<close>

definition init_frames :: "nat \<Rightarrow> pgst" where
  "init_frames n =
     \<lparr>page_frame = replicate n (- 1), reference_bit = replicate n 0, page_fault = 0, victim = 0\<rparr>"

section \<open>Looking the page up\<close>

datatype frame_scan = Hit nat | Free nat | Full

text \<open>The first loop over the frames, the same in the four algorithms.\<close>

fun frame_scan_loop :: "int list \<Rightarrow> int \<Rightarrow> nat \<Rightarrow> frame_scan" where
  "frame_scan_loop [] p j = Full"
| "frame_scan_loop (f # fs) p j =
     (if f = p then Hit j else if f < 0 then Free j else frame_scan_loop fs p (Suc j))"

definition load_free :: "nat \<Rightarrow> int \<Rightarrow> pgst \<Rightarrow> pgst" where
  "load_free j p st = st\<lparr>page_fault := page_fault st + 1, page_frame := (page_frame st)[j := p]\<rparr>"

text \<open>\<open>page_frame[v] = page_reference[i]; page_fault++;\<close>\<close>

definition replace_at :: "int \<Rightarrow> int \<Rightarrow> pgst \<Rightarrow> pgst res" where
  "replace_at v p st =
     bindR (aset (page_frame st) v p)
       (\<lambda>pf. Inr (st\<lparr>page_frame := pf, page_fault := page_fault st + 1\<rparr>))"

section \<open>The four algorithms\<close>

subsection \<open>OPT\<close>

text \<open>The loop over \<open>k\<close>: the first later reference to the page.\<close>

function opt_find :: "int list \<Rightarrow> int \<Rightarrow> nat \<Rightarrow> nat option" where
  "opt_find refs p k =
     (if k < length refs then if p = refs ! k then Some k else opt_find refs p (Suc k) else None)"
  by pat_completeness auto
termination
  by (relation "measure (\<lambda>(refs, p, k). length refs - k)") auto

declare opt_find.simps [simp del]

text \<open>The loop over \<open>j\<close>, with the locals \<open>location\<close> and \<open>victim\<close>.\<close>

fun opt_search :: "int list \<Rightarrow> nat \<Rightarrow> int list \<Rightarrow> nat \<Rightarrow> int \<Rightarrow> int \<Rightarrow> int" where
  "opt_search refs i [] j location vic = vic"
| "opt_search refs i (f # fs) j location vic =
     (case opt_find refs f (i + 1) of
        None \<Rightarrow> int j
      | Some k \<Rightarrow>
          if location < int k then opt_search refs i fs (Suc j) (int k) (int j)
          else opt_search refs i fs (Suc j) location vic)"

definition opt_step :: "int list \<Rightarrow> nat \<Rightarrow> pgst \<Rightarrow> (pgst \<times> bool) res" where
  "opt_step refs i st =
     (case frame_scan_loop (page_frame st) (refs ! i) 0 of
        Hit j \<Rightarrow> Inr (st, False)
      | Free j \<Rightarrow> Inr (load_free j (refs ! i) st, True)
      | Full \<Rightarrow>
          bindR (replace_at (opt_search refs i (page_frame st) 0 (- 1) (- 1)) (refs ! i) st)
            (\<lambda>st'. Inr (st', True)))"

subsection \<open>FIFO\<close>

definition wrap_victim :: "pgst \<Rightarrow> pgst" where
  "wrap_victim st = (if victim st = length (page_frame st) then st\<lparr>victim := 0\<rparr> else st)"

definition fifo_step :: "int list \<Rightarrow> nat \<Rightarrow> pgst \<Rightarrow> (pgst \<times> bool) res" where
  "fifo_step refs i st =
     (case frame_scan_loop (page_frame st) (refs ! i) 0 of
        Hit j \<Rightarrow> Inr (wrap_victim st, False)
      | Free j \<Rightarrow> Inr (wrap_victim (load_free j (refs ! i) st), True)
      | Full \<Rightarrow>
          bindR (replace_at (int (victim st)) (refs ! i) st)
            (\<lambda>st'. Inr (wrap_victim (st'\<lparr>victim := victim st' + 1\<rparr>), True)))"

subsection \<open>LRU\<close>

text \<open>The loop over \<open>k\<close> from \<open>i - 1\<close> down to 0: the last earlier reference to the page.\<close>

fun lru_find :: "int list \<Rightarrow> int \<Rightarrow> nat \<Rightarrow> nat option" where
  "lru_find refs p 0 = None"
| "lru_find refs p (Suc k) = (if p = refs ! k then Some k else lru_find refs p k)"

fun lru_search :: "int list \<Rightarrow> nat \<Rightarrow> int list \<Rightarrow> nat \<Rightarrow> int \<Rightarrow> int \<Rightarrow> int" where
  "lru_search refs i [] j location vic = vic"
| "lru_search refs i (f # fs) j location vic =
     (case lru_find refs f i of
        None \<Rightarrow> lru_search refs i fs (Suc j) location vic
      | Some k \<Rightarrow>
          if int k < location then lru_search refs i fs (Suc j) (int k) (int j)
          else lru_search refs i fs (Suc j) location vic)"

definition lru_step :: "int list \<Rightarrow> nat \<Rightarrow> pgst \<Rightarrow> (pgst \<times> bool) res" where
  "lru_step refs i st =
     (case frame_scan_loop (page_frame st) (refs ! i) 0 of
        Hit j \<Rightarrow> Inr (st, False)
      | Free j \<Rightarrow> Inr (load_free j (refs ! i) st, True)
      | Full \<Rightarrow>
          bindR (replace_at (lru_search refs i (page_frame st) 0 99 (- 1)) (refs ! i) st)
            (\<lambda>st'. Inr (st', True)))"

subsection \<open>Second-Chance\<close>

text \<open>
  The loops \<open>for (j = lo; j < hi; j++)\<close> over the reference bits: a bit that is 0 ends the loop
  with its index, a bit that is 1 is cleared.
\<close>

function sc_pass :: "nat \<Rightarrow> nat \<Rightarrow> int list \<Rightarrow> (int list \<times> nat option) res" where
  "sc_pass j hi bits =
     (if j < hi then
        bindR (aget bits (int j)) (\<lambda>b.
          if b = 0 then Inr (bits, Some j)
          else if b = 1 then bindR (aset bits (int j) 0) (\<lambda>bits'. sc_pass (Suc j) hi bits')
          else sc_pass (Suc j) hi bits)
      else Inr (bits, None))"
  by pat_completeness auto
termination
  by (relation "measure (\<lambda>(j, hi, bits). hi - j)") auto

declare sc_pass.simps [simp del]

text \<open>The block \<open>if (!check)\<close>: from the hand to the end, from the start to the hand, at the hand.\<close>

definition sc_evict :: "int \<Rightarrow> pgst \<Rightarrow> pgst res" where
  "sc_evict p st =
     bindR (sc_pass (victim st) (length (page_frame st)) (reference_bit st)) (\<lambda>(bits, found).
       case found of
         Some j \<Rightarrow>
           bindR (replace_at (int j) p (st\<lparr>reference_bit := bits\<rparr>))
             (\<lambda>st'. Inr (st'\<lparr>victim := j + 1\<rparr>))
       | None \<Rightarrow>
           bindR (sc_pass 0 (victim st) bits) (\<lambda>(bits', found').
             case found' of
               Some j \<Rightarrow>
                 bindR (replace_at (int j) p (st\<lparr>reference_bit := bits'\<rparr>))
                   (\<lambda>st'. Inr (st'\<lparr>victim := j + 1\<rparr>))
             | None \<Rightarrow>
                 bindR (replace_at (int (victim st)) p (st\<lparr>reference_bit := bits'\<rparr>))
                   (\<lambda>st'. Inr (st'\<lparr>victim := victim st' + 1\<rparr>))))"

definition sc_step :: "int list \<Rightarrow> nat \<Rightarrow> pgst \<Rightarrow> (pgst \<times> bool) res" where
  "sc_step refs i st =
     (case frame_scan_loop (page_frame st) (refs ! i) 0 of
        Hit j \<Rightarrow>
          bindR (aset (reference_bit st) (int j) 1)
            (\<lambda>bits. Inr (wrap_victim (st\<lparr>reference_bit := bits\<rparr>), False))
      | Free j \<Rightarrow>
          bindR (aset (reference_bit st) (int j) 0)
            (\<lambda>bits. Inr (wrap_victim ((load_free j (refs ! i) st)\<lparr>reference_bit := bits\<rparr>), True))
      | Full \<Rightarrow>
          bindR (sc_evict (refs ! i) st) (\<lambda>st'. Inr (wrap_victim st', True)))"

section \<open>Printing\<close>

text \<open>The heading: the reference string, the frame numbers, the column titles.\<close>

definition print_header :: "int list \<Rightarrow> nat \<Rightarrow> string" where
  "print_header refs n =
     ''page reference string : '' @ concat (map (\<lambda>r. show_int r @ '' '') refs) @ nl @ nl @
     spaces 8 @ ''frame'' @ spaces 3 @
     concat (map (\<lambda>i. show_nat i @ spaces 7) [1..<Suc n]) @
     ''page fault'' @ nl @ ''time'' @ nl"

text \<open>One row: the time, the frames, and an F for a page fault.\<close>

definition print_row :: "nat \<Rightarrow> pgst \<Rightarrow> bool \<Rightarrow> string" where
  "print_row i st replaced =
     show_nat (i + 1) @ (if i < 9 then spaces 15 else spaces 14) @
     concat (map (\<lambda>f. if f < 0 then spaces 8 else show_int f @ spaces 7) (page_frame st)) @
     (if replaced then ''F'' else []) @ nl"

definition print_total :: "pgst \<Rightarrow> string" where
  "print_total st = ''Number of page faults : '' @ show_int (page_fault st) @ '' times'' @ nl @ nl"

section \<open>The loop over the reference string\<close>

fun sim_loop :: "(nat \<Rightarrow> pgst \<Rightarrow> (pgst \<times> bool) res) \<Rightarrow> nat list \<Rightarrow> pgst \<Rightarrow> string \<Rightarrow>
    (pgst \<times> string) res" where
  "sim_loop step [] st out = Inr (st, out)"
| "sim_loop step (i # is) st out =
     bindR (step i st) (\<lambda>(st', r). sim_loop step is st' (out @ print_row i st' r))"

definition run_step :: "(int list \<Rightarrow> nat \<Rightarrow> pgst \<Rightarrow> (pgst \<times> bool) res) \<Rightarrow> int list \<Rightarrow> nat \<Rightarrow>
    (pgst \<times> string) res" where
  "run_step step refs n =
     bindR (sim_loop (step refs) [0..<length refs] (init_frames n) (print_header refs n))
       (\<lambda>(st, out). Inr (st, out @ print_total st))"

text \<open>The chain of \<open>strcmp\<close> tests; a name that is none of the four prints nothing.\<close>

definition run_method :: "string \<Rightarrow> int list \<Rightarrow> nat \<Rightarrow> string res" where
  "run_method method refs n =
     (if method = ''OPT'' then bindR (run_step opt_step refs n) (\<lambda>(st, out). Inr out)
      else if method = ''FIFO'' then bindR (run_step fifo_step refs n) (\<lambda>(st, out). Inr out)
      else if method = ''LRU'' then bindR (run_step lru_step refs n) (\<lambda>(st, out). Inr out)
      else if method = ''Second-Chance'' then bindR (run_step sc_step refs n) (\<lambda>(st, out). Inr out)
      else Inr [])"

section \<open>Reading the input file\<close>

text \<open>
  The loop \<open>while (fscanf(fp, "%d", &temp) != EOF)\<close>. A conversion that fails leaves \<open>temp\<close>
  as it was and is not \<open>EOF\<close>, so the old value is stored again. The array has 31 elements.
\<close>

function read_refs :: "string \<Rightarrow> int option \<Rightarrow> int list \<Rightarrow> int list res" where
  "read_refs s temp acc =
     (case scan_d s of
        ScanEOF \<Rightarrow> Inr acc
      | ScanOk v r \<Rightarrow>
          if length acc < 31 then read_refs r (Some v) (acc @ [v]) else Inl OutOfBounds
      | ScanFail r \<Rightarrow>
          (case temp of
             None \<Rightarrow> Inl Uninitialised
           | Some v \<Rightarrow>
               if length acc < 31 then read_refs r temp (acc @ [v]) else Inl OutOfBounds))"
  by pat_completeness auto
termination
  by (relation "measure (\<lambda>(s, temp, acc). 31 - length acc)") auto

declare read_refs.simps [simp del]

definition read_input :: "string \<Rightarrow> (int option \<times> int list) res" where
  "read_input s =
     (case scan_d s of
        ScanOk v r \<Rightarrow> bindR (read_refs r None []) (\<lambda>refs. Inr (Some v, refs))
      | ScanFail r \<Rightarrow> bindR (read_refs r None []) (\<lambda>refs. Inr (None, refs))
      | ScanEOF \<Rightarrow> bindR (read_refs [] None []) (\<lambda>refs. Inr (None, refs)))"

section \<open>The interactive loop\<close>

text \<open>
  \<open>scanf("%s", method)\<close> into a buffer of 100 bytes; at the end of the input it leaves
  \<open>method\<close> as it was. The loop ends only on \<open>exit\<close>, so the result is an option.
\<close>

partial_function (option) sim_main :: "int list \<Rightarrow> nat \<Rightarrow> string \<Rightarrow> string option \<Rightarrow> string \<Rightarrow>
    string res option" where
  "sim_main refs n stdin method out =
     (case (case scan_s stdin of ScanOk w r \<Rightarrow> (Some w, r) | _ \<Rightarrow> (method, [])) of
        (None, rest) \<Rightarrow> Some (Inl Uninitialised)
      | (Some w, rest) \<Rightarrow>
          if 100 \<le> length w then Some (Inl BufferOverflow)
          else if w = ''exit'' then Some (Inr (out @ ''Used method : ''))
          else (case run_method w refs n of
                  Inl e \<Rightarrow> Some (Inl e)
                | Inr o' \<Rightarrow> sim_main refs n rest (Some w) (out @ ''Used method : '' @ o')))"

text \<open>The first prompt, in the bytes of the source.\<close>

definition sim_prompt :: string where
  "sim_prompt = map char_of [237, 140, 140, 236, 157, 188, 236, 157, 152, 32, 236, 157, 180, 235,
     166, 132, 236, 157, 132, 32, 236, 158, 133, 235, 160, 165, 237, 149, 152, 236, 132, 184, 236,
     154, 148, 32, 58, 32 :: nat]"

definition simulator :: "(string \<Rightarrow> string option) \<Rightarrow> string \<Rightarrow> string res option" where
  "simulator files stdin =
     (case scan_s stdin of
        ScanOk fname rest \<Rightarrow>
          if 100 \<le> length fname then Some (Inl BufferOverflow)
          else (case files fname of
                  None \<Rightarrow> Some (Inl (Exit 1))
                | Some contents \<Rightarrow>
                    (case read_input contents of
                       Inl e \<Rightarrow> Some (Inl e)
                     | Inr (None, refs) \<Rightarrow> Some (Inl Uninitialised)
                     | Inr (Some frame_size, refs) \<Rightarrow>
                         if frame_size \<le> 0 then Some (Inl BadArraySize)
                         else sim_main refs (nat frame_size) rest None sim_prompt))
      | _ \<Rightarrow> Some (Inl Uninitialised))"

end
