(* ===== verification/Paging_Spec.thy ===== *)
theory Paging_Spec
  imports Prelude
begin

text \<open>
  What a page replacement algorithm may do, without the arrays of the simulator: a cache is a
  finite set of at most \<open>k\<close> pages, a reference to a page in it is free, and a reference to any
  other page is a fault that loads the page, into a free frame while there is one and in place
  of a resident page otherwise (demand paging). The theory proves that the furthest-future rule
  is optimal among all such algorithms, and gives the recency list that characterises LRU.
\<close>

section \<open>Demand paging\<close>

text \<open>One reference: the cache before, the page, whether it faults, the cache after.\<close>

definition demand_move :: "nat \<Rightarrow> 'a set \<Rightarrow> 'a \<Rightarrow> bool \<Rightarrow> 'a set \<Rightarrow> bool" where
  "demand_move k C p f D \<longleftrightarrow>
     (p \<in> C \<and> \<not> f \<and> D = C) \<or>
     (p \<notin> C \<and> f \<and> card C < k \<and> D = insert p C) \<or>
     (p \<notin> C \<and> f \<and> card C = k \<and> (\<exists>e \<in> C. D = insert p (C - {e})))"

inductive serves :: "nat \<Rightarrow> 'a set \<Rightarrow> 'a list \<Rightarrow> nat \<Rightarrow> bool" for k where
  serves_Nil: "serves k C [] 0"
| serves_hit: "p \<in> C \<Longrightarrow> serves k C ps n \<Longrightarrow> serves k C (p # ps) n"
| serves_load: "p \<notin> C \<Longrightarrow> card C < k \<Longrightarrow> serves k (insert p C) ps n \<Longrightarrow> serves k C (p # ps) (Suc n)"
| serves_evict: "p \<notin> C \<Longrightarrow> card C = k \<Longrightarrow> e \<in> C \<Longrightarrow> serves k (insert p (C - {e})) ps n \<Longrightarrow>
    serves k C (p # ps) (Suc n)"

inductive_simps serves_Nil_iff [simp]: "serves k C [] n"

lemma serves_Cons_iff:
  "serves k C (p # ps) n \<longleftrightarrow>
     (\<exists>f D m. demand_move k C p f D \<and> serves k D ps m \<and> n = (if f then Suc m else m))"
proof
  assume "serves k C (p # ps) n"
  then show "\<exists>f D m. demand_move k C p f D \<and> serves k D ps m \<and> n = (if f then Suc m else m)"
  proof (cases rule: serves.cases)
    case serves_hit
    then show ?thesis
      by (intro exI [of _ False] exI [of _ C] exI [of _ n]) (simp add: demand_move_def)
  next
    case (serves_load m)
    then show ?thesis
      by (intro exI [of _ True] exI [of _ "insert p C"] exI [of _ m]) (simp add: demand_move_def)
  next
    case (serves_evict e m)
    then show ?thesis
      by (intro exI [of _ True] exI [of _ "insert p (C - {e})"] exI [of _ m])
        (auto simp: demand_move_def)
  qed
next
  assume "\<exists>f D m. demand_move k C p f D \<and> serves k D ps m \<and> n = (if f then Suc m else m)"
  then show "serves k C (p # ps) n"
    by (auto simp: demand_move_def intro: serves.intros)
qed

lemma demand_move_finite: "demand_move k C p f D \<Longrightarrow> finite C \<Longrightarrow> finite D"
  by (auto simp: demand_move_def)

lemma demand_move_card:
  assumes "demand_move k C p f D" and "finite C" and "card C \<le> k"
  shows "card D \<le> k"
proof -
  have "card (insert p (C - {e})) = card C" if "p \<notin> C" "e \<in> C" for e
    using that assms(2) by (metis Diff_iff card_Suc_Diff1 card_insert_disjoint finite_Diff)
  with assms show ?thesis
    by (auto simp: demand_move_def card_insert_if)
qed

lemma demand_move_mem: "demand_move k C p f D \<Longrightarrow> p \<in> D"
  by (auto simp: demand_move_def)

lemma demand_move_subset: "demand_move k C p f D \<Longrightarrow> D \<subseteq> insert p C"
  by (auto simp: demand_move_def)

section \<open>Lower and upper bounds on the faults\<close>

lemma serves_le_length: "serves k C ps n \<Longrightarrow> n \<le> length ps"
  by (induction rule: serves.induct) auto

lemma serves_ge_distinct: "serves k C ps n \<Longrightarrow> finite C \<Longrightarrow> card (set ps - C) \<le> n"
proof (induction rule: serves.induct)
  case (serves_Nil C)
  then show ?case by simp
next
  case (serves_hit p C ps n)
  then have "set (p # ps) - C = set ps - C" by auto
  with serves_hit show ?case by simp
next
  case (serves_load p C ps n)
  have "set (p # ps) - C \<subseteq> insert p (set ps - insert p C)" by auto
  then have "card (set (p # ps) - C) \<le> card (insert p (set ps - insert p C))"
    by (intro card_mono) auto
  also have "\<dots> \<le> Suc (card (set ps - insert p C))" by (simp add: card_insert_if)
  finally show ?case using serves_load by simp
next
  case (serves_evict p C e ps n)
  have "set (p # ps) - C \<subseteq> insert p (set ps - insert p (C - {e}))" by auto
  then have "card (set (p # ps) - C) \<le> card (insert p (set ps - insert p (C - {e})))"
    by (intro card_mono) auto
  also have "\<dots> \<le> Suc (card (set ps - insert p (C - {e})))" by (simp add: card_insert_if)
  finally show ?case using serves_evict by simp
qed

lemma serves_enough_frames:
  "serves k C ps n \<Longrightarrow> finite C \<Longrightarrow> card (C \<union> set ps) \<le> k \<Longrightarrow> n = card (set ps - C)"
proof (induction rule: serves.induct)
  case (serves_Nil C)
  then show ?case by simp
next
  case (serves_hit p C ps n)
  then have "set (p # ps) - C = set ps - C" and "C \<union> set (p # ps) = C \<union> set ps" by auto
  with serves_hit show ?case by simp
next
  case (serves_load p C ps n)
  have "set (p # ps) - C = insert p (set ps - insert p C)" using serves_load.hyps(1) by auto
  then have "card (set (p # ps) - C) = Suc (card (set ps - insert p C))" by simp
  moreover have "insert p C \<union> set ps = C \<union> set (p # ps)" by auto
  ultimately show ?case using serves_load by simp
next
  case (serves_evict p C e ps n)
  have "card (insert p C) \<le> card (C \<union> set (p # ps))"
    using serves_evict.prems by (intro card_mono) auto
  with serves_evict show ?case by simp
qed

section \<open>The furthest-future rule is optimal\<close>

text \<open>How many references come before the next one to the page (all of them, if there is none).\<close>

definition next_use :: "'a \<Rightarrow> 'a list \<Rightarrow> nat" where
  "next_use p ps = length (takeWhile (\<lambda>q. q \<noteq> p) ps)"

lemma next_use_Cons: "next_use p (q # ps) = (if q = p then 0 else Suc (next_use p ps))"
  by (simp add: next_use_def)

definition furthest :: "'a set \<Rightarrow> 'a list \<Rightarrow> 'a \<Rightarrow> bool" where
  "furthest C ps v \<longleftrightarrow> v \<in> C \<and> (\<forall>p \<in> C. next_use p ps \<le> next_use v ps)"

definition opt_move :: "nat \<Rightarrow> 'a set \<Rightarrow> 'a \<Rightarrow> 'a list \<Rightarrow> bool \<Rightarrow> 'a set \<Rightarrow> bool" where
  "opt_move k C p ps f D \<longleftrightarrow>
     (p \<in> C \<and> \<not> f \<and> D = C) \<or>
     (p \<notin> C \<and> f \<and> card C < k \<and> D = insert p C) \<or>
     (p \<notin> C \<and> f \<and> card C = k \<and> (\<exists>v. furthest C ps v \<and> D = insert p (C - {v})))"

fun opt_serves :: "nat \<Rightarrow> 'a set \<Rightarrow> 'a list \<Rightarrow> nat \<Rightarrow> bool" where
  "opt_serves k C [] n = (n = 0)"
| "opt_serves k C (p # ps) n =
     (\<exists>f D m. opt_move k C p ps f D \<and> opt_serves k D ps m \<and> n = (if f then Suc m else m))"

lemma opt_move_demand: "opt_move k C p ps f D \<Longrightarrow> demand_move k C p f D"
  by (auto simp: opt_move_def demand_move_def furthest_def)

lemma card_exchange:
  "finite X \<Longrightarrow> x \<in> X \<Longrightarrow> r \<notin> X \<Longrightarrow> card (insert r (X - {x})) = card X"
  by (metis Diff_iff card_Suc_Diff1 card_insert_disjoint finite_Diff)

text \<open>
  Two full caches that differ in one page: \<open>insert a X\<close> and \<open>insert b X\<close>. On a
  reference to neither of the two, the first can copy what the second does, and they still
  differ in at most that page.
\<close>

definition differ_one :: "nat \<Rightarrow> 'a \<Rightarrow> 'a \<Rightarrow> 'a set \<Rightarrow> bool" where
  "differ_one k a b X \<longleftrightarrow> finite X \<and> a \<notin> X \<and> b \<notin> X \<and> Suc (card X) = k"

lemma mirror_move:
  assumes mv: "demand_move k (insert b X) p f D" and d: "differ_one k a b X"
    and p: "p \<noteq> a" "p \<noteq> b"
  shows "\<exists>D'. demand_move k (insert a X) p f D' \<and>
           (D' = D \<or> (\<exists>Y. D = insert b Y \<and> D' = insert a Y \<and> differ_one k a b Y))"
proof (cases "p \<in> X")
  case True
  with mv d p show ?thesis
    by (intro exI [of _ "insert a X"]) (auto simp: demand_move_def)
next
  case False
  have cardA: "card (insert a X) = k" using d by (simp add: differ_one_def)
  from False p mv d obtain e where e: "e \<in> insert b X" "D = insert p (insert b X - {e})" "f"
    by (auto simp: demand_move_def differ_one_def)
  show ?thesis
  proof (cases "e = b")
    case True
    with e d have "D = insert p (insert a X - {a})" by (auto simp: differ_one_def)
    with False p e cardA show ?thesis
      by (intro exI [of _ D]) (auto simp: demand_move_def)
  next
    case eb: False
    let ?Y = "insert p (X - {e})"
    from eb e have eX: "e \<in> X" by simp
    with e d eb p have "D = insert b ?Y" by (auto simp: differ_one_def)
    moreover have "differ_one k a b ?Y"
      using card_exchange [of X e p] d p False eX by (auto simp: differ_one_def)
    moreover have "insert a ?Y = insert p (insert a X - {e})"
      using eX d by (auto simp: differ_one_def)
    then have "demand_move k (insert a X) p f (insert a ?Y)"
      using False p e cardA eX by (auto simp: demand_move_def)
    ultimately show ?thesis by blast
  qed
qed

text \<open>On a reference to the page only the first cache holds, the second faults.\<close>

lemma catch_up_move:
  assumes mv: "demand_move k (insert b X) a f D" and d: "differ_one k a b X" and ab: "a \<noteq> b"
  shows "f \<and> (D = insert a X \<or>
           (\<exists>e Y. D = insert b Y \<and> insert a X = insert e Y \<and> differ_one k e b Y))"
proof -
  from mv d ab obtain e where e: "e \<in> insert b X" "D = insert a (insert b X - {e})" "f"
    by (auto simp: demand_move_def differ_one_def)
  show ?thesis
  proof (cases "e = b")
    case True
    with e d show ?thesis by (auto simp: differ_one_def)
  next
    case False
    let ?Y = "insert a (X - {e})"
    from False e have eX: "e \<in> X" by simp
    have "D = insert b ?Y" using e False ab by auto
    moreover have "insert a X = insert e ?Y" using eX by auto
    moreover have "differ_one k e b ?Y"
      using card_exchange [of X e a] d ab eX by (auto simp: differ_one_def)
    ultimately show ?thesis using e by blast
  qed
qed

text \<open>Such caches serve the same references with at most one fault of difference.\<close>

lemma swap_one_fault:
  assumes "serves k (insert b X) ps n" and "differ_one k a b X"
  shows "\<exists>m \<le> Suc n. serves k (insert a X) ps m"
  using assms
proof (induction ps arbitrary: a b X n)
  case Nil
  then show ?case by auto
next
  case (Cons p ps)
  from Cons.prems(1) obtain f D m where mv: "demand_move k (insert b X) p f D"
    and D: "serves k D ps m" and n: "n = (if f then Suc m else m)"
    by (auto simp: serves_Cons_iff)
  consider (same) "a = b" | (a) "p = a" "a \<noteq> b" | (b) "p = b" "a \<noteq> b" | (none) "p \<noteq> a" "p \<noteq> b"
    by blast
  then show ?case
  proof cases
    case same
    with Cons.prems show ?thesis by (intro exI [of _ n]) simp
  next
    case a
    with catch_up_move [of k b X a f D] mv Cons.prems(2) Cons.IH D
    obtain l where "l \<le> Suc m" "serves k (insert a X) ps l" "f" by (metis le_SucI le_refl)
    with a n show ?thesis by (intro exI [of _ l]) (auto intro: serves_hit)
  next
    case b
    with mv n have Dn: "D = insert b X" "n = m" by (auto simp: demand_move_def)
    have "insert p (insert a X - {a}) = insert b X"
      using b Cons.prems(2) by (auto simp: differ_one_def)
    with D Dn b Cons.prems(2) have "serves k (insert a X) (p # ps) (Suc m)"
      by (intro serves_evict [where e = a]) (auto simp: differ_one_def)
    with Dn show ?thesis by blast
  next
    case none
    with mirror_move [OF mv Cons.prems(2)] Cons.IH D
    obtain D' l where "demand_move k (insert a X) p f D'" "l \<le> Suc m" "serves k D' ps l"
      by (metis le_SucI le_refl)
    with n show ?thesis
      by (intro exI [of _ "if f then Suc l else l"]) (auto simp: serves_Cons_iff)
  qed
qed

text \<open>Holding the page that is needed sooner is never worse.\<close>

lemma swap_sooner:
  assumes "serves k (insert b X) ps n" and "differ_one k a b X" and "next_use a ps \<le> next_use b ps"
  shows "\<exists>m \<le> n. serves k (insert a X) ps m"
  using assms
proof (induction ps arbitrary: a b X n)
  case Nil
  then show ?case by auto
next
  case (Cons p ps)
  from Cons.prems(1) obtain f D m where mv: "demand_move k (insert b X) p f D"
    and D: "serves k D ps m" and n: "n = (if f then Suc m else m)"
    by (auto simp: serves_Cons_iff)
  consider (same) "a = b" | (a) "p = a" "a \<noteq> b" | (none) "p \<noteq> a" "p \<noteq> b"
    using Cons.prems(3) by (auto simp: next_use_Cons split: if_splits)
  then show ?case
  proof cases
    case same
    with Cons.prems show ?thesis by blast
  next
    case a
    with catch_up_move [of k b X a f D] mv Cons.prems(2)
    have cu: "f" "D = insert a X \<or>
        (\<exists>e Y. D = insert b Y \<and> insert a X = insert e Y \<and> differ_one k e b Y)" by auto
    then obtain l where "l \<le> Suc m" "serves k (insert a X) ps l"
      using D swap_one_fault by (metis le_SucI le_refl)
    with a n cu(1) show ?thesis by (intro exI [of _ l]) (auto intro: serves_hit)
  next
    case none
    with Cons.prems(3) have "next_use a ps \<le> next_use b ps" by (simp add: next_use_Cons)
    with none mirror_move [OF mv Cons.prems(2)] Cons.IH D
    obtain D' l where "demand_move k (insert a X) p f D'" "l \<le> m" "serves k D' ps l"
      by (metis le_refl)
    with n show ?thesis
      by (intro exI [of _ "if f then Suc l else l"]) (auto simp: serves_Cons_iff)
  qed
qed

text \<open>So evicting the page needed last is at least as good as evicting any other.\<close>

lemma furthest_eviction_best:
  assumes "furthest C ps v" and "e \<in> C" and "finite C" and "card C = k" and "p \<notin> C"
    and "serves k (insert p (C - {e})) ps m"
  shows "\<exists>l \<le> m. serves k (insert p (C - {v})) ps l"
proof (cases "e = v")
  case True
  with assms(6) show ?thesis by blast
next
  case False
  let ?X = "insert p (C - {v, e})"
  have v: "v \<in> C" "next_use e ps \<le> next_use v ps"
    using assms(1,2) by (auto simp: furthest_def)
  have eq: "insert p (C - {e}) = insert v ?X" "insert p (C - {v}) = insert e ?X"
    using False v assms(2) by auto
  have "card C = Suc (Suc (card (C - {v, e})))"
    using False v(1) assms(2,3)
    by (metis Diff_insert card_Suc_Diff1 finite_Diff insertE insert_Diff)
  then have "differ_one k e v ?X"
    using assms(3-5) v(1) assms(2) by (auto simp: differ_one_def)
  with swap_sooner [of k v ?X ps m e] assms(6) v(2) show ?thesis by (simp add: eq)
qed

lemma opt_serves_le:
  assumes "opt_serves k C ps n" and "serves k C ps m" and "finite C" and "card C \<le> k"
  shows "n \<le> m"
  using assms
proof (induction ps arbitrary: C n m)
  case Nil
  then show ?case by simp
next
  case (Cons p ps)
  from Cons.prems(1) obtain f D n' where o: "opt_move k C p ps f D" "opt_serves k D ps n'"
    "n = (if f then Suc n' else n')" by auto
  from Cons.prems(2) obtain g E m' where s: "demand_move k C p g E" "serves k E ps m'"
    "m = (if g then Suc m' else m')" by (auto simp: serves_Cons_iff)
  have fg: "f = g" using o(1) s(1) by (auto simp: opt_move_def demand_move_def)
  have fin: "finite D" "card D \<le> k"
    using opt_move_demand [OF o(1)] Cons.prems(3,4)
    by (auto intro: demand_move_finite demand_move_card)
  have "\<exists>l \<le> m'. serves k D ps l"
  proof (cases "p \<notin> C \<and> card C = k")
    case True
    with o(1) s(1) obtain v e where "furthest C ps v" "D = insert p (C - {v})"
      "e \<in> C" "E = insert p (C - {e})"
      by (auto simp: opt_move_def demand_move_def)
    with True s(2) Cons.prems(3) show ?thesis
      using furthest_eviction_best [of C ps v e k p m'] by blast
  next
    case False
    with o(1) s(1) have "D = E" by (auto simp: opt_move_def demand_move_def)
    with s(2) show ?thesis by blast
  qed
  then obtain l where "l \<le> m'" "serves k D ps l" by blast
  with Cons.IH [OF o(2) _ fin] have "n' \<le> m'" by (meson le_trans)
  with fg o(3) s(3) show ?case by simp
qed

section \<open>Recency\<close>

text \<open>The pages referenced so far, most recently used first, each once.\<close>

definition mru_step :: "'a list \<Rightarrow> 'a \<Rightarrow> 'a list" where
  "mru_step m p = p # removeAll p m"

definition mru :: "'a list \<Rightarrow> 'a list" where
  "mru ps = foldl mru_step [] ps"

lemma mru_snoc: "mru (ps @ [p]) = p # removeAll p (mru ps)"
  by (simp add: mru_def mru_step_def)

lemma mru_Nil [simp]: "mru [] = []"
  by (simp add: mru_def)

lemma set_mru [simp]: "set (mru ps) = set ps"
  by (induction ps rule: rev_induct) (auto simp: mru_snoc)

lemma distinct_mru [simp]: "distinct (mru ps)"
  by (induction ps rule: rev_induct) (auto simp: mru_snoc distinct_removeAll)

text \<open>The faults of the cache that always holds the \<open>k\<close> most recently used pages.\<close>

definition lru_faults_spec :: "nat \<Rightarrow> 'a list \<Rightarrow> nat" where
  "lru_faults_spec k ps =
     length (filter (\<lambda>i. ps ! i \<notin> set (take k (mru (take i ps)))) [0..<length ps])"

lemma lru_faults_spec_antimono: "k \<le> l \<Longrightarrow> lru_faults_spec l ps \<le> lru_faults_spec k ps"
proof -
  assume kl: "k \<le> l"
  have sub: "set (take k xs) \<subseteq> set (take l xs)" for xs :: "'a list"
    using kl by (rule set_take_subset_set_take)
  then show ?thesis
    unfolding lru_faults_spec_def by (intro length_filter_mono) blast
qed

end
