(* ===== verification/Paging_Frames.thy ===== *)
theory Paging_Frames
  imports Paging Paging_Spec
begin

text \<open>
  The interface between the simulator's algorithms and the theory of demand paging. The frame
  array of every algorithm is a run of distinct pages followed by free frames (\<open>frames_ok\<close>),
  its residents are the pages of a cache, and one iteration of an algorithm is one move of
  demand paging. What follows from that alone is proved once, in the locale
  \<open>demand_pager\<close>: the run never leaves an array, and its fault count is the count of a
  demand paging run. \<open>predicted_pager\<close> adds a description of the cache, \<open>optimal_pager\<close>
  the furthest-future rule.
\<close>

section \<open>The frame array\<close>

definition frames_ok :: "nat \<Rightarrow> pgst \<Rightarrow> bool" where
  "frames_ok k st \<longleftrightarrow>
     (\<exists>xs. page_frame st = xs @ replicate (k - length xs) (- 1) \<and> length xs \<le> k \<and> distinct xs \<and>
        (\<forall>x \<in> set xs. 0 \<le> x))"

definition resident :: "pgst \<Rightarrow> int set" where
  "resident st = {f \<in> set (page_frame st). 0 \<le> f}"

definition valid_refs :: "nat \<Rightarrow> int list \<Rightarrow> bool" where
  "valid_refs k refs \<longleftrightarrow> 0 < k \<and> (\<forall>p \<in> set refs. 0 \<le> p)"

lemma frames_okE:
  assumes "frames_ok k st"
  obtains xs where "page_frame st = xs @ replicate (k - length xs) (- 1)" "length xs \<le> k"
    "distinct xs" "\<forall>x \<in> set xs. 0 \<le> x" "resident st = set xs" "card (resident st) = length xs"
proof -
  from assms obtain xs where xs: "page_frame st = xs @ replicate (k - length xs) (- 1)"
    "length xs \<le> k" "distinct xs" "\<forall>x \<in> set xs. 0 \<le> x"
    by (auto simp: frames_ok_def)
  then have "resident st = set xs" by (auto simp: resident_def)
  with xs show thesis by (intro that [of xs]) (auto simp: distinct_card)
qed

lemma frames_ok_length: "frames_ok k st \<Longrightarrow> length (page_frame st) = k"
  by (auto simp: frames_ok_def)

lemma frames_ok_finite: "frames_ok k st \<Longrightarrow> finite (resident st) \<and> card (resident st) \<le> k"
  by (erule frames_okE) simp

lemma frames_ok_init: "frames_ok k (init_frames k)" "resident (init_frames k) = {}"
  by (auto simp: frames_ok_def init_frames_def resident_def intro: exI [of _ "[]"])

lemma frame_scan_append:
  "\<forall>x \<in> set xs. 0 \<le> x \<Longrightarrow> p \<notin> set xs \<Longrightarrow>
    frame_scan_loop (xs @ ys) p j = frame_scan_loop ys p (j + length xs)"
  by (induction xs arbitrary: j) auto

lemma frame_scan_found:
  "\<forall>x \<in> set xs. 0 \<le> x \<Longrightarrow> p \<in> set xs \<Longrightarrow>
    \<exists>i < length xs. frame_scan_loop (xs @ ys) p j = Hit (j + i) \<and> xs ! i = p"
proof (induction xs arbitrary: j)
  case Nil
  then show ?case by simp
next
  case (Cons x xs)
  show ?case
  proof (cases "x = p")
    case True
    then show ?thesis by (intro exI [of _ 0]) simp
  next
    case False
    with Cons.prems have "\<forall>x \<in> set xs. 0 \<le> x" "p \<in> set xs" by auto
    from Cons.IH [OF this, of "Suc j"] obtain i where "i < length xs"
      "frame_scan_loop (xs @ ys) p (Suc j) = Hit (Suc j + i)" "xs ! i = p" by blast
    with False Cons.prems show ?thesis by (intro exI [of _ "Suc i"]) simp
  qed
qed

text \<open>The lookup loop tells a resident page, a free frame and a full memory apart.\<close>

lemma frame_scan_cases:
  assumes "frames_ok k st" and "0 \<le> p"
  obtains (hit) j where "frame_scan_loop (page_frame st) p 0 = Hit j" "p \<in> resident st"
      "j < k" "page_frame st ! j = p"
  | (free) "frame_scan_loop (page_frame st) p 0 = Free (card (resident st))" "p \<notin> resident st"
      "card (resident st) < k"
  | (full) "frame_scan_loop (page_frame st) p 0 = Full" "p \<notin> resident st"
      "card (resident st) = k"
proof -
  from assms(1) obtain xs where xs: "page_frame st = xs @ replicate (k - length xs) (- 1)"
    "length xs \<le> k" "distinct xs" "\<forall>x \<in> set xs. 0 \<le> x" "resident st = set xs"
    "card (resident st) = length xs" by (rule frames_okE)
  show thesis
  proof (cases "p \<in> set xs")
    case True
    with frame_scan_found [OF xs(4), of p "replicate (k - length xs) (- 1)" 0] xs
    show thesis by (auto simp: nth_append intro!: hit)
  next
    case False
    show thesis
    proof (cases "length xs < k")
      case True
      then obtain m where "k - length xs = Suc m" by (metis Suc_diff_Suc)
      with False True xs assms(2) show thesis
        by (intro free) (auto simp: frame_scan_append)
    next
      case nl: False
      with False xs show thesis by (intro full) (auto simp: frame_scan_append [of xs p "[]", simplified])
    qed
  qed
qed

lemma load_free_move:
  assumes "frames_ok k st" and "0 \<le> p" and "p \<notin> resident st" and "card (resident st) < k"
  shows "frames_ok k (load_free (card (resident st)) p st)"
    and "resident (load_free (card (resident st)) p st) = insert p (resident st)"
proof -
  from assms(1) obtain xs where xs: "page_frame st = xs @ replicate (k - length xs) (- 1)"
    "length xs \<le> k" "distinct xs" "\<forall>x \<in> set xs. 0 \<le> x" "resident st = set xs"
    "card (resident st) = length xs" by (rule frames_okE)
  let ?st = "load_free (card (resident st)) p st"
  have "k - length xs = Suc (k - length (xs @ [p]))" using assms(4) xs(6) by simp
  then have "page_frame ?st = (xs @ [p]) @ replicate (k - length (xs @ [p])) (- 1)"
    by (simp add: load_free_def xs(1,6) list_update_append)
  then show "frames_ok k ?st" and "resident ?st = insert p (resident st)"
    using xs assms(2-4) by (auto simp: frames_ok_def resident_def intro!: exI [of _ "xs @ [p]"])
qed

lemma full_frames:
  assumes "frames_ok k st" and "card (resident st) = k"
  shows "distinct (page_frame st)" and "resident st = set (page_frame st)"
    and "length (page_frame st) = k" and "\<forall>x \<in> set (page_frame st). 0 \<le> x"
  using assms by (auto elim!: frames_okE)

lemma replace_at_move:
  assumes "frames_ok k st" and "0 \<le> p" and "p \<notin> resident st" and "card (resident st) = k"
    and "v < k"
  shows "replace_at (int v) p st =
      Inr (st\<lparr>page_frame := (page_frame st)[v := p], page_fault := page_fault st + 1\<rparr>)"
    and "frames_ok k (st\<lparr>page_frame := (page_frame st)[v := p], page_fault := page_fault st + 1\<rparr>)"
    and "resident (st\<lparr>page_frame := (page_frame st)[v := p], page_fault := page_fault st + 1\<rparr>) =
      insert p (resident st - {page_frame st ! v})"
    and "page_frame st ! v \<in> resident st"
proof -
  note f = full_frames [OF assms(1,4)]
  let ?st = "st\<lparr>page_frame := (page_frame st)[v := p], page_fault := page_fault st + 1\<rparr>"
  have fs: "set ((page_frame st)[v := p]) = insert p (set (page_frame st) - {page_frame st ! v})"
    using f assms(5) by (simp add: set_list_update_distinct)
  have "p \<notin> set (page_frame st)" using assms(3) f(2) by simp
  then have ds: "distinct ((page_frame st)[v := p])" using f(1) by (rule distinct_list_update_fresh [rotated])
  show "replace_at (int v) p st =
      Inr (st\<lparr>page_frame := (page_frame st)[v := p], page_fault := page_fault st + 1\<rparr>)"
    using f(3) assms(5) by (simp add: replace_at_def aset_in)
  show "frames_ok k ?st"
    unfolding frames_ok_def using ds fs f assms(2)
    by (intro exI [of _ "(page_frame st)[v := p]"]) auto
  show "resident ?st = insert p (resident st - {page_frame st ! v})"
    using fs f assms(2) by (auto simp: resident_def)
  show "page_frame st ! v \<in> resident st" using f assms(5) by simp
qed

text \<open>Fields the frames do not depend on.\<close>

lemma frame_ext_simps [simp, frame_simps]:
  "page_frame (wrap_victim st) = page_frame st"
  "reference_bit (wrap_victim st) = reference_bit st"
  "page_fault (wrap_victim st) = page_fault st"
  "frames_ok k (wrap_victim st) = frames_ok k st"
  "resident (wrap_victim st) = resident st"
  "frames_ok k (st\<lparr>victim := v\<rparr>) = frames_ok k st"
  "resident (st\<lparr>victim := v\<rparr>) = resident st"
  "frames_ok k (st\<lparr>reference_bit := bs\<rparr>) = frames_ok k st"
  "resident (st\<lparr>reference_bit := bs\<rparr>) = resident st"
  "page_fault (load_free j p st) = page_fault st + 1"
  "victim (load_free j p st) = victim st"
  "reference_bit (load_free j p st) = reference_bit st"
  by (simp_all add: wrap_victim_def frames_ok_def resident_def load_free_def)

section \<open>Demand pagers\<close>

locale demand_pager =
  fixes step :: "int list \<Rightarrow> nat \<Rightarrow> pgst \<Rightarrow> (pgst \<times> bool) res"
    and inv :: "nat \<Rightarrow> int list \<Rightarrow> nat \<Rightarrow> pgst \<Rightarrow> bool"
    and admissible :: "nat \<Rightarrow> int list \<Rightarrow> bool"
  assumes inv_init: "admissible k refs \<Longrightarrow> inv k refs 0 (init_frames k)"
    and inv_frames: "inv k refs i st \<Longrightarrow> frames_ok k st"
    and step_move: "admissible k refs \<Longrightarrow> inv k refs i st \<Longrightarrow> i < length refs \<Longrightarrow>
      \<exists>st' f. step refs i st = Inr (st', f) \<and> inv k refs (Suc i) st' \<and>
        demand_move k (resident st) (refs ! i) f (resident st') \<and>
        page_fault st' = page_fault st + (if f then 1 else 0)"
begin

lemma loop_serves:
  assumes "admissible k refs" and "inv k refs i st" and "i \<le> length refs"
  shows "\<exists>st' out' n. sim_loop (step refs) [i..<length refs] st out = Inr (st', out') \<and>
    inv k refs (length refs) st' \<and> serves k (resident st) (drop i refs) n \<and>
    page_fault st' = page_fault st + int n"
  using assms(2,3)
proof (induction "length refs - i" arbitrary: i st out)
  case 0
  then show ?case by simp
next
  case (Suc d)
  then have i: "i < length refs" by simp
  with step_move [OF assms(1) Suc.prems(1)] obtain st1 f where
    s: "step refs i st = Inr (st1, f)" "inv k refs (Suc i) st1"
      "demand_move k (resident st) (refs ! i) f (resident st1)"
      "page_fault st1 = page_fault st + (if f then 1 else 0)" by blast
  have "d = length refs - Suc i" using Suc.hyps(2) by simp
  from Suc.hyps(1) [OF this s(2), of "out @ print_row i st1 f"] i
  obtain st2 out2 n where r: "sim_loop (step refs) [Suc i..<length refs] st1 (out @ print_row i st1 f)
      = Inr (st2, out2)" "inv k refs (length refs) st2"
      "serves k (resident st1) (drop (Suc i) refs) n" "page_fault st2 = page_fault st1 + int n"
    by auto
  have "serves k (resident st) (drop i refs) (if f then Suc n else n)"
    using s(3) r(3) i by (auto simp: Cons_nth_drop_Suc [symmetric] serves_Cons_iff)
  with s r i show ?case
    by (intro exI [of _ st2] exI [of _ out2] exI [of _ "if f then Suc n else n"])
      (simp add: upt_conv_Cons)
qed

lemma run_serves:
  assumes "admissible k refs"
  shows "\<exists>st out n. run_step step refs k = Inr (st, out) \<and> inv k refs (length refs) st \<and>
    serves k {} refs n \<and> page_fault st = int n"
proof -
  have "page_fault (init_frames k) = 0" by (simp add: init_frames_def)
  with loop_serves [OF assms inv_init [OF assms], of "print_header refs k"] frames_ok_init(2) [of k]
  show ?thesis by (auto simp: run_step_def)
qed

lemma run_faults_serves:
  assumes "admissible k refs" and "run_step step refs k = Inr (st, out)"
  shows "\<exists>n. serves k {} refs n \<and> page_fault st = int n"
  using run_serves [OF assms(1)] assms(2) by auto

lemma run_faults_bounds:
  assumes "admissible k refs" and "run_step step refs k = Inr (st, out)"
  shows "int (card (set refs)) \<le> page_fault st" and "page_fault st \<le> int (length refs)"
    and "card (set refs) \<le> k \<Longrightarrow> page_fault st = int (card (set refs))"
proof -
  from run_faults_serves [OF assms] obtain n where n: "serves k {} refs n" "page_fault st = int n"
    by blast
  show "int (card (set refs)) \<le> page_fault st"
    using serves_ge_distinct [OF n(1)] n(2) by simp
  show "page_fault st \<le> int (length refs)" using serves_le_length [OF n(1)] n(2) by simp
  show "card (set refs) \<le> k \<Longrightarrow> page_fault st = int (card (set refs))"
    using serves_enough_frames [OF n(1)] n(2) by simp
qed

lemma run_frames:
  assumes "admissible k refs" and "run_step step refs k = Inr (st, out)" and "refs \<noteq> []"
  shows "frames_ok k st"
  using run_serves [OF assms(1)] assms(2) inv_frames by auto

end

text \<open>A pager whose cache is known at every point of the run.\<close>

locale predicted_pager = demand_pager +
  fixes cache :: "nat \<Rightarrow> int list \<Rightarrow> nat \<Rightarrow> int set"
  assumes inv_cache: "admissible k refs \<Longrightarrow> inv k refs i st \<Longrightarrow> i \<le> length refs \<Longrightarrow> resident st = cache k refs i"
begin

lemma loop_faults_cache:
  assumes "admissible k refs" and "inv k refs i st" and "i \<le> length refs"
    and "sim_loop (step refs) [i..<length refs] st out = Inr (st', out')"
  shows "page_fault st' = page_fault st +
    int (length (filter (\<lambda>j. refs ! j \<notin> cache k refs j) [i..<length refs]))"
  using assms(2-4)
proof (induction "length refs - i" arbitrary: i st out)
  case 0
  then show ?case by simp
next
  case (Suc d)
  then have i: "i < length refs" by simp
  with step_move [OF assms(1) Suc.prems(1)] obtain st1 f where
    s: "step refs i st = Inr (st1, f)" "inv k refs (Suc i) st1"
      "demand_move k (resident st) (refs ! i) f (resident st1)"
      "page_fault st1 = page_fault st + (if f then 1 else 0)" by blast
  have f: "f \<longleftrightarrow> refs ! i \<notin> cache k refs i"
    using s(3) inv_cache [OF assms(1) Suc.prems(1)] i by (auto simp: demand_move_def)
  from Suc.prems(3) s(1) i have
    "sim_loop (step refs) [Suc i..<length refs] st1 (out @ print_row i st1 f) = Inr (st', out')"
    by (simp add: upt_conv_Cons)
  with Suc.hyps i s(2) have "page_fault st' = page_fault st1 +
      int (length (filter (\<lambda>j. refs ! j \<notin> cache k refs j) [Suc i..<length refs]))" by simp
  with s(4) f i show ?case by (simp add: upt_conv_Cons)
qed

lemma run_faults_cache:
  assumes "admissible k refs" and "run_step step refs k = Inr (st, out)"
  shows "page_fault st = int (length (filter (\<lambda>j. refs ! j \<notin> cache k refs j) [0..<length refs]))"
  using assms(2) loop_faults_cache [OF assms(1) inv_init [OF assms(1)]]
  by (auto simp: run_step_def init_frames_def bindR_Inr_iff split: prod.splits)

end

text \<open>A pager that evicts the page whose next use is furthest away.\<close>

locale optimal_pager = demand_pager +
  assumes step_furthest: "admissible k refs \<Longrightarrow> inv k refs i st \<Longrightarrow> i < length refs \<Longrightarrow>
      step refs i st = Inr (st', f) \<Longrightarrow>
      opt_move k (resident st) (refs ! i) (drop (Suc i) refs) f (resident st')"
begin

lemma loop_opt_serves:
  assumes "admissible k refs" and "inv k refs i st" and "i \<le> length refs"
    and "sim_loop (step refs) [i..<length refs] st out = Inr (st', out')"
  shows "\<exists>n. opt_serves k (resident st) (drop i refs) n \<and> page_fault st' = page_fault st + int n"
  using assms(2-4)
proof (induction "length refs - i" arbitrary: i st out)
  case 0
  then show ?case by simp
next
  case (Suc d)
  then have i: "i < length refs" by simp
  with step_move [OF assms(1) Suc.prems(1)] obtain st1 f where
    s: "step refs i st = Inr (st1, f)" "inv k refs (Suc i) st1"
      "page_fault st1 = page_fault st + (if f then 1 else 0)" by blast
  from Suc.prems(3) s(1) i have
    "sim_loop (step refs) [Suc i..<length refs] st1 (out @ print_row i st1 f) = Inr (st', out')"
    by (simp add: upt_conv_Cons)
  with Suc.hyps i s(2) obtain n where
    "opt_serves k (resident st1) (drop (Suc i) refs) n" "page_fault st' = page_fault st1 + int n"
    by (metis Suc_leI diff_Suc_1 diff_Suc_eq_diff_pred diff_commute)
  with s(3) step_furthest [OF assms(1) Suc.prems(1) i s(1)] i show ?case
    by (intro exI [of _ "if f then Suc n else n"]) (auto simp: Cons_nth_drop_Suc [symmetric])
qed

lemma run_optimal:
  assumes "admissible k refs" and "run_step step refs k = Inr (st, out)" and "serves k {} refs n"
  shows "page_fault st \<le> int n"
proof -
  obtain out' where "sim_loop (step refs) [0..<length refs] (init_frames k) (print_header refs k)
      = Inr (st, out')"
    using assms(2) by (auto simp: run_step_def bindR_Inr_iff split: prod.splits)
  from loop_opt_serves [OF assms(1) inv_init [OF assms(1)] _ this] obtain m where
    "opt_serves k {} refs m" "page_fault st = page_fault (init_frames k) + int m"
    using frames_ok_init(2) [of k] by auto
  moreover have "page_fault (init_frames k) = 0" by (simp add: init_frames_def)
  ultimately show ?thesis using opt_serves_le [of k "{}" refs m n] assms(3) by simp
qed

end

end
