(* ===== verification/Paging_Algorithms.thy ===== *)
theory Paging_Algorithms
  imports Paging_Frames
begin

text \<open>
  The four algorithms against the interface of \<open>Paging_Frames\<close>: OPT evicts the page whose
  next use is furthest away, LRU keeps the most recently used pages, FIFO is the textbook queue
  and Second-Chance the textbook queue with reference bits. Each is interpreted as a demand
  pager; what each promises beyond that is a refinement lemma between its arrays and the
  abstract structure.
\<close>

section \<open>Shared steps\<close>

definition base_inv :: "nat \<Rightarrow> int list \<Rightarrow> nat \<Rightarrow> pgst \<Rightarrow> bool" where
  "base_inv k refs i st \<longleftrightarrow> frames_ok k st"

lemma hit_move: "p \<in> C \<Longrightarrow> demand_move k C p False C"
  by (simp add: demand_move_def)

lemma load_move: "p \<notin> C \<Longrightarrow> card C < k \<Longrightarrow> demand_move k C p True (insert p C)"
  by (simp add: demand_move_def)

lemma evict_move: "p \<notin> C \<Longrightarrow> card C = k \<Longrightarrow> e \<in> C \<Longrightarrow> demand_move k C p True (insert p (C - {e}))"
  by (auto simp: demand_move_def)

lemmas demand_moves = hit_move load_move evict_move

lemma valid_refs_nth: "valid_refs k refs \<Longrightarrow> i < length refs \<Longrightarrow> 0 \<le> refs ! i"
  by (simp add: valid_refs_def)

section \<open>OPT\<close>

lemma opt_find_next_use:
  "opt_find refs p k =
     (if p \<in> set (drop k refs) then Some (k + next_use p (drop k refs)) else None)"
proof (induction refs p k rule: opt_find.induct)
  case (1 refs p k)
  show ?case
  proof (cases "k < length refs")
    case True
    then have d: "drop k refs = refs ! k # drop (Suc k) refs" by (rule Cons_nth_drop_Suc [symmetric])
    show ?thesis
      using True 1 by (subst opt_find.simps) (auto simp: d next_use_Cons)
  next
    case False
    then show ?thesis by (subst opt_find.simps) simp
  qed
qed

lemma next_use_le: "next_use p ps \<le> length ps"
  by (simp add: next_use_def length_takeWhile_le)

lemma next_use_never: "p \<notin> set ps \<Longrightarrow> next_use p ps = length ps"
  unfolding next_use_def by (induction ps) auto

text \<open>The search over the frames returns one whose page is used last of all.\<close>

lemma opt_search_furthest:
  fixes refs :: "int list" and i :: nat
  defines "nu \<equiv> \<lambda>f. next_use f (drop (i + 1) refs)"
  assumes "pre @ fs \<noteq> []"
    and "(pre = [] \<and> loc = - 1) \<or> (\<exists>v < length pre. vic = int v \<and>
           loc = int (i + 1 + nu (pre ! v)) \<and> (\<forall>f \<in> set pre. nu f \<le> nu (pre ! v)))"
  shows "\<exists>v < length (pre @ fs). opt_search refs i fs (length pre) loc vic = int v \<and>
           (\<forall>f \<in> set (pre @ fs). nu f \<le> nu ((pre @ fs) ! v))"
  using assms(2,3)
proof (induction fs arbitrary: pre loc vic)
  case Nil
  then show ?case by auto
next
  case (Cons f fs)
  show ?case
  proof (cases "opt_find refs f (i + 1)")
    case None
    then have "f \<notin> set (drop (i + 1) refs)"
      unfolding opt_find_next_use by (auto split: if_splits)
    then have "nu g \<le> nu f" for g
      using next_use_never next_use_le [of g] unfolding nu_def by metis
    with None show ?thesis by (intro exI [of _ "length pre"]) (auto simp: nth_append)
  next
    case (Some k)
    then have k: "k = i + 1 + nu f" unfolding nu_def opt_find_next_use by (auto split: if_splits)
    let ?pre = "pre @ [f]"
    show ?thesis
    proof (cases "loc < int k")
      case True
      have "\<forall>g \<in> set pre. nu g \<le> nu f" using Cons.prems(2) True k by force
      with Cons.IH [of ?pre "int k" "int (length pre)"] k
      have "\<exists>v < length (?pre @ fs). opt_search refs i fs (length ?pre) (int k) (int (length pre)) = int v \<and>
          (\<forall>f \<in> set (?pre @ fs). nu f \<le> nu ((?pre @ fs) ! v))" by (auto simp: nth_append)
      with Some True show ?thesis by simp
    next
      case False
      with Cons.prems(2) obtain v where v: "v < length pre" "vic = int v"
        "loc = int (i + 1 + nu (pre ! v))" "\<forall>f \<in> set pre. nu f \<le> nu (pre ! v)" by auto
      then have "\<forall>g \<in> set ?pre. nu g \<le> nu (?pre ! v)" using False k by (auto simp: nth_append)
      with Cons.IH [of ?pre loc vic] v
      have "\<exists>v < length (?pre @ fs). opt_search refs i fs (length ?pre) loc vic = int v \<and>
          (\<forall>f \<in> set (?pre @ fs). nu f \<le> nu ((?pre @ fs) ! v))" by (auto simp: nth_append)
      with Some False show ?thesis by simp
    qed
  qed
qed

lemma opt_step_move:
  assumes "valid_refs k refs" and "frames_ok k st" and "i < length refs"
  shows "\<exists>st' f. opt_step refs i st = Inr (st', f) \<and> frames_ok k st' \<and>
    opt_move k (resident st) (refs ! i) (drop (Suc i) refs) f (resident st') \<and>
    page_fault st' = page_fault st + (if f then 1 else 0)"
  using assms(2) valid_refs_nth [OF assms(1,3)]
proof (cases rule: frame_scan_cases)
  case (hit j)
  then show ?thesis using assms(2)
    by (intro exI [of _ st] exI [of _ False]) (simp add: opt_step_def opt_move_def)
next
  case free
  then show ?thesis
    using load_free_move [OF assms(2) valid_refs_nth [OF assms(1,3)] free(2,3)]
    by (intro exI [of _ "load_free (card (resident st)) (refs ! i) st"] exI [of _ True])
      (simp add: opt_step_def opt_move_def)
next
  case full
  note ff = full_frames [OF assms(2) full(3)]
  have "page_frame st \<noteq> []" using ff(3) assms(1) by (auto simp: valid_refs_def)
  with opt_search_furthest [of "[]" "page_frame st" "- 1" "- 1" i refs]
  obtain v where v: "v < k" "opt_search refs i (page_frame st) 0 (- 1) (- 1) = int v"
    "\<forall>f \<in> set (page_frame st). next_use f (drop (i + 1) refs) \<le>
       next_use (page_frame st ! v) (drop (i + 1) refs)"
    using ff(3) by auto
  note r = replace_at_move [OF assms(2) valid_refs_nth [OF assms(1,3)] full(2,3) v(1)]
  have "furthest (resident st) (drop (Suc i) refs) (page_frame st ! v)"
    using v(3) r(4) ff(2) by (simp add: furthest_def)
  with full v r show ?thesis by (auto simp: opt_step_def opt_move_def)
qed

interpretation opt: optimal_pager opt_step base_inv valid_refs
proof
  fix k refs i st
  show "valid_refs k refs \<Longrightarrow> base_inv k refs 0 (init_frames k)"
    by (simp add: base_inv_def frames_ok_init)
  show "base_inv k refs i st \<Longrightarrow> frames_ok k st" by (simp add: base_inv_def)
  assume "valid_refs k refs" and "base_inv k refs i st" and "i < length refs"
  with opt_step_move [of k refs st i] obtain st' f where "opt_step refs i st = Inr (st', f)"
    "frames_ok k st'" "opt_move k (resident st) (refs ! i) (drop (Suc i) refs) f (resident st')"
    "page_fault st' = page_fault st + (if f then 1 else 0)" unfolding base_inv_def by blast
  then show "\<exists>st' f. opt_step refs i st = Inr (st', f) \<and>
      base_inv k refs (Suc i) st' \<and> demand_move k (resident st) (refs ! i) f (resident st') \<and>
      page_fault st' = page_fault st + (if f then 1 else 0)"
    by (intro exI [of _ st'] exI [of _ f] conjI) (simp_all add: base_inv_def opt_move_demand)
next
  fix k refs i st st' f
  assume "valid_refs k refs" and "base_inv k refs i st" and "i < length refs"
    and "opt_step refs i st = Inr (st', f)"
  with opt_step_move [of k refs st i]
  show "opt_move k (resident st) (refs ! i) (drop (Suc i) refs) f (resident st')"
    by (auto simp: base_inv_def)
qed

section \<open>FIFO\<close>

text \<open>The textbook queue, oldest page first.\<close>

definition fifo_spec :: "nat \<Rightarrow> int list \<Rightarrow> int \<Rightarrow> int list" where
  "fifo_spec k q p = (if p \<in> set q then q else if length q < k then q @ [p] else tl q @ [p])"

text \<open>The queue the array stands for: the pages from the victim on, then those before it.\<close>

definition fifo_queue :: "pgst \<Rightarrow> int list" where
  "fifo_queue st =
     filter (\<lambda>f. 0 \<le> f) (drop (victim st) (page_frame st) @ take (victim st) (page_frame st))"

text \<open>While a frame is free the hand is at the start.\<close>

definition hand_ok :: "nat \<Rightarrow> pgst \<Rightarrow> bool" where
  "hand_ok k st \<longleftrightarrow>
     frames_ok k st \<and> victim st < k \<and> (card (resident st) < k \<longrightarrow> victim st = 0)"

lemma hand_ok_init: "0 < k \<Longrightarrow> hand_ok k (init_frames k)"
  using frames_ok_init [of k] by (simp add: hand_ok_def) (simp add: init_frames_def)

lemma wrap_victim_id: "victim st \<noteq> length (page_frame st) \<Longrightarrow> wrap_victim st = st"
  by (simp add: wrap_victim_def)

lemma victim_wrap:
  "victim (wrap_victim st) = (if victim st = length (page_frame st) then 0 else victim st)"
  by (simp add: wrap_victim_def)

text \<open>Replacing the element under the hand and moving on is dropping the head of the ring.\<close>

lemma ring_advance:
  assumes "v < length xs"
  shows "(let w = (if Suc v = length xs then 0 else Suc v); ys = xs[v := p]
          in drop w ys @ take w ys) = tl (drop v xs @ take v xs) @ [p]"
proof -
  have d: "drop v xs = xs ! v # drop (Suc v) xs" using assms by (rule Cons_nth_drop_Suc [symmetric])
  have t: "take (Suc v) (xs[v := p]) = take v xs @ [p]"
    using assms by (simp add: take_Suc_conv_app_nth)
  show ?thesis
  proof (cases "Suc v = length xs")
    case True
    then have "xs[v := p] = take v xs @ [p]"
      using t by (metis length_list_update take_all order_refl)
    with True d show ?thesis by simp
  next
    case False
    with d t show ?thesis by simp
  qed
qed

definition advance :: "nat \<Rightarrow> int \<Rightarrow> pgst \<Rightarrow> pgst" where
  "advance j p st = wrap_victim
     (st\<lparr>page_frame := (page_frame st)[j := p], page_fault := page_fault st + 1, victim := Suc j\<rparr>)"

lemma advance_move:
  assumes "frames_ok k st" and "0 \<le> p" and "p \<notin> resident st" and "card (resident st) = k"
    and "j < k"
  shows "hand_ok k (advance j p st)"
    and "resident (advance j p st) = insert p (resident st - {page_frame st ! j})"
    and "demand_move k (resident st) p True (resident (advance j p st))"
    and "page_fault (advance j p st) = page_fault st + 1"
    and "drop (victim (advance j p st)) (page_frame (advance j p st)) @
         take (victim (advance j p st)) (page_frame (advance j p st)) =
         tl (drop j (page_frame st) @ take j (page_frame st)) @ [p]"
proof -
  note r = replace_at_move [OF assms]
  have len: "length (page_frame st) = k" using assms(1) by (rule frames_ok_length)
  let ?st = "st\<lparr>page_frame := (page_frame st)[j := p], page_fault := page_fault st + 1\<rparr>"
  have eq: "advance j p st = wrap_victim (?st\<lparr>victim := Suc j\<rparr>)" by (simp add: advance_def)
  show res: "resident (advance j p st) = insert p (resident st - {page_frame st ! j})"
    unfolding eq by (simp add: r(3))
  show "demand_move k (resident st) p True (resident (advance j p st))"
    unfolding res using assms(3,4) r(4) by (rule evict_move)
  have "card (resident (advance j p st)) = k"
    unfolding res using card_exchange [OF _ r(4) assms(3)] assms(4) frames_ok_finite [OF assms(1)]
    by simp
  moreover have "frames_ok k (advance j p st)" unfolding eq by (simp add: r(2))
  moreover have "victim (advance j p st) < k"
    using assms(5) len by (simp add: advance_def victim_wrap)
  ultimately show "hand_ok k (advance j p st)" by (simp add: hand_ok_def)
  show "page_fault (advance j p st) = page_fault st + 1" by (simp add: advance_def)
  show "drop (victim (advance j p st)) (page_frame (advance j p st)) @
      take (victim (advance j p st)) (page_frame (advance j p st)) =
      tl (drop j (page_frame st) @ take j (page_frame st)) @ [p]"
    using ring_advance [of j "page_frame st" p] assms(5) len
    by (simp add: advance_def victim_wrap Let_def split: if_splits)
qed

lemma hand_ok_hit: "hand_ok k st \<Longrightarrow> wrap_victim st = st"
  by (auto simp: hand_ok_def wrap_victim_def dest: frames_ok_length)

lemma filter_nonneg_id: "\<forall>f \<in> set xs. (0::int) \<le> f \<Longrightarrow> filter (\<lambda>f. 0 \<le> f) xs = xs"
  by (intro filter_True) blast

lemma fifo_queue_full:
  assumes "frames_ok k st" and "card (resident st) = k"
  shows "fifo_queue st = drop (victim st) (page_frame st) @ take (victim st) (page_frame st)"
  using full_frames(4) [OF assms] unfolding fifo_queue_def
  by (intro filter_nonneg_id) (auto dest: in_set_takeD in_set_dropD)

lemma set_fifo_queue: "set (fifo_queue st) = resident st"
proof -
  have "set (drop (victim st) (page_frame st) @ take (victim st) (page_frame st))
      = set (page_frame st)"
    by (metis append_take_drop_id set_append sup_commute)
  then show ?thesis by (auto simp: fifo_queue_def resident_def)
qed

lemma fifo_queue_load:
  assumes "hand_ok k st" and "0 \<le> p" and "p \<notin> resident st" and "card (resident st) < k"
  shows "hand_ok k (load_free (card (resident st)) p st)"
    and "fifo_queue (load_free (card (resident st)) p st) = fifo_queue st @ [p]"
    and "length (fifo_queue st) < k"
proof -
  have ok: "frames_ok k st" and v0: "victim st = 0" and k: "0 < k"
    using assms(1,4) by (auto simp: hand_ok_def)
  note l = load_free_move [OF ok assms(2-4)]
  show "hand_ok k (load_free (card (resident st)) p st)"
    using l(1) v0 k by (simp add: hand_ok_def)
  from ok obtain xs where xs: "page_frame st = xs @ replicate (k - length xs) (- 1)"
    "\<forall>x \<in> set xs. 0 \<le> x" "card (resident st) = length xs" by (rule frames_okE)
  have "k - length xs = Suc (k - Suc (length xs))" using assms(4) xs(3) by simp
  then have "fifo_queue (load_free (card (resident st)) p st) = xs @ [p]" "fifo_queue st = xs"
    using v0 xs assms(2) by (auto simp: fifo_queue_def load_free_def list_update_append)
  then show "fifo_queue (load_free (card (resident st)) p st) = fifo_queue st @ [p]"
    "length (fifo_queue st) < k" using assms(4) xs(3) by auto
qed

lemma fifo_step_refines:
  assumes "valid_refs k refs" and "hand_ok k st" and "i < length refs"
  shows "\<exists>st' f. fifo_step refs i st = Inr (st', f) \<and> hand_ok k st' \<and>
    demand_move k (resident st) (refs ! i) f (resident st') \<and>
    page_fault st' = page_fault st + (if f then 1 else 0) \<and>
    fifo_queue st' = fifo_spec k (fifo_queue st) (refs ! i)"
proof -
  note p = valid_refs_nth [OF assms(1,3)]
  have ok: "frames_ok k st" and v: "victim st < k" using assms(2) by (auto simp: hand_ok_def)
  from ok p show ?thesis
  proof (cases rule: frame_scan_cases)
    case (hit j)
    then show ?thesis
      using assms(2) set_fifo_queue hand_ok_hit [OF assms(2)]
      by (intro exI [of _ st] exI [of _ False]) (simp add: fifo_step_def fifo_spec_def hit_move)
  next
    case free
    let ?st = "load_free (card (resident st)) (refs ! i) st"
    note l = fifo_queue_load [OF assms(2) p free(2,3)]
    show ?thesis
      using free l load_free_move(2) [OF ok p free(2,3)] hand_ok_hit [OF l(1)]
      by (intro exI [of _ ?st] exI [of _ True])
        (simp add: fifo_step_def fifo_spec_def set_fifo_queue load_move)
  next
    case full
    let ?st = "advance (victim st) (refs ! i) st"
    note a = advance_move [OF ok p full(2,3) v]
    have "fifo_step refs i st = Inr (?st, True)"
      using full replace_at_move(1) [OF ok p full(2,3) v] by (simp add: fifo_step_def advance_def)
    moreover have "card (resident ?st) = k"
      using a(2) card_exchange [OF _ replace_at_move(4) [OF ok p full(2,3) v] full(2)] full(3)
        frames_ok_finite [OF ok] by simp
    then have "fifo_queue ?st = fifo_spec k (fifo_queue st) (refs ! i)"
      using a(1,5) full fifo_queue_full [OF ok full(3)] fifo_queue_full [of k ?st]
        set_fifo_queue [of st] frames_ok_length [OF ok] v by (simp add: hand_ok_def fifo_spec_def)
    ultimately show ?thesis using a by (intro exI [of _ ?st] exI [of _ True]) simp
  qed
qed


definition fifo_inv :: "nat \<Rightarrow> int list \<Rightarrow> nat \<Rightarrow> pgst \<Rightarrow> bool" where
  "fifo_inv k refs i st \<longleftrightarrow> hand_ok k st \<and> fifo_queue st = foldl (fifo_spec k) [] (take i refs)"

interpretation fifo: predicted_pager fifo_step fifo_inv valid_refs
  "\<lambda>k refs i. set (foldl (fifo_spec k) [] (take i refs))"
proof
  fix k refs i st
  show "valid_refs k refs \<Longrightarrow> fifo_inv k refs 0 (init_frames k)"
    by (simp add: fifo_inv_def valid_refs_def hand_ok_init)
      (simp add: fifo_queue_def init_frames_def)
  show "fifo_inv k refs i st \<Longrightarrow> frames_ok k st" by (simp add: fifo_inv_def hand_ok_def)
  show "fifo_inv k refs i st \<Longrightarrow> resident st = set (foldl (fifo_spec k) [] (take i refs))"
    using set_fifo_queue [of st] by (simp add: fifo_inv_def)
  assume a: "valid_refs k refs" "fifo_inv k refs i st" "i < length refs"
  with fifo_step_refines [of k refs st i] obtain st' f where
    s: "fifo_step refs i st = Inr (st', f)" "hand_ok k st'"
    "demand_move k (resident st) (refs ! i) f (resident st')"
    "page_fault st' = page_fault st + (if f then 1 else 0)"
    "fifo_queue st' = fifo_spec k (fifo_queue st) (refs ! i)" unfolding fifo_inv_def by blast
  then have "fifo_inv k refs (Suc i) st'"
    using a by (simp add: fifo_inv_def take_Suc_conv_app_nth)
  with s show "\<exists>st' f. fifo_step refs i st = Inr (st', f) \<and> fifo_inv k refs (Suc i) st' \<and>
      demand_move k (resident st) (refs ! i) f (resident st') \<and>
      page_fault st' = page_fault st + (if f then 1 else 0)"
    by (intro exI [of _ st'] exI [of _ f]) simp
qed

section \<open>LRU\<close>

lemma lru_find_Some:
  "p \<in> set (take i refs) \<Longrightarrow> i \<le> length refs \<Longrightarrow> \<exists>k < i. lru_find refs p i = Some k"
proof (induction i)
  case 0
  then show ?case by simp
next
  case (Suc i)
  then show ?case
    by (cases "p = refs ! i") (auto simp: take_Suc_conv_app_nth less_Suc_eq)
qed

text \<open>The recency list is ordered by the last reference.\<close>

definition last_use :: "int list \<Rightarrow> nat \<Rightarrow> int \<Rightarrow> nat" where
  "last_use refs i p = (case lru_find refs p i of Some k \<Rightarrow> k | None \<Rightarrow> 0)"

lemma mru_sorted:
  "i \<le> length refs \<Longrightarrow>
    sorted_wrt (\<lambda>p q. last_use refs i q < last_use refs i p) (mru (take i refs))"
proof (induction i)
  case 0
  then show ?case by simp
next
  case (Suc i)
  let ?m = "mru (take i refs)" and ?p = "refs ! i"
  have m: "mru (take (Suc i) refs) = ?p # removeAll ?p ?m"
    using Suc.prems by (simp add: take_Suc_conv_app_nth mru_snoc)
  have same: "last_use refs (Suc i) q = last_use refs i q" if "q \<noteq> ?p" for q
    using that by (simp add: last_use_def)
  have "last_use refs i q < i" if "q \<in> set ?m" for q
    using lru_find_Some [of q i refs] that Suc.prems by (auto simp: last_use_def)
  moreover have "sorted_wrt (\<lambda>p q. last_use refs i q < last_use refs i p) (removeAll ?p ?m)"
    unfolding removeAll_filter_not_eq using Suc by (intro sorted_wrt_filter) simp
  then have "sorted_wrt (\<lambda>p q. last_use refs (Suc i) q < last_use refs (Suc i) p) (removeAll ?p ?m)"
    by (rule sorted_wrt_mono_rel [rotated]) (auto simp: same)
  moreover have "last_use refs (Suc i) ?p = i" by (simp add: last_use_def)
  ultimately show ?case by (simp add: m same)
qed

text \<open>The search returns a frame whose page was used least recently.\<close>

lemma lru_search_least:
  fixes refs :: "int list" and i :: nat
  defines "lu \<equiv> last_use refs i"
  assumes "\<forall>f \<in> set fs. f \<in> set (take i refs)" and "i \<le> length refs" and "i \<le> 99"
    and "pre @ fs \<noteq> []"
    and "(pre = [] \<and> loc = 99) \<or> (\<exists>v < length pre. vic = int v \<and>
           loc = int (lu (pre ! v)) \<and> (\<forall>f \<in> set pre. lu (pre ! v) \<le> lu f))"
  shows "\<exists>v < length (pre @ fs). lru_search refs i fs (length pre) loc vic = int v \<and>
           (\<forall>f \<in> set (pre @ fs). lu ((pre @ fs) ! v) \<le> lu f)"
  using assms(2,5,6)
proof (induction fs arbitrary: pre loc vic)
  case Nil
  then show ?case by auto
next
  case (Cons f fs)
  let ?pre = "pre @ [f]"
  from Cons.prems(1) lru_find_Some [of f i refs] assms(3) obtain k where
    k: "k < i" "lru_find refs f i = Some k" by auto
  then have lf: "lu f = k" by (simp add: lu_def last_use_def)
  show ?case
  proof (cases "int k < loc")
    case True
    have "\<forall>g \<in> set pre. lu f \<le> lu g" using Cons.prems(3) True lf by force
    with Cons.IH [of ?pre "int k" "int (length pre)"] lf Cons.prems(1)
    have "\<exists>v < length (?pre @ fs). lru_search refs i fs (length ?pre) (int k) (int (length pre)) = int v \<and>
        (\<forall>f \<in> set (?pre @ fs). lu ((?pre @ fs) ! v) \<le> lu f)" by (auto simp: nth_append)
    with k True show ?thesis by simp
  next
    case False
    with k(1) assms(4) Cons.prems(3) obtain v where v: "v < length pre" "vic = int v"
      "loc = int (lu (pre ! v))" "\<forall>f \<in> set pre. lu (pre ! v) \<le> lu f" by auto
    then have "\<forall>g \<in> set ?pre. lu (?pre ! v) \<le> lu g" using False lf by (auto simp: nth_append)
    with Cons.IH [of ?pre loc vic] v Cons.prems(1)
    have "\<exists>v < length (?pre @ fs). lru_search refs i fs (length ?pre) loc vic = int v \<and>
        (\<forall>f \<in> set (?pre @ fs). lu ((?pre @ fs) ! v) \<le> lu f)" by (auto simp: nth_append)
    with k False show ?thesis by simp
  qed
qed

text \<open>How the \<open>k\<close> first pages of the recency list change.\<close>

lemma take_mru_hit:
  assumes "distinct m" and "p \<in> set (take k m)"
  shows "set (take k (p # removeAll p m)) = set (take k m)"
proof -
  obtain a b where m: "take k m = a @ p # b" using split_list [OF assms(2)] by blast
  let ?r = "drop k m"
  have M: "m = a @ p # b @ ?r" using m append_take_drop_id [of k m] by simp
  have d: "p \<notin> set a" "p \<notin> set b" "p \<notin> set ?r" using assms(1) M by (metis Un_iff distinct.simps(2) distinct_append set_append not_distinct_conv_prefix)+
  have lk: "length a + Suc (length b) = min (length m) k" using m by (metis add_Suc_right length_Cons length_append length_take)
  then have fin: "length a + Suc (length b) = k \<or> ?r = []" by auto
  have "removeAll p m = a @ b @ ?r" by (subst M) (use d in simp)
  moreover have "take k (p # a @ b @ ?r) = p # a @ b"
    using fin lk by (auto simp: take_Cons split: nat.splits)
  ultimately show ?thesis using m by auto
qed

lemma take_removeAll: "p \<notin> set (take (Suc n) m) \<Longrightarrow> take n (removeAll p m) = take n m"
proof (induction m arbitrary: n)
  case (Cons x m)
  then show ?case by (cases n) auto
qed simp

lemma take_mru_miss:
  "p \<notin> set (take k m) \<Longrightarrow> 0 < k \<Longrightarrow> take k (p # removeAll p m) = p # take (k - 1) m"
  by (cases k) (auto dest: take_removeAll)

definition lru_ok :: "nat \<Rightarrow> int list \<Rightarrow> bool" where
  "lru_ok k refs \<longleftrightarrow> valid_refs k refs \<and> length refs \<le> 31"

definition lru_inv :: "nat \<Rightarrow> int list \<Rightarrow> nat \<Rightarrow> pgst \<Rightarrow> bool" where
  "lru_inv k refs i st \<longleftrightarrow> frames_ok k st \<and> resident st = set (take k (mru (take i refs)))"

text \<open>The page evicted from a full memory is the last of the \<open>k\<close> most recent ones.\<close>

lemma lru_victim:
  assumes "lru_ok k refs" and "lru_inv k refs i st" and "i < length refs"
    and "card (resident st) = k"
  shows "\<exists>v < k. lru_search refs i (page_frame st) 0 99 (- 1) = int v \<and>
    page_frame st ! v = last (take k (mru (take i refs)))"
proof -
  let ?m = "take k (mru (take i refs))"
  have ok: "frames_ok k st" and res: "resident st = set ?m" using assms(2) by (auto simp: lru_inv_def)
  note ff = full_frames [OF ok assms(4)]
  have k: "0 < k" "i \<le> 99" using assms(1,3) by (auto simp: lru_ok_def valid_refs_def)
  have lm: "length ?m = k" using distinct_card [of ?m] res assms(4) by simp
  have fs: "\<forall>f \<in> set (page_frame st). f \<in> set (take i refs)"
    using ff(2) res by (metis in_set_takeD set_mru)
  have "page_frame st \<noteq> []" using ff(3) k by auto
  with lru_search_least [OF fs _ k(2), of "[]" 99 "- 1"] assms(3) obtain v where
    v: "v < k" "lru_search refs i (page_frame st) 0 99 (- 1) = int v"
    "\<forall>f \<in> set (page_frame st). last_use refs i (page_frame st ! v) \<le> last_use refs i f"
    using ff(3) by auto
  have ne: "?m \<noteq> []" using lm k by auto
  have "sorted_wrt (\<lambda>p q. last_use refs i q < last_use refs i p) ?m"
    using mru_sorted [of i refs] assms(3) by (simp add: sorted_wrt_take)
  then have sw: "sorted_wrt (\<lambda>p q. last_use refs i q < last_use refs i p) (butlast ?m @ [last ?m])"
    using ne by simp
  have in_m: "page_frame st ! v \<in> set ?m" using v(1) ff(2,3) res by (metis nth_mem)
  have last_m: "last ?m \<in> set (page_frame st)" using ne res ff(2) by (metis last_in_set)
  have "page_frame st ! v = last ?m"
  proof (rule ccontr)
    assume ne_last: "page_frame st ! v \<noteq> last ?m"
    have "page_frame st ! v \<in> set (butlast ?m @ [last ?m])" using in_m ne by simp
    with ne_last have "page_frame st ! v \<in> set (butlast ?m)" by simp
    with sw have "last_use refs i (last ?m) < last_use refs i (page_frame st ! v)"
      by (simp add: sorted_wrt_append)
    with v(3) last_m show False by force
  qed
  with v show ?thesis by blast
qed

lemma lru_step_move:
  assumes "lru_ok k refs" and "lru_inv k refs i st" and "i < length refs"
  shows "\<exists>st' f. lru_step refs i st = Inr (st', f) \<and> lru_inv k refs (Suc i) st' \<and>
    demand_move k (resident st) (refs ! i) f (resident st') \<and>
    page_fault st' = page_fault st + (if f then 1 else 0)"
proof -
  let ?p = "refs ! i" and ?mm = "mru (take i refs)"
  let ?m = "take k ?mm"
  have ok: "frames_ok k st" and res: "resident st = set ?m" using assms(2) by (auto simp: lru_inv_def)
  have p: "0 \<le> ?p" and k: "0 < k" using assms(1,3) by (auto simp: lru_ok_def valid_refs_def)
  have m': "mru (take (Suc i) refs) = ?p # removeAll ?p ?mm"
    using assms(3) by (simp add: take_Suc_conv_app_nth mru_snoc)
  from ok p show ?thesis
  proof (cases rule: frame_scan_cases)
    case (hit j)
    with res take_mru_hit [of ?mm ?p k] have "lru_inv k refs (Suc i) st"
      using ok m' by (simp add: lru_inv_def)
    with hit show ?thesis
      by (intro exI [of _ st] exI [of _ False]) (simp add: lru_step_def hit_move)
  next
    case free
    let ?st = "load_free (card (resident st)) ?p st"
    note l = load_free_move [OF ok p free(2,3)]
    have "length ?mm < k" using free(3) res distinct_card [of ?m] by (simp add: min_def split: if_splits)
    then have "resident ?st = set (take k (mru (take (Suc i) refs)))"
      using l(2) res m' free(2) take_mru_miss [of ?p k ?mm] k by simp
    with l free show ?thesis
      by (intro exI [of _ ?st] exI [of _ True]) (simp add: lru_step_def lru_inv_def load_move)
  next
    case full
    from lru_victim [OF assms full(3)] obtain v where v: "v < k"
      "lru_search refs i (page_frame st) 0 99 (- 1) = int v" "page_frame st ! v = last ?m" by blast
    note r = replace_at_move [OF ok p full(2,3) v(1)]
    let ?st = "st\<lparr>page_frame := (page_frame st)[v := ?p], page_fault := page_fault st + 1\<rparr>"
    have lm: "length ?m = k" using distinct_card [of ?m] res full(3) by simp
    then have m: "?m = take (k - 1) ?mm @ [last ?m]"
      using k by (metis Suc_pred' append_butlast_last_id butlast_take diff_Suc_1 length_greater_0_conv
          length_take min.absorb_iff2 min.cobounded1)
    have "distinct ?m" by simp
    then have "set ?m - {last ?m} = set (take (k - 1) ?mm)" by (subst m, subst (asm) m) auto
    then have "resident ?st = set (take k (mru (take (Suc i) refs)))"
      using r(3) v(3) res m' full(2) take_mru_miss [of ?p k ?mm] k by simp
    with full v r show ?thesis
      by (intro exI [of _ ?st] exI [of _ True]) (simp add: lru_step_def lru_inv_def evict_move)
  qed
qed

interpretation lru: predicted_pager lru_step lru_inv lru_ok
  "\<lambda>k refs i. set (take k (mru (take i refs)))"
proof
  fix k refs i st
  show "lru_ok k refs \<Longrightarrow> lru_inv k refs 0 (init_frames k)"
    by (simp add: lru_inv_def frames_ok_init)
  show "lru_inv k refs i st \<Longrightarrow> frames_ok k st" by (simp add: lru_inv_def)
  show "lru_inv k refs i st \<Longrightarrow> resident st = set (take k (mru (take i refs)))"
    by (simp add: lru_inv_def)
  show "lru_ok k refs \<Longrightarrow> lru_inv k refs i st \<Longrightarrow> i < length refs \<Longrightarrow>
      \<exists>st' f. lru_step refs i st = Inr (st', f) \<and> lru_inv k refs (Suc i) st' \<and>
        demand_move k (resident st) (refs ! i) f (resident st') \<and>
        page_fault st' = page_fault st + (if f then 1 else 0)"
    by (rule lru_step_move)
qed

end
