(* ===== verification/Paging_Clock.thy ===== *)
theory Paging_Clock
  imports Paging_Algorithms
begin

text \<open>
  Second-Chance. The specification is the textbook queue: the pages in the order the hand meets
  them, each with its reference bit; a page met with its bit set goes to the back with the bit
  cleared, the first page met with a clear bit is evicted. The simulator keeps the pages in
  place and moves a hand in three passes; \<open>sc_step_refines\<close> shows that its array, read from the
  hand on, is that queue after every reference.
\<close>

section \<open>The textbook queue\<close>

function sc_second :: "(int \<times> int) list \<Rightarrow> int \<Rightarrow> (int \<times> int) list" where
  "sc_second [] p = [(p, 0)]"
| "sc_second ((f, b) # q) p = (if b = 1 then sc_second (q @ [(f, 0)]) p else q @ [(p, 0)])"
  by pat_completeness auto
termination
  by (relation "measure (\<lambda>(q, p). length (filter (\<lambda>x. snd x = 1) q))") auto

definition sc_spec :: "nat \<Rightarrow> (int \<times> int) list \<Rightarrow> int \<Rightarrow> (int \<times> int) list" where
  "sc_spec k q p =
     (if p \<in> fst ` set q then map (\<lambda>(f, b). if f = p then (f, 1) else (f, b)) q
      else if length q < k then q @ [(p, 0)]
      else sc_second q p)"

definition clear_bit :: "int \<times> int \<Rightarrow> int \<times> int" where
  "clear_bit x = (fst x, 0)"

lemma sc_second_found:
  "\<forall>x \<in> set os. snd x = 1 \<Longrightarrow> snd y \<noteq> 1 \<Longrightarrow>
    sc_second (os @ y # r) p = r @ map clear_bit os @ [(p, 0)]"
proof (induction os arbitrary: r)
  case Nil
  then show ?case by (cases y) simp
next
  case (Cons x os)
  then show ?case by (cases x) (simp add: clear_bit_def)
qed

lemma sc_second_all:
  assumes "\<forall>x \<in> set q. snd x = 1" and "q \<noteq> []"
  shows "sc_second q p = map clear_bit (tl q) @ [(p, 0)]"
proof -
  from assms(2) obtain f b os where q: "q = (f, b) # os" by (metis list.exhaust surj_pair)
  with assms(1) sc_second_found [of os "(f, 0)" "[]" p] show ?thesis by simp
qed

section \<open>The passes over the reference bits\<close>

definition bits_ok :: "int list \<Rightarrow> bool" where
  "bits_ok bits \<longleftrightarrow> (\<forall>b \<in> set bits. b = 0 \<or> b = 1)"

text \<open>The number of bits set in a row, and the bits after clearing them.\<close>

definition ones :: "nat \<Rightarrow> nat \<Rightarrow> int list \<Rightarrow> nat" where
  "ones j hi bits = length (takeWhile (\<lambda>b. b = 1) (drop j (take hi bits)))"

definition cleared :: "nat \<Rightarrow> nat \<Rightarrow> int list \<Rightarrow> int list" where
  "cleared j m bits = take j bits @ replicate m 0 @ drop (j + m) bits"

lemma cleared_0 [simp]: "cleared j 0 bits = bits"
  by (simp add: cleared_def)

lemma cleared_Suc:
  assumes "j + m < length bits"
  shows "cleared (Suc j) m (bits[j := 0]) = cleared j (Suc m) bits"
proof -
  have "take (Suc j) (bits[j := 0]) = take j bits @ [0]"
    using assms by (simp add: take_Suc_conv_app_nth)
  then show ?thesis by (simp add: cleared_def)
qed

lemma ones_Suc:
  "j < hi \<Longrightarrow> hi \<le> length bits \<Longrightarrow>
    ones j hi bits = (if bits ! j = 1 then Suc (ones (Suc j) hi bits) else 0)"
proof -
  assume a: "j < hi" "hi \<le> length bits"
  then have "drop j (take hi bits) = bits ! j # drop (Suc j) (take hi bits)"
    by (metis Cons_nth_drop_Suc length_take min.absorb2 nth_take)
  then show ?thesis by (simp add: ones_def)
qed

lemma ones_update: "j < l \<Longrightarrow> ones l hi (bits[j := v]) = ones l hi bits"
  by (simp add: ones_def drop_take)

lemma ones_le: "j \<le> hi \<Longrightarrow> hi \<le> length bits \<Longrightarrow> j + ones j hi bits \<le> hi"
  using length_takeWhile_le [of "\<lambda>b. b = 1" "drop j (take hi bits)"] by (simp add: ones_def)

lemma bits_ok_update: "bits_ok bits \<Longrightarrow> bits_ok (bits[j := 0])"
  using set_update_subset_insert [of bits j 0] by (auto simp: bits_ok_def)

lemma sc_pass_eq:
  "bits_ok bits \<Longrightarrow> j \<le> hi \<Longrightarrow> hi \<le> length bits \<Longrightarrow>
    sc_pass j hi bits =
      Inr (cleared j (ones j hi bits) bits,
           if j + ones j hi bits < hi then Some (j + ones j hi bits) else None)"
proof (induction j hi bits rule: sc_pass.induct)
  case (1 j hi bits)
  show ?case
  proof (cases "j < hi")
    case False
    with "1.prems" show ?thesis by (subst sc_pass.simps) (simp add: ones_def)
  next
    case True
    with "1.prems" have g: "aget bits (int j) = Inr (bits ! j)"
      and s: "aset bits (int j) 0 = Inr (bits[j := 0])" by (auto simp: arr_simps)
    from True "1.prems" have b: "bits ! j = 0 \<or> bits ! j = 1"
      by (auto simp: bits_ok_def)
    show ?thesis
    proof (cases "bits ! j = 1")
      case False
      with b True g "1.prems" show ?thesis by (subst sc_pass.simps) (simp add: ones_Suc)
    next
      case b1: True
      note IH = "1.IH"(1) [OF True g _ b1 s]
      have "sc_pass (Suc j) hi (bits[j := 0]) =
          Inr (cleared (Suc j) (ones (Suc j) hi bits) (bits[j := 0]),
               if Suc j + ones (Suc j) hi bits < hi then Some (Suc j + ones (Suc j) hi bits) else None)"
        using IH b1 True "1.prems" by (simp add: bits_ok_update ones_update)
      moreover have "j + ones (Suc j) hi bits < length bits"
        using ones_le [of "Suc j" hi bits] True "1.prems" by simp
      ultimately show ?thesis
        using True b1 g s "1.prems" by (subst sc_pass.simps) (simp add: ones_Suc [of j hi bits] cleared_Suc)
    qed
  qed
qed


section \<open>The ring\<close>

definition rot :: "nat \<Rightarrow> 'a list \<Rightarrow> 'a list" where
  "rot v xs = drop v xs @ take v xs"

definition sc_queue :: "pgst \<Rightarrow> (int \<times> int) list" where
  "sc_queue st = filter (\<lambda>x. 0 \<le> fst x) (rot (victim st) (zip (page_frame st) (reference_bit st)))"

definition sc_ok :: "nat \<Rightarrow> pgst \<Rightarrow> bool" where
  "sc_ok k st \<longleftrightarrow> hand_ok k st \<and> length (reference_bit st) = k \<and> bits_ok (reference_bit st)"

lemma map_clear_zip: "length xs = length bs \<Longrightarrow> map clear_bit (zip xs bs) = zip xs (replicate (length xs) 0)"
  by (induction xs bs rule: list_induct2) (auto simp: clear_bit_def)

lemma length_cleared: "j + m \<le> length bits \<Longrightarrow> length (cleared j m bits) = length bits"
  by (simp add: cleared_def)

lemma bits_ok_cleared: "bits_ok bits \<Longrightarrow> bits_ok (cleared j m bits)"
  by (auto simp: bits_ok_def cleared_def dest: in_set_takeD in_set_dropD)

lemma nth_cleared:
  "j + m \<le> length bits \<Longrightarrow> l < length bits \<Longrightarrow>
    cleared j m bits ! l = (if j \<le> l \<and> l < j + m then 0 else bits ! l)"
  by (auto simp: cleared_def nth_append min_def)

lemma ones_stop: "j + ones j hi bits < hi \<Longrightarrow> hi \<le> length bits \<Longrightarrow> bits ! (j + ones j hi bits) \<noteq> 1"
  using nth_length_takeWhile [of "\<lambda>b. b = 1" "drop j (take hi bits)"] by (simp add: ones_def)

lemma ones_set: "l < ones j hi bits \<Longrightarrow> j \<le> hi \<Longrightarrow> hi \<le> length bits \<Longrightarrow> bits ! (j + l) = 1"
proof -
  assume a: "l < ones j hi bits" "j \<le> hi" "hi \<le> length bits"
  then have "drop j (take hi bits) ! l = 1"
    using nth_mem [of l "takeWhile (\<lambda>b. b = 1) (drop j (take hi bits))"]
    by (auto simp: ones_def takeWhile_nth dest: set_takeWhileD)
  moreover have "j + l < hi" using a ones_le [OF a(2,3)] by simp
  ultimately show ?thesis using a by simp
qed

text \<open>Reading the ring after a replacement at \<open>j\<close>, whatever bits were cleared on the way.\<close>

lemma zip_update_fst: "length xs = length bs \<Longrightarrow> j < length xs \<Longrightarrow> bs ! j = b \<Longrightarrow>
    zip (xs[j := p]) bs = (zip xs bs)[j := (p, b)]"
  by (auto simp: update_zip)

lemma sc_ring_advance:
  assumes "j < length (page_frame st)" and "length bits = length (page_frame st)" and "bits ! j = 0"
  shows "rot (victim (advance j p st)) (zip (page_frame (advance j p st)) bits) =
    tl (rot j (zip (page_frame st) bits)) @ [(p, 0)]"
proof -
  have "zip ((page_frame st)[j := p]) bits = (zip (page_frame st) bits)[j := (p, 0)]"
    using assms by (intro zip_update_fst) auto
  with ring_advance [of j "zip (page_frame st) bits" "(p, 0)"] assms show ?thesis
    by (simp add: advance_def victim_wrap rot_def Let_def split: if_splits)
qed


text \<open>
  The three outcomes of the eviction, on lists cut at the hand and at the frame found: the
  frame is at or after the hand, it is before the hand, or every bit was set.
\<close>

lemma clear_zip_ones: "length xs = m \<Longrightarrow> map clear_bit (zip xs (replicate m 1)) = zip xs (replicate m 0)"
  by (simp add: map_clear_zip)

lemma snd_zip_ones: "\<forall>x \<in> set (zip xs (replicate m 1)). snd x = (1::int)"
  by (auto dest: set_zip_rightD)

lemma sc_found_after:
  assumes "length a = length a'" and "length os = m" and "length r = length r'" and "y \<noteq> 1"
  shows "tl (rot (length a + m) (zip (a @ os @ x # r) (a' @ replicate m 0 @ y # r'))) @ [(p, 0)] =
    sc_second (rot (length a) (zip (a @ os @ x # r) (a' @ replicate m 1 @ y # r'))) p"
proof -
  have "sc_second (zip os (replicate m 1) @ (x, y) # zip r r' @ zip a a') p =
      (zip r r' @ zip a a') @ map clear_bit (zip os (replicate m 1)) @ [(p, 0)]"
    using snd_zip_ones assms(4) by (intro sc_second_found) auto
  with assms show ?thesis by (simp add: rot_def clear_zip_ones)
qed

lemma sc_found_before:
  assumes "length os = m" and "length r = length r'" and "length b = n" and "y \<noteq> 1"
  shows "tl (rot m (zip (os @ x # r @ b) (replicate m 0 @ y # r' @ replicate n 0))) @ [(p, 0)] =
    sc_second (rot (Suc (m + length r)) (zip (os @ x # r @ b) (replicate m 1 @ y # r' @ replicate n 1))) p"
proof -
  have "sc_second ((zip b (replicate n 1) @ zip os (replicate m 1)) @ (x, y) # zip r r') p =
      zip r r' @ map clear_bit (zip b (replicate n 1) @ zip os (replicate m 1)) @ [(p, 0)]"
    using snd_zip_ones assms(4) by (intro sc_second_found) auto
  with assms show ?thesis by (simp add: rot_def clear_zip_ones)
qed

lemma sc_found_none:
  assumes "length xs = n" and "v < n"
  shows "tl (rot v (zip xs (replicate n 0))) @ [(p, 0)] = sc_second (rot v (zip xs (replicate n 1))) p"
proof -
  have "\<forall>x \<in> set (rot v (zip xs (replicate n 1))). snd x = (1::int)"
    using snd_zip_ones by (auto simp: rot_def dest: in_set_takeD in_set_dropD)
  moreover have "rot v (zip xs (replicate n (1::int))) \<noteq> []" using assms by (auto simp: rot_def)
  moreover have "map clear_bit (rot v (zip xs (replicate n 1))) = rot v (zip xs (replicate n 0))"
    using assms by (simp add: rot_def flip: take_map drop_map) (simp add: clear_zip_ones take_map drop_map)
  ultimately show ?thesis by (simp add: sc_second_all map_tl)
qed

lemma take_ones: "j \<le> hi \<Longrightarrow> hi \<le> length bits \<Longrightarrow> m = ones j hi bits \<Longrightarrow>
    take m (drop j bits) = replicate m 1"
  using ones_set [of _ j hi bits] ones_le [of j hi bits]
  by (intro nth_equalityI) auto

lemma split_at: "v + m < length xs \<Longrightarrow>
    xs = take v xs @ take m (drop v xs) @ xs ! (v + m) # drop (Suc (v + m)) xs"
  by (metis Cons_nth_drop_Suc add.commute append_take_drop_id drop_drop)

text \<open>
  Where the eviction puts the page, and the bits it leaves: the queue read from the new hand is
  the textbook eviction from the queue read from the old one.
\<close>

definition ring_ok :: "nat \<Rightarrow> pgst \<Rightarrow> bool" where
  "ring_ok k st \<longleftrightarrow> length (page_frame st) = k \<and> length (reference_bit st) = k \<and>
     bits_ok (reference_bit st) \<and> victim st < k"

definition sc_outcome :: "nat \<Rightarrow> int \<Rightarrow> pgst \<Rightarrow> nat \<Rightarrow> int list \<Rightarrow> bool" where
  "sc_outcome k p st j bits \<longleftrightarrow> j < k \<and> length bits = k \<and> bits_ok bits \<and> bits ! j = 0 \<and>
     sc_evict p st = bindR (replace_at (int j) p (st\<lparr>reference_bit := bits\<rparr>))
       (\<lambda>st'. Inr (st'\<lparr>victim := Suc j\<rparr>)) \<and>
     tl (rot j (zip (page_frame st) bits)) @ [(p, 0)] =
       sc_second (rot (victim st) (zip (page_frame st) (reference_bit st))) p"

lemma first_pass:
  fixes st :: pgst
  defines "v \<equiv> victim st" and "b \<equiv> reference_bit st"
  assumes "ring_ok k st"
  shows "sc_pass v (length (page_frame st)) b =
      Inr (cleared v (ones v k b) b, if v + ones v k b < k then Some (v + ones v k b) else None)"
    and "v + ones v k b \<le> k" and "length (cleared v (ones v k b) b) = k"
    and "bits_ok (cleared v (ones v k b) b)"
  using assms ones_le [of v k b]
  by (simp_all add: ring_ok_def sc_pass_eq length_cleared bits_ok_cleared)

lemma sc_evict_after:
  assumes ok: "ring_ok k st" and found: "victim st + ones (victim st) k (reference_bit st) < k"
  shows "\<exists>j bits. sc_outcome k p st j bits"
proof -
  let ?v = "victim st" and ?b = "reference_bit st" and ?f = "page_frame st"
  let ?m = "ones ?v k ?b"
  let ?j = "?v + ?m" and ?b1 = "cleared ?v ?m ?b"
  note p1 = first_pass [OF ok]
  have len: "length ?f = k" "length ?b = k" "bits_ok ?b" "?v < k" using ok by (auto simp: ring_ok_def)
  have y: "?b ! ?j \<noteq> 1" using ones_stop [of ?v k ?b] found len by simp
  then have y0: "?b ! ?j = 0" using found len by (auto simp: bits_ok_def)
  have bs: "?b = take ?v ?b @ replicate ?m 1 @ ?b ! ?j # drop (Suc ?j) ?b"
    using split_at [of ?v ?m ?b] take_ones [of ?v k ?b ?m] found len by simp
  have b1s: "?b1 = take ?v ?b @ replicate ?m 0 @ ?b ! ?j # drop (Suc ?j) ?b"
    using found len by (simp add: cleared_def Cons_nth_drop_Suc)
  have fs: "?f = take ?v ?f @ take ?m (drop ?v ?f) @ ?f ! ?j # drop (Suc ?j) ?f"
    using split_at [of ?v ?m ?f] found len by simp
  have "tl (rot ?j (zip ?f ?b1)) @ [(p, 0)] = sc_second (rot ?v (zip ?f ?b)) p"
    using sc_found_after [of "take ?v ?f" "take ?v ?b" "take ?m (drop ?v ?f)" ?m
        "drop (Suc ?j) ?f" "drop (Suc ?j) ?b" "?b ! ?j" "?f ! ?j" p] found len y
    by (simp flip: fs bs b1s)
  moreover have "?b1 ! ?j = 0" using found y0 len by (simp add: nth_cleared)
  ultimately have "sc_outcome k p st ?j ?b1"
    using found p1 len by (simp add: sc_outcome_def sc_evict_def)
  then show ?thesis by blast
qed

text \<open>The second pass starts from bits that are clear from the hand on.\<close>

lemma second_pass:
  fixes st :: pgst and k :: nat
  defines "v \<equiv> victim st" and "b \<equiv> reference_bit st"
  defines "n \<equiv> ones 0 v b" and "b2 \<equiv> cleared 0 (ones 0 v b) (take v b @ replicate (k - v) 0)"
  assumes ok: "ring_ok k st" and nf: "\<not> v + ones v k b < k"
  shows "sc_evict p st =
      (if n < v then bindR (replace_at (int n) p (st\<lparr>reference_bit := b2\<rparr>)) (\<lambda>st'. Inr (st'\<lparr>victim := Suc n\<rparr>))
       else bindR (replace_at (int v) p (st\<lparr>reference_bit := b2\<rparr>)) (\<lambda>st'. Inr (st'\<lparr>victim := Suc v\<rparr>)))"
    and "n \<le> v" and "length b2 = k" and "bits_ok b2"
    and "drop v b = replicate (k - v) 1" and "take n b = replicate n 1"
proof -
  note p1 = first_pass [OF ok, folded v_def b_def]
  have len: "length (page_frame st) = k" "length b = k" "bits_ok b" "v < k"
    using ok by (auto simp: ring_ok_def v_def b_def)
  from nf p1(2) have m: "ones v k b = k - v" by simp
  have b1: "cleared v (ones v k b) b = take v b @ replicate (k - v) 0"
    using m len by (simp add: cleared_def)
  have n: "ones 0 v (take v b @ replicate (k - v) 0) = n"
    using len by (simp add: ones_def n_def)
  show nle: "n \<le> v" using ones_le [of 0 v b] len by (simp add: n_def)
  have ok1: "bits_ok (take v b @ replicate (k - v) 0)" using p1(4) b1 by simp
  with nle len n show "length b2 = k" and "bits_ok b2"
    by (simp_all add: b2_def length_cleared bits_ok_cleared flip: n_def)
  show "drop v b = replicate (k - v) 1" using take_ones [of v k b "k - v"] m len by simp
  show "take n b = replicate n 1" using take_ones [of 0 v b n] len by (simp add: n_def)
  have "sc_pass 0 v (take v b @ replicate (k - v) 0) = Inr (b2, if n < v then Some n else None)"
    using sc_pass_eq [OF ok1, of 0 v] len n by (simp add: b2_def flip: n_def)
  moreover have "victim x = v" if "replace_at (int v) p (st\<lparr>reference_bit := b2\<rparr>) = Inr x" for x
    using that by (auto simp: replace_at_def v_def bindR_Inr_iff)
  ultimately show "sc_evict p st =
      (if n < v then bindR (replace_at (int n) p (st\<lparr>reference_bit := b2\<rparr>)) (\<lambda>st'. Inr (st'\<lparr>victim := Suc n\<rparr>))
       else bindR (replace_at (int v) p (st\<lparr>reference_bit := b2\<rparr>)) (\<lambda>st'. Inr (st'\<lparr>victim := Suc v\<rparr>)))"
    using p1(1) nf b1 by (simp add: sc_evict_def flip: v_def b_def cong: bindR_cong)
qed

lemma sc_evict_before:
  assumes ok: "ring_ok k st" and nf: "\<not> victim st + ones (victim st) k (reference_bit st) < k"
    and found: "ones 0 (victim st) (reference_bit st) < victim st"
  shows "\<exists>j bits. sc_outcome k p st j bits"
proof -
  let ?v = "victim st" and ?b = "reference_bit st" and ?f = "page_frame st"
  let ?n = "ones 0 ?v ?b"
  let ?r = "drop (Suc ?n) (take ?v ?b)" and ?rf = "drop (Suc ?n) (take ?v ?f)"
  let ?b2 = "cleared 0 ?n (take ?v ?b @ replicate (k - ?v) 0)"
  note p2 = second_pass [OF ok nf]
  have len: "length ?f = k" "length ?b = k" "bits_ok ?b" "?v < k" using ok by (auto simp: ring_ok_def)
  have y: "?b ! ?n \<noteq> 1" using ones_stop [of 0 ?v ?b] found len by simp
  then have y0: "?b ! ?n = 0" using found len by (auto simp: bits_ok_def)
  have hd: "take ?v xs = take ?n xs @ xs ! ?n # drop (Suc ?n) (take ?v xs)"
    if "length xs = k" for xs :: "int list"
    using id_take_nth_drop [of ?n "take ?v xs"] that found len by (simp add: min_def)
  have bs: "?b = replicate ?n 1 @ ?b ! ?n # ?r @ replicate (k - ?v) 1"
    using append_take_drop_id [of ?v ?b] hd [OF len(2)] p2(5,6) by (metis append.assoc append_Cons)
  have fs: "?f = take ?n ?f @ ?f ! ?n # ?rf @ drop ?v ?f"
    using append_take_drop_id [of ?v ?f] hd [OF len(1)] by (metis append.assoc append_Cons)
  have b2s: "?b2 = replicate ?n 0 @ ?b ! ?n # ?r @ replicate (k - ?v) 0"
    using found len Cons_nth_drop_Suc [of ?n "take ?v ?b"] by (simp add: cleared_def)
  have "tl (rot ?n (zip ?f ?b2)) @ [(p, 0)] = sc_second (rot ?v (zip ?f ?b)) p"
    using sc_found_before [of "take ?n ?f" ?n ?rf ?r "drop ?v ?f" "k - ?v" "?b ! ?n" "?f ! ?n" p]
      found len y by (simp flip: fs bs b2s)
  moreover have "?b2 ! ?n = 0" using y0 by (simp add: b2s nth_append)
  ultimately have "sc_outcome k p st ?n ?b2" using p2 found len by (simp add: sc_outcome_def)
  then show ?thesis by blast
qed

lemma sc_evict_all_set:
  assumes ok: "ring_ok k st" and nf: "\<not> victim st + ones (victim st) k (reference_bit st) < k"
    and nf2: "\<not> ones 0 (victim st) (reference_bit st) < victim st"
  shows "\<exists>j bits. sc_outcome k p st j bits"
proof -
  let ?v = "victim st" and ?b = "reference_bit st" and ?f = "page_frame st"
  note p2 = second_pass [OF ok nf]
  have len: "length ?f = k" "length ?b = k" "?v < k" using ok by (auto simp: ring_ok_def)
  from nf2 p2(2) have n: "ones 0 ?v ?b = ?v" by simp
  have bs: "?b = replicate k 1"
    using append_take_drop_id [of ?v ?b] p2(5,6) n len
    by (metis le_add_diff_inverse less_imp_le replicate_add)
  have b2: "cleared 0 ?v (take ?v ?b @ replicate (k - ?v) 0) = replicate k 0"
    using len by (simp add: cleared_def flip: replicate_add)
  have "tl (rot ?v (zip ?f (replicate k 0))) @ [(p, 0)] = sc_second (rot ?v (zip ?f ?b)) p"
    using sc_found_none [OF len(1,3)] by (simp only: bs)
  with p2 n b2 len have "sc_outcome k p st ?v (replicate k 0)" by (simp add: sc_outcome_def)
  then show ?thesis by blast
qed

lemma sc_evict_outcome: "ring_ok k st \<Longrightarrow> \<exists>j bits. sc_outcome k p st j bits"
  using sc_evict_after sc_evict_before sc_evict_all_set by blast


section \<open>The step refines the queue\<close>

lemma frames_ok_unique:
  assumes "frames_ok k st" and "0 \<le> p" and "i < k" and "j < k"
    and "page_frame st ! i = p" and "page_frame st ! j = p"
  shows "i = j"
proof -
  from assms(1) obtain xs where xs: "page_frame st = xs @ replicate (k - length xs) (- 1)"
    "distinct xs" by (rule frames_okE)
  have "l < length xs" if "l < k" "page_frame st ! l = p" for l
    using that xs(1) assms(2) by (cases "l < length xs") (auto simp: nth_append)
  with assms xs show ?thesis by (metis distinct_conv_nth nth_append)
qed

lemma sc_queue_hit:
  assumes "frames_ok k st" and "length (reference_bit st) = k" and "0 \<le> p" and "j < k"
    and "page_frame st ! j = p"
  shows "sc_queue (st\<lparr>reference_bit := (reference_bit st)[j := 1]\<rparr>) =
    map (\<lambda>(f, b). if f = p then (f, 1) else (f, b)) (sc_queue st)"
proof -
  let ?u = "\<lambda>x :: int \<times> int. case x of (f, b) \<Rightarrow> if f = p then (f, 1) else (f, b)"
  have len: "length (page_frame st) = k" using assms(1) by (rule frames_ok_length)
  have "zip (page_frame st) ((reference_bit st)[j := 1]) = map ?u (zip (page_frame st) (reference_bit st))"
  proof (rule nth_equalityI)
    fix l
    assume "l < length (zip (page_frame st) ((reference_bit st)[j := 1]))"
    then have l: "l < k" using len assms(2) by simp
    with frames_ok_unique [OF assms(1,3) l assms(4) _ assms(5)] assms len
    show "zip (page_frame st) ((reference_bit st)[j := 1]) ! l =
        map ?u (zip (page_frame st) (reference_bit st)) ! l"
      by (cases "l = j") auto
  qed simp
  moreover have "(0 \<le> fst (?u x)) = (0 \<le> fst x)" for x by (simp split: prod.splits)
  ultimately show ?thesis
    by (simp add: sc_queue_def rot_def filter_map o_def take_map drop_map)
qed

lemma fst_sc_queue:
  assumes "length (reference_bit st) = length (page_frame st)"
  shows "fst ` set (sc_queue st) = resident st"
proof -
  have "set (rot (victim st) (zip (page_frame st) (reference_bit st))) =
      set (zip (page_frame st) (reference_bit st))"
    unfolding rot_def by (metis append_take_drop_id set_append sup_commute)
  then have "fst ` set (sc_queue st) =
      {f \<in> fst ` set (zip (page_frame st) (reference_bit st)). 0 \<le> f}"
    by (auto simp: sc_queue_def)
  also have "fst ` set (zip (page_frame st) (reference_bit st)) = set (page_frame st)"
    using assms by (metis list.set_map map_fst_zip)
  finally show ?thesis by (simp add: resident_def)
qed

lemma length_sc_queue:
  assumes "frames_ok k st" and "length (reference_bit st) = k"
  shows "length (sc_queue st) = card (resident st)"
proof -
  from assms(1) obtain xs where xs: "page_frame st = xs @ replicate (k - length xs) (- 1)"
    "length xs \<le> k" "\<forall>x \<in> set xs. 0 \<le> x" "card (resident st) = length xs" by (rule frames_okE)
  have "length (sc_queue st) = length (filter (\<lambda>x. 0 \<le> fst x) (zip (page_frame st) (reference_bit st)))"
    unfolding sc_queue_def rot_def
    by (metis (no_types, lifting) append_take_drop_id filter_append length_append add.commute)
  also have "\<dots> = length (filter (\<lambda>f. 0 \<le> f) (map fst (zip (page_frame st) (reference_bit st))))"
    by (simp add: filter_map o_def)
  also have "\<dots> = length xs"
    using xs frames_ok_length [OF assms(1)] assms(2) filter_nonneg_id [of xs] by simp
  finally show ?thesis using xs(4) by simp
qed

lemma sc_queue_free:
  assumes "sc_ok k st" and "0 \<le> p" and "p \<notin> resident st" and "card (resident st) < k"
  defines "j \<equiv> card (resident st)"
  shows "sc_queue ((load_free j p st)\<lparr>reference_bit := (reference_bit st)[j := 0]\<rparr>) =
    sc_queue st @ [(p, 0)]"
proof -
  have ok: "frames_ok k st" and v: "victim st = 0" and len: "length (reference_bit st) = k"
    using assms(1,4) by (auto simp: sc_ok_def hand_ok_def)
  from ok obtain xs where xs: "page_frame st = xs @ replicate (k - length xs) (- 1)"
    "\<forall>x \<in> set xs. 0 \<le> x" "card (resident st) = length xs" by (rule frames_okE)
  have jx: "j = length xs" and jk: "j < k" using assms(4) xs(3) by (auto simp: j_def)
  let ?b = "reference_bit st"
  have bs: "?b = take j ?b @ ?b ! j # drop (Suc j) ?b" using jk len by (simp add: id_take_nth_drop)
  have k: "k - length xs = Suc (k - Suc j)" using jx jk by simp
  have none: "filter (\<lambda>x. 0 \<le> fst x) (zip (replicate n (- 1 :: int)) ys) = []" for n and ys :: "int list"
    by (auto simp: filter_empty_conv dest: set_zip_leftD)
  have all: "filter (\<lambda>x. 0 \<le> fst x) (zip xs ys) = zip xs ys" for ys :: "int list"
    using xs(2) by (intro filter_True) (auto dest: set_zip_leftD)
  have "zip (page_frame st) ?b = zip xs (take j ?b) @ (- 1, ?b ! j) # zip (replicate (k - Suc j) (- 1)) (drop (Suc j) ?b)"
    unfolding xs(1) k by (subst bs) (use jx jk len in \<open>simp add: zip_append\<close>)
  then have q: "sc_queue st = zip xs (take j ?b)" using v none all by (simp add: sc_queue_def rot_def)
  have "?b[j := 0] = take j ?b @ 0 # drop (Suc j) ?b" using jk len by (simp add: upd_conv_take_nth_drop)
  moreover have "(page_frame st)[j := p] = xs @ p # replicate (k - Suc j) (- 1)"
    unfolding xs(1) k by (simp add: jx list_update_append)
  ultimately have "zip ((page_frame st)[j := p]) (?b[j := 0]) =
      zip xs (take j ?b) @ (p, 0) # zip (replicate (k - Suc j) (- 1)) (drop (Suc j) ?b)"
    using jx jk len by (simp add: zip_append)
  then show ?thesis
    using v none all q assms(2) by (simp add: sc_queue_def rot_def load_free_def)
qed

lemma sc_queue_full:
  assumes "frames_ok k st" and "card (resident st) = k"
  shows "sc_queue st = rot (victim st) (zip (page_frame st) (reference_bit st))"
  using full_frames(4) [OF assms] unfolding sc_queue_def rot_def
  by (intro filter_True) (auto dest!: in_set_takeD in_set_dropD dest: set_zip_leftD)

lemma sc_step_full:
  assumes "sc_ok k st" and "0 \<le> refs ! i" and "refs ! i \<notin> resident st"
    and "card (resident st) = k" and "frame_scan_loop (page_frame st) (refs ! i) 0 = Full"
  shows "\<exists>st'. sc_step refs i st = Inr (st', True) \<and> sc_ok k st' \<and>
    demand_move k (resident st) (refs ! i) True (resident st') \<and> page_fault st' = page_fault st + 1 \<and>
    sc_queue st' = sc_second (sc_queue st) (refs ! i)"
proof -
  let ?p = "refs ! i"
  have ok: "frames_ok k st" using assms(1) by (simp add: sc_ok_def hand_ok_def)
  then have "ring_ok k st"
    using assms(1) frames_ok_length by (simp add: ring_ok_def sc_ok_def hand_ok_def)
  from sc_evict_outcome [OF this, of ?p] obtain j bits where o: "sc_outcome k ?p st j bits" by blast
  let ?st = "st\<lparr>reference_bit := bits\<rparr>"
  let ?st' = "advance j ?p ?st"
  have j: "j < k" "length bits = k" "bits_ok bits" "bits ! j = 0" using o by (auto simp: sc_outcome_def)
  have ok': "frames_ok k ?st" "?p \<notin> resident ?st" "card (resident ?st) = k"
    using ok assms(3,4) by simp_all
  note a = advance_move [OF ok'(1) assms(2) ok'(2,3) j(1)]
  have rb: "reference_bit ?st' = bits" by (simp add: advance_def)
  have step: "sc_step refs i st = Inr (?st', True)"
    using o assms(5) replace_at_move(1) [OF ok'(1) assms(2) ok'(2,3) j(1)]
    by (simp add: sc_step_def sc_outcome_def advance_def)
  have "card (resident ?st') = k"
    using a(2) card_exchange [OF _ replace_at_move(4) [OF ok'(1) assms(2) ok'(2,3) j(1)] ok'(2)]
      ok'(3) frames_ok_finite [OF ok'(1)] by simp
  then have "sc_queue ?st' = rot (victim ?st') (zip (page_frame ?st') bits)"
    using sc_queue_full [of k ?st'] a(1) rb by (simp add: hand_ok_def)
  also have "\<dots> = tl (rot j (zip (page_frame st) bits)) @ [(?p, 0)]"
    using sc_ring_advance [of j ?st bits ?p] j frames_ok_length [OF ok] by simp
  also have "\<dots> = sc_second (sc_queue st) ?p"
    using o sc_queue_full [OF ok assms(4)] by (simp add: sc_outcome_def)
  finally show ?thesis using step a j rb by (intro exI [of _ ?st']) (simp add: sc_ok_def)
qed

lemma sc_step_refines:
  assumes "valid_refs k refs" and "sc_ok k st" and "i < length refs"
  shows "\<exists>st' f. sc_step refs i st = Inr (st', f) \<and> sc_ok k st' \<and>
    demand_move k (resident st) (refs ! i) f (resident st') \<and>
    page_fault st' = page_fault st + (if f then 1 else 0) \<and>
    sc_queue st' = sc_spec k (sc_queue st) (refs ! i)"
proof -
  note p = valid_refs_nth [OF assms(1,3)]
  have h: "hand_ok k st" and ok: "frames_ok k st" and lb: "length (reference_bit st) = k"
    and bk: "bits_ok (reference_bit st)"
    using assms(2) by (auto simp: sc_ok_def hand_ok_def)
  have q: "fst ` set (sc_queue st) = resident st" "length (sc_queue st) = card (resident st)"
    using fst_sc_queue [of st] length_sc_queue [OF ok lb] frames_ok_length [OF ok] lb by simp_all
  from ok p show ?thesis
  proof (cases rule: frame_scan_cases)
    case (hit j)
    let ?st = "st\<lparr>reference_bit := (reference_bit st)[j := 1]\<rparr>"
    have "bits_ok ((reference_bit st)[j := 1])"
      using bk set_update_subset_insert [of "reference_bit st" j 1] by (auto simp: bits_ok_def)
    moreover have "hand_ok k ?st" using h by (simp add: hand_ok_def)
    ultimately have sc: "sc_ok k ?st" using lb by (simp add: sc_ok_def)
    have "sc_step refs i st = Inr (?st, False)"
      using hit lb hand_ok_hit [OF \<open>hand_ok k ?st\<close>] by (simp add: sc_step_def aset_in)
    with hit sc sc_queue_hit [OF ok lb p hit(3,4)] q show ?thesis
      by (intro exI [of _ ?st] exI [of _ False]) (simp add: sc_spec_def hit_move)
  next
    case free
    let ?j = "card (resident st)"
    let ?st = "(load_free ?j (refs ! i) st)\<lparr>reference_bit := (reference_bit st)[?j := 0]\<rparr>"
    note l = fifo_queue_load(1) [OF h p free(2,3)]
    have h': "hand_ok k ?st" using l by (simp add: hand_ok_def)
    then have sc: "sc_ok k ?st" using lb bk bits_ok_update by (simp add: sc_ok_def)
    have "sc_step refs i st = Inr (?st, True)"
      using free lb hand_ok_hit [OF h'] by (simp add: sc_step_def aset_in)
    with free sc sc_queue_free [OF assms(2) p free(2,3)] q load_free_move(2) [OF ok p free(2,3)]
    show ?thesis by (intro exI [of _ ?st] exI [of _ True]) (simp add: sc_spec_def load_move)
  next
    case full
    with sc_step_full [OF assms(2) p full(2,3,1)] q show ?thesis
      by (auto simp: sc_spec_def)
  qed
qed

definition sc_inv :: "nat \<Rightarrow> int list \<Rightarrow> nat \<Rightarrow> pgst \<Rightarrow> bool" where
  "sc_inv k refs i st \<longleftrightarrow> sc_ok k st \<and> sc_queue st = foldl (sc_spec k) [] (take i refs)"

interpretation sc: predicted_pager sc_step sc_inv valid_refs
  "\<lambda>k refs i. fst ` set (foldl (sc_spec k) [] (take i refs))"
proof
  fix k refs i st
  show "valid_refs k refs \<Longrightarrow> sc_inv k refs 0 (init_frames k)"
    by (simp add: sc_inv_def sc_ok_def valid_refs_def hand_ok_init)
      (simp add: sc_queue_def rot_def init_frames_def bits_ok_def filter_empty_conv)
  show "sc_inv k refs i st \<Longrightarrow> frames_ok k st" by (simp add: sc_inv_def sc_ok_def hand_ok_def)
  show "sc_inv k refs i st \<Longrightarrow> resident st = fst ` set (foldl (sc_spec k) [] (take i refs))"
    using fst_sc_queue [of st] frames_ok_length [of k st] by (simp add: sc_inv_def sc_ok_def hand_ok_def)
  assume a: "valid_refs k refs" "sc_inv k refs i st" "i < length refs"
  with sc_step_refines [of k refs st i] obtain st' f where
    s: "sc_step refs i st = Inr (st', f)" "sc_ok k st'"
    "demand_move k (resident st) (refs ! i) f (resident st')"
    "page_fault st' = page_fault st + (if f then 1 else 0)"
    "sc_queue st' = sc_spec k (sc_queue st) (refs ! i)" unfolding sc_inv_def by blast
  then have "sc_inv k refs (Suc i) st'"
    using a by (simp add: sc_inv_def take_Suc_conv_app_nth)
  with s show "\<exists>st' f. sc_step refs i st = Inr (st', f) \<and> sc_inv k refs (Suc i) st' \<and>
      demand_move k (resident st) (refs ! i) f (resident st') \<and>
      page_fault st' = page_fault st + (if f then 1 else 0)"
    by (intro exI [of _ st'] exI [of _ f]) simp
qed

end
