(* ===== verification/Paging_Props.thy ===== *)
theory Paging_Props
  imports Paging_Clock
begin

text \<open>
  The properties of the simulator: optimality of OPT, absence of the anomaly for LRU and its
  presence for FIFO, the textbook queues of FIFO and Second-Chance, the bounds on the number of
  faults, memory safety of every method, and the reading loop and the interactive loop of
  \<open>main\<close>.
\<close>

section \<open>Running a method\<close>

lemma lru_ok_valid: "lru_ok k refs \<Longrightarrow> valid_refs k refs"
  by (simp add: lru_ok_def)

lemma run_step_total:
  assumes "lru_ok k refs"
  shows "\<exists>st out. run_step opt_step refs k = Inr (st, out)"
    and "\<exists>st out. run_step fifo_step refs k = Inr (st, out)"
    and "\<exists>st out. run_step lru_step refs k = Inr (st, out)"
    and "\<exists>st out. run_step sc_step refs k = Inr (st, out)"
  using opt.run_serves fifo.run_serves lru.run_serves sc.run_serves lru_ok_valid [OF assms] assms
  by blast+

lemma run_method_total: "lru_ok k refs \<Longrightarrow> \<exists>out. run_method m refs k = Inr out"
  using run_step_total [of k refs] by (auto simp: run_method_def)

text \<open>
  C1. OPT is optimal: on every reference string of page numbers and with every positive number
  of frames, the run of OPT returns (no array access leaves its array), and its page faults are
  at most those of any way of serving the string by demand paging.
\<close>

theorem opt_optimal:
  assumes "valid_refs k refs" and "serves k {} refs n"
  shows "\<exists>st out. run_step opt_step refs k = Inr (st, out) \<and> page_fault st \<le> int n"
proof -
  from opt.run_serves [OF assms(1)] obtain st out where "run_step opt_step refs k = Inr (st, out)"
    by blast
  with opt.run_optimal [OF assms(1) _ assms(2)] show ?thesis by blast
qed

theorem opt_optimal_witness:
  "\<exists>st out. run_step opt_step [1, 2, 1] 1 = Inr (st, out) \<and> page_fault st \<le> int 3"
proof (rule opt_optimal)
  show "valid_refs 1 [1, 2, 1]" by (simp add: valid_refs_def)
  have "serves 1 {2 :: int} [1] (Suc 0)"
    by (rule serves_evict [where e = 2]) (auto intro: serves_Nil)
  then have "serves 1 {1 :: int} [2, 1] (Suc (Suc 0))"
    using serves_evict [of 2 "{1 :: int}" 1 1 "[1]" "Suc 0"] by simp
  then show "serves 1 {} [1, 2, 1 :: int] 3"
    using serves_load [of 1 "{}" 1 "[2, 1]" "Suc (Suc 0)"] by (simp add: numeral_3_eq_3)
qed

text \<open>
  The four methods of the simulator on the same input: OPT never counts more page faults
  than FIFO, LRU or Second-Chance.
\<close>

theorem opt_at_most_others:
  assumes "lru_ok k refs"
  shows "\<exists>so o1 sf o2 sl o3 ss o4.
    run_step opt_step refs k = Inr (so, o1) \<and> run_step fifo_step refs k = Inr (sf, o2) \<and>
    run_step lru_step refs k = Inr (sl, o3) \<and> run_step sc_step refs k = Inr (ss, o4) \<and>
    page_fault so \<le> page_fault sf \<and> page_fault so \<le> page_fault sl \<and> page_fault so \<le> page_fault ss"
proof -
  note v = lru_ok_valid [OF assms]
  from opt.run_serves [OF v] obtain so o1 where o: "run_step opt_step refs k = Inr (so, o1)" by blast
  note best = opt.run_optimal [OF v o]
  from fifo.run_serves [OF v] obtain sf o2 nf where f: "run_step fifo_step refs k = Inr (sf, o2)"
    "serves k {} refs nf" "page_fault sf = int nf" by blast
  from lru.run_serves [OF assms] obtain sl o3 nl where l: "run_step lru_step refs k = Inr (sl, o3)"
    "serves k {} refs nl" "page_fault sl = int nl" by blast
  from sc.run_serves [OF v] obtain ss o4 ns where s: "run_step sc_step refs k = Inr (ss, o4)"
    "serves k {} refs ns" "page_fault ss = int ns" by blast
  have "page_fault so \<le> page_fault sf" "page_fault so \<le> page_fault sl" "page_fault so \<le> page_fault ss"
    using best f(2,3) l(2,3) s(2,3) by auto
  with o f(1) l(1) s(1) show ?thesis by blast
qed

theorem opt_at_most_others_witness:
  "\<exists>so o1 sf o2 sl o3 ss o4.
    run_step opt_step [7, 0, 1, 2, 0, 3] 3 = Inr (so, o1) \<and>
    run_step fifo_step [7, 0, 1, 2, 0, 3] 3 = Inr (sf, o2) \<and>
    run_step lru_step [7, 0, 1, 2, 0, 3] 3 = Inr (sl, o3) \<and>
    run_step sc_step [7, 0, 1, 2, 0, 3] 3 = Inr (ss, o4) \<and>
    page_fault so \<le> page_fault sf \<and> page_fault so \<le> page_fault sl \<and> page_fault so \<le> page_fault ss"
  by (rule opt_at_most_others) (simp add: lru_ok_def valid_refs_def)

text \<open>
  C8. LRU counts exactly the references to pages that are not among the \<open>k\<close> most recently used
  ones, and more frames never give more page faults (there is no Belady anomaly).
\<close>

theorem lru_recency_no_anomaly:
  assumes "lru_ok k refs" and "k \<le> l"
  shows "\<exists>st out st' out'.
    run_step lru_step refs k = Inr (st, out) \<and> run_step lru_step refs l = Inr (st', out') \<and>
    page_fault st = int (lru_faults_spec k refs) \<and> page_fault st' \<le> page_fault st"
proof -
  have l: "lru_ok l refs" using assms by (auto simp: lru_ok_def valid_refs_def)
  from lru.run_serves [OF assms(1)] obtain st out where r: "run_step lru_step refs k = Inr (st, out)"
    by blast
  from lru.run_serves [OF l] obtain st' out' where r': "run_step lru_step refs l = Inr (st', out')"
    by blast
  have "page_fault st = int (lru_faults_spec k refs)" "page_fault st' = int (lru_faults_spec l refs)"
    using lru.run_faults_cache [OF assms(1) r] lru.run_faults_cache [OF l r']
    by (simp_all add: lru_faults_spec_def)
  with r r' lru_faults_spec_antimono [OF assms(2), of refs] show ?thesis by auto
qed

theorem lru_recency_no_anomaly_witness:
  "\<exists>st out st' out'.
    run_step lru_step [1, 2, 3, 4, 1, 2, 5] 3 = Inr (st, out) \<and>
    run_step lru_step [1, 2, 3, 4, 1, 2, 5] 4 = Inr (st', out') \<and>
    page_fault st = int (lru_faults_spec 3 [1, 2, 3, 4, 1, 2, 5 :: int]) \<and> page_fault st' \<le> page_fault st"
  by (rule lru_recency_no_anomaly) (simp_all add: lru_ok_def valid_refs_def)

text \<open>
  C10. FIFO is the textbook queue: the frames read from the victim on are the pages in the order
  they were loaded, and the counted faults are the references to pages outside that queue.
\<close>

theorem fifo_is_queue:
  assumes "valid_refs k refs"
  shows "\<exists>st out. run_step fifo_step refs k = Inr (st, out) \<and>
    fifo_queue st = foldl (fifo_spec k) [] refs \<and>
    page_fault st = int (length (filter
      (\<lambda>j. refs ! j \<notin> set (foldl (fifo_spec k) [] (take j refs))) [0..<length refs]))"
proof -
  from fifo.run_serves [OF assms] obtain st out where
    r: "run_step fifo_step refs k = Inr (st, out)" and i: "fifo_inv k refs (length refs) st" by blast
  with fifo.run_faults_cache [OF assms r] show ?thesis by (simp add: fifo_inv_def)
qed

theorem fifo_is_queue_witness:
  "\<exists>st out. run_step fifo_step [1, 2, 3, 1, 4] 2 = Inr (st, out) \<and>
    fifo_queue st = foldl (fifo_spec 2) [] [1, 2, 3, 1, 4] \<and>
    page_fault st = int (length (filter
      (\<lambda>j. [1, 2, 3, 1, 4] ! j \<notin> set (foldl (fifo_spec 2) [] (take j [1, 2, 3, 1, 4])))
      [0..<length [1, 2, 3, 1, 4 :: int]]))"
  by (rule fifo_is_queue) (simp add: valid_refs_def)

text \<open>
  C9. Second-Chance is the textbook queue with reference bits: the frames and bits read from the
  hand on are that queue after every run, whichever of the three eviction passes was taken.
\<close>

theorem second_chance_is_queue:
  assumes "valid_refs k refs"
  shows "\<exists>st out. run_step sc_step refs k = Inr (st, out) \<and>
    sc_queue st = foldl (sc_spec k) [] refs \<and>
    page_fault st = int (length (filter
      (\<lambda>j. refs ! j \<notin> fst ` set (foldl (sc_spec k) [] (take j refs))) [0..<length refs]))"
proof -
  from sc.run_serves [OF assms] obtain st out where
    r: "run_step sc_step refs k = Inr (st, out)" and i: "sc_inv k refs (length refs) st" by blast
  with sc.run_faults_cache [OF assms r] show ?thesis by (simp add: sc_inv_def)
qed

theorem second_chance_is_queue_witness:
  "\<exists>st out. run_step sc_step [1, 2, 1, 3] 2 = Inr (st, out) \<and>
    sc_queue st = foldl (sc_spec 2) [] [1, 2, 1, 3] \<and>
    page_fault st = int (length (filter
      (\<lambda>j. [1, 2, 1, 3] ! j \<notin> fst ` set (foldl (sc_spec 2) [] (take j [1, 2, 1, 3])))
      [0..<length [1, 2, 1, 3 :: int]]))"
  by (rule second_chance_is_queue) (simp add: valid_refs_def)

text \<open>
  The anomaly of FIFO: on Belady's reference string the simulator counts 9 page faults with
  3 frames and 10 with 4.
\<close>

theorem fifo_belady_anomaly:
  "\<exists>st out st' out'.
    run_step fifo_step [1, 2, 3, 4, 1, 2, 5, 1, 2, 3, 4, 5] 3 = Inr (st, out) \<and>
    run_step fifo_step [1, 2, 3, 4, 1, 2, 5, 1, 2, 3, 4, 5] 4 = Inr (st', out') \<and>
    page_fault st = 9 \<and> page_fault st' = 10"
proof -
  let ?r = "[1, 2, 3, 4, 1, 2, 5, 1, 2, 3, 4, 5 :: int]"
  have v: "valid_refs 3 ?r" "valid_refs 4 ?r" by (simp_all add: valid_refs_def)
  from fifo.run_serves [OF v(1)] obtain st out where s: "run_step fifo_step ?r 3 = Inr (st, out)" by blast
  from fifo.run_serves [OF v(2)] obtain st' out' where s': "run_step fifo_step ?r 4 = Inr (st', out')" by blast
  have "length (filter (\<lambda>j. ?r ! j \<notin> set (foldl (fifo_spec 3) [] (take j ?r))) [0..<length ?r]) = 9"
    by code_simp
  moreover have "length (filter (\<lambda>j. ?r ! j \<notin> set (foldl (fifo_spec 4) [] (take j ?r))) [0..<length ?r]) = 10"
    by code_simp
  ultimately have "page_fault st = 9" "page_fault st' = 10"
    using fifo.run_faults_cache [OF v(1) s] fifo.run_faults_cache [OF v(2) s'] by simp_all
  with s s' show ?thesis by blast
qed

text \<open>
  Whatever the method, the faults counted are at least the distinct pages and at most the
  references; with a frame for every distinct page they are exactly the distinct pages.
\<close>

theorem fault_bounds:
  assumes "lru_ok k refs"
    and "step \<in> {opt_step, fifo_step, lru_step, sc_step}"
  shows "\<exists>st out. run_step step refs k = Inr (st, out) \<and>
    int (card (set refs)) \<le> page_fault st \<and> page_fault st \<le> int (length refs) \<and>
    (card (set refs) \<le> k \<longrightarrow> page_fault st = int (card (set refs)))"
proof -
  note v = lru_ok_valid [OF assms(1)]
  from assms(2) consider "step = opt_step" | "step = fifo_step" | "step = lru_step" | "step = sc_step"
    by blast
  then show ?thesis
  proof cases
    case 1
    with run_step_total(1) [OF assms(1)] opt.run_faults_bounds [OF v] show ?thesis by blast
  next
    case 2
    with run_step_total(2) [OF assms(1)] fifo.run_faults_bounds [OF v] show ?thesis by blast
  next
    case 3
    with run_step_total(3) [OF assms(1)] lru.run_faults_bounds [OF assms(1)] show ?thesis by blast
  next
    case 4
    with run_step_total(4) [OF assms(1)] sc.run_faults_bounds [OF v] show ?thesis by blast
  qed
qed

theorem fault_bounds_witness:
  "\<exists>st out. run_step lru_step [3, 4, 3] 2 = Inr (st, out) \<and>
    int (card (set [3, 4, 3 :: int])) \<le> page_fault st \<and> page_fault st \<le> int (length [3, 4, 3 :: int]) \<and>
    (card (set [3, 4, 3 :: int]) \<le> 2 \<longrightarrow> page_fault st = int (card (set [3, 4, 3 :: int])))"
  by (rule fault_bounds) (simp_all add: lru_ok_def valid_refs_def)


section \<open>The input file\<close>

text \<open>Numbers printed with a blank after each of them.\<close>

definition spaced :: "int list \<Rightarrow> string" where
  "spaced vs = concat (map (\<lambda>v. show_int v @ '' '') vs)"

definition int32 :: "int \<Rightarrow> bool" where
  "int32 v \<longleftrightarrow> - (2 ^ 31) \<le> v \<and> v < 2 ^ 31"

lemma scan_d_blank: "scan_d (CHR '' '' # s) = scan_d s"
  by (simp add: scan_d_def scan_number_def skip_ws_def isspace_def)

lemma scan_d_spaced: "int32 v \<Longrightarrow> scan_d (show_int v @ '' '' @ s) = ScanOk v (CHR '' '' # s)"
  by (simp add: scan_d_show_int int32_def isdigit_def)

lemma read_refs_blank: "read_refs (CHR '' '' # s) t acc = read_refs s t acc"
  by (subst (1 2) read_refs.simps) (simp add: scan_d_blank)

lemma read_refs_spaced:
  "\<forall>v \<in> set vs. int32 v \<Longrightarrow> length acc \<le> 31 \<Longrightarrow>
    read_refs (spaced vs) t acc = (if length acc + length vs \<le> 31 then Inr (acc @ vs) else Inl OutOfBounds)"
proof (induction vs arbitrary: t acc)
  case Nil
  then show ?case
    by (subst read_refs.simps) (simp add: spaced_def scan_d_def scan_number_def skip_ws_def)
next
  case (Cons v vs)
  then have s: "scan_d (spaced (v # vs)) = ScanOk v (CHR '' '' # spaced vs)"
    using scan_d_spaced [of v "spaced vs"] by (simp add: spaced_def)
  show ?case
  proof (cases "length acc < 31")
    case True
    with Cons show ?thesis
      by (subst read_refs.simps) (simp add: s read_refs_blank)
  next
    case False
    then show ?thesis by (subst read_refs.simps) (simp add: s)
  qed
qed

text \<open>
  C19. Reading back a printed input: a file that holds the number of frames and then at most 31
  references is read as exactly these, and one with more references overruns the array
  \<open>page_reference\<close>.
\<close>

theorem read_input_roundtrip:
  assumes "int32 n" and "\<forall>v \<in> set refs. int32 v"
  shows "read_input (spaced (n # refs)) =
    (if length refs \<le> 31 then Inr (Some n, refs) else Inl OutOfBounds)"
proof -
  have "scan_d (spaced (n # refs)) = ScanOk n (CHR '' '' # spaced refs)"
    using scan_d_spaced [OF assms(1), of "spaced refs"] by (simp add: spaced_def)
  with read_refs_spaced [OF assms(2), of "[]"] show ?thesis
    by (simp add: read_input_def read_refs_blank)
qed

theorem read_input_roundtrip_witness:
  "read_input (spaced (3 # [7, 0, 1])) =
    (if length [7, 0, 1 :: int] \<le> 31 then Inr (Some 3, [7, 0, 1]) else Inl OutOfBounds)"
  by (rule read_input_roundtrip) (simp_all add: int32_def)

text \<open>
  A word in the reference string that is not a number is never consumed: once a reference has
  been read, the loop stores it again and again and overruns the array, whatever follows the
  word. (The loop compares \<open>fscanf\<close> with \<open>EOF\<close> only.)
\<close>

theorem read_refs_word_overruns:
  assumes "\<not> isspace c" and "\<not> isdigit c" and "c \<noteq> CHR ''-''" and "c \<noteq> CHR ''+''"
    and "length acc \<le> 31"
  shows "read_refs (c # s) (Some v) acc = Inl OutOfBounds"
proof -
  have f: "scan_d (c # s) = ScanFail (c # s)"
    using assms(1-4) by (simp add: scan_d_def scan_number_def skip_ws_def take_sign_def)
  show ?thesis
    using assms(5)
  proof (induction "31 - length acc" arbitrary: acc)
    case 0
    then show ?case by (subst read_refs.simps) (simp add: f)
  next
    case (Suc n)
    then have "read_refs (c # s) (Some v) (acc @ [v]) = Inl OutOfBounds" by simp
    with Suc show ?case by (subst read_refs.simps) (simp add: f)
  qed
qed

theorem read_refs_word_overruns_witness:
  "read_refs (CHR ''x'' # '' 4'') (Some 7) [7] = Inl OutOfBounds"
  by (rule read_refs_word_overruns) (simp_all add: isspace_def isdigit_def)

section \<open>The interactive loop\<close>

definition is_word :: "string \<Rightarrow> bool" where
  "is_word w \<longleftrightarrow> w \<noteq> [] \<and> length w < 100 \<and> (\<forall>c \<in> set w. \<not> isspace c)"

definition worded :: "string list \<Rightarrow> string" where
  "worded ws = concat (map (\<lambda>w. w @ '' '') ws)"

lemma scan_s_blank: "scan_s (CHR '' '' # s) = scan_s s"
  by (simp add: scan_s_def skip_ws_def isspace_def)

lemma scan_s_word: "is_word w \<Longrightarrow> scan_s (w @ '' '' @ s) = ScanOk w (CHR '' '' # s)"
proof -
  assume w: "is_word w"
  then have "\<not> isspace (hd w)" "w \<noteq> []" by (auto simp: is_word_def)
  then have "skip_ws (w @ '' '' @ s) = w @ '' '' @ s" by (cases w) (auto simp: skip_ws_def)
  moreover have "takeWhile (\<lambda>c. \<not> isspace c) (w @ '' '' @ s) = w"
    and "dropWhile (\<lambda>c. \<not> isspace c) (w @ '' '' @ s) = CHR '' '' # s"
    using w by (simp_all add: is_word_def takeWhile_append2 dropWhile_append2 isspace_def)
  ultimately show ?thesis using \<open>w \<noteq> []\<close> by (simp add: scan_s_def)
qed

lemma sim_main_blank: "sim_main refs n (CHR '' '' # s) m out = sim_main refs n s m out"
  by (subst (1 2) sim_main.simps) (simp add: scan_s_blank)

text \<open>
  C18. The interactive loop ends: with a valid input and any words before it, the word
  \<open>exit\<close> ends the program normally, and what was printed is the prompts and the tables of the
  words before it, in order.
\<close>

theorem sim_main_exits:
  assumes "lru_ok n refs" and "\<forall>w \<in> set ws. is_word w \<and> w \<noteq> ''exit''"
  shows "\<exists>tables. length tables = length ws \<and>
    (\<forall>i < length ws. run_method (ws ! i) refs n = Inr (tables ! i)) \<and>
    sim_main refs n (worded ws @ ''exit '' @ rest) m out =
      Some (Inr (out @ concat (map (\<lambda>t. ''Used method : '' @ t) tables) @ ''Used method : ''))"
  using assms(2)
proof (induction ws arbitrary: m out)
  case Nil
  have "scan_s (''exit'' @ '' '' @ rest) = ScanOk ''exit'' (CHR '' '' # rest)"
    by (rule scan_s_word) (simp add: is_word_def isspace_def)
  then show ?case by (subst sim_main.simps) (simp add: worded_def)
next
  case (Cons w ws)
  let ?rest = "worded ws @ ''exit '' @ rest"
  have w: "scan_s (worded (w # ws) @ ''exit '' @ rest) = ScanOk w (CHR '' '' # ?rest)"
    using scan_s_word [of w ?rest] Cons.prems by (simp add: worded_def)
  from run_method_total [OF assms(1)] obtain t where t: "run_method w refs n = Inr t" by blast
  from Cons.IH [of "Some w" "out @ ''Used method : '' @ t"] Cons.prems obtain tables where ts: "length tables = length ws"
    "\<forall>i < length ws. run_method (ws ! i) refs n = Inr (tables ! i)"
    "sim_main refs n ?rest (Some w) (out @ ''Used method : '' @ t) =
      Some (Inr ((out @ ''Used method : '' @ t) @ concat (map (\<lambda>t. ''Used method : '' @ t) tables) @
        ''Used method : ''))" by auto
  have "sim_main refs n (worded (w # ws) @ ''exit '' @ rest) m out =
      sim_main refs n ?rest (Some w) (out @ ''Used method : '' @ t)"
    using Cons.prems t by (subst sim_main.simps) (simp add: w [simplified] is_word_def sim_main_blank)
  with ts t show ?case
    by (intro exI [of _ "t # tables"]) (auto simp: nth_Cons split: nat.splits)
qed

theorem sim_main_exits_witness:
  "\<exists>tables. length tables = length [''OPT'', ''LRU''] \<and>
    (\<forall>i < length [''OPT'', ''LRU'']. run_method ([''OPT'', ''LRU''] ! i) [1, 2] 1 = Inr (tables ! i)) \<and>
    sim_main [1, 2] 1 (worded [''OPT'', ''LRU''] @ ''exit '' @ []) None [] =
      Some (Inr ([] @ concat (map (\<lambda>t. ''Used method : '' @ t) tables) @ ''Used method : ''))"
  by (rule sim_main_exits) (simp_all add: lru_ok_def valid_refs_def is_word_def isspace_def)

text \<open>
  Without \<open>exit\<close> the loop does not end: at the end of the input \<open>scanf\<close> leaves the last
  method in place, so the program runs it again for ever.
\<close>

theorem sim_main_no_exit_diverges:
  assumes "lru_ok n refs" and "length w < 100" and "w \<noteq> ''exit''"
  shows "sim_main refs n [] (Some w) out = None"
proof (rule ccontr)
  assume "sim_main refs n [] (Some w) out \<noteq> None"
  then obtain y where y: "sim_main refs n [] (Some w) out = Some y" by auto
  from run_method_total [OF assms(1)] obtain t where t: "run_method w refs n = Inr t" by blast
  have "\<not> (refs = refs \<and> n = n \<and> [] = ([] :: string) \<and> Some w = Some w)"
  proof (rule sim_main.raw_induct [where
        P = "\<lambda>r k s m out y. \<not> (r = refs \<and> k = n \<and> s = [] \<and> m = Some w)", OF _ y])
    fix f r k s m out y
    assume IH: "\<And>r k s m out y. f r k s m out = Some y \<Longrightarrow>
        \<not> (r = refs \<and> k = n \<and> s = [] \<and> m = Some w)"
      and eq: "(case case scan_s s of ScanOk w r \<Rightarrow> (Some w, r) | _ \<Rightarrow> (m, []) of
          (None, rest) \<Rightarrow> Some (Inl Uninitialised)
        | (Some w, rest) \<Rightarrow>
            if 100 \<le> length w then Some (Inl BufferOverflow)
            else if w = ''exit'' then Some (Inr (out @ ''Used method : ''))
            else (case run_method w r k of Inl e \<Rightarrow> Some (Inl e)
              | Inr o' \<Rightarrow> f r k rest (Some w) (out @ ''Used method : '' @ o'))) = Some y"
    show "\<not> (r = refs \<and> k = n \<and> s = [] \<and> m = Some w)"
    proof
      assume a: "r = refs \<and> k = n \<and> s = [] \<and> m = Some w"
      have "scan_s ([] :: string) = ScanEOF" by (simp add: scan_s_def skip_ws_def)
      with eq a assms(2,3) t have "f refs n [] (Some w) (out @ ''Used method : '' @ t) = Some y" by simp
      with IH show False by blast
    qed
  qed
  then show False by simp
qed

theorem sim_main_no_exit_diverges_witness: "sim_main [1, 2] 1 [] (Some ''OPT'') [] = None"
  by (rule sim_main_no_exit_diverges) (simp_all add: lru_ok_def valid_refs_def)

end
