(* ===== verification/Intersection.thy ===== *)
theory Intersection
  imports Clib
begin

text \<open>
  The intersection program, \<open>src/Assignment_6/program.c\<close>: the shared variables, the code each
  thread runs between two synchronisation calls, and the output. The theory
  \<open>Intersection_Run\<close> runs this code in the order the program hands control over, and
  \<open>Intersection_Threads\<close> interleaves it.

  Start points are the numbers 1 to 4 of the source; an array of four is indexed from 0. The
  five threads never hold a mutex another thread locks: \<open>mutex0\<close> to \<open>mutex4\<close> are
  each used by one thread only, so no lock ever blocks and the mutexes carry no state here.
\<close>

section \<open>Shared variables\<close>

record road =
  job_count :: "int list"
  start_point_list :: "int list"
  passed_list :: "int list"
  waiting_list :: "int list"
  pCount :: "int list"
  progress :: "int list"
  tick :: int
  list_index :: int
  passed_index :: int
  waiting_index :: int
  key :: int
  start :: int
  wher :: int
  where_temp :: int
  finish :: "bool list"

text \<open>The globals at program start, with the \<open>memset\<close> calls of \<open>main\<close>.\<close>

definition init_road :: road where
  "init_road =
     \<lparr>job_count = replicate 4 0, start_point_list = replicate 20 0, passed_list = replicate 10 0,
      waiting_list = replicate 20 0, pCount = replicate 4 0, progress = replicate 4 0, tick = 1,
      list_index = 0, passed_index = 0, waiting_index = 0, key = 0, start = 0, wher = 0,
      where_temp = 0, finish = replicate 4 False\<rparr>"

section \<open>The list of start points\<close>

text \<open>The loop of \<open>create_random_list\<close>; \<open>rand\<close> gives the results of the calls of \<open>rand()\<close>.\<close>

fun create_loop :: "(nat \<Rightarrow> int) \<Rightarrow> nat list \<Rightarrow> road \<Rightarrow> string \<Rightarrow> (road \<times> string) res" where
  "create_loop rand [] st out = Inr (st, out)"
| "create_loop rand (i # is) st out =
     (let start_point = c_mod (rand i) 4 + 1 in
      bindR (aset (start_point_list st) (int i) start_point) (\<lambda>sl.
      bindR (aget (pCount st) (start_point - 1)) (\<lambda>c.
      bindR (aset (pCount st) (start_point - 1) (c + 1)) (\<lambda>pc.
        create_loop rand is (st\<lparr>start_point_list := sl, pCount := pc\<rparr>)
          (out @ show_int start_point @ '' '')))))"

definition create_random_list :: "int \<Rightarrow> (nat \<Rightarrow> int) \<Rightarrow> road \<Rightarrow> (road \<times> string) res" where
  "create_random_list vehicles rand st =
     bindR (create_loop rand [0..<nat vehicles] st
         (''Total number of vehicles : '' @ ''Start point : ''))
       (\<lambda>(st', out). Inr (st', out @ nl @ nl))"

text \<open>\<open>create_thread\<close>: the five results of \<open>pthread_create\<close>; the first failure exits.\<close>

fun create_thread :: "int list \<Rightarrow> unit res" where
  "create_thread [] = Inr ()"
| "create_thread (r # rs) = (if r \<noteq> 0 then Inl (Exit 1) else create_thread rs)"

section \<open>Output\<close>

definition print_nonzero :: "int list \<Rightarrow> string" where
  "print_nonzero xs = concat (map (\<lambda>x. if x \<noteq> 0 then show_int x @ '' '' else []) xs)"

definition rule_line :: string where
  "rule_line = nl @ replicate 29 (CHR ''='') @ nl"

definition print_progress :: "road \<Rightarrow> road \<times> string" where
  "print_progress st =
     (st\<lparr>tick := tick st + 1\<rparr>,
      ''tick : '' @ show_int (tick st) @ rule_line @
      ''Passed Vehicle'' @ nl @ ''Car '' @ print_nonzero (passed_list st) @
      nl @ ''Waiting Vehicle'' @ nl @ ''Car '' @ print_nonzero (waiting_list st) @ rule_line)"

definition print_result :: "road \<Rightarrow> string res" where
  "print_result st =
     bindR (aget (pCount st) 0) (\<lambda>p1. bindR (aget (pCount st) 1) (\<lambda>p2.
     bindR (aget (pCount st) 2) (\<lambda>p3. bindR (aget (pCount st) 3) (\<lambda>p4.
       Inr (''Number of vehicles passed from each start point'' @ nl @
            ''P1 : '' @ show_int p1 @ '' times'' @ nl @ ''P2 : '' @ show_int p2 @ '' times'' @ nl @
            ''P3 : '' @ show_int p3 @ '' times'' @ nl @ ''P4 : '' @ show_int p4 @ '' times'' @ nl @
            ''Total time : '' @ show_int (tick st - 1) @ '' ticks'' @ nl)))))"

section \<open>The four car threads\<close>

text \<open>
  The body of the loop of \<open>job1\<close> to \<open>job4\<close> between waking up and signalling \<open>cond0\<close>, for the
  start point \<open>p\<close>: the car moves, then the thread sees whether it was the last one. The flag
  says that the thread leaves its loop.
\<close>

definition job_move :: "int \<Rightarrow> road \<Rightarrow> road res" where
  "job_move p st =
     bindR (aget (progress st) (p - 1)) (\<lambda>c0.
     let c = c0 + 1 in
     if c = 1 then
       bindR (aset (progress st) (p - 1) c) (\<lambda>pr. Inr (st\<lparr>progress := pr, wher := p\<rparr>))
     else if c = 2 then
       bindR (aset (passed_list st) (passed_index st) p) (\<lambda>pl.
       bindR (aget (job_count st) (p - 1)) (\<lambda>n.
       bindR (aset (job_count st) (p - 1) (n + 1)) (\<lambda>jc.
       bindR (aset (progress st) (p - 1) 0) (\<lambda>pr.
         Inr (st\<lparr>passed_list := pl, passed_index := passed_index st + 1, job_count := jc,
                 progress := pr, wher := 0\<rparr>)))))
     else bindR (aset (progress st) (p - 1) c) (\<lambda>pr. Inr (st\<lparr>progress := pr\<rparr>)))"

definition job_check :: "int \<Rightarrow> road \<Rightarrow> (road \<times> bool) res" where
  "job_check p st =
     bindR (aget (job_count st) (p - 1)) (\<lambda>n.
     bindR (aget (pCount st) (p - 1)) (\<lambda>m.
       if n = m then bindR (aset (finish st) (p - 1) True) (\<lambda>f. Inr (st\<lparr>finish := f\<rparr>, True))
       else Inr (st, False)))"

definition job_body :: "int \<Rightarrow> road \<Rightarrow> (road \<times> bool) res" where
  "job_body p st = bindR (job_move p st) (job_check p)"

definition job1 :: "road \<Rightarrow> (road \<times> bool) res" where "job1 = job_body 1"
definition job2 :: "road \<Rightarrow> (road \<times> bool) res" where "job2 = job_body 2"
definition job3 :: "road \<Rightarrow> (road \<times> bool) res" where "job3 = job_body 3"
definition job4 :: "road \<Rightarrow> (road \<times> bool) res" where "job4 = job_body 4"

text \<open>The function the thread of start point \<open>p\<close> runs.\<close>

definition job :: "int \<Rightarrow> road \<Rightarrow> (road \<times> bool) res" where
  "job p = (if p = 1 then job1 else if p = 2 then job2 else if p = 3 then job3 else job4)"

text \<open>The test at the start of each car thread: a start point without cars ends at once.\<close>

definition job_enter :: "int \<Rightarrow> road \<Rightarrow> (road \<times> bool) res" where
  "job_enter p st =
     bindR (aget (pCount st) (p - 1)) (\<lambda>m.
       if m = 0 then bindR (aset (finish st) (p - 1) True) (\<lambda>f. Inr (st\<lparr>finish := f\<rparr>, True))
       else Inr (st, False))"

section \<open>The managing thread\<close>

definition facing :: "int \<Rightarrow> int \<Rightarrow> bool" where
  "facing w c \<longleftrightarrow> (w = 1 \<and> c = 3) \<or> (w = 2 \<and> c = 4) \<or> (w = 3 \<and> c = 1) \<or> (w = 4 \<and> c = 2)"

text \<open>The first index of the waiting list with a property.\<close>

fun first_index :: "(int \<Rightarrow> bool) \<Rightarrow> int list \<Rightarrow> nat \<Rightarrow> nat option" where
  "first_index P [] i = None"
| "first_index P (x # xs) i = (if P x then Some i else first_index P xs (Suc i))"

text \<open>The head of the loop of \<open>job0\<close> after the pause: clear the passed cars, take the next start point.\<close>

definition job0_next :: "road \<Rightarrow> road res" where
  "job0_next st =
     (let st1 = st\<lparr>passed_index := 0, passed_list := replicate 10 0\<rparr> in
      bindR (aget (start_point_list st1) (list_index st1)) (\<lambda>s.
      let st2 = st1\<lparr>start := s, list_index := list_index st1 + 1\<rparr> in
      if s > 0 then
        bindR (aset (waiting_list st2) (waiting_index st2) s)
          (\<lambda>wl. Inr (st2\<lparr>waiting_list := wl, waiting_index := waiting_index st2 + 1\<rparr>))
      else Inr st2))"

text \<open>\<open>if (temp) { where = where_temp; temp = false; }\<close>\<close>

definition job0_where :: "bool \<Rightarrow> road \<Rightarrow> road" where
  "job0_where temp st = (if temp then st\<lparr>wher := where_temp st\<rparr> else st)"

text \<open>The two loops over the waiting list: a facing car if there is one, else the first car.\<close>

definition job0_pick :: "road \<Rightarrow> road \<times> nat option" where
  "job0_pick st =
     (case first_index (facing (wher st)) (waiting_list st) 0 of
        Some i \<Rightarrow> (st\<lparr>key := waiting_list st ! i, waiting_list := (waiting_list st)[i := 0]\<rparr>, Some i)
      | None \<Rightarrow>
          (case first_index (\<lambda>x. x > 0) (waiting_list st) 0 of
             Some i \<Rightarrow> (st\<lparr>key := waiting_list st ! i, waiting_list := (waiting_list st)[i := 0]\<rparr>, Some i)
           | None \<Rightarrow> (st\<lparr>key := 0\<rparr>, None)))"

text \<open>
  What the \<open>switch\<close> asks for: nothing, one signal, or a signal, a wait and a second signal.
\<close>

datatype command = NoSignal | Signal int | SignalTwo int int

definition put_back :: "nat option \<Rightarrow> road \<Rightarrow> road res" where
  "put_back idx st =
     (case idx of
        None \<Rightarrow> Inl Uninitialised
      | Some i \<Rightarrow>
          bindR (aset (waiting_list st) (int i) (key st)) (\<lambda>wl. Inr (st\<lparr>waiting_list := wl\<rparr>)))"

definition job0_switch :: "nat option \<Rightarrow> road \<Rightarrow> (road \<times> command) res" where
  "job0_switch idx st =
     (if wher st = 0 then
        Inr (st, if key st \<in> {1, 2, 3, 4} then Signal (key st) else NoSignal)
      else if wher st \<in> {1, 2, 3, 4} then
        if facing (wher st) (key st) then Inr (st, SignalTwo (key st) (wher st))
        else if key st \<in> {1, 2, 3, 4} then
          bindR (put_back idx st) (\<lambda>st'. Inr (st', Signal (wher st)))
        else Inr (st, Signal (wher st))
      else Inr (st, NoSignal))"

definition all_finished :: "road \<Rightarrow> bool" where
  "all_finished st \<longleftrightarrow> finish st ! 0 \<and> finish st ! 1 \<and> finish st ! 2 \<and> finish st ! 3"

text \<open>
  One iteration from the pause to the first signal: \<open>None\<close> when the thread leaves its loop.
\<close>

definition job0_turn :: "bool \<Rightarrow> road \<Rightarrow> (road \<times> command option) res" where
  "job0_turn temp st =
     bindR (job0_next st) (\<lambda>st1.
     case job0_pick (job0_where temp st1) of (st2, idx) \<Rightarrow>
       if all_finished st2 then Inr (st2, None)
       else bindR (job0_switch idx st2) (\<lambda>(st3, c). Inr (st3, Some c)))"

text \<open>\<open>where_temp = where\<close> after the inner wait.\<close>

definition save_where :: "road \<Rightarrow> road" where
  "save_where st = st\<lparr>where_temp := wher st\<rparr>"

section \<open>Main\<close>

text \<open>\<open>start = start_point_list[list_index++]\<close> and the signal to that car thread.\<close>

definition main_start :: "road \<Rightarrow> (road \<times> command) res" where
  "main_start st =
     bindR (aget (start_point_list st) (list_index st)) (\<lambda>s.
       Inr (st\<lparr>start := s, list_index := list_index st + 1\<rparr>,
            if s \<in> {1, 2, 3, 4} then Signal s else NoSignal))"

end
