(* ===== verification/Intersection_Run.thy ===== *)
theory Intersection_Run
  imports Intersection "HOL-Library.Multiset"
begin

text \<open>
  The intersection program run the way it hands control over: \<open>job0\<close> signals one car thread, waits
  on \<open>cond0\<close>, and goes on when that thread has signalled back. A signal to a thread that has
  left its loop wakes nobody, so \<open>job0\<close> then waits for ever. This is one order of the threads, in
  which no signal is lost: \<open>Intersection_Schedule\<close> shows that it is an interleaving, and
  \<open>Intersection_Orderly\<close> that every interleaving that loses no signal ends like it.

  The second half gives the traffic rules as an abstract machine on a queue of cars: as the
  relation the exercise asks for, and as the function of the choice the program makes.
\<close>

section \<open>One hand-over after the other\<close>

definition wake :: "int \<Rightarrow> road \<Rightarrow> road res" where
  "wake p st =
     bindR (aget (finish st) (p - 1)) (\<lambda>gone.
       if gone then Inl Deadlock else bindR (job p st) (\<lambda>(st', _). Inr st'))"

definition run_command :: "command \<Rightarrow> road \<Rightarrow> (bool \<times> road) res" where
  "run_command c st =
     (case c of
        NoSignal \<Rightarrow> Inl Deadlock
      | Signal p \<Rightarrow> bindR (wake p st) (\<lambda>st'. Inr (False, st'))
      | SignalTwo p q \<Rightarrow>
          bindR (wake p st) (\<lambda>st'. bindR (wake q (save_where st')) (\<lambda>st''. Inr (True, st''))))"

lemma job_body_frame:
  "job_body p st = Inr (st', b) \<Longrightarrow>
     start_point_list st' = start_point_list st \<and> list_index st' = list_index st"
  by (auto simp: job_body_def job_move_def job_check_def Let_def elim!: bindR_InrE split: if_split_asm)

lemma wake_frame:
  "wake p st = Inr st' \<Longrightarrow>
     start_point_list st' = start_point_list st \<and> list_index st' = list_index st"
  by (auto simp: wake_def job_def job1_def job2_def job3_def job4_def elim!: bindR_InrE
      dest!: job_body_frame split: if_split_asm)

lemma run_command_frame:
  "run_command c st = Inr (t, st') \<Longrightarrow>
     start_point_list st' = start_point_list st \<and> list_index st' = list_index st"
  by (auto simp: run_command_def bindR_Inr_iff save_where_def dest!: wake_frame split: command.splits)

lemma job0_next_frame:
  "job0_next st = Inr st' \<Longrightarrow>
     start_point_list st' = start_point_list st \<and> list_index st' = list_index st + 1
     \<and> 0 \<le> list_index st \<and> list_index st < int (length (start_point_list st))"
  by (auto simp: job0_next_def Let_def bindR_Inr_iff arr_simps split: if_splits)

lemma job0_pick_frame:
  "job0_pick st = (st', i) \<Longrightarrow>
     start_point_list st' = start_point_list st \<and> list_index st' = list_index st"
  by (auto simp: job0_pick_def split: option.splits)

lemma job0_switch_frame:
  "job0_switch i st = Inr (st', c) \<Longrightarrow>
     start_point_list st' = start_point_list st \<and> list_index st' = list_index st"
  by (auto simp: job0_switch_def put_back_def bindR_Inr_iff split: option.splits if_splits)

lemma job0_turn_frame:
  assumes "job0_turn temp st = Inr (st', c)"
  shows "start_point_list st' = start_point_list st \<and> list_index st' = list_index st + 1
    \<and> 0 \<le> list_index st \<and> list_index st < int (length (start_point_list st))"
proof -
  have w: "start_point_list (job0_where temp s) = start_point_list s"
    "list_index (job0_where temp s) = list_index s" for s
    by (simp_all add: job0_where_def)
  from assms show ?thesis
    by (auto simp: job0_turn_def w elim!: bindR_InrE split: prod.split_asm if_split_asm
        dest!: job0_next_frame job0_pick_frame job0_switch_frame)
qed

text \<open>
  The loop of \<open>job0\<close> after its first wait. Every turn reads one more entry of
  \<open>start_point_list\<close>, so the loop ends.
\<close>

function job0_run :: "bool \<Rightarrow> road \<Rightarrow> string \<Rightarrow> (road \<times> string) res" where
  "job0_run temp st out =
     bindR (job0_turn temp (fst (print_progress st))) (\<lambda>(st1, c).
       case c of
         None \<Rightarrow> Inr (st1, out @ snd (print_progress st))
       | Some c \<Rightarrow>
           bindR (run_command c st1)
             (\<lambda>(t, st2). job0_run t st2 (out @ snd (print_progress st))))"
  by pat_completeness auto
termination
  by (relation "measure (\<lambda>(t, st, out). nat (int (length (start_point_list st)) - list_index st))")
    (auto dest!: job0_turn_frame run_command_frame simp: print_progress_def)

declare job0_run.simps [simp del]

text \<open>The car threads up to their first wait.\<close>

fun enter_all :: "int list \<Rightarrow> road \<Rightarrow> road res" where
  "enter_all [] st = Inr st"
| "enter_all (p # ps) st = bindR (job_enter p st) (\<lambda>(st', _). enter_all ps st')"

text \<open>
  \<open>main\<close> in this order: \<open>input\<close> is the standard input, \<open>rand\<close> the results of \<open>rand()\<close> and \<open>created\<close> those of
  \<open>pthread_create\<close>. A failed \<open>scanf\<close> leaves \<open>vehicles\<close> at 0.
\<close>

definition read_vehicles :: "string \<Rightarrow> int" where
  "read_vehicles input = (case scan_d input of ScanOk v _ \<Rightarrow> v | _ \<Rightarrow> 0)"

definition program_main ::
  "string \<Rightarrow> (nat \<Rightarrow> int) \<Rightarrow> int list \<Rightarrow> (road \<times> string) res" where
  "program_main input rand created =
     bindR (create_random_list (read_vehicles input) rand init_road) (\<lambda>(st, out).
     bindR (create_thread created) (\<lambda>_.
     bindR (enter_all [1, 2, 3, 4] st) (\<lambda>st1.
     bindR (main_start st1) (\<lambda>(st2, c).
     bindR (run_command c st2) (\<lambda>(t, st3).
     bindR (job0_run t st3 out) (\<lambda>(st4, out').
     bindR (print_result st4) (\<lambda>r. Inr (st4, out' @ r))))))))"

section \<open>The traffic rules\<close>

text \<open>
  Cars wait in a queue, at most one car is left on the crossing at the end of a turn, and
  \<open>gone\<close> lists the cars that have passed.
\<close>

record traffic =
  queue :: "int list"
  on_road :: int
  upcoming :: "int list"
  gone :: "int list"

definition opposite :: "int \<Rightarrow> int" where
  "opposite w = (if w = 1 then 3 else if w = 2 then 4 else if w = 3 then 1 else if w = 4 then 2 else w)"

text \<open>
  A turn: the next car joins the queue. An empty crossing takes the first car. A car on the
  crossing leaves it, and the first waiting car from the opposite side, if any, takes its place.
\<close>

definition traffic_arrive :: "traffic \<Rightarrow> traffic" where
  "traffic_arrive a = a\<lparr>queue := queue a @ take 1 (upcoming a), upcoming := drop 1 (upcoming a)\<rparr>"

definition traffic_cross :: "traffic \<Rightarrow> traffic" where
  "traffic_cross a =
     (if on_road a = 0 then a\<lparr>queue := tl (queue a), on_road := hd (queue a)\<rparr>
      else if opposite (on_road a) \<in> set (queue a) then
        a\<lparr>queue := remove1 (opposite (on_road a)) (queue a), on_road := opposite (on_road a),
          gone := gone a @ [on_road a]\<rparr>
      else a\<lparr>on_road := 0, gone := gone a @ [on_road a]\<rparr>)"

definition traffic_turn :: "traffic \<Rightarrow> traffic" where
  "traffic_turn a = traffic_cross (traffic_arrive a)"

definition traffic_over :: "traffic \<Rightarrow> bool" where
  "traffic_over a \<longleftrightarrow> queue a = [] \<and> upcoming a = [] \<and> on_road a = 0"

definition traffic_work :: "traffic \<Rightarrow> nat" where
  "traffic_work a = 2 * (length (queue a) + length (upcoming a)) + of_bool (on_road a \<noteq> 0)"

lemma traffic_work_le:
  assumes "\<not> traffic_over a"
  shows "traffic_work (traffic_turn a) < traffic_work a"
proof (cases "upcoming a")
  case Nil
  with assms show ?thesis
    by (auto simp: traffic_work_def traffic_turn_def traffic_arrive_def traffic_cross_def traffic_over_def Let_def length_remove1
        dest: length_pos_if_in_set) (cases "queue a"; simp)+
next
  case (Cons c u)
  then show ?thesis
    by (auto simp: traffic_work_def traffic_turn_def traffic_arrive_def traffic_cross_def Let_def length_remove1
        dest: length_pos_if_in_set)
qed

text \<open>The state after the last turn, and the number of turns, the last one included.\<close>

function traffic_run :: "traffic \<Rightarrow> traffic" where
  "traffic_run a = (if traffic_over a then a else traffic_run (traffic_turn a))"
  by pat_completeness auto
termination by (relation "measure traffic_work") (simp_all add: traffic_work_le)

function traffic_ticks :: "traffic \<Rightarrow> nat" where
  "traffic_ticks a = (if traffic_over a then 1 else Suc (traffic_ticks (traffic_turn a)))"
  by pat_completeness auto
termination by (relation "measure traffic_work") (simp_all add: traffic_work_le)

declare traffic_run.simps [simp del] traffic_ticks.simps [simp del]

definition traffic_start :: "int list \<Rightarrow> traffic" where
  "traffic_start xs = \<lparr>queue = [], on_road = hd xs, upcoming = tl xs, gone = []\<rparr>"

text \<open>
  The rules as the exercise states them leave the choice open: an empty crossing takes any of the
  waiting cars. A car from the opposite side may follow the car that leaves; no other car may.
\<close>

inductive crossing_rule :: "traffic \<Rightarrow> traffic \<Rightarrow> bool" where
  rule_enter: "on_road a = 0 \<Longrightarrow> p \<in> set (queue a) \<Longrightarrow>
     crossing_rule a (a\<lparr>queue := remove1 p (queue a), on_road := p\<rparr>)"
| rule_follow: "on_road a \<noteq> 0 \<Longrightarrow> p = opposite (on_road a) \<Longrightarrow> p \<in> set (queue a) \<Longrightarrow>
     crossing_rule a (a\<lparr>queue := remove1 p (queue a), on_road := p, gone := gone a @ [on_road a]\<rparr>)"
| rule_leave: "on_road a \<noteq> 0 \<Longrightarrow> opposite (on_road a) \<notin> set (queue a) \<Longrightarrow>
     crossing_rule a (a\<lparr>on_road := 0, gone := gone a @ [on_road a]\<rparr>)"

lemma cross_by_rule:
  assumes "on_road a = 0 \<Longrightarrow> queue a \<noteq> []"
  shows "crossing_rule a (traffic_cross a)"
proof (cases "on_road a = 0")
  case True
  with assms obtain p ps where "queue a = p # ps" by (cases "queue a") auto
  with True rule_enter [of a p] show ?thesis by (simp add: traffic_cross_def)
next
  case False
  with rule_follow [of a] rule_leave [of a] show ?thesis by (simp add: traffic_cross_def)
qed

lemma turn_by_rule: "\<not> traffic_over a \<Longrightarrow> crossing_rule (traffic_arrive a) (traffic_turn a)"
  unfolding traffic_turn_def
  by (rule cross_by_rule) (cases "upcoming a", auto simp: traffic_arrive_def traffic_over_def)

end
