(* ===== verification/Intersection_Refine.thy ===== *)
theory Intersection_Refine
  imports Intersection_Run
begin

text \<open>
  The simulation: how the shared variables of the program represent a state of the traffic rules,
  and that one turn of \<open>job0\<close> with the car threads it wakes is one turn of the rules.
\<close>

section \<open>Arrays indexed by start point\<close>

definition points :: "(int \<Rightarrow> 'a) \<Rightarrow> 'a list" where
  "points f = map f [1, 2, 3, 4]"

lemma points_cases: "p \<in> {1..4} \<longleftrightarrow> p = 1 \<or> p = 2 \<or> p = 3 \<or> p = (4::int)"
  by auto

lemma aget_points [arr_simps]: "p \<in> {1..4} \<Longrightarrow> aget (points f) (p - 1) = Inr (f p)"
  by (auto simp: points_def aget_def points_cases simp del: atLeastAtMost_iff)

lemma aset_points [arr_simps]:
  "p \<in> {1..4} \<Longrightarrow> aset (points f) (p - 1) v = Inr (points (f(p := v)))"
  by (auto simp: points_def aset_def points_cases simp del: atLeastAtMost_iff)

lemma replicate_points: "replicate 4 v = points (\<lambda>_. v)"
  by (simp add: points_def numeral_eq_Suc)

lemma points_eq_iff: "points f = points g \<longleftrightarrow> (\<forall>p \<in> {1..4}. f p = g p)"
  by (auto simp: points_def points_cases simp del: atLeastAtMost_iff)

section \<open>The waiting list\<close>

abbreviation waiting :: "int list \<Rightarrow> int list" where
  "waiting xs \<equiv> filter (\<lambda>x. x \<noteq> 0) xs"

lemma first_index_None_iff: "first_index P xs k = None \<longleftrightarrow> (\<forall>x \<in> set xs. \<not> P x)"
  by (induction xs arbitrary: k) auto

lemma first_index_SomeD:
  "first_index P xs k = Some i \<Longrightarrow>
     \<exists>ys x zs. xs = ys @ x # zs \<and> P x \<and> (\<forall>y \<in> set ys. \<not> P y) \<and> i = k + length ys"
proof (induction xs arbitrary: k)
  case Nil
  then show ?case by simp
next
  case (Cons a xs)
  show ?case
  proof (cases "P a")
    case True
    with Cons.prems show ?thesis by (intro exI [of _ "[]"]) auto
  next
    case False
    with Cons.prems have "first_index P xs (Suc k) = Some i" by simp
    from Cons.IH [OF this] obtain ys x zs where
      "xs = ys @ x # zs \<and> P x \<and> (\<forall>y \<in> set ys. \<not> P y) \<and> i = Suc k + length ys" by blast
    with False show ?thesis by (intro exI [of _ "a # ys"] exI [of _ x] exI [of _ zs]) auto
  qed
qed

lemma first_index_remove1:
  assumes "first_index (\<lambda>x. x = v) xs 0 = Some i" and "v \<noteq> 0"
  shows "i < length xs" and "xs ! i = v" and "waiting (xs[i := 0]) = remove1 v (waiting xs)"
  using first_index_SomeD [OF assms(1)] assms(2)
  by (auto simp: list_update_append nth_append remove1_append)

lemma first_index_tl:
  assumes "first_index (\<lambda>x. x > 0) xs 0 = Some i" and "\<forall>x \<in> set xs. 0 \<le> x"
  shows "i < length xs" and "xs ! i = hd (waiting xs)" and "waiting (xs[i := 0]) = tl (waiting xs)"
    and "waiting xs \<noteq> []"
proof -
  from first_index_SomeD [OF assms(1)] obtain ys x zs where
    s: "xs = ys @ x # zs" "x > 0" "\<forall>y \<in> set ys. \<not> y > 0" "i = length ys" by auto
  with assms(2) have "waiting ys = []" by (force simp: filter_empty_conv)
  with s show "i < length xs" and "xs ! i = hd (waiting xs)"
    and "waiting (xs[i := 0]) = tl (waiting xs)" and "waiting xs \<noteq> []"
    by (auto simp: list_update_append nth_append)
qed

lemma waiting_append:
  assumes "i < length xs" and "\<forall>j. i \<le> j \<and> j < length xs \<longrightarrow> xs ! j = 0" and "v \<noteq> 0"
  shows "waiting (xs[i := v]) = waiting xs @ [v]"
proof -
  have "\<forall>x \<in> set (drop i xs). x = 0"
    using assms(1,2) by (auto simp: in_set_conv_nth)
  then have d: "waiting (drop i xs) = []" "waiting (drop (Suc i) xs) = []"
    using set_drop_subset_set_drop [of i "Suc i" xs] by (auto simp: filter_empty_conv)
  have "xs = take i xs @ drop i xs" by simp
  then have "waiting xs = waiting (take i xs)"
    using d(1) by (metis append_Nil2 filter_append)
  with d(2) assms(1,3) show ?thesis by (simp add: upd_conv_take_nth_drop)
qed

lemma facing_opposite: "w \<in> {1..4} \<Longrightarrow> facing w = (\<lambda>x. x = opposite w)"
  by (auto simp: facing_def opposite_def points_cases fun_eq_iff simp del: atLeastAtMost_iff)

lemma opposite_point: "w \<in> {1..4} \<Longrightarrow> opposite w \<in> {1..4} \<and> opposite w \<noteq> w"
  by (auto simp: opposite_def)

lemma not_facing_zero: "facing 0 = (\<lambda>x. False)"
  by (auto simp: facing_def)

section \<open>The simulation relation\<close>

text \<open>The cars \<open>xs\<close> of the run, and where each of them is.\<close>

definition traffic_inv :: "int list \<Rightarrow> traffic \<Rightarrow> bool" where
  "traffic_inv xs a \<longleftrightarrow>
     mset (queue a) + mset (upcoming a) + mset (gone a)
       + (if on_road a = 0 then {#} else {#on_road a#}) = mset xs"

definition represents :: "int list \<Rightarrow> bool \<Rightarrow> road \<Rightarrow> traffic \<Rightarrow> bool" where
  "represents xs temp st a \<longleftrightarrow>
     set xs \<subseteq> {1..4} \<and> length xs \<le> 20 \<and> traffic_inv xs a
     \<and> start_point_list st = xs @ replicate (20 - length xs) 0
     \<and> 1 \<le> list_index st \<and> upcoming a = drop (nat (list_index st)) xs
     \<and> length (waiting_list st) = 20 \<and> queue a = waiting (waiting_list st)
     \<and> waiting_index st = min (list_index st) (int (length xs)) - 1
     \<and> (\<forall>j. nat (waiting_index st) \<le> j \<and> j < 20 \<longrightarrow> waiting_list st ! j = 0)
     \<and> on_road a = (if temp then where_temp st else wher st)
     \<and> progress st = points (\<lambda>p. of_bool (on_road a = p))
     \<and> job_count st = points (\<lambda>p. int (count_list (gone a) p))
     \<and> pCount st = points (\<lambda>p. int (count_list xs p))
     \<and> finish st = points (\<lambda>p. count_list (gone a) p = count_list xs p)"

lemma inv_count:
  assumes "traffic_inv xs a"
  shows "count_list xs p = count_list (queue a) p + count_list (upcoming a) p + count_list (gone a) p
    + of_bool (on_road a \<noteq> 0 \<and> on_road a = p)"
proof -
  have "count (mset xs) p = count (mset (queue a) + mset (upcoming a) + mset (gone a)
       + (if on_road a = 0 then {#} else {#on_road a#})) p"
    using assms by (simp add: traffic_inv_def)
  then show ?thesis by (auto simp: count_mset)
qed

lemma inv_busy:
  assumes "traffic_inv xs a" and "p \<in> set (queue a) \<or> (on_road a = p \<and> p \<noteq> 0)"
  shows "count_list (gone a) p < count_list xs p"
proof -
  have "p \<in> set (queue a) \<Longrightarrow> 0 < count_list (queue a) p"
    by (metis count_list_0_iff gr0I)
  with assms(2) inv_count [OF assms(1), of p] show ?thesis by auto
qed

lemma inv_points:
  assumes "traffic_inv xs a" and "set xs \<subseteq> {1..4}"
  shows "set (queue a) \<subseteq> {1..4}" and "set (upcoming a) \<subseteq> {1..4}" and "on_road a \<in> {0..4}"
proof -
  have "set_mset (mset (queue a) + mset (upcoming a) + mset (gone a)
      + (if on_road a = 0 then {#} else {#on_road a#})) = set_mset (mset xs)"
    using assms(1) by (simp add: traffic_inv_def)
  then have "set (queue a) \<union> set (upcoming a) \<union> set (gone a)
      \<union> (if on_road a = 0 then {} else {on_road a}) = set xs"
    by (auto split: if_splits)
  with assms(2) show "set (queue a) \<subseteq> {1..4}" and "set (upcoming a) \<subseteq> {1..4}" and "on_road a \<in> {0..4}"
    by (auto split: if_splits)
qed

section \<open>Car threads\<close>

lemma job_is_body: "p \<in> {1..4} \<Longrightarrow> job p = job_body p"
  by (auto simp: job_def job1_def job2_def job3_def job4_def points_cases simp del: atLeastAtMost_iff)

lemma wake_enter:
  assumes "p \<in> {1..4}" and "progress st = points f" and "f p = 0"
    and "job_count st = points g" and "pCount st = points h" and "g p \<noteq> h p"
    and "finish st = points fin" and "\<not> fin p"
  shows "wake p st = Inr (st\<lparr>progress := points (f(p := 1)), wher := p\<rparr>)"
  using assms
  by (simp add: wake_def job_is_body job_body_def job_move_def job_check_def arr_simps)

lemma wake_leave:
  assumes "p \<in> {1..4}" and "progress st = points f" and "f p = 1"
    and "job_count st = points g" and "pCount st = points h"
    and "finish st = points fin" and "\<not> fin p"
    and "0 \<le> passed_index st" and "passed_index st < int (length (passed_list st))"
  shows "wake p st = Inr (st\<lparr>passed_list := (passed_list st)[nat (passed_index st) := p],
      passed_index := passed_index st + 1, job_count := points (g(p := g p + 1)),
      progress := points (f(p := 0)), wher := 0,
      finish := points (fin(p := (g p + 1 = h p)))\<rparr>)"
proof -
  have pl: "aset (passed_list st) (passed_index st) p =
      Inr ((passed_list st)[nat (passed_index st) := p])"
    using assms(8,9) by (simp add: aset_def)
  have same: "st'\<lparr>finish := points (fin(p := False))\<rparr> = st'" if "finish st' = points fin" for st' :: road
    using assms(7) that by (cases st') (auto simp: points_eq_iff)
  show ?thesis
  proof (cases "g p + 1 = h p")
    case True
    with assms show ?thesis
      by (simp add: wake_def job_is_body job_body_def job_move_def job_check_def arr_simps pl)
  next
    case False
    with assms(1-7) show ?thesis
      by (simp add: wake_def job_is_body job_body_def job_move_def job_check_def arr_simps
          pl same)
  qed
qed

section \<open>A turn\<close>

lemma arrive_inv: "traffic_inv xs (traffic_arrive a) \<longleftrightarrow> traffic_inv xs a"
proof -
  have "mset (take 1 (upcoming a)) + mset (drop 1 (upcoming a)) = mset (upcoming a)"
    by (metis append_take_drop_id mset_append)
  then show ?thesis
    by (simp add: traffic_inv_def traffic_arrive_def add.assoc)
qed

lemma cross_inv:
  assumes "traffic_inv xs a" and "on_road a = 0 \<Longrightarrow> queue a \<noteq> [] \<and> 0 \<notin> set (queue a)"
    and "opposite (on_road a) \<noteq> 0 \<or> on_road a = 0"
  shows "traffic_inv xs (traffic_cross a)"
proof (cases "on_road a = 0")
  case True
  with assms(2) have "mset (queue a) = add_mset (hd (queue a)) (mset (tl (queue a)))"
    and "hd (queue a) \<noteq> 0"
    by (cases "queue a"; auto)+
  with True assms(1) show ?thesis by (simp add: traffic_inv_def traffic_cross_def)
next
  case False
  let ?o = "opposite (on_road a)"
  have q: "mset (queue a) = add_mset ?o (mset (remove1 ?o (queue a)))" if "?o \<in> set (queue a)"
    using that by simp
  from False assms(1,3) show ?thesis
    by (cases "?o \<in> set (queue a)")
      (simp_all add: traffic_inv_def traffic_cross_def q add_mset_commute del: mset_remove1)
qed

lemma represents_next:
  assumes r: "represents xs temp st a" and li: "list_index st < 20"
  obtains st1 where "job0_next st = Inr st1"
    and "represents xs False (job0_where temp st1) (traffic_arrive a)"
    and "passed_index st1 = 0" and "passed_list st1 = replicate 10 0"
    and "list_index st1 = list_index st + 1" and "tick st1 = tick st"
proof (cases "list_index st < int (length xs)")
  case True
  let ?s = "xs ! nat (list_index st)"
  let ?wl = "(waiting_list st)[nat (waiting_index st) := ?s]"
  have lt: "nat (list_index st) < length xs" using True r by (auto simp: represents_def)
  have "set xs \<subseteq> {1..4}" using r by (simp add: represents_def)
  with nth_mem [OF lt] have s: "?s \<in> {1..4}" by blast
  have g: "aget (start_point_list st) (list_index st) = Inr ?s"
    using lt r li by (simp add: represents_def aget_def nth_append)
  have wi: "0 \<le> waiting_index st" "waiting_index st < 20" "waiting_index st = list_index st - 1"
    using r True li by (auto simp: represents_def)
  have w: "aset (waiting_list st) (waiting_index st) ?s = Inr ?wl"
    using wi r by (simp add: represents_def aset_def)
  have q: "waiting ?wl = waiting (waiting_list st) @ [?s]"
    using r wi(1,2) s by (intro waiting_append) (auto simp: represents_def)
  have z: "\<forall>j. nat (list_index st) \<le> j \<and> j < 20 \<longrightarrow> ?wl ! j = 0"
    using r wi by (auto simp: represents_def nth_list_update)
  have u: "take 1 (drop (nat (list_index st)) xs) = [?s]"
    using lt by (simp add: take_Suc_conv_app_nth Cons_nth_drop_Suc [symmetric])
  have ni: "nat (list_index st + 1) = Suc (nat (list_index st))"
    using r by (auto simp: represents_def)
  let ?st1 = "st\<lparr>passed_index := 0, passed_list := replicate 10 0, start := ?s,
      list_index := list_index st + 1, waiting_list := ?wl, waiting_index := waiting_index st + 1\<rparr>"
  have "job0_next st = Inr ?st1"
    using g w s by (simp add: job0_next_def)
  moreover have "represents xs False (job0_where temp ?st1) (traffic_arrive a)"
    using r q z u wi True ni arrive_inv [of xs a]
    by (simp add: represents_def job0_where_def traffic_arrive_def drop_Suc drop_tl)
  ultimately show ?thesis by (rule that) simp_all
next
  case False
  let ?st1 = "st\<lparr>passed_index := 0, passed_list := replicate 10 0, start := 0,
      list_index := list_index st + 1\<rparr>"
  have g: "aget (start_point_list st) (list_index st) = Inr 0"
    using r li False by (auto simp: represents_def aget_def nth_append)
  have u: "drop (nat (list_index st)) xs = []" "drop (nat (list_index st + 1)) xs = []"
    using False by auto
  have "job0_next st = Inr ?st1" using g by (simp add: job0_next_def)
  moreover have "represents xs False (job0_where temp ?st1) (traffic_arrive a)"
    using r u False arrive_inv [of xs a]
    by (simp add: represents_def job0_where_def traffic_arrive_def)
  ultimately show ?thesis by (rule that) simp_all
qed

lemma represents_over:
  assumes r: "represents xs temp st a"
  shows "all_finished st \<longleftrightarrow> traffic_over a"
proof -
  have inv: "traffic_inv xs a" and xs: "set xs \<subseteq> {1..4}"
    and fin: "finish st = points (\<lambda>p. count_list (gone a) p = count_list xs p)"
    using r by (simp_all add: represents_def)
  have "all_finished st \<longleftrightarrow> (\<forall>p \<in> {1..4}. count_list (gone a) p = count_list xs p)"
    using fin by (auto simp: all_finished_def points_def points_cases simp del: atLeastAtMost_iff)
  also have "\<dots> \<longleftrightarrow> (\<forall>p \<in> {1..4}. p \<notin> set (queue a) \<and> p \<notin> set (upcoming a) \<and> on_road a \<noteq> p)"
    by (rule ball_cong) (auto simp: inv_count [OF inv] count_list_0_iff)
  also have "\<dots> \<longleftrightarrow> traffic_over a"
  proof
    assume l: "\<forall>p \<in> {1..4}. p \<notin> set (queue a) \<and> p \<notin> set (upcoming a) \<and> on_road a \<noteq> p"
    have "queue a = []" using l inv_points(1) [OF inv xs] by (cases "queue a") auto
    moreover have "upcoming a = []" using l inv_points(2) [OF inv xs] by (cases "upcoming a") auto
    moreover have "on_road a = 0" using l inv_points(3) [OF inv xs] by force
    ultimately show "traffic_over a" by (simp add: traffic_over_def)
  qed (auto simp: traffic_over_def)
  finally show ?thesis .
qed

text \<open>The outcome of a turn after the arrival, from the choice of the car to the last signal.\<close>

definition crosses :: "int list \<Rightarrow> road \<Rightarrow> traffic \<Rightarrow> bool" where
  "crosses xs st a \<longleftrightarrow>
     (\<exists>st2 i st3 c t st4. job0_pick st = (st2, i) \<and> finish st2 = finish st
        \<and> job0_switch i st2 = Inr (st3, c) \<and> run_command c st3 = Inr (t, st4)
        \<and> represents xs t st4 (traffic_cross a) \<and> list_index st4 = list_index st \<and> tick st4 = tick st)"

lemma cross_empty_road:
  assumes r: "represents xs False st a" and z: "on_road a = 0" and q: "queue a \<noteq> []"
  shows "crosses xs st a"
proof -
  have inv: "traffic_inv xs a" and xs: "set xs \<subseteq> {1..4}" and wq: "queue a = waiting (waiting_list st)"
    and wh: "wher st = 0"
    using r z by (simp_all add: represents_def)
  have wl: "\<forall>x \<in> set (waiting_list st). 0 \<le> x"
    using inv_points(1) [OF inv xs] by (force simp: wq)
  obtain x where x: "x \<in> set (waiting_list st)" "x \<noteq> 0"
    using q by (auto simp: wq filter_empty_conv)
  with wl have "0 < x" by force
  with x(1) have "first_index (\<lambda>x. x > 0) (waiting_list st) 0 \<noteq> None"
    by (auto simp: first_index_None_iff)
  then obtain i where i: "first_index (\<lambda>x. x > 0) (waiting_list st) 0 = Some i" by auto
  note f = first_index_tl [OF i wl]
  have k: "hd (queue a) \<in> {1..4}" using q inv_points(1) [OF inv xs] hd_in_set by blast
  let ?k = "hd (queue a)"
  let ?st2 = "st\<lparr>key := ?k, waiting_list := (waiting_list st)[i := 0]\<rparr>"
  have pick: "job0_pick st = (?st2, Some i)"
    using f(2) i by (simp add: job0_pick_def wh not_facing_zero first_index_None_iff [THEN iffD2] wq)
  have sw: "job0_switch (Some i) ?st2 = Inr (?st2, Signal ?k)"
    using k wh by (auto simp: job0_switch_def)
  have busy: "count_list (gone a) ?k < count_list xs ?k" by (rule inv_busy [OF inv]) (simp add: q)
  have "wake ?k ?st2 = Inr (?st2\<lparr>progress := points ((\<lambda>p. of_bool (on_road a = p))(?k := 1)), wher := ?k\<rparr>)"
    using r busy k z by (intro wake_enter) (auto simp: represents_def)
  moreover have "points ((\<lambda>p. of_bool (on_road a = p) :: int)(?k := 1)) = points (\<lambda>p. of_bool (?k = p))"
    using z by (auto simp: points_eq_iff)
  ultimately have run: "run_command (Signal ?k) ?st2 =
      Inr (False, ?st2\<lparr>progress := points (\<lambda>p. of_bool (?k = p)), wher := ?k\<rparr>)"
    by (simp add: run_command_def)
  have zn: "0 \<notin> set (queue a)" by (simp add: wq)
  have "represents xs False (?st2\<lparr>progress := points (\<lambda>p. of_bool (?k = p)), wher := ?k\<rparr>) (traffic_cross a)"
    using r f cross_inv [OF inv] zn q z
    by (auto simp: represents_def traffic_cross_def nth_list_update)
  with pick sw run show ?thesis unfolding crosses_def by force
qed

lemma cross_facing:
  assumes r: "represents xs False st a" and w: "on_road a \<noteq> 0"
    and o: "opposite (on_road a) \<in> set (queue a)"
    and pi: "passed_index st = 0" and pl: "passed_list st = replicate 10 0"
  shows "crosses xs st a"
proof -
  let ?w = "on_road a"
  let ?o = "opposite ?w"
  have inv: "traffic_inv xs a" and xs: "set xs \<subseteq> {1..4}" and wq: "queue a = waiting (waiting_list st)"
    and wh: "wher st = ?w"
    using r by (simp_all add: represents_def)
  have w4: "?w \<in> {1..4}" using w inv_points(3) [OF inv xs] by auto
  have o4: "?o \<in> {1..4}" "?o \<noteq> ?w" using opposite_point [OF w4] by auto
  have "first_index (\<lambda>x. x = ?o) (waiting_list st) 0 \<noteq> None"
    using o by (auto simp: first_index_None_iff wq)
  then obtain i where i: "first_index (\<lambda>x. x = ?o) (waiting_list st) 0 = Some i" by auto
  have o0: "?o \<noteq> 0" using o4 by auto
  note f = first_index_remove1 [OF i o0]
  let ?st2 = "st\<lparr>key := ?o, waiting_list := (waiting_list st)[i := 0]\<rparr>"
  have pick: "job0_pick st = (?st2, Some i)"
    using f(2) i by (simp add: job0_pick_def wh facing_opposite [OF w4])
  have sw: "job0_switch (Some i) ?st2 = Inr (?st2, SignalTwo ?o ?w)"
    using w4 wh w facing_opposite [OF w4] by (auto simp: job0_switch_def)
  have busy: "count_list (gone a) ?o < count_list xs ?o" "count_list (gone a) ?w < count_list xs ?w"
    using inv_busy [OF inv, of ?o] inv_busy [OF inv, of ?w] o w by auto
  let ?f = "(\<lambda>p. of_bool (?w = p) :: int)(?o := 1)"
  let ?st3 = "?st2\<lparr>progress := points ?f, wher := ?o\<rparr>"
  let ?g = "\<lambda>p. int (count_list (gone a) p)"
  let ?fin = "\<lambda>p. count_list (gone a) p = count_list xs p"
  have run1: "wake ?o ?st2 = Inr ?st3"
    using r busy o4
    by (subst wake_enter [where f = "\<lambda>p. of_bool (?w = p)" and g = ?g
          and h = "\<lambda>p. int (count_list xs p)" and fin = ?fin])
      (auto simp: represents_def)
  let ?st4 = "(save_where ?st3)\<lparr>passed_list := (replicate 10 0)[0 := ?w], passed_index := 1,
      job_count := points (?g(?w := ?g ?w + 1)), progress := points (?f(?w := 0)), wher := 0,
      finish := points (?fin(?w := (?g ?w + 1 = int (count_list xs ?w))))\<rparr>"
  have run2: "wake ?w (save_where ?st3) = Inr ?st4"
    using r busy w4 o4 pi pl
    by (subst wake_leave [where f = ?f and g = ?g and h = "\<lambda>p. int (count_list xs p)" and fin = ?fin])
      (auto simp: represents_def save_where_def)
  have "points (?f(?w := 0)) = points (\<lambda>p. of_bool (?o = p))"
    using o4 by (auto simp: points_eq_iff)
  then have "represents xs True ?st4 (traffic_cross a)"
    using r f cross_inv [OF inv] w o o0 o4(2)
    by (auto simp: represents_def traffic_cross_def nth_list_update save_where_def points_eq_iff)
  with pick sw run1 run2 show ?thesis unfolding crosses_def
    by (intro exI [of _ ?st2] exI [of _ "Some i"] exI [of _ "SignalTwo ?o ?w"] exI [of _ True]
        exI [of _ ?st4]) (simp add: run_command_def save_where_def)
qed

lemma pick_put_back:
  assumes wl: "\<forall>x \<in> set (waiting_list st). 0 \<le> x \<and> x \<le> 4 \<and> \<not> facing (wher st) x"
    and w: "wher st \<in> {1..4}"
  obtains k st2 i where "job0_pick st = (st2, i)" and "finish st2 = finish st"
    and "job0_switch i st2 = Inr (st\<lparr>key := k\<rparr>, Signal (wher st))"
proof -
  have nf: "first_index (facing (wher st)) (waiting_list st) 0 = None"
    using wl by (simp add: first_index_None_iff)
  have f0: "\<not> facing (wher st) 0" by (simp add: facing_def)
  show ?thesis
  proof (cases "first_index (\<lambda>x. x > 0) (waiting_list st) 0")
    case None
    with nf have "job0_pick st = (st\<lparr>key := 0\<rparr>, None)" by (simp add: job0_pick_def)
    moreover have "job0_switch None (st\<lparr>key := 0\<rparr>) = Inr (st\<lparr>key := 0\<rparr>, Signal (wher st))"
      using w f0 by (auto simp: job0_switch_def)
    ultimately show ?thesis by (intro that) simp_all
  next
    case (Some i)
    let ?k = "waiting_list st ! i"
    let ?st2 = "st\<lparr>key := ?k, waiting_list := (waiting_list st)[i := 0]\<rparr>"
    from first_index_SomeD [OF Some] have i: "i < length (waiting_list st)" and k: "0 < ?k" by auto
    have k': "?k \<in> {1, 2, 3, 4}" "\<not> facing (wher st) ?k" using k wl nth_mem [OF i] by auto
    have "job0_pick st = (?st2, Some i)" using Some nf by (simp add: job0_pick_def)
    moreover have "job0_switch (Some i) ?st2 = Inr (st\<lparr>key := ?k\<rparr>, Signal (wher st))"
      using w k' i by (auto simp: job0_switch_def put_back_def arr_simps)
    ultimately show ?thesis by (intro that) simp_all
  qed
qed

lemma cross_alone:
  assumes r: "represents xs False st a" and w: "on_road a \<noteq> 0"
    and o: "opposite (on_road a) \<notin> set (queue a)"
    and pi: "passed_index st = 0" and pl: "passed_list st = replicate 10 0"
  shows "crosses xs st a"
proof -
  let ?w = "on_road a"
  have inv: "traffic_inv xs a" and xs: "set xs \<subseteq> {1..4}" and wq: "queue a = waiting (waiting_list st)"
    and wh: "wher st = ?w"
    using r by (simp_all add: represents_def)
  have w4: "?w \<in> {1..4}" using w inv_points(3) [OF inv xs] by auto
  have "x = 0 \<or> (1 \<le> x \<and> x \<le> 4 \<and> x \<noteq> opposite ?w)" if "x \<in> set (waiting_list st)" for x
    using that o inv_points(1) [OF inv xs] by (auto simp: wq)
  moreover have "opposite ?w \<noteq> 0" using opposite_point [OF w4] by auto
  ultimately have "\<forall>x \<in> set (waiting_list st). 0 \<le> x \<and> x \<le> 4 \<and> \<not> facing (wher st) x"
    by (force simp: wh facing_opposite [OF w4])
  then obtain k st2 i where pick: "job0_pick st = (st2, i)" "finish st2 = finish st"
    and sw: "job0_switch i st2 = Inr (st\<lparr>key := k\<rparr>, Signal (wher st))"
    using pick_put_back w4 wh by metis
  have busy: "count_list (gone a) ?w < count_list xs ?w"
    using inv_busy [OF inv, of ?w] w by auto
  let ?f = "\<lambda>p. of_bool (?w = p) :: int"
  let ?g = "\<lambda>p. int (count_list (gone a) p)"
  let ?fin = "\<lambda>p. count_list (gone a) p = count_list xs p"
  let ?st4 = "st\<lparr>key := k, passed_list := (replicate 10 0)[0 := ?w], passed_index := 1,
      job_count := points (?g(?w := ?g ?w + 1)), progress := points (?f(?w := 0)), wher := 0,
      finish := points (?fin(?w := (?g ?w + 1 = int (count_list xs ?w))))\<rparr>"
  have run: "wake ?w (st\<lparr>key := k\<rparr>) = Inr ?st4"
    using r busy w4 pi pl
    by (subst wake_leave [where f = ?f and g = ?g and h = "\<lambda>p. int (count_list xs p)" and fin = ?fin])
      (auto simp: represents_def)
  have "points (?f(?w := 0)) = points (\<lambda>p. of_bool (0 = p))"
    by (auto simp: points_eq_iff)
  moreover have "opposite ?w \<noteq> 0" using opposite_point [OF w4] by auto
  ultimately have "represents xs False ?st4 (traffic_cross a)"
    using r cross_inv [OF inv] w o
    by (auto simp: represents_def traffic_cross_def points_eq_iff)
  with pick sw run wh show ?thesis unfolding crosses_def
    by (intro exI [of _ st2] exI [of _ i] exI [of _ "st\<lparr>key := k\<rparr>"] exI [of _ "Signal ?w"]
        exI [of _ False] exI [of _ ?st4]) (simp add: run_command_def)
qed

lemma represents_cross:
  assumes "represents xs False st a" and "\<not> traffic_over a" and "upcoming a = [] \<or> queue a \<noteq> []"
    and "passed_index st = 0" and "passed_list st = replicate 10 0"
  shows "crosses xs st a"
  using assms cross_empty_road [of xs st a] cross_facing [of xs st a] cross_alone [of xs st a]
  by (auto simp: traffic_over_def)

lemma arrive_over: "traffic_over (traffic_arrive a) \<longleftrightarrow> traffic_over a"
  by (cases "upcoming a") (auto simp: traffic_over_def traffic_arrive_def)

lemma represents_turn:
  assumes r: "represents xs temp st a" and li: "list_index st < 20" and n: "\<not> traffic_over a"
  obtains st3 c t st4 where "job0_turn temp st = Inr (st3, Some c)" and "run_command c st3 = Inr (t, st4)"
    and "represents xs t st4 (traffic_turn a)"
    and "list_index st4 = list_index st + 1" and "tick st4 = tick st"
proof -
  from represents_next [OF r li] obtain st1 where
    nx: "job0_next st = Inr st1" and r1: "represents xs False (job0_where temp st1) (traffic_arrive a)"
    and p1: "passed_index st1 = 0" "passed_list st1 = replicate 10 0"
    and f1: "list_index st1 = list_index st + 1" "tick st1 = tick st" by metis
  let ?st1 = "job0_where temp st1"
  have n1: "\<not> traffic_over (traffic_arrive a)" using n by (simp add: arrive_over)
  have "crosses xs ?st1 (traffic_arrive a)"
    using r1 n1 by (rule represents_cross)
      (auto simp: p1 job0_where_def traffic_arrive_def neq_Nil_conv, cases "upcoming a", auto)
  then obtain st2 i st3 c t st4 where pick: "job0_pick ?st1 = (st2, i)" "finish st2 = finish ?st1"
    and sw: "job0_switch i st2 = Inr (st3, c)" and run: "run_command c st3 = Inr (t, st4)"
    and r4: "represents xs t st4 (traffic_cross (traffic_arrive a))"
    and f4: "list_index st4 = list_index ?st1" "tick st4 = tick ?st1"
    unfolding crosses_def by blast
  have "\<not> all_finished st2"
    using n1 represents_over [OF r1] pick(2) by (simp add: all_finished_def)
  then have "job0_turn temp st = Inr (st3, Some c)"
    using nx pick(1) sw by (simp add: job0_turn_def)
  moreover have "represents xs t st4 (traffic_turn a)" using r4 by (simp add: traffic_turn_def)
  moreover have "list_index st4 = list_index st + 1" "tick st4 = tick st"
    using f1 f4 by (simp_all add: job0_where_def)
  ultimately show ?thesis using run that by blast
qed

lemma represents_last:
  assumes r: "represents xs temp st a" and li: "list_index st < 20" and n: "traffic_over a"
  obtains st2 where "job0_turn temp st = Inr (st2, None)" and "tick st2 = tick st"
    and "job_count st2 = points (\<lambda>p. int (count_list xs p))" and "pCount st2 = points (\<lambda>p. int (count_list xs p))"
proof -
  from represents_next [OF r li] obtain st1 where
    nx: "job0_next st = Inr st1" and r1: "represents xs False (job0_where temp st1) (traffic_arrive a)"
    and t1: "tick st1 = tick st" by metis
  let ?st1 = "job0_where temp st1"
  obtain st2 i where pick: "job0_pick ?st1 = (st2, i)" by fastforce
  then have same: "finish st2 = finish ?st1" "job_count st2 = job_count ?st1" "pCount st2 = pCount ?st1"
    "tick st2 = tick ?st1"
    by (auto simp: job0_pick_def split: option.splits)
  have o: "traffic_over (traffic_arrive a)" using n by (simp add: arrive_over)
  have "all_finished st2"
    using o represents_over [OF r1] same(1) by (simp add: all_finished_def)
  then have "job0_turn temp st = Inr (st2, None)"
    using nx pick by (simp add: job0_turn_def)
  moreover have "count_list xs p = count_list (gone a) p" for p
    using n r inv_count [of xs a p] by (simp add: represents_def traffic_over_def)
  ultimately show ?thesis
    using r1 same t1 by (intro that) (auto simp: represents_def traffic_arrive_def job0_where_def)
qed

lemma represents_out:
  assumes "represents xs temp st a" and "20 \<le> list_index st"
  shows "job0_turn temp st = Inl OutOfBounds"
  using assms by (simp add: represents_def job0_turn_def job0_next_def aget_def)

lemma represents_print: "represents xs temp (fst (print_progress st)) a \<longleftrightarrow> represents xs temp st a"
  by (simp add: represents_def print_progress_def)

lemma print_progress_fields:
  "list_index (fst (print_progress st)) = list_index st" "tick (fst (print_progress st)) = tick st + 1"
  by (simp_all add: print_progress_def)

section \<open>A whole run\<close>

lemma job0_run_refines:
  assumes "represents xs temp st a"
  shows "if list_index st + int (traffic_ticks a) \<le> 20
    then \<exists>st' out'. job0_run temp st out = Inr (st', out')
      \<and> job_count st' = points (\<lambda>p. int (count_list xs p)) \<and> pCount st' = points (\<lambda>p. int (count_list xs p))
      \<and> tick st' = tick st + int (traffic_ticks a)
    else job0_run temp st out = Inl OutOfBounds"
  using assms
proof (induction a arbitrary: temp st out rule: traffic_run.induct)
  case (1 a)
  let ?st = "fst (print_progress st)"
  have r: "represents xs temp ?st a" using 1(2) by (simp add: represents_print)
  consider "20 \<le> list_index st" | "list_index st < 20" "traffic_over a"
    | "list_index st < 20" "\<not> traffic_over a" by linarith
  then show ?case
  proof cases
    case 1
    then have "job0_turn temp ?st = Inl OutOfBounds"
      using represents_out [OF r] by (simp add: print_progress_fields)
    with 1 show ?thesis
      by (subst traffic_ticks.simps, subst job0_run.simps) auto
  next
    case 2
    then have "list_index ?st < 20" by (simp add: print_progress_fields)
    from represents_last [OF r this 2(2)] obtain st2 where "job0_turn temp ?st = Inr (st2, None)"
      "tick st2 = tick st + 1" "job_count st2 = points (\<lambda>p. int (count_list xs p))"
      "pCount st2 = points (\<lambda>p. int (count_list xs p))"
      by (metis print_progress_fields(2))
    moreover have "traffic_ticks a = 1" using 2 by (simp add: traffic_ticks.simps)
    ultimately show ?thesis using 2 by (subst job0_run.simps) auto
  next
    case 3
    then have "list_index ?st < 20" by (simp add: print_progress_fields)
    from represents_turn [OF r this 3(2)] obtain st3 c t st4 where
      t: "job0_turn temp ?st = Inr (st3, Some c)" "run_command c st3 = Inr (t, st4)"
      and r4: "represents xs t st4 (traffic_turn a)"
      and f: "list_index st4 = list_index st + 1" "tick st4 = tick st + 1"
      by (metis print_progress_fields)
    have tk: "traffic_ticks a = Suc (traffic_ticks (traffic_turn a))"
      using 3 by (simp add: traffic_ticks.simps)
    have "job0_run temp st out = job0_run t st4 (out @ snd (print_progress st))"
      using t by (subst job0_run.simps) simp
    with 1(1) [OF 3(2) r4, of "out @ snd (print_progress st)"] f tk show ?thesis
      by (simp add: add.assoc add.left_commute [of 1] split: if_splits)
  qed
qed

lemma ticks_bounds: "traffic_ticks a \<le> traffic_work a + 1 \<and> traffic_work a + 2 \<le> 2 * traffic_ticks a"
proof (induction a rule: traffic_run.induct)
  case (1 a)
  show ?case
  proof (cases "traffic_over a")
    case True
    then have "traffic_work a = 0" by (simp add: traffic_over_def traffic_work_def)
    with True show ?thesis by (simp add: traffic_ticks.simps)
  next
    case False
    have "length (take 1 (upcoming a)) + length (drop 1 (upcoming a)) = length (upcoming a)"
      by (metis append_take_drop_id length_append)
    moreover have "opposite (on_road a) \<noteq> 0" if "on_road a \<noteq> 0"
      using that by (simp add: opposite_def)
    ultimately have "traffic_work a \<le> traffic_work (traffic_turn a) + 2"
      by (auto simp: traffic_work_def traffic_turn_def traffic_arrive_def traffic_cross_def
          length_remove1)
    with False 1 [OF False] traffic_work_le [OF False] show ?thesis
      by (simp add: traffic_ticks.simps [of a])
  qed
qed

text \<open>The start points the program draws.\<close>

definition drawn :: "(nat \<Rightarrow> int) \<Rightarrow> nat \<Rightarrow> int list" where
  "drawn rand n = map (\<lambda>i. c_mod (rand i) 4 + 1) [0..<n]"

lemma drawn_points: "\<forall>i. 0 \<le> rand i \<Longrightarrow> set (drawn rand n) \<subseteq> {1..4}"
  by (auto simp: drawn_def c_mod_nonneg)

lemma drawn_simps [simp]: "length (drawn rand n) = n" "i < n \<Longrightarrow> drawn rand n ! i = c_mod (rand i) 4 + 1"
  "take i (drawn rand n) = drawn rand (min i n)"
  by (simp_all add: drawn_def take_map take_upt min_def)

lemma drawn_Suc: "drawn rand (Suc n) = drawn rand n @ [c_mod (rand n) 4 + 1]"
  by (simp add: drawn_def)

lemma create_loop_draws:
  assumes nn: "\<forall>i. 0 \<le> rand i"
  shows "i + k \<le> 20 \<Longrightarrow> start_point_list st = drawn rand i @ replicate (20 - i) 0 \<Longrightarrow>
    pCount st = points (\<lambda>p. int (count_list (drawn rand i) p)) \<Longrightarrow>
    \<exists>out'. create_loop rand [i..<i + k] st out =
      Inr (st\<lparr>start_point_list := drawn rand (i + k) @ replicate (20 - (i + k)) 0,
              pCount := points (\<lambda>p. int (count_list (drawn rand (i + k)) p))\<rparr>, out')"
proof (induction k arbitrary: i st out)
  case 0
  then show ?case by (cases st) simp
next
  case (Suc k)
  let ?s = "c_mod (rand i) 4 + 1"
  let ?sl = "drawn rand (Suc i) @ replicate (20 - Suc i) 0"
  let ?pc = "points (\<lambda>p. int (count_list (drawn rand (Suc i)) p))"
  have s4: "?s \<in> {1..4}" using drawn_points [of rand "Suc i"] nn by (simp add: drawn_Suc)
  have rep: "replicate (20 - i) (0::int) = 0 # replicate (20 - Suc i) 0"
    using Suc.prems(1) Suc_diff_Suc [of i 20] by (simp flip: replicate_Suc)
  have "aset (start_point_list st) (int i) ?s = Inr ?sl"
    using Suc.prems(1,2) by (simp add: rep aset_def list_update_append drawn_Suc)
  moreover have "aset (pCount st) (?s - 1) (int (count_list (drawn rand i) ?s) + 1) = Inr ?pc"
    using s4 Suc.prems(3) by (simp only: aset_points) (auto simp: points_eq_iff drawn_Suc)
  moreover have "aget (pCount st) (?s - 1) = Inr (int (count_list (drawn rand i) ?s))"
    using s4 Suc.prems(3) by (simp only: aget_points)
  moreover have "[i..<i + Suc k] = i # [Suc i..<Suc i + k]" by (simp add: upt_conv_Cons)
  ultimately have "create_loop rand [i..<i + Suc k] st out =
      create_loop rand [Suc i..<Suc i + k] (st\<lparr>start_point_list := ?sl, pCount := ?pc\<rparr>)
        (out @ show_int ?s @ '' '')"
    by (simp add: Let_def del: upt.simps add_diff_cancel)
  with Suc.IH [of "Suc i" "st\<lparr>start_point_list := ?sl, pCount := ?pc\<rparr>"] Suc.prems(1) show ?case
    by simp
qed

lemma created:
  assumes "\<forall>i. 0 \<le> rand i" and "n \<le> 20"
  obtains out where "create_random_list (int n) rand init_road =
    Inr (init_road\<lparr>start_point_list := drawn rand n @ replicate (20 - n) 0,
                   pCount := points (\<lambda>p. int (count_list (drawn rand n) p))\<rparr>, out)"
proof -
  have "start_point_list init_road = drawn rand 0 @ replicate (20 - 0) 0"
    "pCount init_road = points (\<lambda>p. int (count_list (drawn rand 0) p))"
    by (simp_all add: init_road_def drawn_def points_def numeral_eq_Suc)
  from create_loop_draws [OF assms(1) _ this, where k = n] assms(2) obtain out where
    "create_loop rand [0..<n] init_road (''Total number of vehicles : '' @ ''Start point : '') =
      Inr (init_road\<lparr>start_point_list := drawn rand n @ replicate (20 - n) 0,
        pCount := points (\<lambda>p. int (count_list (drawn rand n) p))\<rparr>, out)"
    by (metis add_0)
  then show ?thesis by (intro that) (simp add: create_random_list_def)
qed

lemma enter_points:
  assumes "p \<in> {1..4}" and "pCount st = points h" and "finish st = points f"
  shows "job_enter p st = Inr (st\<lparr>finish := points (f(p := (h p = 0 \<or> f p)))\<rparr>, h p = 0)"
proof -
  have "h p \<noteq> 0 \<Longrightarrow> points (f(p := f p)) = points f" by simp
  with assms show ?thesis by (auto simp: job_enter_def arr_simps)
qed

lemma entered:
  assumes "pCount st = points h" and "finish st = points (\<lambda>_. False)"
  shows "enter_all [1, 2, 3, 4] st = Inr (st\<lparr>finish := points (\<lambda>p. h p = 0)\<rparr>)"
proof -
  have "points ((\<lambda>_. False)(1 := h 1 = 0, 2 := h 2 = 0, 3 := h 3 = 0, 4 := h 4 = 0)) = points (\<lambda>p. h p = 0)"
    by (auto simp: points_eq_iff points_cases simp del: atLeastAtMost_iff)
  with assms show ?thesis by (simp add: enter_points [where h = h])
qed

lemma started:
  assumes xs: "set xs \<subseteq> {1..4}" and n: "1 \<le> length xs" "length xs \<le> 20"
    and st: "st = init_road\<lparr>start_point_list := xs @ replicate (20 - length xs) 0,
        pCount := points (\<lambda>p. int (count_list xs p)), finish := points (\<lambda>p. int (count_list xs p) = 0)\<rparr>"
  obtains st2 st3 where "main_start st = Inr (st2, Signal (hd xs))"
    and "run_command (Signal (hd xs)) st2 = Inr (False, st3)"
    and "represents xs False st3 (traffic_start xs)" and "list_index st3 = 1" and "tick st3 = 1"
proof -
  let ?s = "hd xs"
  let ?st2 = "st\<lparr>start := ?s, list_index := 1\<rparr>"
  let ?st3 = "?st2\<lparr>progress := points (\<lambda>p. of_bool (?s = p)), wher := ?s\<rparr>"
  have ne: "xs \<noteq> []" using n by auto
  then have s: "?s \<in> {1..4}" using xs hd_in_set by blast
  have "aget (start_point_list st) (list_index st) = Inr ?s"
    using n by (cases xs) (auto simp: st init_road_def aget_def nth_append)
  then have m: "main_start st = Inr (?st2, Signal ?s)"
    using s by (auto simp: main_start_def st init_road_def)
  have "wake ?s ?st2 = Inr (?st2\<lparr>progress := points ((\<lambda>_. 0)(?s := 1)), wher := ?s\<rparr>)"
  proof (rule wake_enter)
    have "count_list xs ?s \<noteq> 0" using ne by (simp add: count_list_0_iff)
    then show "0 \<noteq> int (count_list xs ?s)" "\<not> int (count_list xs ?s) = 0" by auto
  qed (use s in \<open>auto simp: st init_road_def points_def numeral_eq_Suc\<close>)
  moreover have "points ((\<lambda>_. 0)(?s := 1)) = points (\<lambda>p. of_bool (?s = p) :: int)"
    by (auto simp: points_eq_iff)
  ultimately have run: "run_command (Signal ?s) ?st2 = Inr (False, ?st3)"
    by (simp add: run_command_def)
  have "traffic_inv xs (traffic_start xs)"
    using ne s by (cases xs) (auto simp: traffic_inv_def traffic_start_def)
  then have "represents xs False ?st3 (traffic_start xs)"
    using xs n by (auto simp: represents_def traffic_start_def st init_road_def replicate_points
        drop_Suc)
  with m run show ?thesis by (rule that) (simp_all add: st init_road_def)
qed

end
