(* ===== verification/Intersection_Threads.thy ===== *)
theory Intersection_Threads
  imports Intersection_Refine
begin

text \<open>
  The intersection program with its six threads interleaved: \<open>main\<close>, the managing thread
  \<open>job0\<close> and the car threads \<open>job1\<close> to \<open>job4\<close>. A signal wakes a thread that waits on the condition
  variable and is lost otherwise. In these steps a wait ends by a signal only; returns without one
  are the steps of their own that \<open>Intersection_Wakeups\<close> adds. A step runs a thread from one
  synchronisation call to the next. \<open>sleep\<close> takes any time, so it does not order threads.
\<close>

section \<open>Threads\<close>

text \<open>Where \<open>job0\<close> goes on after a wait on \<open>cond0\<close>: the next turn with \<open>temp\<close>, or the second signal.\<close>

datatype cont = ToTick bool | ToSecond int

datatype mpc = MPre cont | MWait cont | MRun cont | MSig command bool | MDone

datatype jpc = JStart | JPre | JWait | JRun | JSig bool | JDone

datatype apc = AStart | ASig command | AJoin | ADone

record config =
  vars :: road
  boss :: apc
  mgr :: mpc
  cars :: "int \<Rightarrow> jpc"
  error :: "c_error option"

definition fail :: "c_error \<Rightarrow> config \<Rightarrow> config" where
  "fail e c = c\<lparr>error := Some e\<rparr>"

text \<open>\<open>pthread_cond_signal\<close> on the condition variable of a car thread, and on \<open>cond0\<close>.\<close>

definition signal_car :: "int \<Rightarrow> config \<Rightarrow> config" where
  "signal_car p c = (if cars c p = JWait then c\<lparr>cars := (cars c)(p := JRun)\<rparr> else c)"

definition signal_mgr :: "config \<Rightarrow> config" where
  "signal_mgr c = (case mgr c of MWait k \<Rightarrow> c\<lparr>mgr := MRun k\<rparr> | _ \<Rightarrow> c)"

definition signal_command :: "command \<Rightarrow> config \<Rightarrow> config" where
  "signal_command cmd c =
     (case cmd of NoSignal \<Rightarrow> c | Signal p \<Rightarrow> signal_car p c | SignalTwo p q \<Rightarrow> signal_car p c)"

section \<open>Steps\<close>

text \<open>
  The result of the next step of a thread, \<open>None\<close> when it waits or has ended. \<open>main\<close> joins the
  threads after its signal.
\<close>

definition boss_step :: "config \<Rightarrow> config option" where
  "boss_step c =
     (case boss c of
        AStart \<Rightarrow>
          (case main_start (vars c) of
             Inl e \<Rightarrow> Some (fail e c)
           | Inr (st, cmd) \<Rightarrow> Some (c\<lparr>vars := st, boss := ASig cmd\<rparr>))
      | ASig cmd \<Rightarrow> Some (signal_command cmd (c\<lparr>boss := AJoin\<rparr>))
      | AJoin \<Rightarrow>
          (if mgr c = MDone \<and> cars c 1 = JDone \<and> cars c 2 = JDone \<and> cars c 3 = JDone \<and> cars c 4 = JDone
           then Some (c\<lparr>boss := ADone\<rparr>) else None)
      | ADone \<Rightarrow> None)"

definition mgr_step :: "config \<Rightarrow> config option" where
  "mgr_step c =
     (case mgr c of
        MPre k \<Rightarrow> Some (c\<lparr>mgr := MWait k\<rparr>)
      | MWait k \<Rightarrow> None
      | MRun (ToTick temp) \<Rightarrow>
          (case job0_turn temp (fst (print_progress (vars c))) of
             Inl e \<Rightarrow> Some (fail e c)
           | Inr (st, None) \<Rightarrow> Some (c\<lparr>vars := st, mgr := MDone\<rparr>)
           | Inr (st, Some cmd) \<Rightarrow> Some (c\<lparr>vars := st, mgr := MSig cmd False\<rparr>))
      | MRun (ToSecond q) \<Rightarrow> Some (c\<lparr>vars := save_where (vars c), mgr := MSig (Signal q) True\<rparr>)
      | MSig (SignalTwo p q) temp \<Rightarrow>
          Some (signal_command (SignalTwo p q) (c\<lparr>mgr := MPre (ToSecond q)\<rparr>))
      | MSig cmd temp \<Rightarrow> Some (signal_command cmd (c\<lparr>mgr := MPre (ToTick temp)\<rparr>))
      | MDone \<Rightarrow> None)"

definition car_step :: "int \<Rightarrow> config \<Rightarrow> config option" where
  "car_step p c =
     (case cars c p of
        JStart \<Rightarrow>
          (case job_enter p (vars c) of
             Inl e \<Rightarrow> Some (fail e c)
           | Inr (st, out) \<Rightarrow> Some (c\<lparr>vars := st, cars := (cars c)(p := if out then JDone else JPre)\<rparr>))
      | JPre \<Rightarrow> Some (c\<lparr>cars := (cars c)(p := JWait)\<rparr>)
      | JWait \<Rightarrow> None
      | JRun \<Rightarrow>
          (case job p (vars c) of
             Inl e \<Rightarrow> Some (fail e c)
           | Inr (st, out) \<Rightarrow> Some (c\<lparr>vars := st, cars := (cars c)(p := JSig out)\<rparr>))
      | JSig out \<Rightarrow> Some (signal_mgr (c\<lparr>cars := (cars c)(p := if out then JDone else JPre)\<rparr>))
      | JDone \<Rightarrow> None)"

datatype actor = Boss | Manager | Car int

definition actor_step :: "actor \<Rightarrow> config \<Rightarrow> config option" where
  "actor_step t c =
     (if error c \<noteq> None then None
      else case t of
        Boss \<Rightarrow> boss_step c
      | Manager \<Rightarrow> mgr_step c
      | Car p \<Rightarrow> if 1 \<le> p \<and> p \<le> 4 then car_step p c else None)"

definition initial_config :: "road \<Rightarrow> config" where
  "initial_config st =
     \<lparr>vars = st, boss = AStart, mgr = MPre (ToTick False), cars = \<lambda>_. JStart, error = None\<rparr>"

text \<open>The threads start after \<open>create_random_list\<close>, whose result is \<open>st\<close>.\<close>

inductive reachable :: "road \<Rightarrow> config \<Rightarrow> bool" for st where
  reachable_init: "reachable st (initial_config st)"
| reachable_step: "reachable st c \<Longrightarrow> actor_step t c = Some c' \<Longrightarrow> reachable st c'"

inductive_cases reachableE: "reachable st c"

fun schedule :: "actor list \<Rightarrow> config \<Rightarrow> config option" where
  "schedule [] c = Some c"
| "schedule (t # ts) c = (case actor_step t c of None \<Rightarrow> None | Some c' \<Rightarrow> schedule ts c')"

lemma schedule_reachable:
  "reachable st c \<Longrightarrow> schedule ts c = Some c' \<Longrightarrow> reachable st c'"
  by (induction ts arbitrary: c) (auto split: option.splits intro: reachable_step)

lemma schedule_append:
  "schedule (ts @ us) c = (case schedule ts c of None \<Rightarrow> None | Some c' \<Rightarrow> schedule us c')"
  by (induction ts arbitrary: c) (auto split: option.splits)

text \<open>No thread can go on although \<open>main\<close> has not passed its joins.\<close>

definition stuck :: "config \<Rightarrow> bool" where
  "stuck c \<longleftrightarrow> error c = None \<and> boss c \<noteq> ADone \<and> boss_step c = None \<and> mgr_step c = None
     \<and> (\<forall>p \<in> {1..4}. car_step p c = None)"

section \<open>One thread at a time\<close>

definition holds_boss :: "config \<Rightarrow> bool" where
  "holds_boss c \<longleftrightarrow> boss c = AStart \<or> (\<exists>cmd. boss c = ASig cmd)"

definition holds_mgr :: "config \<Rightarrow> bool" where
  "holds_mgr c \<longleftrightarrow> (\<exists>k. mgr c = MRun k) \<or> (\<exists>cmd t. mgr c = MSig cmd t)"

definition holds_car :: "config \<Rightarrow> int \<Rightarrow> bool" where
  "holds_car c p \<longleftrightarrow> cars c p = JRun \<or> (\<exists>b. cars c p = JSig b)"

text \<open>
  At most one thread is between waking up and handing over: the only one that reads or writes
  the shared variables after the car threads' first test.
\<close>

definition one_runs :: "config \<Rightarrow> bool" where
  "one_runs c \<longleftrightarrow>
     (holds_boss c \<longrightarrow> \<not> holds_mgr c \<and> (\<forall>p. \<not> holds_car c p))
     \<and> (holds_mgr c \<longrightarrow> (\<forall>p. \<not> holds_car c p))
     \<and> (\<forall>p q. holds_car c p \<and> holds_car c q \<longrightarrow> p = q)"

lemmas holds_defs = holds_boss_def holds_mgr_def holds_car_def

lemma one_runs_signal:
  assumes "\<not> holds_boss c" and "\<not> holds_mgr c" and "\<forall>p. \<not> holds_car c p"
  shows "one_runs (signal_command cmd c)" and "one_runs (signal_mgr c)"
  using assms by (auto simp: one_runs_def holds_defs signal_command_def signal_car_def signal_mgr_def
      split: command.splits mpc.splits if_splits)

lemma one_runs_boss: "one_runs c \<Longrightarrow> boss_step c = Some c' \<Longrightarrow> one_runs c'"
  by (auto simp: boss_step_def fail_def intro!: one_runs_signal split: apc.splits sum.splits if_splits)
    (auto simp: one_runs_def holds_defs)

lemma one_runs_mgr: "one_runs c \<Longrightarrow> mgr_step c = Some c' \<Longrightarrow> one_runs c'"
  by (auto simp: mgr_step_def fail_def intro!: one_runs_signal
      split: mpc.splits cont.splits sum.splits option.splits command.splits)
    (auto simp: one_runs_def holds_defs)

lemma one_runs_car: "one_runs c \<Longrightarrow> car_step p c = Some c' \<Longrightarrow> one_runs c'"
  by (auto simp: car_step_def fail_def intro!: one_runs_signal split: jpc.splits sum.splits if_splits)
    (auto simp: one_runs_def holds_defs split: if_splits)

lemma one_runs_step: "one_runs c \<Longrightarrow> actor_step t c = Some c' \<Longrightarrow> one_runs c'"
  using one_runs_boss [of c c'] one_runs_mgr [of c c'] one_runs_car [of c _ c']
  by (simp add: actor_step_def split: actor.splits if_splits)

lemma one_runs_init: "one_runs (initial_config st)"
  by (simp add: initial_config_def one_runs_def holds_defs)

lemma one_runs_reachable: "reachable st c \<Longrightarrow> one_runs c"
  by (induction rule: reachable.induct) (auto intro: one_runs_init dest: one_runs_step)

section \<open>Cars on the crossing\<close>

text \<open>The start points whose car is on the crossing, one for each of the four.\<close>

definition crossing :: "int list \<Rightarrow> int set" where
  "crossing pr = {p \<in> {1..4}. pr ! nat (p - 1) \<noteq> 0}"

text \<open>All cars on the crossing drive on one road: two of them are opposite each other.\<close>

definition one_axis :: "road \<Rightarrow> bool" where
  "one_axis st \<longleftrightarrow> (\<forall>p \<in> crossing (progress st). \<forall>q \<in> crossing (progress st). q = p \<or> q = opposite p)"

definition single :: "int \<Rightarrow> road \<Rightarrow> bool" where
  "single w st \<longleftrightarrow> w \<in> {0..4} \<and> progress st = points (\<lambda>p. of_bool (p = w))"

definition double :: "int \<Rightarrow> road \<Rightarrow> bool" where
  "double w st \<longleftrightarrow> w \<in> {1..4} \<and> progress st = points (\<lambda>p. of_bool (p = w \<or> p = opposite w))"

lemma crossing_points: "crossing (points f) = {p \<in> {1..4}. f p \<noteq> 0}"
  by (auto simp: crossing_def points_def points_cases simp del: atLeastAtMost_iff)

lemma single_one_axis: "single w st \<Longrightarrow> one_axis st"
  by (auto simp: single_def one_axis_def crossing_points)

lemma double_one_axis: "double w st \<Longrightarrow> one_axis st"
  by (auto simp: double_def one_axis_def crossing_points opposite_def)

text \<open>What holds of the crossing when the thread that runs has got to a certain point.\<close>

definition before_signal :: "command \<Rightarrow> bool \<Rightarrow> road \<Rightarrow> bool" where
  "before_signal cmd temp st =
     (case cmd of
        NoSignal \<Rightarrow> one_axis st
      | Signal p \<Rightarrow> p \<in> {1..4} \<and>
          (if temp then double p st \<and> where_temp st = opposite p
           else (wher st = 0 \<and> single 0 st) \<or> (wher st = p \<and> single p st))
      | SignalTwo p q \<Rightarrow> q \<in> {1..4} \<and> p = opposite q \<and> single q st)"

definition before_car :: "cont \<Rightarrow> int \<Rightarrow> road \<Rightarrow> bool" where
  "before_car k p st =
     (case k of
        ToTick temp \<Rightarrow> before_signal (Signal p) temp st
      | ToSecond q \<Rightarrow> before_signal (SignalTwo p q) False st)"

definition after_car :: "cont \<Rightarrow> road \<Rightarrow> bool" where
  "after_car k st =
     (case k of
        ToTick temp \<Rightarrow> single (if temp then where_temp st else wher st) st
      | ToSecond q \<Rightarrow> double q st \<and> wher st = opposite q)"

definition crossing_inv :: "config \<Rightarrow> bool" where
  "crossing_inv c \<longleftrightarrow>
     length (progress (vars c)) = 4 \<and> one_axis (vars c)
     \<and> (boss c = AStart \<longrightarrow> wher (vars c) = 0 \<and> single 0 (vars c)
          \<and> (mgr c = MPre (ToTick False) \<or> mgr c = MWait (ToTick False)))
     \<and> (\<forall>cmd. boss c = ASig cmd \<longrightarrow> before_signal cmd False (vars c) \<and> (\<forall>p q. cmd \<noteq> SignalTwo p q)
          \<and> (mgr c = MPre (ToTick False) \<or> mgr c = MWait (ToTick False)))
     \<and> (\<forall>k. mgr c = MRun k \<longrightarrow> after_car k (vars c))
     \<and> (\<forall>cmd t. mgr c = MSig cmd t \<longrightarrow> before_signal cmd t (vars c))
     \<and> (\<forall>p. cars c p = JRun \<longrightarrow> (\<exists>k. (mgr c = MPre k \<or> mgr c = MWait k) \<and> before_car k p (vars c)))
     \<and> (\<forall>p b. cars c p = JSig b \<longrightarrow> (\<exists>k. (mgr c = MPre k \<or> mgr c = MWait k) \<and> after_car k (vars c)))"

text \<open>Moving the car threads' bookkeeping aside: only four variables matter here.\<close>

lemma road_frame:
  assumes "progress st' = progress st" and "wher st' = wher st" and "where_temp st' = where_temp st"
  shows "one_axis st' = one_axis st" and "single w st' = single w st" and "double w st' = double w st"
    and "before_signal cmd t st' = before_signal cmd t st" and "before_car k p st' = before_car k p st"
    and "after_car k st' = after_car k st"
proof -
  show o: "one_axis st' = one_axis st" and s: "single w st' = single w st" and d: "double w st' = double w st" for w
    using assms by (simp_all add: one_axis_def single_def double_def)
  show b: "before_signal cmd t st' = before_signal cmd t st" for cmd t
    using assms by (simp add: before_signal_def o s d split: command.splits)
  show "before_car k p st' = before_car k p st" by (simp add: before_car_def b split: cont.splits)
  show "after_car k st' = after_car k st" using assms by (simp add: after_car_def s d split: cont.splits)
qed

lemma job_check_frame:
  "job_check p st = Inr (st', b) \<Longrightarrow>
     progress st' = progress st \<and> wher st' = wher st \<and> where_temp st' = where_temp st"
  by (auto simp: job_check_def elim!: bindR_InrE split: if_split_asm)

lemma job_enter_frame:
  "job_enter p st = Inr (st', b) \<Longrightarrow>
     progress st' = progress st \<and> wher st' = wher st \<and> where_temp st' = where_temp st"
  by (auto simp: job_enter_def elim!: bindR_InrE split: if_split_asm)

lemma job_crossing:
  assumes p: "p \<in> {1..4}" and f: "progress st = points f" and j: "job p st = Inr (st', b)"
  shows "where_temp st' = where_temp st \<and>
    (f p = 0 \<longrightarrow> progress st' = points (f(p := 1)) \<and> wher st' = p) \<and>
    (f p = 1 \<longrightarrow> progress st' = points (f(p := 0)) \<and> wher st' = 0)"
proof -
  obtain st1 where m: "job_move p st = Inr st1" and c: "job_check p st1 = Inr (st', b)"
    using j p by (auto simp: job_is_body job_body_def elim!: bindR_InrE)
  have "where_temp st1 = where_temp st \<and> (f p = 0 \<longrightarrow> progress st1 = points (f(p := 1)) \<and> wher st1 = p)
    \<and> (f p = 1 \<longrightarrow> progress st1 = points (f(p := 0)) \<and> wher st1 = 0)"
    using m p f
    by (auto simp: job_move_def Let_def aget_points aset_points elim!: bindR_InrE split: if_split_asm)
  with job_check_frame [OF c] show ?thesis by simp
qed

lemma job_after:
  assumes p: "p \<in> {1..4}" and b: "before_car k p st" and j: "job p st = Inr (st', out)"
  shows "after_car k st'"
proof (cases k)
  case (ToTick temp)
  show ?thesis
  proof (cases temp)
    case True
    then have d: "double p st" "where_temp st = opposite p"
      using b ToTick by (simp_all add: before_car_def before_signal_def)
    have o: "opposite p \<in> {1..4}" "opposite p \<noteq> p" using opposite_point [OF p] by auto
    have "progress st = points (\<lambda>r. of_bool (r = p \<or> r = opposite p))" using d by (simp add: double_def)
    from job_crossing [OF p this j]
    have "progress st' = points ((\<lambda>r. of_bool (r = p \<or> r = opposite p))(p := 0))" "where_temp st' = opposite p"
      using d(2) by auto
    then show ?thesis using True ToTick o
      by (auto simp: after_car_def single_def points_eq_iff)
  next
    case False
    then consider "single 0 st" | "single p st"
      using b ToTick by (auto simp: before_car_def before_signal_def)
    then show ?thesis
    proof cases
      case 1
      then have "progress st = points (\<lambda>r. of_bool (r = 0))" by (simp add: single_def)
      from job_crossing [OF p this j] p False ToTick show ?thesis
        by (auto simp: after_car_def single_def points_eq_iff)
    next
      case 2
      then have "progress st = points (\<lambda>r. of_bool (r = p))" by (simp add: single_def)
      from job_crossing [OF p this j] False ToTick show ?thesis
        by (auto simp: after_car_def single_def points_eq_iff)
    qed
  qed
next
  case (ToSecond q)
  then have q: "q \<in> {1..4}" "p = opposite q" "progress st = points (\<lambda>r. of_bool (r = q))"
    using b by (auto simp: before_car_def before_signal_def single_def)
  then have "p \<noteq> q" using opposite_point [of q] by auto
  with job_crossing [OF p q(3) j] q ToSecond show ?thesis
    by (auto simp: after_car_def double_def points_eq_iff)
qed

lemma job0_turn_wher:
  assumes "job0_turn temp st = Inr (st', c)"
  shows "progress st' = progress st \<and> where_temp st' = where_temp st
    \<and> wher st' = (if temp then where_temp st else wher st)"
proof -
  obtain st1 st2 i where n: "job0_next st = Inr st1" and k: "job0_pick (job0_where temp st1) = (st2, i)"
    and r: "(if all_finished st2 then Inr (st2, None)
      else bindR (job0_switch i st2) (\<lambda>(st3, c). Inr (st3, Some c))) = Inr (st', c)"
    using assms by (auto simp: job0_turn_def elim!: bindR_InrE split: prod.split_asm)
  have "progress st1 = progress st \<and> where_temp st1 = where_temp st \<and> wher st1 = wher st"
    using n by (auto simp: job0_next_def Let_def elim!: bindR_InrE split: if_split_asm)
  moreover have "progress st2 = progress st1 \<and> where_temp st2 = where_temp st1
      \<and> wher st2 = (if temp then where_temp st1 else wher st1)"
    using k by (auto simp: job0_pick_def job0_where_def split: option.splits)
  moreover have "progress st' = progress st2 \<and> where_temp st' = where_temp st2 \<and> wher st' = wher st2"
    using r by (auto simp: job0_switch_def put_back_def elim!: bindR_InrE split: if_split_asm option.split_asm)
  ultimately show ?thesis by simp
qed

lemma job0_switch_command:
  assumes "job0_switch i st = Inr (st', cmd)" and "wher st \<in> {0..4}"
  shows "cmd = NoSignal \<or> (\<exists>p \<in> {1..4}. cmd = Signal p \<and> (wher st = 0 \<or> wher st = p))
    \<or> (wher st \<noteq> 0 \<and> cmd = SignalTwo (opposite (wher st)) (wher st))"
proof (cases "wher st = 0")
  case True
  with assms show ?thesis by (auto simp: job0_switch_def split: if_split_asm)
next
  case False
  then have w: "wher st \<in> {1..4}" using assms(2) by auto
  then have "wher st \<in> {1, 2, 3, 4}" by auto
  with assms(1) False w show ?thesis
    by (auto simp: job0_switch_def facing_opposite [OF w] elim!: bindR_InrE split: if_split_asm)
qed

lemma job0_turn_before:
  assumes t: "job0_turn temp st = Inr (st', Some cmd)" and a: "after_car (ToTick temp) st"
  shows "before_signal cmd False st'"
proof -
  let ?w = "if temp then where_temp st else wher st"
  note f = job0_turn_wher [OF t]
  have s: "single ?w st" "?w \<in> {0..4}" using a by (auto simp: after_car_def single_def)
  then have s': "single ?w st'" using f by (simp add: single_def)
  obtain i st2 where "job0_switch i st2 = Inr (st', cmd)"
    using t by (auto simp: job0_turn_def elim!: bindR_InrE split: prod.split_asm if_split_asm)
  moreover from this have "wher st' = wher st2"
    by (auto simp: job0_switch_def put_back_def elim!: bindR_InrE split: if_split_asm option.split_asm)
  ultimately have "cmd = NoSignal \<or> (\<exists>p \<in> {1..4}. cmd = Signal p \<and> (?w = 0 \<or> ?w = p))
    \<or> (?w \<noteq> 0 \<and> cmd = SignalTwo (opposite ?w) ?w)"
    using job0_switch_command [of i st2 st' cmd] s(2) f by auto
  then show ?thesis
    using s' s(2) f single_one_axis [OF s'] by (auto simp: before_signal_def split: if_splits)
qed

lemma before_signal_axis: "before_signal cmd t st \<Longrightarrow> one_axis st"
  by (auto simp: before_signal_def split: command.splits if_splits
      intro: single_one_axis double_one_axis)

lemma after_car_axis: "after_car k st \<Longrightarrow> one_axis st"
  by (auto simp: after_car_def split: cont.splits intro: single_one_axis double_one_axis)

lemma after_car_length: "after_car k st \<Longrightarrow> length (progress st) = 4"
  by (auto simp: after_car_def single_def double_def points_def split: cont.splits)

lemma crossing_inv_frame:
  assumes "crossing_inv c"
    and "progress st' = progress (vars c)" and "wher st' = wher (vars c)"
    and "where_temp st' = where_temp (vars c)" and "x \<in> {JPre, JWait, JDone}"
  shows "crossing_inv (c\<lparr>vars := st', cars := (cars c)(p := x)\<rparr>)"
  using assms(1,2,3,5) road_frame [OF assms(2-4)] by (auto simp: crossing_inv_def)

lemma crossing_inv_vars:
  "crossing_inv c \<Longrightarrow> x \<in> {JPre, JWait, JDone} \<Longrightarrow> crossing_inv (c\<lparr>cars := (cars c)(p := x)\<rparr>)"
  using crossing_inv_frame [of c "vars c" x p] by simp

lemma crossing_boss:
  assumes i: "crossing_inv c" and o: "one_runs c" and s: "boss_step c = Some c'"
  shows "crossing_inv c'"
proof (cases "boss c")
  case AStart
  show ?thesis
  proof (cases "main_start (vars c)")
    case (Inl e)
    with AStart s i show ?thesis by (auto simp: boss_step_def fail_def crossing_inv_def)
  next
    case (Inr r)
    obtain st cmd where r: "r = (st, cmd)" by (cases r)
    have f: "progress st = progress (vars c)" "wher st = wher (vars c)" "where_temp st = where_temp (vars c)"
      and cmd: "cmd = NoSignal \<or> (\<exists>p \<in> {1..4}. cmd = Signal p)"
      using Inr r by (auto simp: main_start_def elim!: bindR_InrE split: if_split_asm)
    have c': "c' = c\<lparr>vars := st, boss := ASig cmd\<rparr>" using s AStart Inr r by (simp add: boss_step_def)
    have "before_signal cmd False st"
      using i AStart cmd road_frame [OF f]
      by (auto simp: crossing_inv_def before_signal_def f split: command.splits)
    with i AStart cmd c' road_frame [OF f] f o show ?thesis
      by (auto simp: crossing_inv_def one_runs_def holds_defs)
  qed
next
  case (ASig cmd)
  then have n: "\<And>p. cars c p \<noteq> JRun" "\<And>p b. cars c p \<noteq> JSig b" and m: "\<not> holds_mgr c"
    using o by (auto simp: one_runs_def holds_defs)
  have c': "c' = signal_command cmd (c\<lparr>boss := AJoin\<rparr>)" using s ASig by (simp add: boss_step_def)
  show ?thesis
    using i ASig n m unfolding c'
    by (cases cmd) (auto simp: signal_command_def signal_car_def crossing_inv_def before_car_def)
next
  case AJoin
  with s i show ?thesis by (auto simp: boss_step_def crossing_inv_def split: if_splits)
next
  case ADone
  with s show ?thesis by (simp add: boss_step_def)
qed

lemma mgr_alone:
  assumes "one_runs c" and "holds_mgr c"
  shows "boss c \<noteq> AStart" and "\<And>cmd. boss c \<noteq> ASig cmd" and "\<And>p. cars c p \<noteq> JRun"
    and "\<And>p b. cars c p \<noteq> JSig b"
  using assms by (auto simp: one_runs_def holds_boss_def holds_car_def)

lemma crossing_mgr_run:
  assumes i: "crossing_inv c" and o: "one_runs c" and m: "mgr c = MRun k" and s: "mgr_step c = Some c'"
  shows "crossing_inv c'"
proof -
  note n = mgr_alone [OF o]
  have h: "holds_mgr c" using m by (simp add: holds_mgr_def)
  have ac: "after_car k (vars c)" using i m by (simp add: crossing_inv_def)
  show ?thesis
  proof (cases k)
    case (ToSecond q)
    then have "c' = c\<lparr>vars := save_where (vars c), mgr := MSig (Signal q) True\<rparr>"
      using s m by (simp add: mgr_step_def)
    moreover have "before_signal (Signal q) True (save_where (vars c))"
      using ac ToSecond by (auto simp: after_car_def before_signal_def save_where_def double_def)
    ultimately show ?thesis
      using i n [OF h] before_signal_axis by (auto simp: crossing_inv_def save_where_def)
  next
    case (ToTick temp)
    let ?st = "fst (print_progress (vars c))"
    have ac': "after_car (ToTick temp) ?st"
      using ac ToTick road_frame(6) [of ?st "vars c"] by (simp add: print_progress_def)
    show ?thesis
    proof (cases "job0_turn temp ?st")
      case (Inl e)
      with ToTick m s i show ?thesis by (auto simp: mgr_step_def fail_def crossing_inv_def)
    next
      case (Inr r)
      obtain st cmd where r: "r = (st, cmd)" by (cases r)
      have t: "job0_turn temp ?st = Inr (st, cmd)" using Inr r by simp
      have pr: "progress st = progress (vars c)"
        using job0_turn_wher [OF t] by (simp add: print_progress_def)
      then have ax: "one_axis st" "length (progress st) = 4"
        using i by (simp_all add: crossing_inv_def one_axis_def)
      show ?thesis
      proof (cases cmd)
        case None
        with t ToTick m s have "c' = c\<lparr>vars := st, mgr := MDone\<rparr>" by (simp add: mgr_step_def)
        with ax n [OF h] show ?thesis by (simp add: crossing_inv_def)
      next
        case (Some cm)
        with t ToTick m s have "c' = c\<lparr>vars := st, mgr := MSig cm False\<rparr>" by (simp add: mgr_step_def)
        with ax n [OF h] job0_turn_before [OF t [unfolded Some] ac'] show ?thesis
          by (simp add: crossing_inv_def)
      qed
    qed
  qed
qed

lemma crossing_signal:
  assumes "boss c \<noteq> AStart" and "\<And>cmd. boss c \<noteq> ASig cmd" and "\<And>p. cars c p \<noteq> JRun"
    and "\<And>p b. cars c p \<noteq> JSig b" and "length (progress (vars c)) = 4" and "one_axis (vars c)"
    and "before_car k p (vars c)"
  shows "crossing_inv (signal_car p (c\<lparr>mgr := MPre k\<rparr>))"
  using assms by (cases "cars c p = JWait") (auto simp: signal_car_def crossing_inv_def)

lemma crossing_mgr_sig:
  assumes i: "crossing_inv c" and o: "one_runs c" and m: "mgr c = MSig cmd t" and s: "mgr_step c = Some c'"
  shows "crossing_inv c'"
proof -
  have h: "holds_mgr c" using m by (simp add: holds_mgr_def)
  note n = mgr_alone [OF o h]
  have b: "before_signal cmd t (vars c)" and ax: "length (progress (vars c)) = 4" "one_axis (vars c)"
    using i m by (simp_all add: crossing_inv_def)
  show ?thesis
  proof (cases cmd)
    case NoSignal
    with m n ax s show ?thesis by (auto simp: mgr_step_def signal_command_def crossing_inv_def)
  next
    case (Signal p)
    with b have "before_car (ToTick t) p (vars c)" by (simp add: before_car_def)
    with crossing_signal [OF n ax] Signal m s show ?thesis
      by (auto simp: mgr_step_def signal_command_def)
  next
    case (SignalTwo p q)
    with b have "before_car (ToSecond q) p (vars c)" by (simp add: before_car_def before_signal_def)
    with crossing_signal [OF n ax] SignalTwo m s show ?thesis
      by (auto simp: mgr_step_def signal_command_def)
  qed
qed

lemma crossing_mgr:
  assumes i: "crossing_inv c" and o: "one_runs c" and s: "mgr_step c = Some c'"
  shows "crossing_inv c'"
proof (cases "mgr c")
  case (MPre k)
  with s i show ?thesis by (auto simp: mgr_step_def crossing_inv_def)
next
  case (MRun k)
  then show ?thesis by (rule crossing_mgr_run [OF i o _ s])
next
  case (MSig cmd t)
  then show ?thesis by (rule crossing_mgr_sig [OF i o _ s])
qed (use s in \<open>simp_all add: mgr_step_def\<close>)

lemma car_alone:
  assumes "one_runs c" and "holds_car c p"
  shows "boss c \<noteq> AStart" and "\<And>cmd. boss c \<noteq> ASig cmd" and "\<And>q. q \<noteq> p \<Longrightarrow> cars c q \<noteq> JRun"
    and "\<And>q b. q \<noteq> p \<Longrightarrow> cars c q \<noteq> JSig b"
  using assms by (auto simp: one_runs_def holds_boss_def holds_car_def)

lemma crossing_car_run:
  assumes i: "crossing_inv c" and o: "one_runs c" and j: "cars c p = JRun" and p: "p \<in> {1..4}"
    and s: "car_step p c = Some c'"
  shows "crossing_inv c'"
proof (cases "job p (vars c)")
  case (Inl e)
  with j s i show ?thesis by (auto simp: car_step_def fail_def crossing_inv_def)
next
  case (Inr r)
  obtain st out where r: "r = (st, out)" by (cases r)
  have h: "holds_car c p" using j by (simp add: holds_car_def)
  obtain k where k: "mgr c = MPre k \<or> mgr c = MWait k" "before_car k p (vars c)"
    using i j by (auto simp: crossing_inv_def)
  have a: "after_car k st" using job_after [OF p k(2)] Inr r by simp
  have "c' = c\<lparr>vars := st, cars := (cars c)(p := JSig out)\<rparr>" using s j Inr r by (simp add: car_step_def)
  with a after_car_axis [OF a] after_car_length [OF a] k(1) car_alone [OF o h] show ?thesis
    by (auto simp: crossing_inv_def)
qed

lemma crossing_car:
  assumes i: "crossing_inv c" and o: "one_runs c" and p: "p \<in> {1..4}" and s: "car_step p c = Some c'"
  shows "crossing_inv c'"
proof (cases "cars c p")
  case JStart
  show ?thesis
  proof (cases "job_enter p (vars c)")
    case (Inl e)
    with JStart s i show ?thesis by (auto simp: car_step_def fail_def crossing_inv_def)
  next
    case (Inr r)
    obtain st out where "r = (st, out)" by (cases r)
    with Inr JStart s job_enter_frame [of p "vars c" st out] crossing_inv_frame [OF i, of st]
    show ?thesis by (auto simp: car_step_def)
  qed
next
  case JPre
  with s crossing_inv_vars [OF i] show ?thesis by (auto simp: car_step_def)
next
  case JRun
  then show ?thesis by (rule crossing_car_run [OF i o _ p s])
next
  case (JSig b)
  then have h: "holds_car c p" by (simp add: holds_car_def)
  obtain k where k: "mgr c = MPre k \<or> mgr c = MWait k" "after_car k (vars c)"
    using i JSig by (auto simp: crossing_inv_def)
  have "c' = signal_mgr (c\<lparr>cars := (cars c)(p := if b then JDone else JPre)\<rparr>)"
    using s JSig by (simp add: car_step_def)
  with i k car_alone [OF o h] show ?thesis
    by (auto simp: crossing_inv_def signal_mgr_def split: mpc.splits)
qed (use s in \<open>simp_all add: car_step_def\<close>)

lemma crossing_step:
  assumes "crossing_inv c" and "one_runs c" and "actor_step t c = Some c'"
  shows "crossing_inv c'"
  using assms(3) crossing_boss [OF assms(1,2)] crossing_mgr [OF assms(1,2)] crossing_car [OF assms(1,2)]
  by (simp add: actor_step_def split: actor.splits if_splits)

definition ready :: "road \<Rightarrow> bool" where
  "ready st \<longleftrightarrow> progress st = replicate 4 0 \<and> wher st = 0"

lemma crossing_init: "ready st \<Longrightarrow> crossing_inv (initial_config st)"
proof -
  assume r: "ready st"
  then have "single 0 st" by (auto simp: single_def ready_def replicate_points points_eq_iff)
  with r single_one_axis [OF this] show ?thesis
    by (simp add: crossing_inv_def initial_config_def ready_def)
qed

lemma crossing_reachable: "reachable st c \<Longrightarrow> ready st \<Longrightarrow> crossing_inv c"
proof (induction rule: reachable.induct)
  case reachable_init
  then show ?case by (rule crossing_init)
next
  case (reachable_step c t c')
  then show ?case using crossing_step one_runs_reachable by metis
qed

end
