(* ===== verification/Intersection_Schedule.thy ===== *)
theory Intersection_Schedule
  imports Intersection_Threads
begin

text \<open>
  A run that hands control over without loss is one of the interleavings: the schedule in which
  every thread reaches its wait before it is signalled.
\<close>

definition parked :: "config \<Rightarrow> bool" where
  "parked c \<longleftrightarrow> error c = None \<and> length (finish (vars c)) = 4
     \<and> (\<forall>p \<in> {1..4}. cars c p = (if finish (vars c) ! nat (p - 1) then JDone else JWait))"

lemma job_flag:
  assumes "job p st = Inr (st', b)" and "p \<in> {1..4}" and "\<not> finish st ! nat (p - 1)" and "length (finish st) = 4"
  shows "finish st' = (finish st)[nat (p - 1) := b]"
proof -
  obtain st1 where m: "job_move p st = Inr st1" and c: "job_check p st1 = Inr (st', b)"
    using assms(1,2) by (auto simp: job_is_body job_body_def elim!: bindR_InrE)
  have "finish st1 = finish st"
    using m by (auto simp: job_move_def Let_def elim!: bindR_InrE split: if_split_asm)
  moreover have "b \<or> (finish st)[nat (p - 1) := b] = finish st"
    using assms(2-4) by (cases b) (auto simp: list_update_same_conv)
  ultimately show ?thesis
    using c by (auto simp: job_check_def arr_simps elim!: bindR_InrE split: if_split_asm)
qed

lemma wake_schedule:
  assumes pk: "parked c" and p: "p \<in> {1..4}" and m: "mgr c = MPre k" and w: "wake p (vars c) = Inr st'"
  obtains ts c' where "schedule ts (signal_car p c) = Some c'" and "vars c' = st'" and "mgr c' = MRun k"
    and "boss c' = boss c" and "parked c'"
proof -
  obtain b where nf: "\<not> finish (vars c) ! nat (p - 1)" and j: "job p (vars c) = Inr (st', b)"
    using w by (auto simp: wake_def arr_simps elim!: bindR_InrE split: if_split_asm)
  have fin: "finish st' = (finish (vars c))[nat (p - 1) := b]"
    using job_flag [OF j p nf] pk by (simp add: parked_def)
  have wait: "cars c p = JWait" using pk p nf by (simp add: parked_def)
  let ?c1 = "c\<lparr>cars := (cars c)(p := JRun)\<rparr>"
  let ?c2 = "c\<lparr>vars := st', mgr := MWait k, cars := (cars c)(p := JSig b)\<rparr>"
  let ?c3 = "c\<lparr>vars := st', mgr := MRun k, cars := (cars c)(p := if b then JDone else JPre)\<rparr>"
  let ?c4 = "c\<lparr>vars := st', mgr := MRun k, cars := (cars c)(p := if b then JDone else JWait)\<rparr>"
  have e: "error c = None" using pk by (simp add: parked_def)
  have "signal_car p c = ?c1" using wait by (simp add: signal_car_def)
  moreover have "actor_step Manager ?c1 = Some (?c1\<lparr>mgr := MWait k\<rparr>)"
    using m e by (simp add: actor_step_def mgr_step_def)
  moreover have "actor_step (Car p) (?c1\<lparr>mgr := MWait k\<rparr>) = Some ?c2"
    using j e p by (simp add: actor_step_def car_step_def)
  moreover have "actor_step (Car p) ?c2 = Some ?c3"
    using e p by (simp add: actor_step_def car_step_def signal_mgr_def)
  moreover have "b \<Longrightarrow> ?c3 = ?c4" "\<not> b \<Longrightarrow> actor_step (Car p) ?c3 = Some ?c4"
    using e p by (simp_all add: actor_step_def car_step_def)
  ultimately have s: "schedule ([Manager, Car p, Car p] @ (if b then [] else [Car p])) (signal_car p c) = Some ?c4"
    by (auto simp: schedule_append)
  have pk4: "parked ?c4"
    using pk fin p by (auto simp: parked_def nth_list_update)
  show ?thesis by (rule that [OF s _ _ _ pk4]) simp_all
qed

lemma finish_frame:
  "job0_turn temp st = Inr (st', c) \<Longrightarrow> finish st' = finish st"
proof -
  assume "job0_turn temp st = Inr (st', c)"
  then obtain st1 st2 i where n: "job0_next st = Inr st1" and k: "job0_pick (job0_where temp st1) = (st2, i)"
    and r: "(if all_finished st2 then Inr (st2, None)
      else bindR (job0_switch i st2) (\<lambda>(st3, c). Inr (st3, Some c))) = Inr (st', c)"
    by (auto simp: job0_turn_def elim!: bindR_InrE split: prod.split_asm)
  have "finish st1 = finish st"
    using n by (auto simp: job0_next_def Let_def elim!: bindR_InrE split: if_split_asm)
  moreover have "finish st2 = finish st1"
    using k by (auto simp: job0_pick_def job0_where_def split: option.splits)
  moreover have "finish st' = finish st2"
    using r by (auto simp: job0_switch_def put_back_def elim!: bindR_InrE split: if_split_asm option.split_asm)
  ultimately show ?thesis by simp
qed

lemma wake_point: "wake p st = Inr st' \<Longrightarrow> length (finish st) = 4 \<Longrightarrow> p \<in> {1..4}"
  by (auto simp: wake_def arr_simps elim!: bindR_InrE)

lemma command_schedule:
  assumes pk: "parked c" and m: "mgr c = MSig cmd False" and r: "run_command cmd (vars c) = Inr (t, st')"
  obtains ts c' where "schedule ts c = Some c'" and "vars c' = st'" and "mgr c' = MRun (ToTick t)"
    and "boss c' = boss c" and "parked c'"
proof (cases cmd)
  case NoSignal
  with r show ?thesis by (simp add: run_command_def)
next
  case (Signal p)
  let ?c = "c\<lparr>mgr := MPre (ToTick False)\<rparr>"
  from r Signal have w: "wake p (vars ?c) = Inr st'" "t = False"
    by (auto simp: run_command_def elim!: bindR_InrE)
  have p: "p \<in> {1..4}" using wake_point [OF w(1)] pk by (simp add: parked_def)
  have pk': "parked ?c" using pk by (simp add: parked_def)
  have "mgr ?c = MPre (ToTick False)" by simp
  from wake_schedule [OF pk' p this w(1)] obtain ts c' where
    s: "schedule ts (signal_car p ?c) = Some c'" "vars c' = st'" "mgr c' = MRun (ToTick False)"
      "boss c' = boss c" "parked c'" by auto
  have "actor_step Manager c = Some (signal_car p ?c)"
    using pk m Signal by (simp add: actor_step_def mgr_step_def signal_command_def parked_def)
  with s(1) have "schedule (Manager # ts) c = Some c'" by simp
  with s w(2) that show ?thesis by blast
next
  case (SignalTwo p q)
  let ?c = "c\<lparr>mgr := MPre (ToSecond q)\<rparr>"
  from r SignalTwo obtain st1 where w: "wake p (vars ?c) = Inr st1" "wake q (save_where st1) = Inr st'" "t = True"
    by (auto simp: run_command_def elim!: bindR_InrE)
  have p: "p \<in> {1..4}" using wake_point [OF w(1)] pk by (simp add: parked_def)
  have pk': "parked ?c" using pk by (simp add: parked_def)
  have "mgr ?c = MPre (ToSecond q)" by simp
  from wake_schedule [OF pk' p this w(1)] obtain ts c1 where
    s: "schedule ts (signal_car p ?c) = Some c1" "vars c1 = st1" "mgr c1 = MRun (ToSecond q)"
      "boss c1 = boss c" "parked c1" by auto
  have a: "actor_step Manager c = Some (signal_car p ?c)"
    using pk m SignalTwo by (simp add: actor_step_def mgr_step_def signal_command_def parked_def)
  let ?c2 = "c1\<lparr>vars := save_where st1, mgr := MSig (Signal q) True\<rparr>"
  let ?c3 = "?c2\<lparr>mgr := MPre (ToTick True)\<rparr>"
  have e1: "error c1 = None" using s(5) by (simp add: parked_def)
  have b: "actor_step Manager c1 = Some ?c2" "actor_step Manager ?c2 = Some (signal_car q ?c3)"
    using s(2,3) e1 by (simp_all add: actor_step_def mgr_step_def signal_command_def)
  have pk3: "parked ?c3" using s(2,5) by (simp add: parked_def save_where_def)
  have q: "q \<in> {1..4}" using wake_point [OF w(2)] s(2,5) by (simp add: parked_def save_where_def)
  have "mgr ?c3 = MPre (ToTick True)" "wake q (vars ?c3) = Inr st'" using w(2) by simp_all
  from wake_schedule [OF pk3 q this] obtain us c' where
    u: "schedule us (signal_car q ?c3) = Some c'" "vars c' = st'" "mgr c' = MRun (ToTick True)"
      "boss c' = boss c" "parked c'" using s(4) by auto
  have "schedule (Manager # ts @ [Manager, Manager] @ us) c = Some c'"
    using a s(1) b u(1) by (simp add: schedule_append)
  with u w(3) that show ?thesis by blast
qed

lemma job0_schedule:
  assumes "parked c" and "mgr c = MRun (ToTick temp)" and "job0_run temp (vars c) out = Inr (st', out')"
  shows "\<exists>ts c'. schedule ts c = Some c' \<and> vars c' = st' \<and> mgr c' = MDone \<and> boss c' = boss c
    \<and> parked c' \<and> all_finished st'"
  using assms
proof (induction temp "vars c" out arbitrary: c rule: job0_run.induct)
  case (1 temp out c)
  let ?st = "fst (print_progress (vars c))"
  have e: "error c = None" using 1(2) by (simp add: parked_def)
  have fp: "finish ?st = finish (vars c)" by (simp add: print_progress_def)
  obtain st1 cm where t: "job0_turn temp ?st = Inr (st1, cm)"
    using 1(4) by (subst (asm) job0_run.simps) (auto elim!: bindR_InrE)
  have fin: "finish st1 = finish (vars c)" using finish_frame [OF t] fp by simp
  show ?case
  proof (cases cm)
    case None
    have st': "st' = st1" using 1(4) t None by (subst (asm) job0_run.simps) simp
    have "all_finished st1"
      using t None by (auto simp: job0_turn_def elim!: bindR_InrE split: prod.split_asm if_split_asm)
    moreover have "actor_step Manager c = Some (c\<lparr>vars := st1, mgr := MDone\<rparr>)"
      using 1(3) t None e by (simp add: actor_step_def mgr_step_def)
    then have "schedule [Manager] c = Some (c\<lparr>vars := st1, mgr := MDone\<rparr>)" by simp
    moreover have "parked (c\<lparr>vars := st1, mgr := MDone\<rparr>)" using 1(2) fin by (simp add: parked_def)
    ultimately show ?thesis unfolding st' by (intro exI [of _ "[Manager]"]) auto
  next
    case (Some cmd)
    obtain t' st2 where r: "run_command cmd st1 = Inr (t', st2)"
      and n: "job0_run t' st2 (out @ snd (print_progress (vars c))) = Inr (st', out')"
      using 1(4) t Some by (subst (asm) job0_run.simps) (auto elim!: bindR_InrE)
    let ?c = "c\<lparr>vars := st1, mgr := MSig cmd False\<rparr>"
    have a: "actor_step Manager c = Some ?c"
      using 1(3) t Some e by (simp add: actor_step_def mgr_step_def)
    have pk: "parked ?c" using 1(2) fin by (simp add: parked_def)
    have "mgr ?c = MSig cmd False" "run_command cmd (vars ?c) = Inr (t', st2)" using r by simp_all
    from command_schedule [OF pk this] obtain ts c1 where
      s: "schedule ts ?c = Some c1" "vars c1 = st2" "mgr c1 = MRun (ToTick t')" "boss c1 = boss c" "parked c1"
      by auto
    have n1: "job0_run t' (vars c1) (out @ snd (print_progress (vars c))) = Inr (st', out')"
      using n s(2) by simp
    have "\<exists>us c'. schedule us c1 = Some c' \<and> vars c' = st' \<and> mgr c' = MDone \<and> boss c' = boss c1
        \<and> parked c' \<and> all_finished st'"
      by (rule 1(1) [OF t refl Some r _ s(5) s(3) n1]) (simp add: s(2))
    then obtain us c' where u: "schedule us c1 = Some c'" "vars c' = st'" "mgr c' = MDone"
      "boss c' = boss c1" "parked c'" "all_finished st'" by blast
    have "schedule (Manager # ts @ us) c = Some c'"
      using a s(1) u(1) by (simp add: schedule_append)
    with u s(4) show ?thesis by (intro exI [of _ "Manager # ts @ us"] exI [of _ c']) simp
  qed
qed

section \<open>From the first step to the last\<close>

text \<open>The car threads run to their first wait, and \<open>job0\<close> to its own, before \<open>main\<close> signals.\<close>

lemma enter_schedule:
  assumes e: "error c = None" and p: "p \<in> {1..4}" and j: "cars c p = JStart"
    and r: "job_enter p (vars c) = Inr (st', b)"
  shows "schedule (if b then [Car p] else [Car p, Car p]) c =
    Some (c\<lparr>vars := st', cars := (cars c)(p := if b then JDone else JWait)\<rparr>)"
  using assms by (simp add: actor_step_def car_step_def)

lemma enter_all_schedule:
  assumes "distinct ps" and "set ps \<subseteq> {1..4}" and "error c = None" and "\<forall>p \<in> set ps. cars c p = JStart"
    and "enter_all ps (vars c) = Inr st'" and "pCount (vars c) = points h" and "finish (vars c) = points f"
  shows "\<exists>ts. schedule ts c = Some (c\<lparr>vars := st', cars := (\<lambda>p. if p \<in> set ps then
      (if h p = 0 then JDone else JWait) else cars c p)\<rparr>)"
  using assms
proof (induction ps arbitrary: c f)
  case Nil
  then show ?case by (intro exI [of _ "[]"]) simp
next
  case (Cons p ps)
  have p: "p \<in> {1..4}" using Cons.prems by simp
  let ?st = "(vars c)\<lparr>finish := points (f(p := (h p = 0 \<or> f p)))\<rparr>"
  have j: "job_enter p (vars c) = Inr (?st, h p = 0)"
    using enter_points [OF p Cons.prems(6,7)] .
  let ?c = "c\<lparr>vars := ?st, cars := (cars c)(p := if h p = 0 then JDone else JWait)\<rparr>"
  have cp: "cars c p = JStart" using Cons.prems(4) by simp
  have s: "schedule (if h p = 0 then [Car p] else [Car p, Car p]) c = Some ?c"
    by (rule enter_schedule [OF Cons.prems(3) p cp j])
  have en: "enter_all ps (vars ?c) = Inr st'" using Cons.prems(5) j by simp
  have ps: "distinct ps" "set ps \<subseteq> {1..4}" "error ?c = None" "\<forall>p \<in> set ps. cars ?c p = JStart"
    using Cons.prems by auto
  have fs: "pCount (vars ?c) = points h" "finish (vars ?c) = points (f(p := (h p = 0 \<or> f p)))"
    using Cons.prems(6) by simp_all
  obtain ts where t: "schedule ts ?c = Some (?c\<lparr>vars := st', cars := (\<lambda>q. if q \<in> set ps then
      (if h q = 0 then JDone else JWait) else cars ?c q)\<rparr>)"
    using Cons.IH [OF ps en fs] by blast
  have "(\<lambda>q. if q \<in> set ps then (if h q = 0 then JDone else JWait) else cars ?c q) =
      (\<lambda>q. if q \<in> set (p # ps) then (if h q = 0 then JDone else JWait) else cars c q)"
    using Cons.prems(1) by auto
  with s t show ?case
    by (intro exI [of _ "(if h p = 0 then [Car p] else [Car p, Car p]) @ ts"])
      (simp add: schedule_append)
qed

lemma program_schedule:
  assumes st: "pCount st = points h" "finish st = points (\<lambda>_. False)"
    and en: "enter_all [1, 2, 3, 4] st = Inr st1" and ms: "main_start st1 = Inr (st2, Signal p)"
    and ru: "run_command (Signal p) st2 = Inr (False, st3)" and jr: "job0_run False st3 out = Inr (st4, out')"
  shows "\<exists>c. reachable st c \<and> boss c = ADone \<and> vars c = st4"
proof -
  let ?c0 = "initial_config st"
  let ?cars = "\<lambda>p. if p \<in> set [1, 2, 3, 4] then (if h p = 0 then JDone else JWait) else cars ?c0 p"
  have "\<exists>ts. schedule ts ?c0 = Some (?c0\<lparr>vars := st1, cars := ?cars\<rparr>)"
    by (rule enter_all_schedule [where f = "\<lambda>_. False"]) (use st en in \<open>auto simp: initial_config_def\<close>)
  then obtain ts where s1: "schedule ts ?c0 = Some (?c0\<lparr>vars := st1, cars := ?cars\<rparr>)" by blast
  let ?c1 = "?c0\<lparr>vars := st1, cars := ?cars\<rparr>"
  let ?c2 = "?c1\<lparr>vars := st2, boss := ASig (Signal p)\<rparr>"
  let ?c3 = "?c2\<lparr>boss := AJoin\<rparr>"
  have a: "actor_step Boss ?c1 = Some ?c2" "actor_step Boss ?c2 = Some (signal_car p ?c3)"
    using ms by (simp_all add: actor_step_def boss_step_def initial_config_def signal_command_def)
  have "finish st2 = points (\<lambda>p. h p = 0)"
    using entered [OF st] en ms by (auto simp: main_start_def elim!: bindR_InrE)
  then have pk: "parked ?c3"
    by (auto simp: parked_def initial_config_def points_def points_cases simp del: atLeastAtMost_iff)
  have w: "wake p (vars ?c3) = Inr st3" using ru by (auto simp: run_command_def elim!: bindR_InrE)
  have p: "p \<in> {1..4}" using wake_point [OF w] pk by (simp add: parked_def)
  have m: "mgr ?c3 = MPre (ToTick False)" by (simp add: initial_config_def)
  obtain us c4 where u: "schedule us (signal_car p ?c3) = Some c4" "vars c4 = st3"
      "mgr c4 = MRun (ToTick False)" "boss c4 = AJoin" "parked c4"
    using wake_schedule [OF pk p m w] by auto
  obtain vs c5 where v: "schedule vs c4 = Some c5" "vars c5 = st4" "mgr c5 = MDone" "boss c5 = AJoin"
      "parked c5" "all_finished st4"
    using job0_schedule [OF u(5) u(3)] jr u(2,4) by metis
  have "actor_step Boss c5 = Some (c5\<lparr>boss := ADone\<rparr>)"
    using v by (simp add: actor_step_def boss_step_def parked_def all_finished_def)
  then have "schedule (ts @ [Boss, Boss] @ us @ vs @ [Boss]) ?c0 = Some (c5\<lparr>boss := ADone\<rparr>)"
    using s1 a u(1) v(1) by (simp add: schedule_append)
  from schedule_reachable [OF reachable_init this] v(2) show ?thesis
    by (intro exI [of _ "c5\<lparr>boss := ADone\<rparr>"]) simp
qed

end
