(* ===== verification/Intersection_Wakeups.thy ===== *)
theory Intersection_Wakeups
  imports Intersection_Schedule
begin

text \<open>
  Returns of \<open>pthread_cond_wait\<close> without a signal, which POSIX allows, as steps of their own
  beside those of the threads. \<open>program.c\<close> tests no condition after a wait, so a thread goes on as
  if it had been signalled. Runs carry the number of such returns.
\<close>

section \<open>Runs with spurious returns\<close>

definition spurious_return :: "actor \<Rightarrow> config \<Rightarrow> config option" where
  "spurious_return t c =
     (if error c \<noteq> None then None
      else case t of
        Boss \<Rightarrow> None
      | Manager \<Rightarrow> (case mgr c of MWait k \<Rightarrow> Some (c\<lparr>mgr := MRun k\<rparr>) | _ \<Rightarrow> None)
      | Car p \<Rightarrow>
          if 1 \<le> p \<and> p \<le> 4 \<and> cars c p = JWait then Some (c\<lparr>cars := (cars c)(p := JRun)\<rparr>) else None)"

inductive reaches :: "road \<Rightarrow> nat \<Rightarrow> config \<Rightarrow> bool" for st where
  reaches_init: "reaches st 0 (initial_config st)"
| reaches_step: "reaches st n c \<Longrightarrow> actor_step t c = Some c' \<Longrightarrow> reaches st n c'"
| reaches_spurious: "reaches st n c \<Longrightarrow> spurious_return t c = Some c' \<Longrightarrow> reaches st (Suc n) c'"

text \<open>Without a spurious return these are the interleavings of \<open>reachable\<close>.\<close>

lemma reaches_reachable: "reaches st n c \<Longrightarrow> n = 0 \<Longrightarrow> reachable st c"
  by (induction rule: reaches.induct) (auto intro: reachable.intros)

lemma reaches_schedule:
  "reaches st n c \<Longrightarrow> schedule ts c = Some c' \<Longrightarrow> reaches st n c'"
  by (induction ts arbitrary: c) (auto split: option.splits intro: reaches_step)

lemma reachable_reaches: "reachable st c \<Longrightarrow> reaches st 0 c"
  by (induction rule: reachable.induct) (auto intro: reaches.intros)

section \<open>What one spurious return breaks\<close>

text \<open>The managing thread returns from its first wait before \<open>main\<close> has signalled a car thread.\<close>

lemma manager_wakes_early: "\<exists>c. reaches st 1 c \<and> holds_boss c \<and> holds_mgr c"
proof -
  let ?c = "(initial_config st)\<lparr>mgr := MWait (ToTick False)\<rparr>"
  have "actor_step Manager (initial_config st) = Some ?c"
    by (simp add: actor_step_def mgr_step_def initial_config_def)
  from reaches_step [OF reaches_init this] have r: "reaches st 0 ?c" .
  have "spurious_return Manager ?c = Some (?c\<lparr>mgr := MRun (ToTick False)\<rparr>)"
    by (simp add: spurious_return_def initial_config_def)
  from reaches_spurious [OF r this] show ?thesis
    by (intro exI [of _ "?c\<lparr>mgr := MRun (ToTick False)\<rparr>"])
      (simp add: holds_defs initial_config_def)
qed

text \<open>A car thread that runs for the first time puts its car on the crossing, whoever is there.\<close>

lemma job_first:
  assumes "p \<in> {1..4}" and "progress st = points f" and "f p = 0"
    and "job_count st = points g" and "pCount st = points h" and "g p \<noteq> h p"
  shows "job p st = Inr (st\<lparr>progress := points (f(p := 1)), wher := p\<rparr>, False)"
  using assms by (simp add: job_is_body job_body_def job_move_def job_check_def arr_simps)

lemma enter_waits:
  assumes "error c = None" and "p \<in> {1..4}" and "cars c p = JStart" and "pCount (vars c) = points h" and "h p \<noteq> 0"
  shows "schedule [Car p, Car p] c = Some (c\<lparr>cars := (cars c)(p := JWait)\<rparr>)"
proof -
  have "job_enter p (vars c) = Inr (vars c, False)"
    using assms(2,4,5) by (simp add: job_enter_def arr_simps)
  with assms(1-3) show ?thesis by (simp add: actor_step_def car_step_def)
qed

text \<open>The first car drives onto the crossing; then the thread of a crossing road returns spuriously.\<close>

lemma crossing_car_joins:
  assumes h: "pCount st = points h" and g: "job_count st = points (\<lambda>_. 0)"
    and f: "progress st = points (\<lambda>_. 0)"
    and s: "aget (start_point_list st) (list_index st) = Inr p"
    and p: "p \<in> {1..4}" "h p \<noteq> 0" and q: "q \<in> {1..4}" "h q \<noteq> 0" "q \<noteq> p"
  shows "\<exists>c. reaches st 1 c \<and> progress (vars c) = points ((\<lambda>_. 0)(p := 1, q := 1))"
proof -
  let ?c0 = "initial_config st"
  let ?cars = "(\<lambda>_. JStart)(p := JWait, q := JWait)"
  let ?c1 = "?c0\<lparr>cars := ?cars\<rparr>"
  have "schedule [Car p, Car p] ?c0 = Some (?c0\<lparr>cars := (cars ?c0)(p := JWait)\<rparr>)"
    using enter_waits [of ?c0 p h] p by (simp add: initial_config_def h del: schedule.simps)
  moreover have "schedule [Car q, Car q] (?c0\<lparr>cars := (cars ?c0)(p := JWait)\<rparr>) =
      Some (?c0\<lparr>cars := (cars ?c0)(p := JWait, q := JWait)\<rparr>)"
    using enter_waits [of "?c0\<lparr>cars := (cars ?c0)(p := JWait)\<rparr>" q h] q
    by (simp add: initial_config_def h del: schedule.simps)
  ultimately have "schedule ([Car p, Car p] @ [Car q, Car q]) ?c0 = Some ?c1"
    unfolding schedule_append by (simp add: initial_config_def)
  from reaches_schedule [OF reaches_init this] have r1: "reaches st 0 ?c1" .
  let ?st2 = "st\<lparr>start := p, list_index := list_index st + 1\<rparr>"
  let ?c2 = "?c1\<lparr>vars := ?st2, boss := AJoin, cars := ?cars(p := JRun)\<rparr>"
  have m: "main_start st = Inr (?st2, Signal p)" using s p(1) by (auto simp: main_start_def)
  have "schedule [Boss, Boss] ?c1 = Some ?c2"
    using m q(3) by (simp add: actor_step_def boss_step_def initial_config_def signal_command_def signal_car_def)
  from reaches_schedule [OF r1 this] have r2: "reaches st 0 ?c2" .
  let ?st3 = "?st2\<lparr>progress := points ((\<lambda>_. 0)(p := 1)), wher := p\<rparr>"
  let ?c3 = "?c2\<lparr>vars := ?st3, cars := ?cars(p := JSig False)\<rparr>"
  have "job p ?st2 = Inr (?st3, False)"
    using job_first [OF p(1), of ?st2 "\<lambda>_. 0" "\<lambda>_. 0" h] p(2) by (simp add: f g h)
  then have "schedule [Car p] ?c2 = Some ?c3"
    using p(1) by (simp add: actor_step_def car_step_def initial_config_def)
  from reaches_schedule [OF r2 this] have r3: "reaches st 0 ?c3" .
  let ?c4 = "?c3\<lparr>cars := ?cars(p := JSig False, q := JRun)\<rparr>"
  have "spurious_return (Car q) ?c3 = Some ?c4"
    using q(1,3) by (simp add: spurious_return_def initial_config_def)
  from reaches_spurious [OF r3 this] have r4: "reaches st 1 ?c4" by simp
  let ?st5 = "?st3\<lparr>progress := points ((\<lambda>_. 0)(p := 1, q := 1)), wher := q\<rparr>"
  have "job q ?st3 = Inr (?st5, False)"
    using job_first [OF q(1), of ?st3 "(\<lambda>_. 0)(p := 1)" "\<lambda>_. 0" h] q(2,3) by (simp add: g h)
  then have "schedule [Car q] ?c4 = Some (?c4\<lparr>vars := ?st5, cars := ?cars(p := JSig False, q := JSig False)\<rparr>)"
    using q(1,3) by (simp add: actor_step_def car_step_def initial_config_def)
  from reaches_schedule [OF r4 this] show ?thesis
    by (intro exI [of _ "?c4\<lparr>vars := ?st5, cars := ?cars(p := JSig False, q := JSig False)\<rparr>"]) simp
qed

end
