(* ===== verification/Intersection_Orderly.thy ===== *)
theory Intersection_Orderly
  imports Intersection_Schedule
begin

text \<open>
  Every interleaving of the intersection program has a bounded number of steps. The interleavings
  in which no signal is lost all end: whichever thread is chosen at each step, they reach the state
  of the run that hands control over in a fixed order.
\<close>

section \<open>The number of steps\<close>

fun car_weight :: "jpc \<Rightarrow> nat" where
  "car_weight JStart = 4" | "car_weight JPre = 1" | "car_weight JWait = 0" | "car_weight JRun = 3"
| "car_weight (JSig b) = 2" | "car_weight JDone = 0"

fun cont_weight :: "cont \<Rightarrow> nat" where
  "cont_weight (ToTick t) = 0" | "cont_weight (ToSecond q) = 6"

fun mgr_weight :: "mpc \<Rightarrow> nat" where
  "mgr_weight (MPre k) = cont_weight k + 1" | "mgr_weight (MWait k) = cont_weight k"
| "mgr_weight (MRun k) = cont_weight k" | "mgr_weight (MSig (SignalTwo p q) t) = 11"
| "mgr_weight (MSig cmd t) = 5" | "mgr_weight MDone = 0"

fun boss_weight :: "apc \<Rightarrow> nat" where
  "boss_weight AStart = 6" | "boss_weight (ASig cmd) = 5" | "boss_weight AJoin = 1" | "boss_weight ADone = 0"

definition steps_left :: "config \<Rightarrow> nat" where
  "steps_left c = of_bool (error c = None) + 12 * nat (20 - list_index (vars c)) + boss_weight (boss c)
     + mgr_weight (mgr c) + car_weight (cars c 1) + car_weight (cars c 2) + car_weight (cars c 3)
     + car_weight (cars c 4)"

definition list_ok :: "road \<Rightarrow> bool" where
  "list_ok st \<longleftrightarrow> length (start_point_list st) = 20 \<and> 0 \<le> list_index st"

lemma signal_car_left: "steps_left (signal_car p c) \<le> steps_left c + 3" "vars (signal_car p c) = vars c"
  by (auto simp: signal_car_def steps_left_def)

lemma signal_command_left:
  "steps_left (signal_command cmd c) \<le> steps_left c + 3" "vars (signal_command cmd c) = vars c"
  using signal_car_left [of _ c] by (auto simp: signal_command_def split: command.splits)

lemma signal_mgr_left: "steps_left (signal_mgr c) = steps_left c" "vars (signal_mgr c) = vars c"
  by (auto simp: signal_mgr_def steps_left_def split: mpc.splits)

lemma fail_left: "error c = None \<Longrightarrow> steps_left (fail e c) < steps_left c" "vars (fail e c) = vars c"
  by (simp_all add: fail_def steps_left_def)

lemma job_list: "p \<in> {1..4} \<Longrightarrow> job p st = Inr (st', b) \<Longrightarrow>
    start_point_list st' = start_point_list st \<and> list_index st' = list_index st"
  using job_body_frame [of p st st' b] by (simp add: job_is_body)

lemma job_enter_list: "job_enter p st = Inr (st', b) \<Longrightarrow>
    start_point_list st' = start_point_list st \<and> list_index st' = list_index st"
  by (auto simp: job_enter_def elim!: bindR_InrE split: if_split_asm)

lemma main_start_list: "main_start st = Inr (st', cmd) \<Longrightarrow>
    start_point_list st' = start_point_list st \<and> list_index st' = list_index st + 1
    \<and> 0 \<le> list_index st \<and> list_index st < int (length (start_point_list st))"
  by (auto simp: main_start_def arr_simps elim!: bindR_InrE)

lemma boss_left:
  assumes "boss_step c = Some c'" and "error c = None" and "list_ok (vars c)"
  shows "steps_left c' < steps_left c \<and> list_ok (vars c')"
proof (cases "boss c")
  case AStart
  show ?thesis
  proof (cases "main_start (vars c)")
    case (Inl e)
    with assms AStart show ?thesis by (auto simp: boss_step_def fail_left)
  next
    case (Inr r)
    obtain st cmd where "r = (st, cmd)" by (cases r)
    with assms AStart Inr main_start_list [of "vars c" st cmd] show ?thesis
      by (auto simp: boss_step_def steps_left_def list_ok_def)
  qed
next
  case (ASig cmd)
  let ?c = "c\<lparr>boss := AJoin\<rparr>"
  have "steps_left ?c + 4 = steps_left c" using ASig by (simp add: steps_left_def)
  with assms ASig signal_command_left [of cmd ?c] show ?thesis by (auto simp: boss_step_def)
qed (use assms in \<open>auto simp: boss_step_def steps_left_def split: if_splits\<close>)

lemma mgr_left:
  assumes "mgr_step c = Some c'" and "error c = None" and "list_ok (vars c)"
  shows "steps_left c' < steps_left c \<and> list_ok (vars c')"
proof (cases "mgr c")
  case (MRun k)
  show ?thesis
  proof (cases k)
    case (ToTick t)
    let ?st = "fst (print_progress (vars c))"
    show ?thesis
    proof (cases "job0_turn t ?st")
      case (Inl e)
      with assms MRun ToTick show ?thesis by (auto simp: mgr_step_def fail_left)
    next
      case (Inr r)
      obtain st cmd where r: "r = (st, cmd)" by (cases r)
      have f: "start_point_list st = start_point_list (vars c)" "list_index st = list_index (vars c) + 1"
        "list_index (vars c) < 20"
        using job0_turn_frame [of t ?st st cmd] Inr r assms(3)
        by (simp_all add: print_progress_def list_ok_def)
      have w: "mgr_weight (MSig cm False) < 12" for cm by (cases cm) simp_all
      have n: "12 * nat (20 - list_index st) + 12 = 12 * nat (20 - list_index (vars c))"
        using f by simp
      show ?thesis
      proof (cases cmd)
        case None
        with assms MRun ToTick Inr r f n show ?thesis
          by (auto simp: mgr_step_def steps_left_def list_ok_def)
      next
        case (Some cm)
        with assms MRun ToTick Inr r f n w [of cm] show ?thesis
          by (auto simp: mgr_step_def steps_left_def list_ok_def)
      qed
    qed
  next
    case (ToSecond q)
    with assms MRun show ?thesis by (auto simp: mgr_step_def steps_left_def list_ok_def save_where_def)
  qed
next
  case (MSig cmd t)
  show ?thesis
  proof (cases cmd)
    case NoSignal
    with assms MSig show ?thesis by (auto simp: mgr_step_def signal_command_def steps_left_def list_ok_def)
  next
    case (Signal p)
    let ?c = "c\<lparr>mgr := MPre (ToTick t)\<rparr>"
    have "steps_left ?c + 4 = steps_left c" using MSig Signal by (simp add: steps_left_def)
    with assms MSig Signal signal_command_left [of cmd ?c] show ?thesis by (auto simp: mgr_step_def)
  next
    case (SignalTwo p q)
    let ?c = "c\<lparr>mgr := MPre (ToSecond q)\<rparr>"
    have "steps_left ?c + 4 = steps_left c" using MSig SignalTwo by (simp add: steps_left_def)
    with assms MSig SignalTwo signal_command_left [of cmd ?c] show ?thesis by (auto simp: mgr_step_def)
  qed
qed (use assms in \<open>auto simp: mgr_step_def steps_left_def\<close>)

lemma car_moves_left:
  assumes "p \<in> {1..4}" and "car_weight x < car_weight (cars c p)"
    and "list_index st = list_index (vars c)"
  shows "steps_left (c\<lparr>vars := st, cars := (cars c)(p := x)\<rparr>) < steps_left c"
  using assms by (auto simp: steps_left_def points_cases simp del: atLeastAtMost_iff)

lemma car_left:
  assumes s: "car_step p c = Some c'" and p: "p \<in> {1..4}" and "error c = None" and l: "list_ok (vars c)"
  shows "steps_left c' < steps_left c \<and> list_ok (vars c')"
proof (cases "cars c p")
  case JStart
  show ?thesis
  proof (cases "job_enter p (vars c)")
    case (Inl e)
    with assms JStart show ?thesis by (auto simp: car_step_def fail_left)
  next
    case (Inr r)
    obtain st b where r: "r = (st, b)" by (cases r)
    have f: "start_point_list st = start_point_list (vars c)" "list_index st = list_index (vars c)"
      using job_enter_list [of p "vars c" st b] Inr r by simp_all
    show ?thesis
      using car_moves_left [OF p _ f(2), of "if b then JDone else JPre"] s JStart Inr r f l
      by (auto simp: car_step_def list_ok_def split: if_splits)
  qed
next
  case JRun
  show ?thesis
  proof (cases "job p (vars c)")
    case (Inl e)
    with assms JRun show ?thesis by (auto simp: car_step_def fail_left)
  next
    case (Inr r)
    obtain st b where r: "r = (st, b)" by (cases r)
    have f: "start_point_list st = start_point_list (vars c)" "list_index st = list_index (vars c)"
      using job_list [OF p, of "vars c" st b] Inr r by simp_all
    show ?thesis
      using car_moves_left [OF p _ f(2), of "JSig b"] s JRun Inr r f l
      by (auto simp: car_step_def list_ok_def)
  qed
next
  case (JSig b)
  show ?thesis
    using car_moves_left [OF p _ refl, of "if b then JDone else JPre"] s JSig l
    by (auto simp: car_step_def signal_mgr_left split: if_splits)
next
  case JPre
  with car_moves_left [OF p _ refl, of JWait c] s l show ?thesis by (auto simp: car_step_def)
qed (use s in \<open>simp_all add: car_step_def\<close>)

lemma step_left:
  assumes "actor_step t c = Some c'" and "list_ok (vars c)"
  shows "steps_left c' < steps_left c \<and> list_ok (vars c')"
  using assms boss_left [of c c'] mgr_left [of c c'] car_left [of _ c c']
  by (auto simp: actor_step_def split: actor.splits if_splits)

lemma schedule_left:
  "schedule ts c = Some c' \<Longrightarrow> list_ok (vars c) \<Longrightarrow> length ts + steps_left c' \<le> steps_left c"
proof (induction ts arbitrary: c)
  case (Cons t ts)
  then obtain c1 where "actor_step t c = Some c1" "schedule ts c1 = Some c'"
    by (auto split: option.splits)
  with Cons step_left [of t c c1] show ?case by force
qed simp

lemma schedule_bounded:
  assumes "schedule ts (initial_config st0) = Some c" and "list_ok st0"
  shows "length ts \<le> 264"
proof -
  have "length ts + steps_left c \<le> steps_left (initial_config st0)"
    using schedule_left [OF assms(1)] assms(2) by (simp add: initial_config_def)
  moreover have "nat (20 - list_index st0) \<le> 20" using assms(2) by (simp add: list_ok_def nat_le_iff)
  then have "steps_left (initial_config st0) \<le> 264" by (simp add: steps_left_def initial_config_def)
  ultimately show ?thesis by simp
qed

section \<open>Interleavings that lose no signal\<close>

text \<open>
  A step loses no signal when it sends none or the thread it signals waits. Before its signal
  \<open>main\<close> lets every car thread do its first test: the program relies on that as well, since a
  thread that has not run yet has not set its entry of \<open>finish\<close>.
\<close>

definition heard :: "command \<Rightarrow> config \<Rightarrow> bool" where
  "heard cmd c =
     (case cmd of NoSignal \<Rightarrow> True | Signal p \<Rightarrow> cars c p = JWait | SignalTwo p q \<Rightarrow> cars c p = JWait)"

definition orderly :: "actor \<Rightarrow> config \<Rightarrow> bool" where
  "orderly t c =
     (case t of
        Boss \<Rightarrow> (case boss c of ASig cmd \<Rightarrow> heard cmd c \<and> (\<forall>p \<in> {1..4}. cars c p \<noteq> JStart) | _ \<Rightarrow> True)
      | Manager \<Rightarrow> (case mgr c of MSig cmd _ \<Rightarrow> heard cmd c | _ \<Rightarrow> True)
      | Car p \<Rightarrow> (case cars c p of
          JSig _ \<Rightarrow> (case mgr c of MWait _ \<Rightarrow> True | _ \<Rightarrow> False) | _ \<Rightarrow> True))"

fun orderly_schedule :: "actor list \<Rightarrow> config \<Rightarrow> config option" where
  "orderly_schedule [] c = Some c"
| "orderly_schedule (t # ts) c =
     (if orderly t c then case actor_step t c of None \<Rightarrow> None | Some c' \<Rightarrow> orderly_schedule ts c' else None)"

lemma orderly_is_schedule: "orderly_schedule ts c = Some c' \<Longrightarrow> schedule ts c = Some c'"
  by (induction ts arbitrary: c) (auto split: option.splits if_splits)

subsection \<open>What the thread in control still has to do\<close>

text \<open>
  From the state a thread leaves behind, the run that hands control over in the fixed order ends
  in \<open>fin\<close>.
\<close>

definition then_on :: "road \<Rightarrow> cont \<Rightarrow> road \<Rightarrow> bool" where
  "then_on fin k st =
     (case k of
        ToTick t \<Rightarrow> \<exists>out out'. job0_run t st out = Inr (fin, out')
      | ToSecond q \<Rightarrow> \<exists>st' out out'. wake q (save_where st) = Inr st' \<and> job0_run True st' out = Inr (fin, out'))"

definition sends :: "road \<Rightarrow> command \<Rightarrow> bool \<Rightarrow> road \<Rightarrow> bool" where
  "sends fin cmd t st =
     (case cmd of
        NoSignal \<Rightarrow> False
      | Signal p \<Rightarrow> \<exists>st'. wake p st = Inr st' \<and> then_on fin (ToTick t) st'
      | SignalTwo p q \<Rightarrow> \<exists>st'. wake p st = Inr st' \<and> then_on fin (ToSecond q) st')"

definition car_on :: "road \<Rightarrow> cont \<Rightarrow> config \<Rightarrow> bool" where
  "car_on fin k c \<longleftrightarrow>
     (\<exists>p \<in> {1..4}. (cars c p = JRun \<and> (\<exists>st'. wake p (vars c) = Inr st' \<and> then_on fin k st'))
        \<or> ((\<exists>b. cars c p = JSig b) \<and> then_on fin k (vars c)))"

definition in_control :: "road \<Rightarrow> config \<Rightarrow> bool" where
  "in_control fin c =
     (case mgr c of
        MPre k \<Rightarrow> car_on fin k c
      | MWait k \<Rightarrow> car_on fin k c
      | MRun k \<Rightarrow> then_on fin k (vars c)
      | MSig cmd t \<Rightarrow> sends fin cmd t (vars c)
      | MDone \<Rightarrow> vars c = fin \<and> all_finished fin \<and> (\<forall>p. \<not> holds_car c p))"

text \<open>A car thread is past its last wait exactly when its entry of \<open>finish\<close> is set.\<close>

definition flags_ok :: "config \<Rightarrow> bool" where
  "flags_ok c \<longleftrightarrow> length (finish (vars c)) = 4 \<and>
     (\<forall>p \<in> {1..4}. cars c p \<noteq> JStart \<and>
        (finish (vars c) ! nat (p - 1) \<longleftrightarrow> cars c p = JDone \<or> cars c p = JSig True))"

definition under_way :: "road \<Rightarrow> config \<Rightarrow> bool" where
  "under_way fin c \<longleftrightarrow> error c = None \<and> (boss c = AJoin \<or> (boss c = ADone \<and> mgr c = MDone))
     \<and> flags_ok c \<and> in_control fin c"

lemmas under_way_defs = under_way_def flags_ok_def in_control_def

lemma sends_command:
  assumes "run_command cmd st = Inr (t, st')" and "job0_run t st' out = Inr (fin, out')"
  shows "sends fin cmd False st"
  using assms by (auto simp: run_command_def sends_def then_on_def elim!: bindR_InrE split: command.splits)

lemma car_on_frame:
  assumes "car_on fin k c" and "vars c' = vars c" and "\<And>p. holds_car c p \<Longrightarrow> cars c' p = cars c p"
  shows "car_on fin k c'"
proof -
  obtain p where p: "p \<in> {1..4}"
    and h: "(cars c p = JRun \<and> (\<exists>st'. wake p (vars c) = Inr st' \<and> then_on fin k st'))
      \<or> ((\<exists>b. cars c p = JSig b) \<and> then_on fin k (vars c))"
    using assms(1) by (auto simp: car_on_def)
  then have "holds_car c p" by (auto simp: holds_car_def)
  with assms(2,3) h have "(cars c' p = JRun \<and> (\<exists>st'. wake p (vars c') = Inr st' \<and> then_on fin k st'))
      \<or> ((\<exists>b. cars c' p = JSig b) \<and> then_on fin k (vars c'))" by simp
  with p show ?thesis unfolding car_on_def by blast
qed

lemma wake_job:
  assumes "wake p st = Inr st'" and "length (finish st) = 4"
  obtains b where "p \<in> {1..4}" and "\<not> finish st ! nat (p - 1)" and "job p st = Inr (st', b)"
  using assms wake_point [OF assms] by (auto simp: wake_def arr_simps elim!: bindR_InrE split: if_split_asm)

lemma wake_flag: "wake p st = Inr st' \<Longrightarrow> length (finish st) = 4 \<Longrightarrow> p \<in> {1..4} \<and> \<not> finish st ! nat (p - 1)"
  by (rule wake_job [of p st st']) simp_all

lemma under_way_length: "under_way fin c \<Longrightarrow> length (finish (vars c)) = 4"
  by (simp add: under_way_def flags_ok_def)

lemma flags_ok_frame [simp]:
  "flags_ok (c\<lparr>boss := b\<rparr>) = flags_ok c" "flags_ok (c\<lparr>mgr := m\<rparr>) = flags_ok c"
  by (simp_all add: flags_ok_def)

lemma flags_ok_vars: "flags_ok c \<Longrightarrow> finish st = finish (vars c) \<Longrightarrow> flags_ok (c\<lparr>vars := st\<rparr>)"
  by (simp add: flags_ok_def)

lemma flags_ok_run:
  assumes f: "flags_ok c" and p: "p \<in> {1..4}" and n: "finish st = (finish (vars c))[nat (p - 1) := b]"
  shows "flags_ok (c\<lparr>vars := st, cars := (cars c)(p := JSig b)\<rparr>)"
proof -
  have "finish st ! nat (r - 1) = (if r = p then b else finish (vars c) ! nat (r - 1))" if "r \<in> {1..4}" for r
    using that p f by (auto simp: n flags_ok_def nth_list_update)
  with f n show ?thesis by (auto simp: flags_ok_def)
qed

subsection \<open>Preservation\<close>

lemma under_way_boss:
  assumes "under_way fin c" and "boss_step c = Some c'"
  shows "under_way fin c'"
proof -
  have "c' = c\<lparr>boss := ADone\<rparr>" and m: "mgr c = MDone"
    using assms by (auto simp: under_way_def boss_step_def split: if_splits)
  with assms(1) show ?thesis by (simp add: under_way_def in_control_def holds_car_def)
qed

lemma under_way_turn:
  assumes u: "under_way fin c" and o: "one_runs c" and m: "mgr c = MRun (ToTick t)"
    and s: "mgr_step c = Some c'"
  shows "under_way fin c'"
proof -
  let ?st = "fst (print_progress (vars c))"
  have h: "\<forall>p. \<not> holds_car c p" using o m by (auto simp: one_runs_def holds_mgr_def)
  obtain out out' where j: "job0_run t (vars c) out = Inr (fin, out')"
    using u m by (auto simp: under_way_defs then_on_def)
  obtain st1 cm where tn: "job0_turn t ?st = Inr (st1, cm)"
    using j by (subst (asm) job0_run.simps) (auto elim!: bindR_InrE)
  have f: "finish st1 = finish (vars c)" using finish_frame [OF tn] by (simp add: print_progress_def)
  show ?thesis
  proof (cases cm)
    case None
    have "st1 = fin" using j tn None by (subst (asm) job0_run.simps) simp
    moreover have "all_finished st1"
      using tn None by (auto simp: job0_turn_def elim!: bindR_InrE split: prod.split_asm if_split_asm)
    moreover have "c' = c\<lparr>vars := st1, mgr := MDone\<rparr>" using s m tn None by (simp add: mgr_step_def)
    ultimately show ?thesis using u f h m by (auto simp: under_way_defs holds_car_def)
  next
    case (Some cmd)
    obtain t' st2 where r: "run_command cmd st1 = Inr (t', st2)"
      and n: "job0_run t' st2 (out @ snd (print_progress (vars c))) = Inr (fin, out')"
      using j tn Some by (subst (asm) job0_run.simps) (auto elim!: bindR_InrE)
    have "c' = c\<lparr>vars := st1, mgr := MSig cmd False\<rparr>" using s m tn Some by (simp add: mgr_step_def)
    with u f m sends_command [OF r n] show ?thesis by (auto simp: under_way_defs)
  qed
qed

lemma under_way_signal:
  assumes u: "under_way fin c" and m: "mgr c = MSig cmd t" and w: "wake p (vars c) = Inr st'"
    and k: "then_on fin k st'" and j: "cars c p = JWait"
  shows "under_way fin (c\<lparr>mgr := MPre k, cars := (cars c)(p := JRun)\<rparr>)"
proof -
  have p: "p \<in> {1..4}" "\<not> finish (vars c) ! nat (p - 1)"
    using wake_flag [OF w under_way_length [OF u]] by blast+
  then have "car_on fin k (c\<lparr>mgr := MPre k, cars := (cars c)(p := JRun)\<rparr>)"
    using w k by (auto simp: car_on_def)
  with u m p j show ?thesis by (auto simp: under_way_defs)
qed

lemma under_way_mgr:
  assumes u: "under_way fin c" and o: "one_runs c" and d: "orderly Manager c"
    and s: "mgr_step c = Some c'"
  shows "under_way fin c'"
proof (cases "mgr c")
  case (MPre k)
  then have c': "c' = c\<lparr>mgr := MWait k\<rparr>" using s by (simp add: mgr_step_def)
  have "car_on fin k c" using u MPre by (simp add: under_way_defs)
  from car_on_frame [OF this, of c'] have "car_on fin k c'" by (simp add: c')
  with u MPre show ?thesis by (simp add: c' under_way_defs)
next
  case (MRun k)
  show ?thesis
  proof (cases k)
    case (ToTick t)
    with under_way_turn [OF u o _ s] MRun show ?thesis by simp
  next
    case (ToSecond q)
    have c': "c' = c\<lparr>vars := save_where (vars c), mgr := MSig (Signal q) True\<rparr>"
      using s MRun ToSecond by (simp add: mgr_step_def)
    have "sends fin (Signal q) True (save_where (vars c))"
      using u MRun ToSecond unfolding under_way_def in_control_def by (simp add: then_on_def sends_def)
    moreover have "flags_ok c'" using u by (simp add: c' under_way_def flags_ok_def save_where_def)
    ultimately show ?thesis using u MRun by (simp add: c' under_way_def in_control_def)
  qed
next
  case (MSig cmd t)
  show ?thesis
  proof (cases cmd)
    case NoSignal
    with u MSig show ?thesis by (simp add: under_way_defs sends_def)
  next
    case (Signal p)
    with u MSig obtain st' where w: "wake p (vars c) = Inr st'" "then_on fin (ToTick t) st'"
      by (auto simp: under_way_defs sends_def)
    have "cars c p = JWait" using d MSig Signal by (simp add: orderly_def heard_def)
    with under_way_signal [OF u MSig w] s MSig Signal show ?thesis
      by (auto simp: mgr_step_def signal_command_def signal_car_def)
  next
    case (SignalTwo p q)
    with u MSig obtain st' where w: "wake p (vars c) = Inr st'" "then_on fin (ToSecond q) st'"
      by (auto simp: under_way_defs sends_def)
    have "cars c p = JWait" using d MSig SignalTwo by (simp add: orderly_def heard_def)
    with under_way_signal [OF u MSig w] s MSig SignalTwo show ?thesis
      by (auto simp: mgr_step_def signal_command_def signal_car_def)
  qed
qed (use s in \<open>simp_all add: mgr_step_def\<close>)

text \<open>When a car thread runs, it is the one the manager waits for.\<close>

lemma car_in_control:
  assumes u: "under_way fin c" and o: "one_runs c" and h: "holds_car c p"
  obtains k where "mgr c = MPre k \<or> mgr c = MWait k"
    and "(cars c p = JRun \<and> (\<exists>st'. wake p (vars c) = Inr st' \<and> then_on fin k st'))
      \<or> ((\<exists>b. cars c p = JSig b) \<and> then_on fin k (vars c))"
proof -
  have nm: "\<not> holds_mgr c" and q: "\<And>q. holds_car c q \<Longrightarrow> q = p"
    using o h by (auto simp: one_runs_def)
  then have "mgr c \<noteq> MDone" using u h by (auto simp: under_way_defs)
  with nm obtain k where k: "mgr c = MPre k \<or> mgr c = MWait k"
    by (cases "mgr c") (auto simp: holds_mgr_def)
  with u have "car_on fin k c" by (auto simp: under_way_defs)
  then obtain r where "(cars c r = JRun \<and> (\<exists>st'. wake r (vars c) = Inr st' \<and> then_on fin k st'))
      \<or> ((\<exists>b. cars c r = JSig b) \<and> then_on fin k (vars c))" by (auto simp: car_on_def)
  moreover from this have "r = p" using q [of r] by (auto simp: holds_car_def)
  ultimately show ?thesis using k that by blast
qed

lemma under_way_car:
  assumes u: "under_way fin c" and o: "one_runs c" and d: "orderly (Car p) c" and p: "p \<in> {1..4}"
    and s: "car_step p c = Some c'"
  shows "under_way fin c'"
proof (cases "cars c p")
  case JStart
  with u p show ?thesis by (auto simp: under_way_defs)
next
  case JPre
  let ?c = "c\<lparr>cars := (cars c)(p := JWait)\<rparr>"
  have c': "c' = ?c" using s JPre by (simp add: car_step_def)
  have "car_on fin k ?c" if "car_on fin k c" for k
    by (rule car_on_frame [OF that]) (use JPre in \<open>auto simp: holds_car_def\<close>)
  then have "in_control fin ?c"
    using u by (auto simp: under_way_def in_control_def holds_car_def split: mpc.splits)
  moreover have "flags_ok ?c" using u JPre by (auto simp: under_way_def flags_ok_def)
  ultimately show ?thesis using u by (simp add: c' under_way_def)
next
  case JRun
  then have h: "holds_car c p" by (simp add: holds_car_def)
  obtain k where k: "mgr c = MPre k \<or> mgr c = MWait k"
    and "\<exists>st'. wake p (vars c) = Inr st' \<and> then_on fin k st'"
    by (rule car_in_control [OF u o h]) (use JRun in auto)
  then obtain st' where w: "wake p (vars c) = Inr st'" "then_on fin k st'" by blast
  have l: "length (finish (vars c)) = 4" using u by (simp add: under_way_defs)
  obtain b where j: "job p (vars c) = Inr (st', b)" and nf: "\<not> finish (vars c) ! nat (p - 1)"
    using wake_job [OF w(1) l] by blast
  have f: "finish st' = (finish (vars c))[nat (p - 1) := b]" by (rule job_flag [OF j p nf l])
  have c': "c' = c\<lparr>vars := st', cars := (cars c)(p := JSig b)\<rparr>" using s JRun j by (simp add: car_step_def)
  have "car_on fin k c'" using w(2) p by (auto simp: c' car_on_def)
  moreover have "flags_ok c'"
    unfolding c' by (rule flags_ok_run [OF _ p f]) (use u in \<open>simp add: under_way_def\<close>)
  ultimately show ?thesis using u k by (auto simp: c' under_way_def in_control_def)
next
  case (JSig b)
  then have h: "holds_car c p" by (simp add: holds_car_def)
  obtain k where k: "mgr c = MPre k \<or> mgr c = MWait k" and t: "then_on fin k (vars c)"
    by (rule car_in_control [OF u o h]) (use JSig in auto)
  have "mgr c = MWait k" using k d JSig by (auto simp: orderly_def)
  then have c': "c' = c\<lparr>cars := (cars c)(p := if b then JDone else JPre), mgr := MRun k\<rparr>"
    using s JSig by (simp add: car_step_def signal_mgr_def)
  have "flags_ok c'"
    using u JSig unfolding c' by (cases b) (auto simp: under_way_def flags_ok_def)
  moreover have "in_control fin c'" using t by (simp add: c' in_control_def)
  ultimately show ?thesis using u \<open>mgr c = MWait k\<close> by (auto simp: c' under_way_def)
qed (use s in \<open>simp_all add: car_step_def\<close>)

lemma under_way_step:
  assumes "under_way fin c" and "one_runs c" and "orderly t c" and "actor_step t c = Some c'"
  shows "under_way fin c'"
  using assms under_way_boss [of fin c c'] under_way_mgr [of fin c c'] under_way_car [of fin c _ c']
  by (auto simp: actor_step_def split: actor.splits if_splits)

subsection \<open>Progress\<close>

lemma target_ready:
  assumes u: "under_way fin c" and o: "one_runs c" and m: "holds_mgr c" and w: "wake p (vars c) = Inr st'"
  shows "p \<in> {1..4} \<and> (cars c p = JPre \<or> cars c p = JWait)"
proof -
  have p: "p \<in> {1..4}" "\<not> finish (vars c) ! nat (p - 1)"
    using wake_flag [OF w under_way_length [OF u]] by blast+
  moreover have "\<not> holds_car c p" using o m by (simp add: one_runs_def)
  ultimately show ?thesis using u by (cases "cars c p") (auto simp: under_way_defs holds_car_def)
qed

lemma signal_progress:
  assumes u: "under_way fin c" and o: "one_runs c" and m: "mgr c = MSig cmd t"
    and cmd: "cmd = Signal p \<or> (\<exists>q. cmd = SignalTwo p q)" and w: "wake p (vars c) = Inr st'"
  shows "\<exists>t c'. orderly t c \<and> actor_step t c = Some c'"
proof -
  have e: "error c = None" using u by (simp add: under_way_def)
  have "holds_mgr c" using m by (simp add: holds_mgr_def)
  from target_ready [OF u o this w] consider "p \<in> {1..4}" "cars c p = JPre" | "cars c p = JWait" by blast
  then show ?thesis
  proof cases
    case 1
    then have "orderly (Car p) c \<and> actor_step (Car p) c = Some (c\<lparr>cars := (cars c)(p := JWait)\<rparr>)"
      using e by (simp add: orderly_def actor_step_def car_step_def)
    then show ?thesis by blast
  next
    case 2
    with m e cmd have "orderly Manager c \<and> actor_step Manager c \<noteq> None"
      by (auto simp: orderly_def heard_def actor_step_def mgr_step_def)
    then show ?thesis by blast
  qed
qed

lemma under_way_progress:
  assumes u: "under_way fin c" and o: "one_runs c"
  shows "boss c = ADone \<or> (\<exists>t c'. orderly t c \<and> actor_step t c = Some c')"
proof (cases "mgr c")
  case (MPre k)
  then have "orderly Manager c \<and> actor_step Manager c = Some (c\<lparr>mgr := MWait k\<rparr>)"
    using u by (simp add: orderly_def actor_step_def mgr_step_def under_way_def)
  then show ?thesis by blast
next
  case (MWait k)
  with u obtain p where p: "p \<in> {1..4}"
    and h: "(cars c p = JRun \<and> (\<exists>st'. wake p (vars c) = Inr st')) \<or> (\<exists>b. cars c p = JSig b)"
    by (auto simp: under_way_defs car_on_def)
  from h have "orderly (Car p) c" using MWait by (auto simp: orderly_def)
  moreover have "actor_step (Car p) c \<noteq> None"
    using h p u by (auto simp: actor_step_def car_step_def under_way_def split: sum.splits)
  ultimately show ?thesis by blast
next
  case (MRun k)
  then have "orderly Manager c" by (simp add: orderly_def)
  moreover have "actor_step Manager c \<noteq> None"
    using MRun u by (cases k)
      (auto simp: actor_step_def mgr_step_def under_way_def split: sum.splits option.splits)
  ultimately show ?thesis by blast
next
  case (MSig cmd t)
  show ?thesis
  proof (cases cmd)
    case NoSignal
    with u MSig show ?thesis by (simp add: under_way_defs sends_def)
  next
    case (Signal p)
    with u MSig have "\<exists>st'. wake p (vars c) = Inr st'" by (auto simp: under_way_defs sends_def)
    with signal_progress [OF u o MSig, of p] Signal show ?thesis by blast
  next
    case (SignalTwo p q)
    with u MSig have "\<exists>st'. wake p (vars c) = Inr st'" by (auto simp: under_way_defs sends_def)
    with signal_progress [OF u o MSig, of p] SignalTwo show ?thesis by blast
  qed
next
  case MDone
  then have "cars c p = JDone" if "p \<in> {1..4}" for p
    using u that by (auto simp: under_way_defs all_finished_def holds_car_def points_cases simp del: atLeastAtMost_iff)
  with MDone u have "boss c = AJoin \<Longrightarrow> actor_step Boss c \<noteq> None"
    by (simp add: actor_step_def boss_step_def under_way_def)
  moreover have "boss c = AJoin \<Longrightarrow> orderly Boss c" by (simp add: orderly_def)
  ultimately show ?thesis using u by (auto simp: under_way_def)
qed

lemma under_way_end: "under_way fin c \<Longrightarrow> boss c = ADone \<Longrightarrow> vars c = fin"
  by (auto simp: under_way_def in_control_def)

subsection \<open>Up to the signal of main\<close>

text \<open>
  The car threads do their first test in any order and \<open>main\<close> reads the first start point: the
  shared variables differ from those of the fixed order in the entries of \<open>finish\<close> that are still
  to be set.
\<close>

definition flags_of :: "config \<Rightarrow> bool list" where
  "flags_of c = points (\<lambda>p. cars c p = JDone)"

definition entering :: "(int \<Rightarrow> int) \<Rightarrow> road \<Rightarrow> road \<Rightarrow> command \<Rightarrow> config \<Rightarrow> bool" where
  "entering h st0 st2 cmd c \<longleftrightarrow> error c = None
     \<and> (mgr c = MPre (ToTick False) \<or> mgr c = MWait (ToTick False))
     \<and> (\<forall>p \<in> {1..4}. cars c p \<in> (if h p = 0 then {JStart, JDone} else {JStart, JPre, JWait}))
     \<and> ((boss c = AStart \<and> vars c = st0\<lparr>finish := flags_of c\<rparr>)
        \<or> (boss c = ASig cmd \<and> vars c = st2\<lparr>finish := flags_of c\<rparr>))"

lemma entering_pos:
  "entering h st0 st2 cmd c \<Longrightarrow> p \<in> {1..4} \<Longrightarrow>
     cars c p \<in> (if h p = 0 then {JStart, JDone} else {JStart, JPre, JWait})"
  by (simp add: entering_def)

lemma main_start_finish:
  "main_start st = Inr (st', cmd) \<Longrightarrow> main_start (st\<lparr>finish := f\<rparr>) = Inr (st'\<lparr>finish := f\<rparr>, cmd)"
  by (auto simp: main_start_def elim!: bindR_InrE)

lemma entering_car:
  assumes e: "entering h st0 st2 cmd c" and ms: "main_start st0 = Inr (st2, cmd)" and h: "pCount st0 = points h"
    and p: "p \<in> {1..4}" and s: "car_step p c = Some c'"
  shows "entering h st0 st2 cmd c'"
proof -
  have pc: "pCount (vars c) = points h" "finish (vars c) = flags_of c"
    using e ms h by (auto simp: entering_def main_start_def elim!: bindR_InrE)
  have cp: "cars c p \<in> (if h p = 0 then {JStart, JDone} else {JStart, JPre, JWait})"
    using e p by (simp add: entering_def)
  show ?thesis
  proof (cases "cars c p = JStart")
    case True
    let ?c = "c\<lparr>cars := (cars c)(p := if h p = 0 then JDone else JPre)\<rparr>"
    have "(\<lambda>q. cars ?c q = JDone) = (\<lambda>q. cars c q = JDone)(p := (h p = 0 \<or> cars c p = JDone))"
      using True by (auto simp: fun_eq_iff)
    then have f: "points ((\<lambda>q. cars c q = JDone)(p := (h p = 0 \<or> cars c p = JDone))) = flags_of ?c"
      by (simp add: flags_of_def)
    have "job_enter p (vars c) = Inr ((vars c)\<lparr>finish := flags_of ?c\<rparr>, h p = 0)"
      using enter_points [OF p pc [unfolded flags_of_def]] unfolding f .
    then have "c' = ?c\<lparr>vars := (vars c)\<lparr>finish := flags_of ?c\<rparr>\<rparr>"
      using s True by (cases "h p = 0") (auto simp: car_step_def)
    with e show ?thesis by (auto simp: entering_def flags_of_def)
  next
    case False
    with cp s have j: "cars c p = JPre" "h p \<noteq> 0" by (auto simp: car_step_def split: if_splits)
    let ?c = "c\<lparr>cars := (cars c)(p := JWait)\<rparr>"
    have "flags_of ?c = flags_of c" using j by (auto simp: flags_of_def points_eq_iff)
    moreover have "c' = ?c" using s j by (simp add: car_step_def)
    moreover have "\<forall>q \<in> {1..4}. cars ?c q \<in> (if h q = 0 then {JStart, JDone} else {JStart, JPre, JWait})"
    proof
      fix q :: int assume "q \<in> {1..4}"
      from entering_pos [OF e this] j
      show "cars ?c q \<in> (if h q = 0 then {JStart, JDone} else {JStart, JPre, JWait})"
        by (cases "q = p") simp_all
    qed
    ultimately show ?thesis using e unfolding entering_def by simp
  qed
qed

lemma entering_boss:
  assumes e: "entering h st0 st2 (Signal p) c" and ms: "main_start st0 = Inr (st2, Signal p)"
    and w: "wake p (st2\<lparr>finish := points (\<lambda>p. h p = 0)\<rparr>) = Inr st3" and t: "then_on fin (ToTick False) st3"
    and d: "orderly Boss c" and s: "boss_step c = Some c'"
  shows "entering h st0 st2 (Signal p) c' \<or> under_way fin c'"
proof (cases "boss c = AStart")
  case True
  have m: "main_start (st0\<lparr>finish := flags_of c\<rparr>) = Inr (st2\<lparr>finish := flags_of c\<rparr>, Signal p)"
    by (rule main_start_finish [OF ms])
  have "c' = c\<lparr>vars := st2\<lparr>finish := flags_of c\<rparr>, boss := ASig (Signal p)\<rparr>"
    using e s True m by (simp add: boss_step_def entering_def)
  with e show ?thesis by (simp add: entering_def flags_of_def)
next
  case False
  then have b: "boss c = ASig (Signal p)" and v: "vars c = st2\<lparr>finish := flags_of c\<rparr>"
    using e by (auto simp: entering_def)
  have j: "cars c p = JWait" "\<forall>q \<in> {1..4}. cars c q \<noteq> JStart" using d b by (simp_all add: orderly_def heard_def)
  then have d: "(cars c q = JDone) = (h q = 0)" "cars c q \<noteq> JSig True" if "q \<in> {1..4}" for q
  proof -
    have "cars c q \<in> (if h q = 0 then {JStart, JDone} else {JStart, JPre, JWait})"
      using e that by (simp add: entering_def)
    with j(2) that show "(cars c q = JDone) = (h q = 0)" "cars c q \<noteq> JSig True" by (auto split: if_splits)
  qed
  then have f: "flags_of c = points (\<lambda>p. h p = 0)" by (simp add: flags_of_def points_eq_iff)
  have w': "wake p (vars c) = Inr st3" using w by (simp add: v f)
  have l: "length (finish (vars c)) = 4" by (simp add: v flags_of_def points_def)
  have p: "p \<in> {1..4}" using wake_flag [OF w' l] by simp
  let ?c = "c\<lparr>boss := AJoin, cars := (cars c)(p := JRun)\<rparr>"
  have c': "c' = ?c" using s b j by (simp add: boss_step_def signal_command_def signal_car_def)
  obtain k where k: "mgr c = MPre k \<or> mgr c = MWait k" "k = ToTick False" using e by (auto simp: entering_def)
  have "car_on fin k ?c" using p w' t k(2) by (auto simp: car_on_def)
  then have "in_control fin ?c" using k by (auto simp: in_control_def)
  moreover have "flags_ok ?c"
  proof -
    have "finish (vars c) ! nat (q - 1) = (h q = 0)" if "q \<in> {1..4}" for q
      using that by (auto simp: v f points_def points_cases simp del: atLeastAtMost_iff)
    moreover have "h p \<noteq> 0" using wake_flag [OF w' l] calculation [OF p] by simp
    ultimately show ?thesis using d j l by (auto simp: flags_ok_def)
  qed
  ultimately show ?thesis using e by (simp add: c' under_way_def entering_def)
qed

lemma entering_step:
  assumes e: "entering h st0 st2 (Signal p) c" and ms: "main_start st0 = Inr (st2, Signal p)"
    and h: "pCount st0 = points h"
    and w: "wake p (st2\<lparr>finish := points (\<lambda>p. h p = 0)\<rparr>) = Inr st3" and t: "then_on fin (ToTick False) st3"
    and d: "orderly a c" and s: "actor_step a c = Some c'"
  shows "entering h st0 st2 (Signal p) c' \<or> under_way fin c'"
proof (cases a)
  case Boss
  then show ?thesis using entering_boss [OF e ms w t] d s by (simp add: actor_step_def split: if_splits)
next
  case Manager
  then have "c' = c\<lparr>mgr := MWait (ToTick False)\<rparr>"
    using e s by (auto simp: entering_def actor_step_def mgr_step_def)
  with e show ?thesis by (auto simp: entering_def flags_of_def)
next
  case (Car q)
  then show ?thesis using entering_car [OF e ms h, of q c'] s by (simp add: actor_step_def split: if_splits)
qed

lemma entering_progress:
  assumes e: "entering h st0 st2 (Signal p) c" and ms: "main_start st0 = Inr (st2, Signal p)"
    and h: "pCount st0 = points h"
    and w: "wake p (st2\<lparr>finish := points (\<lambda>p. h p = 0)\<rparr>) = Inr st3"
  shows "\<exists>a c'. orderly a c \<and> actor_step a c = Some c'"
proof -
  have er: "error c = None" using e by (simp add: entering_def)
  consider "boss c = AStart" | q where "q \<in> {1..4}" "cars c q = JStart"
    | "boss c = ASig (Signal p)" "\<forall>q \<in> {1..4}. cars c q \<noteq> JStart"
    using e unfolding entering_def by blast
  then show ?thesis
  proof cases
    case 1
    then have "orderly Boss c \<and> actor_step Boss c \<noteq> None"
      using er by (auto simp: orderly_def actor_step_def boss_step_def split: sum.splits)
    then show ?thesis by blast
  next
    case 2
    then have "orderly (Car q) c \<and> actor_step (Car q) c \<noteq> None"
      using er by (auto simp: orderly_def actor_step_def car_step_def split: sum.splits)
    then show ?thesis by blast
  next
    case 3
    have "p \<in> {1..4} \<and> \<not> points (\<lambda>p. h p = 0) ! nat (p - 1)"
      using wake_flag [OF w] by (simp add: points_def)
    then have p: "p \<in> {1..4}" "h p \<noteq> 0" by (auto simp: points_def points_cases simp del: atLeastAtMost_iff)
    then have "cars c p \<in> {JPre, JWait}" using entering_pos [OF e p(1)] 3(2) by (auto split: if_splits)
    then consider "cars c p = JPre" | "cars c p = JWait" by blast
    then show ?thesis
    proof cases
      case 1
      then have "orderly (Car p) c \<and> actor_step (Car p) c \<noteq> None"
        using er p by (simp add: orderly_def actor_step_def car_step_def)
      then show ?thesis by blast
    next
      case 2
      then have "orderly Boss c \<and> actor_step Boss c \<noteq> None"
        using er 3 by (simp add: orderly_def heard_def actor_step_def boss_step_def)
      then show ?thesis by blast
    qed
  qed
qed

subsection \<open>Every orderly interleaving ends like the fixed order\<close>

lemma orderly_invariant:
  assumes "orderly_schedule ts c = Some c'" and "one_runs c"
    and "entering h st0 st2 (Signal p) c \<or> under_way fin c"
    and ms: "main_start st0 = Inr (st2, Signal p)" and h: "pCount st0 = points h"
    and w: "wake p (st2\<lparr>finish := points (\<lambda>p. h p = 0)\<rparr>) = Inr st3" and t: "then_on fin (ToTick False) st3"
  shows "one_runs c' \<and> (entering h st0 st2 (Signal p) c' \<or> under_way fin c')"
  using assms(1-3)
proof (induction ts arbitrary: c)
  case (Cons a ts)
  then obtain c1 where d: "orderly a c" and s: "actor_step a c = Some c1" and r: "orderly_schedule ts c1 = Some c'"
    by (auto split: option.splits if_splits)
  have "entering h st0 st2 (Signal p) c1 \<or> under_way fin c1"
    using Cons.prems(2,3) entering_step [OF _ ms h w t d s] under_way_step [OF _ _ d s] by blast
  with Cons.IH [OF r] one_runs_step [OF Cons.prems(2) s] show ?case by blast
qed simp

lemma orderly_run:
  assumes h: "pCount st0 = points h" and f: "finish st0 = points (\<lambda>_. False)" and l: "list_ok st0"
    and en: "enter_all [1, 2, 3, 4] st0 = Inr st1" and m1: "main_start st1 = Inr (st2', Signal p)"
    and ru: "run_command (Signal p) st2' = Inr (False, st3)" and jr: "job0_run False st3 out = Inr (fin, out')"
    and s: "orderly_schedule ts (initial_config st0) = Some c"
  shows "error c = None" and "boss c = ADone \<Longrightarrow> vars c = fin"
    and "boss c = ADone \<or> (\<exists>a c'. orderly a c \<and> actor_step a c = Some c')"
    and "length ts \<le> 264"
proof -
  have st1: "st1 = st0\<lparr>finish := points (\<lambda>p. h p = 0)\<rparr>" using entered [OF h f] en by simp
  obtain x where x: "aget (start_point_list st0) (list_index st0) = Inr x"
    using m1 by (auto simp: st1 main_start_def elim!: bindR_InrE)
  then obtain st2 cmd where ms0: "main_start st0 = Inr (st2, cmd)" by (simp add: main_start_def)
  from main_start_finish [OF this] m1 have "cmd = Signal p" and st2: "st2' = st2\<lparr>finish := points (\<lambda>p. h p = 0)\<rparr>"
    by (simp_all add: st1)
  with ms0 have ms: "main_start st0 = Inr (st2, Signal p)" by simp
  have w: "wake p (st2\<lparr>finish := points (\<lambda>p. h p = 0)\<rparr>) = Inr st3"
    using ru by (auto simp: st2 run_command_def elim!: bindR_InrE)
  have t: "then_on fin (ToTick False) st3" using jr by (auto simp: then_on_def)
  have e0: "entering h st0 st2 (Signal p) (initial_config st0)"
    using f by (simp add: entering_def initial_config_def flags_of_def)
  have i: "one_runs c \<and> (entering h st0 st2 (Signal p) c \<or> under_way fin c)"
    using orderly_invariant [OF s one_runs_init _ ms h w t] e0 by blast
  then show "error c = None" by (auto simp: entering_def under_way_def)
  show "boss c = ADone \<Longrightarrow> vars c = fin" using i under_way_end by (auto simp: entering_def)
  show "boss c = ADone \<or> (\<exists>a c'. orderly a c \<and> actor_step a c = Some c')"
    using i under_way_progress [of fin c] entering_progress [OF _ ms h w] by blast
  show "length ts \<le> 264" by (rule schedule_bounded [OF orderly_is_schedule [OF s] l])
qed

end
