(* ===== verification/Intersection_Props.thy ===== *)
theory Intersection_Props
  imports Intersection_Wakeups Intersection_Orderly
begin

text \<open>
  What the intersection program guarantees when control is handed over without loss: the turns
  follow the traffic rules, runs of up to nine cars end with every car across, and which runs
  read \<open>start_point_list\<close> past its end. Then what holds of every interleaving of the threads, as
  long as waits return after a signal only, what one return without a signal breaks, and
  that every interleaving that loses no signal ends.
\<close>

section \<open>Whole runs\<close>

lemma created_ok: "create_thread (replicate k 0) = Inr ()"
  by (induction k) auto

lemma print_result_ok: "pCount st = points h \<Longrightarrow> \<exists>r. print_result st = Inr r"
  by (simp add: print_result_def points_def aget_def)

lemma program_outcome:
  assumes rand: "\<forall>i. 0 \<le> rand i" and v: "read_vehicles input = int n" and n: "1 \<le> n" "n \<le> 20"
  shows "if traffic_ticks (traffic_start (drawn rand n)) \<le> 19
    then \<exists>st out. program_main input rand (replicate 5 0) = Inr (st, out)
      \<and> job_count st = points (\<lambda>p. int (count_list (drawn rand n) p)) \<and> pCount st = job_count st
      \<and> tick st = 1 + int (traffic_ticks (traffic_start (drawn rand n)))
    else program_main input rand (replicate 5 0) = Inl OutOfBounds"
proof -
  let ?xs = "drawn rand n"
  let ?h = "\<lambda>p. int (count_list ?xs p)"
  let ?st = "init_road\<lparr>start_point_list := ?xs @ replicate (20 - n) 0, pCount := points ?h\<rparr>"
  let ?st1 = "?st\<lparr>finish := points (\<lambda>p. ?h p = 0)\<rparr>"
  obtain out where cr: "create_random_list (int n) rand init_road = Inr (?st, out)"
    using created [OF rand n(2)] by blast
  have en: "enter_all [1, 2, 3, 4] ?st = Inr ?st1"
    by (rule entered) (simp_all add: init_road_def replicate_points)
  have st1: "?st1 = init_road\<lparr>start_point_list := ?xs @ replicate (20 - length ?xs) 0,
      pCount := points ?h, finish := points (\<lambda>p. ?h p = 0)\<rparr>" by simp
  obtain st2 st3 where ms: "main_start ?st1 = Inr (st2, Signal (hd ?xs))"
    and ru: "run_command (Signal (hd ?xs)) st2 = Inr (False, st3)"
    and r: "represents ?xs False st3 (traffic_start ?xs)" and l: "list_index st3 = 1" "tick st3 = 1"
    using started [OF drawn_points [OF rand] _ _ st1] n by auto
  have "program_main input rand (replicate 5 0) =
      bindR (job0_run False st3 out) (\<lambda>(st4, out'). bindR (print_result st4) (\<lambda>r. Inr (st4, out' @ r)))"
    using cr en ms ru by (simp only: program_main_def v created_ok bindR_simps prod.case)
  note main = this
  show ?thesis
  proof (cases "traffic_ticks (traffic_start ?xs) \<le> 19")
    case True
    with job0_run_refines [OF r, of out] l obtain st4 out' where
      j: "job0_run False st3 out = Inr (st4, out')" "job_count st4 = points ?h" "pCount st4 = points ?h"
        "tick st4 = 1 + int (traffic_ticks (traffic_start ?xs))" by auto
    obtain res where "print_result st4 = Inr res" using print_result_ok [OF j(3)] by blast
    with j main True show ?thesis by simp
  next
    case False
    with job0_run_refines [OF r, of out] l have "job0_run False st3 out = Inl OutOfBounds" by simp
    with main False show ?thesis by simp
  qed
qed

lemma start_ticks:
  assumes "1 \<le> n" and "\<forall>i. 0 \<le> rand i"
  shows "n + 1 \<le> traffic_ticks (traffic_start (drawn rand n))"
    and "traffic_ticks (traffic_start (drawn rand n)) \<le> 2 * n"
proof -
  have "drawn rand n \<noteq> []" using assms(1) by (metis drawn_simps(1) list.size(3) not_one_le_zero)
  then have "hd (drawn rand n) \<in> {1..4}" using drawn_points [of rand n] assms(2) hd_in_set by blast
  then have "hd (drawn rand n) \<noteq> 0" by auto
  then have "traffic_work (traffic_start (drawn rand n)) = 2 * (n - 1) + 1"
    by (simp add: traffic_work_def traffic_start_def)
  with ticks_bounds [of "traffic_start (drawn rand n)"] assms(1)
  show "n + 1 \<le> traffic_ticks (traffic_start (drawn rand n))"
    and "traffic_ticks (traffic_start (drawn rand n)) \<le> 2 * n" by linarith+
qed

lemma create_loop_append:
  "create_loop rand (is @ js) st out = bindR (create_loop rand is st out) (\<lambda>(st', out'). create_loop rand js st' out')"
  by (induction "is" arbitrary: st out) (auto simp: Let_def bindR_assoc)

lemma create_overflow:
  assumes rand: "\<forall>i. 0 \<le> rand i" and n: "20 < n"
  shows "create_random_list (int n) rand init_road = Inl OutOfBounds"
proof -
  have "start_point_list init_road = drawn rand 0 @ replicate (20 - 0) 0"
    "pCount init_road = points (\<lambda>p. int (count_list (drawn rand 0) p))"
    by (simp_all add: init_road_def drawn_def points_def numeral_eq_Suc)
  from create_loop_draws [OF rand _ this, where k = 20] obtain out where
    c: "create_loop rand [0..<20] init_road (''Total number of vehicles : '' @ ''Start point : '') =
      Inr (init_road\<lparr>start_point_list := drawn rand 20,
        pCount := points (\<lambda>p. int (count_list (drawn rand 20) p))\<rparr>, out)"
    by fastforce
  have u: "[0..<n] = [0..<20] @ 20 # [21..<n]"
    using n upt_add_eq_append [of 0 20 "n - 20"] by (simp add: upt_conv_Cons)
  show ?thesis
    unfolding create_random_list_def nat_int u create_loop_append c
    by (simp add: Let_def aset_out)
qed

text \<open>Cars that all come from one side never face another car: each takes two turns.\<close>

lemma one_side_ticks:
  assumes "set (queue a) \<subseteq> {p}" and "set (upcoming a) \<subseteq> {p}" and "on_road a \<in> {0, p}"
    and "p \<in> {1..4}"
  shows "traffic_ticks a = traffic_work a + 1"
  using assms(1-3)
proof (induction a rule: traffic_run.induct)
  case (1 a)
  show ?case
  proof (cases "traffic_over a")
    case True
    then have "traffic_work a = 0" by (simp add: traffic_over_def traffic_work_def)
    with True show ?thesis by (simp add: traffic_ticks.simps)
  next
    case False
    have o: "opposite p \<noteq> p" "p \<noteq> 0" using assms(4) by (auto simp: opposite_def)
    let ?q = "queue a @ take 1 (upcoming a)"
    have q: "set ?q \<subseteq> {p}" and u: "set (drop 1 (upcoming a)) \<subseteq> {p}"
      using 1(2,3) set_take_subset [of 1 "upcoming a"] set_drop_subset [of 1 "upcoming a"] by auto
    have len: "length ?q + length (drop 1 (upcoming a)) = length (queue a) + length (upcoming a)"
      by (metis append_take_drop_id length_append add.assoc)
    have "traffic_work (traffic_turn a) + 1 = traffic_work a \<and> set (queue (traffic_turn a)) \<subseteq> {p}
      \<and> set (upcoming (traffic_turn a)) \<subseteq> {p} \<and> on_road (traffic_turn a) \<in> {0, p}"
    proof (cases "on_road a = 0")
      case True
      then have ne: "?q \<noteq> []" using False by (cases "upcoming a") (auto simp: traffic_over_def)
      then obtain c cs where c: "?q = c # cs" by (meson neq_Nil_conv)
      have "set (c # cs) \<subseteq> {p}" using q by (simp only: c)
      then have "c = p" "set cs \<subseteq> {p}" by auto
      with True c u len o(2) show ?thesis
        by (simp add: traffic_turn_def traffic_arrive_def traffic_cross_def traffic_work_def)
    next
      case no: False
      then have "on_road a = p" using 1(4) by auto
      moreover have "opposite p \<notin> set ?q" using q o by auto
      ultimately show ?thesis using no u q len
        by (simp add: traffic_turn_def traffic_arrive_def traffic_cross_def traffic_work_def)
    qed
    with 1(1) [OF False] False show ?thesis by (simp add: traffic_ticks.simps [of a])
  qed
qed

section \<open>Properties\<close>

text \<open>
  C7. A turn of the managing thread, with the car threads it wakes, is a turn of the traffic rules of
  the exercise: from shared variables that represent a traffic state with cars left, and with an
  entry of \<open>start_point_list\<close> left to read, the turn succeeds, wakes live threads only, and ends in
  variables that represent a state the rules allow after the next car has arrived. The rules leave
  open which waiting car an empty crossing takes; the program always takes the one that has
  waited longest.\<close>

theorem turn_follows_rules:
  assumes "represents xs temp st a" and "list_index st < 20" and "\<not> traffic_over a"
  shows "\<exists>st' c t st'' b. job0_turn temp st = Inr (st', Some c) \<and> run_command c st' = Inr (t, st'')
    \<and> represents xs t st'' b \<and> crossing_rule (traffic_arrive a) b \<and> list_index st'' = list_index st + 1
    \<and> b = traffic_turn a
    \<and> (on_road a = 0 \<longrightarrow> on_road b = hd (queue a @ take 1 (upcoming a)))"
proof -
  have "on_road a = 0 \<Longrightarrow> on_road (traffic_turn a) = hd (queue a @ take 1 (upcoming a))"
    by (simp add: traffic_turn_def traffic_arrive_def traffic_cross_def)
  with represents_turn [OF assms] turn_by_rule [OF assms(3)] show ?thesis by metis
qed

definition two_cars :: road where
  "two_cars = init_road\<lparr>start_point_list := [1, 3] @ replicate 18 0, pCount := [1, 0, 1, 0],
     finish := [False, True, False, True], list_index := 1, start := 1, progress := [1, 0, 0, 0],
     wher := 1\<rparr>"

lemma two_cars_start: "represents [1, 3] False two_cars (traffic_start [1, 3])"
  by (simp add: represents_def two_cars_def traffic_start_def init_road_def points_def traffic_inv_def
      replicate_points)

theorem turn_follows_rules_witness:
  "\<exists>st' c t st'' b. job0_turn False two_cars = Inr (st', Some c) \<and> run_command c st' = Inr (t, st'')
    \<and> represents [1, 3] t st'' b \<and> crossing_rule (traffic_arrive (traffic_start [1, 3])) b
    \<and> list_index st'' = 2 \<and> b = traffic_turn (traffic_start [1, 3])"
  using turn_follows_rules [OF two_cars_start]
  by (simp add: two_cars_def traffic_over_def traffic_start_def init_road_def)

text \<open>
  The choice is not random: when cars of two start points wait at an empty crossing, the rules
  allow to send the later one, and the program never does.\<close>

theorem choice_not_random:
  assumes "represents xs temp st a" and "list_index st < 20" and "on_road a = 0"
    and "queue a @ take 1 (upcoming a) = p # ps" and "q \<in> set ps" and "q \<noteq> p"
  shows "\<exists>st' c t st'' b. job0_turn temp st = Inr (st', Some c) \<and> run_command c st' = Inr (t, st'')
    \<and> crossing_rule (traffic_arrive a) b \<and> on_road b = q \<and> \<not> represents xs t st'' b"
proof -
  have n: "\<not> traffic_over a" using assms(4) by (auto simp: traffic_over_def)
  obtain st' c t st'' where j: "job0_turn temp st = Inr (st', Some c)" "run_command c st' = Inr (t, st'')"
    and r: "represents xs t st'' (traffic_turn a)"
    using represents_turn [OF assms(1,2) n] by metis
  have o: "on_road (traffic_turn a) = p"
    using assms(3,4) by (simp add: traffic_turn_def traffic_arrive_def traffic_cross_def)
  have q: "queue (traffic_arrive a) = p # ps" "on_road (traffic_arrive a) = 0"
    using assms(3,4) by (simp_all add: traffic_arrive_def)
  let ?b = "(traffic_arrive a)\<lparr>queue := remove1 q (queue (traffic_arrive a)), on_road := q\<rparr>"
  have "crossing_rule (traffic_arrive a) ?b" by (rule rule_enter) (use q assms(5) in simp_all)
  moreover have "\<not> represents xs t st'' ?b"
    using r o assms(6) by (auto simp: represents_def)
  ultimately show ?thesis using j by (intro exI [of _ ?b] exI conjI) (assumption | simp)+
qed

text \<open>
  Run in the order that hands control over without loss, the program with one to nine cars ends
  without an access outside an array, whatever start points are drawn: every car drawn has passed,
  each start point's count is the number of cars drawn there, and the reported total time lies
  between one more than the number of cars and twice that number.\<close>

theorem handover_completes:
  assumes "\<forall>i. 0 \<le> rand i" and "read_vehicles input = int n" and "1 \<le> n" and "n \<le> 9"
  shows "\<exists>st out. program_main input rand (replicate 5 0) = Inr (st, out)
    \<and> job_count st = points (\<lambda>p. int (count_list (drawn rand n) p)) \<and> pCount st = job_count st
    \<and> int n + 1 \<le> tick st - 1 \<and> tick st - 1 \<le> 2 * int n"
proof -
  have "traffic_ticks (traffic_start (drawn rand n)) \<le> 19" "n \<le> 20"
    using start_ticks(2) [OF assms(3,1)] assms(4) by auto
  with program_outcome [OF assms(1-3)] start_ticks [OF assms(3,1)] show ?thesis by force
qed

theorem handover_completes_witness:
  "\<exists>st out. program_main ''3'' (\<lambda>i. int i) (replicate 5 0) = Inr (st, out)
    \<and> job_count st = points (\<lambda>p. int (count_list (drawn (\<lambda>i. int i) 3) p)) \<and> pCount st = job_count st
    \<and> int 3 + 1 \<le> tick st - 1 \<and> tick st - 1 \<le> 2 * int 3"
proof (rule handover_completes)
  show "read_vehicles ''3'' = int 3" by code_simp
qed simp_all

text \<open>
  With one to twenty cars the outcome of that order depends only on the number of turns the traffic
  rules need for the start points drawn: with at most nineteen the program ends and reports that
  number, with more it reads \<open>start_point_list\<close> past its last entry.\<close>

theorem program_outcome_by_ticks:
  assumes "\<forall>i. 0 \<le> rand i" and "read_vehicles input = int n" and "1 \<le> n" and "n \<le> 20"
  shows "if traffic_ticks (traffic_start (drawn rand n)) \<le> 19
    then \<exists>st out. program_main input rand (replicate 5 0) = Inr (st, out)
      \<and> tick st - 1 = int (traffic_ticks (traffic_start (drawn rand n)))
    else program_main input rand (replicate 5 0) = Inl OutOfBounds"
  using program_outcome [OF assms] by (auto split: if_splits)

theorem program_outcome_by_ticks_witness:
  "\<exists>st out. program_main ''2'' (\<lambda>i. 2 * int i) (replicate 5 0) = Inr (st, out) \<and> tick st - 1 = 3"
proof -
  have v: "read_vehicles ''2'' = int 2" by code_simp
  have "traffic_ticks (traffic_start (drawn (\<lambda>i. 2 * int i) 2)) = 3" by code_simp
  with program_outcome_by_ticks [OF _ v, of "\<lambda>i. 2 * int i"] show ?thesis by simp
qed

text \<open>
  Ten or more cars from one side, up to twenty, make the program read \<open>start_point_list\<close> past its
  last entry, although ten to fifteen cars are what the exercise asks for.\<close>

theorem one_side_overruns:
  assumes "0 \<le> r" and "read_vehicles input = int n" and "10 \<le> n" and "n \<le> 20"
  shows "program_main input (\<lambda>_. r) (replicate 5 0) = Inl OutOfBounds"
proof -
  let ?p = "c_mod r 4 + 1"
  let ?a = "traffic_start (drawn (\<lambda>_. r) n)"
  have d: "drawn (\<lambda>_. r) n = replicate n ?p" by (simp add: drawn_def map_replicate_const)
  have p: "?p \<in> {1..4}" using assms(1) by (auto simp: c_mod_nonneg)
  obtain m where m: "n = Suc m" using assms(3) by (cases n) auto
  have "traffic_ticks ?a = traffic_work ?a + 1"
    unfolding d by (rule one_side_ticks [OF _ _ _ p]) (auto simp: traffic_start_def m)
  also have "traffic_work ?a + 1 = 2 * n"
    unfolding d using p by (auto simp: traffic_work_def traffic_start_def m)
  finally have "\<not> traffic_ticks ?a \<le> 19" using assms(3) by simp
  with program_outcome [of "\<lambda>_. r", OF _ assms(2)] assms show ?thesis by simp
qed

theorem one_side_overruns_witness:
  "program_main ''10'' (\<lambda>_. 0) (replicate 5 0) = Inl OutOfBounds"
proof (rule one_side_overruns)
  show "read_vehicles ''10'' = int 10" by code_simp
qed simp_all

text \<open>
  Nineteen cars or more overrun \<open>start_point_list\<close> whatever start points are drawn, when they
  are drawn or during the run.\<close>

theorem nineteen_overruns:
  assumes "\<forall>i. 0 \<le> rand i" and "read_vehicles input = int n" and "19 \<le> n"
  shows "program_main input rand (replicate 5 0) = Inl OutOfBounds"
proof (cases "n \<le> 20")
  case True
  then show ?thesis
    using program_outcome [OF assms(1,2)] start_ticks(1) [OF _ assms(1), of n] assms(3) by auto
next
  case False
  then show ?thesis using create_overflow [OF assms(1), of n] assms(2) by (simp add: program_main_def)
qed

theorem nineteen_overruns_witness:
  "program_main ''19'' (\<lambda>i. int i) (replicate 5 0) = Inl OutOfBounds"
proof (rule nineteen_overruns)
  show "read_vehicles ''19'' = int 19" by code_simp
qed simp_all

text \<open>
  Without a car (a count that is zero or negative, or input that is no number) \<open>main\<close> signals
  no thread: \<open>job0\<close> waits for ever for a first signal.\<close>

theorem no_vehicles_deadlock:
  assumes "read_vehicles input \<le> 0"
  shows "program_main input rand (replicate 5 0) = Inl Deadlock"
proof -
  have e: "enter_all [1, 2, 3, 4] init_road = Inr (init_road\<lparr>finish := points (\<lambda>_. True)\<rparr>)"
    using entered [of init_road "\<lambda>_. 0"] by (simp add: init_road_def replicate_points)
  have m: "main_start (init_road\<lparr>finish := points (\<lambda>_. True)\<rparr>) =
      Inr (init_road\<lparr>finish := points (\<lambda>_. True), start := 0, list_index := 1\<rparr>, NoSignal)"
    by (simp add: main_start_def init_road_def aget_def)
  have "nat (read_vehicles input) = 0" using assms by simp
  then show ?thesis
    by (simp only: program_main_def create_random_list_def upt.simps create_loop.simps created_ok
        bindR_simps prod.case e m run_command_def command.case)
qed

theorem no_vehicles_deadlock_witness: "program_main ''none'' (\<lambda>_. 0) (replicate 5 0) = Inl Deadlock"
proof (rule no_vehicles_deadlock)
  show "read_vehicles ''none'' \<le> 0" by code_simp
qed

section \<open>Interleavings\<close>

lemma create_loop_frame:
  "create_loop rand ks st out = Inr (st', out') \<Longrightarrow>
     progress st' = progress st \<and> wher st' = wher st \<and> finish st' = finish st
     \<and> length (pCount st') = length (pCount st)"
  by (induction ks arbitrary: st out) (auto simp: Let_def arr_simps elim!: bindR_InrE)

lemma four_points: "length xs = 4 \<Longrightarrow> \<exists>h. xs = points h"
  by (rule exI [of _ "\<lambda>p. xs ! nat (p - 1)"])
    (auto simp: points_def numeral_eq_Suc length_Suc_conv)

lemma program_main_parts:
  assumes "program_main input rand (replicate 5 0) = Inr (st, out)"
    and "create_random_list (read_vehicles input) rand init_road = Inr (st0, out0)"
  obtains st1 st2 p st3 out' where "enter_all [1, 2, 3, 4] st0 = Inr st1"
    and "main_start st1 = Inr (st2, Signal p)" and "run_command (Signal p) st2 = Inr (False, st3)"
    and "job0_run False st3 out0 = Inr (st, out')"
proof -
  from assms obtain st1 where e: "enter_all [1, 2, 3, 4] st0 = Inr st1"
    and r: "bindR (main_start st1) (\<lambda>(st2, c). bindR (run_command c st2) (\<lambda>(t, st3).
      bindR (job0_run t st3 out0) (\<lambda>(st4, out'). bindR (print_result st4) (\<lambda>r. Inr (st4, out' @ r)))))
      = Inr (st, out)"
    by (simp only: program_main_def created_ok bindR_simps prod.case) (erule bindR_InrE)
  from r obtain st2 cmd where m: "main_start st1 = Inr (st2, cmd)"
    and r2: "bindR (run_command cmd st2) (\<lambda>(t, st3).
      bindR (job0_run t st3 out0) (\<lambda>(st4, out'). bindR (print_result st4) (\<lambda>r. Inr (st4, out' @ r))))
      = Inr (st, out)"
    by (elim bindR_InrE) (simp split: prod.split_asm)
  from r2 obtain t st3 where c: "run_command cmd st2 = Inr (t, st3)"
    and r3: "bindR (job0_run t st3 out0) (\<lambda>(st4, out'). bindR (print_result st4) (\<lambda>r. Inr (st4, out' @ r)))
      = Inr (st, out)"
    by (elim bindR_InrE) (simp split: prod.split_asm)
  from r3 obtain out' where j: "job0_run t st3 out0 = Inr (st, out')"
    by (elim bindR_InrE) (auto split: prod.split_asm elim!: bindR_InrE)
  from m c have "\<exists>p. cmd = Signal p" "t = False"
    by (auto simp: main_start_def run_command_def elim!: bindR_InrE split: if_split_asm)
  with e m c j that show ?thesis by blast
qed

text \<open>
  C20. As long as \<open>pthread_cond_wait\<close> returns after a signal only, at most one thread is between
  waking up and handing over to the next, whatever signals are lost: the shared variables, which
  no common mutex protects, are then used by one thread at a time once the car threads have
  done their first test. A single return without a signal, which POSIX allows, is enough to have
  two threads run: the managing thread beside \<open>main\<close> before its signal, whatever cars are drawn.\<close>

theorem one_thread_at_a_time:
  "(\<forall>c. reaches st 0 c \<longrightarrow>
      (holds_boss c \<longrightarrow> \<not> holds_mgr c \<and> (\<forall>p. \<not> holds_car c p))
      \<and> (holds_mgr c \<longrightarrow> (\<forall>p. \<not> holds_car c p))
      \<and> (\<forall>p q. holds_car c p \<and> holds_car c q \<longrightarrow> p = q))
   \<and> (\<exists>c. reaches st 1 c \<and> holds_boss c \<and> holds_mgr c)"
  using one_runs_reachable [OF reaches_reachable] manager_wakes_early by (simp add: one_runs_def)

definition one_car :: road where
  "one_car = init_road\<lparr>start_point_list := 1 # replicate 19 0, pCount := [1, 0, 0, 0]\<rparr>"

theorem one_thread_at_a_time_witness:
  "(\<exists>c. schedule [Car 1, Car 1, Boss, Boss, Car 1] (initial_config one_car) = Some c \<and> holds_car c 1
     \<and> \<not> holds_mgr c)
   \<and> (\<exists>c. reaches one_car 1 c \<and> holds_boss c \<and> holds_mgr c)"
proof -
  let ?r = "schedule [Car 1, Car 1, Boss, Boss, Car 1] (initial_config one_car)"
  have s: "?r \<noteq> None \<and> cars (the ?r) 1 = JSig False" by code_simp
  then obtain c where c: "?r = Some c" "cars c 1 = JSig False" by auto
  have "reaches one_car 0 c" by (rule reaches_schedule [OF reaches_init c(1)])
  with one_thread_at_a_time [of one_car] c show ?thesis by (auto simp: holds_car_def)
qed

text \<open>
  C2. As long as \<open>pthread_cond_wait\<close> returns after a signal only, the cars on the crossing are from one
  start point or from two opposite ones in every interleaving, whatever signals are lost: cars of
  crossing roads are never there together. The program does not guard against a return without a
  signal, which POSIX allows: after the first car has entered, one such return puts a car of
  any other start point that has one beside it.\<close>

theorem never_perpendicular:
  assumes "create_random_list v rand init_road = Inr (st, out)"
  shows "(\<forall>c p q. reaches st 0 c \<and> p \<in> {1..4} \<and> q \<in> {1..4}
        \<and> progress (vars c) ! nat (p - 1) \<noteq> 0 \<and> progress (vars c) ! nat (q - 1) \<noteq> 0
        \<longrightarrow> q = p \<or> q = opposite p)
     \<and> (\<forall>n q. v = int n \<and> n \<le> 20 \<and> (\<forall>i. 0 \<le> rand i) \<and> q \<in> set (drawn rand n) \<and> q \<noteq> hd (drawn rand n)
        \<longrightarrow> (\<exists>c. reaches st 1 c
              \<and> progress (vars c) = points (\<lambda>p. of_bool (p = hd (drawn rand n) \<or> p = q))))"
proof (intro conjI allI impI)
  fix c p q
  assume a: "reaches st 0 c \<and> p \<in> {1..4} \<and> q \<in> {1..4}
    \<and> progress (vars c) ! nat (p - 1) \<noteq> 0 \<and> progress (vars c) ! nat (q - 1) \<noteq> 0"
  have "ready st"
    using assms(1) by (auto simp: create_random_list_def ready_def init_road_def elim!: bindR_InrE
        dest!: create_loop_frame)
  moreover have "reachable st c" using reaches_reachable a by blast
  ultimately have "one_axis (vars c)" using crossing_reachable by (simp add: crossing_inv_def)
  with a show "q = p \<or> q = opposite p" by (simp add: one_axis_def crossing_def)
next
  fix n q
  let ?xs = "drawn rand n"
  assume a: "v = int n \<and> n \<le> 20 \<and> (\<forall>i. 0 \<le> rand i) \<and> q \<in> set ?xs \<and> q \<noteq> hd ?xs"
  then obtain st' where "create_random_list (int n) rand init_road = Inr (st', out)"
    and "st' = init_road\<lparr>start_point_list := ?xs @ replicate (20 - n) 0,
      pCount := points (\<lambda>p. int (count_list ?xs p))\<rparr>"
    using created [of rand n] assms by auto
  with a assms have st: "st = init_road\<lparr>start_point_list := ?xs @ replicate (20 - n) 0,
      pCount := points (\<lambda>p. int (count_list ?xs p))\<rparr>" by simp
  have ne: "?xs \<noteq> []" using a by auto
  have h: "hd ?xs \<in> set ?xs" using ne by simp
  have "aget (start_point_list st) (list_index st) = Inr (hd ?xs)"
    using ne by (cases ?xs) (auto simp: st init_road_def aget_def)
  moreover have "hd ?xs \<in> {1..4}" "q \<in> {1..4}" using drawn_points [of rand n] a h by blast+
  moreover have "count_list ?xs (hd ?xs) \<noteq> 0" "count_list ?xs q \<noteq> 0" using h a by (simp_all add: count_list_0_iff)
  ultimately obtain c where "reaches st 1 c" "progress (vars c) = points ((\<lambda>_. 0)(hd ?xs := 1, q := 1))"
    using crossing_car_joins [of st "\<lambda>p. int (count_list ?xs p)" "hd ?xs" q] a
    by (auto simp: st init_road_def replicate_points)
  moreover have "points ((\<lambda>_. 0)(hd ?xs := 1, q := 1)) = points (\<lambda>p. of_bool (p = hd ?xs \<or> p = q) :: int)"
    by (auto simp: points_eq_iff)
  ultimately show "\<exists>c. reaches st 1 c
      \<and> progress (vars c) = points (\<lambda>p. of_bool (p = hd ?xs \<or> p = q))" by auto
qed

definition facing_pair :: "config option" where
  "facing_pair =
     (case create_random_list 2 (\<lambda>i. 2 * int i) init_road of
        Inl e \<Rightarrow> None
      | Inr (st, out) \<Rightarrow>
          schedule [Car 1, Car 1, Car 3, Car 3, Manager, Boss, Boss, Car 1, Car 1, Car 1, Manager, Manager,
            Manager, Car 3] (initial_config st))"

theorem never_perpendicular_witness:
  "(\<exists>c. facing_pair = Some c \<and> progress (vars c) = [1, 0, 1, 0] \<and> ((3::int) = 1 \<or> 3 = opposite 1))
   \<and> (\<exists>st out c. create_random_list 2 (\<lambda>i. int i) init_road = Inr (st, out) \<and> reaches st 1 c
        \<and> progress (vars c) = [1, 1, 0, 0])"
proof
  let ?c = "create_random_list 2 (\<lambda>i. 2 * int i) init_road"
  have "(case ?c of Inl e \<Rightarrow> False | Inr (st, out) \<Rightarrow> True)" by code_simp
  then obtain st out where c: "?c = Inr (st, out)" by (auto split: sum.splits)
  have e: "facing_pair \<noteq> None \<and> progress (vars (the facing_pair)) = [1, 0, 1, 0]" by code_simp
  then obtain c' where f: "facing_pair = Some c'" by blast
  from e have p: "progress (vars c') = [1, 0, 1, 0]" unfolding f by simp
  have "reaches st 0 c'"
    using f c by (auto simp: facing_pair_def simp del: schedule.simps intro: reaches_schedule [OF reaches_init])
  with never_perpendicular [OF c, THEN conjunct1, rule_format, of c' 1 3] p
  have "(3::int) = 1 \<or> 3 = opposite 1" by simp
  with f p show "\<exists>c. facing_pair = Some c \<and> progress (vars c) = [1, 0, 1, 0] \<and> ((3::int) = 1 \<or> 3 = opposite 1)"
    by blast
next
  let ?c = "create_random_list 2 (\<lambda>i. int i) init_road"
  have "(case ?c of Inl e \<Rightarrow> False | Inr (st, out) \<Rightarrow> True)" by code_simp
  then obtain st out where c: "?c = Inr (st, out)" by (auto split: sum.splits)
  have d: "drawn (\<lambda>i. int i) 2 = [1, 2]" by code_simp
  from never_perpendicular [OF c, THEN conjunct2, rule_format, of 2 2] obtain c'
    where "reaches st 1 c'" "progress (vars c') = points (\<lambda>p. of_bool (p = 1 \<or> p = 2))" by (auto simp: d)
  with c show "\<exists>st out c. ?c = Inr (st, out) \<and> reaches st 1 c \<and> progress (vars c) = [1, 1, 0, 0]"
    by (intro exI [of _ st] exI [of _ out] exI [of _ c']) (simp add: points_def)
qed

text \<open>
  C26. A signal can be lost: with a single car there is an interleaving after which no thread can go on.
  \<open>job0\<close> signals the car thread, the car thread answers before \<open>job0\<close> has called \<open>pthread_cond_wait\<close>,
  and \<open>job0\<close> then waits for ever, because it waits without testing a condition.\<close>

theorem lost_signal_deadlock:
  "\<exists>st out c. create_random_list 1 (\<lambda>_. 0) init_road = Inr (st, out) \<and> reachable st c \<and> stuck c
     \<and> mgr c = MWait (ToTick False) \<and> all_finished (vars c)"
proof -
  let ?r = "create_random_list 1 (\<lambda>_. 0) init_road"
  let ?ts = "[Car 1, Car 1, Car 2, Car 3, Car 4, Manager, Boss, Boss, Car 1, Car 1, Car 1, Manager,
      Manager, Car 1, Car 1, Manager]"
  have "case ?r of Inl e \<Rightarrow> False | Inr (st, out) \<Rightarrow>
      (case schedule ?ts (initial_config st) of None \<Rightarrow> False | Some c \<Rightarrow>
        error c = None \<and> boss c = AJoin \<and> mgr c = MWait (ToTick False) \<and> cars c 1 = JDone
        \<and> cars c 2 = JDone \<and> cars c 3 = JDone \<and> cars c 4 = JDone \<and> all_finished (vars c))"
    by code_simp
  then obtain st out c where r: "?r = Inr (st, out)" and s: "schedule ?ts (initial_config st) = Some c"
    and c: "error c = None" "boss c = AJoin" "mgr c = MWait (ToTick False)" "cars c 1 = JDone"
      "cars c 2 = JDone" "cars c 3 = JDone" "cars c 4 = JDone" "all_finished (vars c)"
    by (auto split: sum.splits option.splits simp del: schedule.simps)
  have "stuck c"
    using c by (auto simp: stuck_def boss_step_def mgr_step_def car_step_def points_cases simp del: atLeastAtMost_iff)
  with r c schedule_reachable [OF reachable_init s] show ?thesis by blast
qed

text \<open>
  A run that hands control over without loss is one of the interleavings: whenever it ends, the
  six threads can reach the state it ends in, with \<open>main\<close> past its joins.\<close>

theorem handover_is_interleaving:
  assumes "create_random_list (read_vehicles input) rand init_road = Inr (st0, out0)"
    and "program_main input rand (replicate 5 0) = Inr (st, out)"
  shows "\<exists>c. reachable st0 c \<and> boss c = ADone \<and> vars c = st"
proof -
  have "finish st0 = replicate 4 False" "length (pCount st0) = 4"
    using assms(1) by (auto simp: create_random_list_def init_road_def elim!: bindR_InrE
        dest!: create_loop_frame)
  then obtain h where h: "pCount st0 = points h" "finish st0 = points (\<lambda>_. False)"
    using four_points by (auto simp: replicate_points)
  show ?thesis
    by (rule program_main_parts [OF assms(2,1)]) (rule program_schedule [OF h])
qed

theorem handover_is_interleaving_witness:
  "\<exists>st0 out0 st out c. create_random_list 1 (\<lambda>_. 0) init_road = Inr (st0, out0)
     \<and> program_main ''1'' (\<lambda>_. 0) (replicate 5 0) = Inr (st, out)
     \<and> reachable st0 c \<and> boss c = ADone \<and> vars c = st"
proof -
  have v: "read_vehicles ''1'' = 1" by code_simp
  have "case create_random_list 1 (\<lambda>_. 0) init_road of Inl e \<Rightarrow> False | Inr r \<Rightarrow> True" by code_simp
  then obtain st0 out0 where c: "create_random_list 1 (\<lambda>_. 0) init_road = Inr (st0, out0)"
    by (auto split: sum.splits)
  have "traffic_ticks (traffic_start (drawn (\<lambda>_. 0) 1)) \<le> 19"
    using start_ticks(2) [of 1 "\<lambda>_. 0"] by simp
  then obtain st out where m: "program_main ''1'' (\<lambda>_. 0) (replicate 5 0) = Inr (st, out)"
    using program_outcome [of "\<lambda>_. 0" "''1''" 1] v by auto
  from handover_is_interleaving [OF c [folded v] m] c m show ?thesis by blast
qed

text \<open>
  C11. With one to nine cars, whatever start points are drawn, every interleaving of the threads in which
  no signal is lost, no wait returns without a signal and every car thread has done its first test
  before the signal of \<open>main\<close> leads to the end of the program: it has at most 264 steps, no access
  is outside an array, some thread can go on until \<open>main\<close> has passed its joins, and then every car
  drawn has passed, each start point's count is the number of cars drawn there, and the reported
  total time lies between one more than the number of cars and twice that number.\<close>

theorem program_completes:
  assumes "\<forall>i. 0 \<le> rand i" and "read_vehicles input = int n" and "1 \<le> n" and "n \<le> 9"
    and "create_random_list (read_vehicles input) rand init_road = Inr (st0, out0)"
    and "orderly_schedule ts (initial_config st0) = Some c"
  shows "length ts \<le> 264 \<and> error c = None
    \<and> (boss c = ADone \<or> (\<exists>a c'. orderly a c \<and> actor_step a c = Some c'))
    \<and> (boss c = ADone \<longrightarrow>
         job_count (vars c) = points (\<lambda>p. int (count_list (drawn rand n) p))
         \<and> pCount (vars c) = job_count (vars c)
         \<and> int n + 1 \<le> tick (vars c) - 1 \<and> tick (vars c) - 1 \<le> 2 * int n)"
proof -
  obtain st out where m: "program_main input rand (replicate 5 0) = Inr (st, out)"
    and st: "job_count st = points (\<lambda>p. int (count_list (drawn rand n) p))" "pCount st = job_count st"
      "int n + 1 \<le> tick st - 1" "tick st - 1 \<le> 2 * int n"
    using handover_completes [OF assms(1-4)] by blast
  obtain st1 st2 p st3 out' where e: "enter_all [1, 2, 3, 4] st0 = Inr st1"
    "main_start st1 = Inr (st2, Signal p)" "run_command (Signal p) st2 = Inr (False, st3)"
    "job0_run False st3 out0 = Inr (st, out')"
    by (rule program_main_parts [OF m assms(5)])
  have "finish st0 = replicate 4 False" "length (pCount st0) = 4"
    using assms(5) by (auto simp: create_random_list_def init_road_def elim!: bindR_InrE
        dest!: create_loop_frame)
  then obtain h where h: "pCount st0 = points h" "finish st0 = points (\<lambda>_. False)"
    using four_points by (auto simp: replicate_points)
  have "n \<le> 20" using assms(4) by simp
  from created [OF assms(1) this] obtain o1 where "create_random_list (int n) rand init_road =
    Inr (init_road\<lparr>start_point_list := drawn rand n @ replicate (20 - n) 0,
                   pCount := points (\<lambda>p. int (count_list (drawn rand n) p))\<rparr>, o1)" .
  with assms(2,5) have "st0 = init_road\<lparr>start_point_list := drawn rand n @ replicate (20 - n) 0,
      pCount := points (\<lambda>p. int (count_list (drawn rand n) p))\<rparr>" by simp
  then have l: "list_ok st0" using assms(4) by (simp add: list_ok_def init_road_def)
  note r = orderly_run [OF h l e assms(6)]
  show ?thesis using r st by (cases "boss c = ADone") auto
qed

theorem program_completes_witness:
  "\<exists>st0 out0 c. create_random_list 1 (\<lambda>_. 0) init_road = Inr (st0, out0)
     \<and> orderly_schedule [Car 1, Car 1, Car 2, Car 3, Car 4, Manager, Boss, Boss, Car 1, Car 1, Car 1,
         Manager, Manager, Manager, Car 1, Car 1, Manager, Boss] (initial_config st0) = Some c
     \<and> boss c = ADone \<and> job_count (vars c) = [1, 0, 0, 0] \<and> tick (vars c) - 1 = 2"
proof -
  let ?r = "create_random_list 1 (\<lambda>_. 0) init_road"
  let ?ts = "[Car 1, Car 1, Car 2, Car 3, Car 4, Manager, Boss, Boss, Car 1, Car 1, Car 1,
         Manager, Manager, Manager, Car 1, Car 1, Manager, Boss]"
  have "case ?r of Inl e \<Rightarrow> False | Inr (st, out) \<Rightarrow>
      (case orderly_schedule ?ts (initial_config st) of None \<Rightarrow> False | Some c \<Rightarrow> boss c = ADone)"
    by code_simp
  then obtain st out c where r: "?r = Inr (st, out)" and s: "orderly_schedule ?ts (initial_config st) = Some c"
    and b: "boss c = ADone"
    by (auto split: sum.splits option.splits simp del: orderly_schedule.simps)
  have v: "read_vehicles ''1'' = int 1" by code_simp
  from program_completes [of "\<lambda>_. 0" "''1''" 1 st out, OF _ v _ _ _ s] r b v
  have "job_count (vars c) = points (\<lambda>p. int (count_list (drawn (\<lambda>_. 0) 1) p))"
    "1 + 1 \<le> tick (vars c) - 1" "tick (vars c) - 1 \<le> 2" by simp_all
  moreover have "points (\<lambda>p. int (count_list (drawn (\<lambda>_. 0) 1) p)) = [1, 0, 0, 0]" by code_simp
  ultimately show ?thesis using r s b by (intro exI [of _ st] exI [of _ out] exI [of _ c]) simp
qed

text \<open>
  The first tests matter: a car thread without cars that runs for the first time only after the last
  car has passed leaves all threads waiting, without a lost signal. \<open>job0\<close> has found
  \<open>finish\<close> unset and waits for a car that no thread will drive.\<close>

theorem late_start_deadlock:
  "\<exists>st out c. create_random_list 1 (\<lambda>_. 0) init_road = Inr (st, out) \<and> reachable st c \<and> stuck c
     \<and> mgr c = MWait (ToTick False) \<and> all_finished (vars c)
     \<and> schedule [Car 1, Car 1, Car 3, Car 4, Manager, Boss, Boss, Car 1, Car 1, Car 1, Manager,
         Manager, Manager, Car 1, Car 1, Manager, Manager, Manager, Car 2] (initial_config st) = Some c"
proof -
  let ?r = "create_random_list 1 (\<lambda>_. 0) init_road"
  let ?ts = "[Car 1, Car 1, Car 3, Car 4, Manager, Boss, Boss, Car 1, Car 1, Car 1, Manager,
         Manager, Manager, Car 1, Car 1, Manager, Manager, Manager, Car 2]"
  have "case ?r of Inl e \<Rightarrow> False | Inr (st, out) \<Rightarrow>
      (case schedule ?ts (initial_config st) of None \<Rightarrow> False | Some c \<Rightarrow>
        error c = None \<and> boss c = AJoin \<and> mgr c = MWait (ToTick False) \<and> cars c 1 = JDone
        \<and> cars c 2 = JDone \<and> cars c 3 = JDone \<and> cars c 4 = JDone \<and> all_finished (vars c))"
    by code_simp
  then obtain st out c where r: "?r = Inr (st, out)" and s: "schedule ?ts (initial_config st) = Some c"
    and c: "error c = None" "boss c = AJoin" "mgr c = MWait (ToTick False)" "cars c 1 = JDone"
      "cars c 2 = JDone" "cars c 3 = JDone" "cars c 4 = JDone" "all_finished (vars c)"
    by (auto split: sum.splits option.splits simp del: schedule.simps)
  have "stuck c"
    using c by (auto simp: stuck_def boss_step_def mgr_step_def car_step_def points_cases simp del: atLeastAtMost_iff)
  with r c s schedule_reachable [OF reachable_init s] show ?thesis by blast
qed

end
