(* ===== verification/Longdouble.thy ===== *)
theory Longdouble
  imports Clib Complex_Main
begin

text \<open>
  The \<open>long double\<close> of the platform (x86-64 with gcc): a binary format with a significand of
  64 bits, rounding to nearest with ties to even, infinities and a NaN. Finite values are exact
  rationals. The exponent range is not bounded here: the programs compute with values whose
  magnitude lies between $2^{-80}$ and $2^{80}$, far inside the format's range.

  The lemmas give the rounding error, and that rounding keeps small integers apart.
\<close>

section \<open>Rounding to 64 significant bits\<close>

fun ilog2 :: "nat \<Rightarrow> nat" where
  "ilog2 n = (if n < 2 then 0 else Suc (ilog2 (n div 2)))"

declare ilog2.simps [simp del]

text \<open>Powers of two with integer exponents.\<close>

definition pw :: "int \<Rightarrow> rat" where
  "pw e = (if 0 \<le> e then 2 ^ nat e else 1 / 2 ^ nat (- e))"

text \<open>The binary exponent of a positive rational.\<close>

definition rexp :: "rat \<Rightarrow> int" where
  "rexp x =
     (case quotient_of x of (n, d) \<Rightarrow>
        let e = int (ilog2 (nat n)) - int (ilog2 (nat d)) in if x < pw e then e - 1 else e)"

definition round_even :: "rat \<Rightarrow> int" where
  "round_even y =
     (let k = \<lfloor>y\<rfloor>; f = y - of_int k in
      if f < 1 / 2 then k else if 1 / 2 < f then k + 1 else if even k then k else k + 1)"

definition ulp :: "rat \<Rightarrow> rat" where
  "ulp x = pw (rexp x - 63)"

definition fl_pos :: "rat \<Rightarrow> rat" where
  "fl_pos x = of_int (round_even (x / ulp x)) * ulp x"

definition fl :: "rat \<Rightarrow> rat" where
  "fl x = (if x = 0 then 0 else if 0 < x then fl_pos x else - fl_pos (- x))"

section \<open>Values and operations\<close>

datatype ld = Fin rat | Inf bool | NaN

definition ld_of_int :: "int \<Rightarrow> ld" where
  "ld_of_int n = Fin (fl (of_int n))"

definition ld_add :: "ld \<Rightarrow> ld \<Rightarrow> ld" where
  "ld_add a b =
     (case (a, b) of
        (Fin x, Fin y) \<Rightarrow> Fin (fl (x + y))
      | (Inf s, Fin _) \<Rightarrow> Inf s
      | (Fin _, Inf s) \<Rightarrow> Inf s
      | (Inf s, Inf t) \<Rightarrow> if s = t then Inf s else NaN
      | _ \<Rightarrow> NaN)"

definition ld_neg :: "ld \<Rightarrow> ld" where
  "ld_neg a = (case a of Fin x \<Rightarrow> Fin (- x) | Inf s \<Rightarrow> Inf (\<not> s) | NaN \<Rightarrow> NaN)"

definition ld_sub :: "ld \<Rightarrow> ld \<Rightarrow> ld" where
  "ld_sub a b = ld_add a (ld_neg b)"

text \<open>
  \<open>Inf True\<close> is negative. The sign of a zero divisor is not kept: the programs divide by
  unsigned integers and differences of times, whose zero is positive.
\<close>

definition ld_mul :: "ld \<Rightarrow> ld \<Rightarrow> ld" where
  "ld_mul a b =
     (case (a, b) of
        (Fin x, Fin y) \<Rightarrow> Fin (fl (x * y))
      | (Inf s, Fin y) \<Rightarrow> if y = 0 then NaN else Inf (s \<noteq> (y < 0))
      | (Fin x, Inf s) \<Rightarrow> if x = 0 then NaN else Inf (s \<noteq> (x < 0))
      | (Inf s, Inf t) \<Rightarrow> Inf (s \<noteq> t)
      | _ \<Rightarrow> NaN)"

definition ld_div :: "ld \<Rightarrow> ld \<Rightarrow> ld" where
  "ld_div a b =
     (case (a, b) of
        (Fin x, Fin y) \<Rightarrow> if y = 0 then (if x = 0 then NaN else Inf (x < 0)) else Fin (fl (x / y))
      | (Inf s, Fin y) \<Rightarrow> Inf (s \<noteq> (y < 0))
      | (Fin x, Inf s) \<Rightarrow> Fin 0
      | _ \<Rightarrow> NaN)"

fun ld_less :: "ld \<Rightarrow> ld \<Rightarrow> bool" where
  "ld_less (Fin x) (Fin y) \<longleftrightarrow> x < y"
| "ld_less (Inf s) (Fin y) \<longleftrightarrow> s"
| "ld_less (Fin x) (Inf s) \<longleftrightarrow> \<not> s"
| "ld_less (Inf s) (Inf t) \<longleftrightarrow> s \<and> \<not> t"
| "ld_less _ _ \<longleftrightarrow> False"

definition isnan :: "ld \<Rightarrow> bool" where
  "isnan a \<longleftrightarrow> a = NaN"

definition isinf :: "ld \<Rightarrow> bool" where
  "isinf a \<longleftrightarrow> (\<exists>s. a = Inf s)"

lemma isinf_code [code]: "isinf a = (case a of Inf s \<Rightarrow> True | _ \<Rightarrow> False)"
  by (cases a) (auto simp: isinf_def)

text \<open>
  The conversion to \<open>unsigned long long\<close> truncates. Out of range (and for a NaN) it is
  undefined in C; the value 0 stands for it and the callers test the range first.
\<close>

definition ld_trunc :: "ld \<Rightarrow> int" where
  "ld_trunc a = (case a of Fin x \<Rightarrow> if 0 \<le> x \<and> x < 2 ^ 64 then \<lfloor>x\<rfloor> else 0 | _ \<Rightarrow> 0)"

section \<open>Text\<close>

text \<open>\<open>%w.pLf\<close>: the exact value rounded to \<open>p\<close> decimals, ties to even.\<close>

definition show_decimals :: "nat \<Rightarrow> rat \<Rightarrow> string" where
  "show_decimals p x =
     (let n = nat (round_even (\<bar>x\<bar> * 10 ^ p)) in
      (if x < 0 then ''-'' else []) @ show_nat (n div 10 ^ p) @
      (if p = 0 then [] else ''.'' @ show_int_0w p (int (n mod 10 ^ p))))"

definition show_ld :: "nat \<Rightarrow> nat \<Rightarrow> ld \<Rightarrow> string" where
  "show_ld w p a =
     pad_left w (case a of
        Fin x \<Rightarrow> show_decimals p x
      | Inf s \<Rightarrow> (if s then ''-inf'' else ''inf'')
      | NaN \<Rightarrow> ''nan'')"

text \<open>\<open>%Lf\<close> on a decimal number without exponent, as the kernel's files write them.\<close>

definition frac_digits :: "string \<Rightarrow> string \<times> string" where
  "frac_digits s =
     (case s of
        c # cs \<Rightarrow> if c = CHR ''.'' then (takeWhile isdigit cs, dropWhile isdigit cs) else ([], s)
      | [] \<Rightarrow> ([], []))"

definition scan_ld :: "string \<Rightarrow> ld scan" where
  "scan_ld s0 =
     (let s = skip_ws s0 in
      if s = [] then ScanEOF
      else (case take_sign s of (neg, ds) \<Rightarrow>
        let ip = takeWhile isdigit ds; (fp, rest) = frac_digits (dropWhile isdigit ds) in
        if ip = [] \<and> fp = [] then ScanFail ds
        else
          let v = fl (of_nat (digits_val 0 (ip @ fp)) / 10 ^ length fp) in
          ScanOk (Fin (if neg then - v else v)) rest))"

section \<open>Laws of rounding\<close>

lemma ilog2_bounds: "0 < n \<Longrightarrow> 2 ^ ilog2 n \<le> n \<and> n < 2 ^ Suc (ilog2 n)"
proof (induction n rule: ilog2.induct)
  case (1 n)
  show ?case
  proof (cases "n < 2")
    case True
    with 1(2) show ?thesis by (simp add: ilog2.simps)
  next
    case False
    with 1(1) have "2 ^ ilog2 (n div 2) \<le> n div 2 \<and> n div 2 < 2 ^ Suc (ilog2 (n div 2))" by simp
    then show ?thesis using False by (subst (1 2) ilog2.simps) auto
  qed
qed

lemma pw_pos [simp]: "0 < pw e"
  by (simp add: pw_def)

lemma pw_Suc: "pw (e + 1) = 2 * pw e"
proof (cases "0 \<le> e")
  case True
  then show ?thesis by (simp add: pw_def nat_add_distrib)
next
  case False
  then have "nat (- e) = Suc (nat (- (e + 1)))" by linarith
  then show ?thesis using False by (simp add: pw_def)
qed

lemma pw_add_nat: "pw (e + int k) = 2 ^ k * pw e"
proof (induction k)
  case (Suc k)
  then show ?case using pw_Suc [of "e + int k"] by (simp add: algebra_simps)
qed simp

lemma pw_mono: "e \<le> e' \<Longrightarrow> pw e \<le> pw e'"
proof -
  assume "e \<le> e'"
  then have "pw e' = 2 ^ nat (e' - e) * pw e" using pw_add_nat [of e "nat (e' - e)"] by simp
  then show ?thesis by simp
qed

lemma pw_diff: "pw (a - b) = pw a / pw b"
proof (cases "0 \<le> b")
  case True
  then show ?thesis using pw_add_nat [of "a - b" "nat b"] by (simp add: pw_def [of b] field_simps)
next
  case False
  then have "pw (a - b) = 2 ^ nat (- b) * pw a" using pw_add_nat [of a "nat (- b)"] by simp
  with False show ?thesis by (simp add: pw_def [of b])
qed

lemma pw_nat: "pw (int k) = 2 ^ k"
  by (simp add: pw_def)

lemma ilog2_rat_bounds:
  assumes "0 < k"
  shows "(2 ^ ilog2 (nat k) :: rat) \<le> of_int k" and "(of_int k :: rat) < 2 * 2 ^ ilog2 (nat k)"
proof -
  let ?a = "ilog2 (nat k)"
  have "2 ^ ?a \<le> nat k" "nat k < 2 * 2 ^ ?a" using ilog2_bounds [of "nat k"] assms by simp_all
  then have "of_nat (2 ^ ?a) \<le> (of_nat (nat k) :: rat)" "(of_nat (nat k) :: rat) < of_nat (2 * 2 ^ ?a)"
    by (simp_all only: of_nat_le_iff of_nat_less_iff)
  then show "(2 ^ ?a :: rat) \<le> of_int k" and "(of_int k :: rat) < 2 * 2 ^ ?a"
    using assms by (simp_all add: of_nat_nat)
qed

lemma rexp_bounds:
  assumes "0 < x"
  shows "pw (rexp x) \<le> x" and "x < pw (rexp x + 1)"
proof -
  obtain n d where q: "quotient_of x = (n, d)" by fastforce
  have d: "0 < d" using quotient_of_denom_pos [OF q] .
  have x: "x = of_int n / of_int d" using quotient_of_div [OF q] .
  have n: "0 < n" using assms d by (simp add: x zero_less_divide_iff)
  let ?a = "ilog2 (nat n)" and ?b = "ilog2 (nat d)"
  note nb = ilog2_rat_bounds [OF n] and db = ilog2_rat_bounds [OF d]
  let ?e = "int ?a - int ?b"
  have pe: "pw ?e = 2 ^ ?a / 2 ^ ?b" by (simp add: pw_diff pw_nat)
  have up: "x < pw (?e + 1)"
  proof -
    have "x \<le> of_int n / 2 ^ ?b" unfolding x using db(1) n d by (intro divide_left_mono) (auto simp: zero_less_mult_iff)
    also have "\<dots> < 2 * 2 ^ ?a / 2 ^ ?b" using nb(2) by (intro divide_strict_right_mono) auto
    finally show ?thesis by (simp add: pw_Suc pe)
  qed
  have lo: "pw (?e - 1) \<le> x"
  proof -
    have "2 ^ ?a / (2 * 2 ^ ?b) \<le> 2 ^ ?a / (of_int d :: rat)" using db d by (intro divide_left_mono) auto
    also have "\<dots> \<le> x" unfolding x using nb(1) d by (intro divide_right_mono) auto
    finally show ?thesis using pw_Suc [of "?e - 1"] pe by (simp add: field_simps)
  qed
  show "pw (rexp x) \<le> x" and "x < pw (rexp x + 1)"
    using up lo by (auto simp: rexp_def q Let_def)
qed

lemma rexp_unique:
  assumes "0 < x" and "pw e \<le> x" and "x < pw (e + 1)"
  shows "rexp x = e"
proof (rule ccontr)
  assume "rexp x \<noteq> e"
  then consider "rexp x + 1 \<le> e" | "e + 1 \<le> rexp x" by linarith
  then show False
  proof cases
    case 1
    with pw_mono rexp_bounds [OF assms(1)] assms(2) show False by (meson leD order_trans)
  next
    case 2
    with pw_mono rexp_bounds [OF assms(1)] assms(3) show False by (meson leD order_trans)
  qed
qed

lemma rexp_mono:
  assumes "0 < x" and "x \<le> y"
  shows "rexp x \<le> rexp y"
proof (rule ccontr)
  assume "\<not> rexp x \<le> rexp y"
  then have "pw (rexp y + 1) \<le> pw (rexp x)" by (intro pw_mono) simp
  with rexp_bounds [of x] rexp_bounds [of y] assms show False by linarith
qed

lemma round_even_bounds: "\<bar>of_int (round_even y) - y\<bar> \<le> 1 / 2"
proof -
  have "of_int \<lfloor>y\<rfloor> \<le> y" "y < of_int \<lfloor>y\<rfloor> + 1" using floor_correct [of y] by auto
  then have "\<bar>of_int \<lfloor>y\<rfloor> - y\<bar> = y - of_int \<lfloor>y\<rfloor>" "\<bar>of_int (\<lfloor>y\<rfloor> + 1) - y\<bar> = 1 - (y - of_int \<lfloor>y\<rfloor>)"
    by simp_all
  then show ?thesis unfolding round_even_def Let_def by auto
qed

lemma round_even_int [simp]: "round_even (of_int k) = k"
  by (simp add: round_even_def)

lemma ulp_pos [simp]: "0 < ulp x"
  by (simp add: ulp_def)

lemma fl_pos_error: "0 < x \<Longrightarrow> \<bar>fl_pos x - x\<bar> \<le> ulp x / 2"
proof -
  have "\<bar>of_int (round_even (x / ulp x)) - x / ulp x\<bar> * ulp x \<le> 1 / 2 * ulp x"
    using round_even_bounds by (intro mult_right_mono) (auto simp: less_imp_le)
  moreover have "\<bar>of_int (round_even (x / ulp x)) - x / ulp x\<bar> * ulp x = \<bar>fl_pos x - x\<bar>"
    by (simp add: fl_pos_def abs_mult_pos less_imp_le left_diff_distrib less_imp_neq [THEN not_sym])
  ultimately show ?thesis by simp
qed

lemma fl_zero [simp]: "fl 0 = 0"
  by (simp add: fl_def)

lemma fl_error: "0 \<le> x \<Longrightarrow> \<bar>fl x - x\<bar> \<le> ulp x / 2"
  using fl_pos_error [of x] less_imp_le [OF ulp_pos [of x]] by (auto simp: fl_def)

text \<open>A number that is a multiple of its unit in the last place is not changed.\<close>

lemma fl_exact: "0 < x \<Longrightarrow> x = of_int k * ulp x \<Longrightarrow> fl x = x"
proof -
  assume x: "0 < x" and k: "x = of_int k * ulp x"
  have "x / ulp x = of_int k" using k ulp_pos [of x] by (metis less_irrefl nonzero_mult_div_cancel_right)
  then have "fl_pos x = of_int k * ulp x" by (simp add: fl_pos_def)
  with x k show ?thesis by (simp add: fl_def)
qed

lemma rexp_nat:
  assumes "0 < n" and "n < 2 ^ k"
  shows "rexp (of_nat n) < int k" and "0 \<le> rexp (of_nat n)"
proof -
  have p: "0 < (of_nat n :: rat)" using assms(1) by simp
  have "(of_nat n :: rat) < 2 ^ k" using assms(2) by (metis of_nat_less_iff of_nat_numeral of_nat_power)
  with rexp_bounds(1) [OF p] have "pw (rexp (of_nat n)) < pw (int k)"
    unfolding pw_nat by (rule le_less_trans)
  then show "rexp (of_nat n) < int k" using pw_mono [of "int k" "rexp (of_nat n)"] by linarith
  have "pw 0 \<le> (of_nat n :: rat)" using assms(1) by (simp add: pw_def)
  then have "pw 0 < pw (rexp (of_nat n) + 1)" using rexp_bounds(2) [OF p] by linarith
  then show "0 \<le> rexp (of_nat n)" using pw_mono [of "rexp (of_nat n) + 1" 0] by linarith
qed

text \<open>An integer below $2^{64}$ is a multiple of the unit of any number that is not above it.\<close>

lemma nat_multiple:
  assumes "rexp x \<le> 63"
  shows "\<exists>k :: int. (of_nat n :: rat) = of_int k * ulp x"
proof -
  have "ulp x = 1 / 2 ^ nat (63 - rexp x)"
    using assms by (auto simp: ulp_def pw_def)
  then have "(of_nat n :: rat) = of_int (int n * 2 ^ nat (63 - rexp x)) * ulp x" by simp
  then show ?thesis by blast
qed

lemma fl_nat: "n < 2 ^ 64 \<Longrightarrow> fl (of_nat n) = of_nat n"
proof (cases "n = 0")
  case False
  assume "n < 2 ^ 64"
  then have "rexp (of_nat n) \<le> 63" using rexp_nat(1) [of n 64] False by simp
  with nat_multiple [of "of_nat n" n] fl_exact [of "of_nat n"] False show ?thesis by auto
qed simp

text \<open>A rounded value below a multiple of ten, divided by ten, stays below a tenth of it.\<close>

lemma fl_tenth_below:
  assumes t: "t = fl y" "0 < t" and m: "t < 10 * of_nat m" "10 * m < 2 ^ 63"
    and k: "t = of_int k * ulp t"
  shows "fl (t / 10) < of_nat m"
proof -
  let ?u = "ulp t"
  have mp: "0 < 10 * m" using t(2) m(1) by (cases m) auto
  have "rexp t \<le> rexp (of_nat (10 * m))" using t(2) m(1) by (intro rexp_mono) auto
  also have "\<dots> \<le> 63" using rexp_nat(1) [OF mp m(2)] by simp
  finally obtain j :: int where j: "(of_nat (10 * m) :: rat) = of_int j * ?u" using nat_multiple by blast
  have "of_int k * ?u < of_int j * ?u" using m(1) j k by simp
  then have "k < j" by (simp add: mult_less_cancel_right_pos)
  then have "of_int k * ?u \<le> (of_int j - 1) * ?u" by (intro mult_right_mono) (auto simp: less_imp_le)
  then have le: "t \<le> 10 * of_nat m - ?u" using j k by (simp add: left_diff_distrib)
  have pos: "0 < t / 10" using t(2) by simp
  have "rexp (t / 10) + 3 \<le> rexp t"
  proof (rule ccontr)
    assume "\<not> rexp (t / 10) + 3 \<le> rexp t"
    then have "pw (rexp t + 1) \<le> pw (rexp (t / 10) + int 3)" by (intro pw_mono) simp
    also have "\<dots> = 8 * pw (rexp (t / 10))" by (subst pw_add_nat) simp
    also have "\<dots> \<le> 8 * (t / 10)" using rexp_bounds(1) [OF pos] by simp
    also have "\<dots> < t" using t(2) by simp
    finally show False using rexp_bounds(2) [OF t(2)] by simp
  qed
  then have "pw (rexp (t / 10) - 63 + int 3) \<le> pw (rexp t - 63)" by (intro pw_mono) simp
  then have "8 * ulp (t / 10) \<le> ?u" by (subst (asm) pw_add_nat) (simp add: ulp_def)
  moreover have "fl (t / 10) \<le> t / 10 + ulp (t / 10) / 2"
    using abs_le_D1 [OF fl_error [of "t / 10"]] pos by linarith
  ultimately show ?thesis using le ulp_pos [of t] by linarith
qed

text \<open>A rounded value is a multiple of its own unit.\<close>

lemma round_even_range:
  assumes "of_int a \<le> y" and "y < of_int b"
  shows "a \<le> round_even y" and "round_even y \<le> b"
proof -
  have "a \<le> \<lfloor>y\<rfloor>" using assms(1) by (simp add: le_floor_iff)
  moreover have "\<lfloor>y\<rfloor> < b" using assms(2) by (simp add: floor_less_iff)
  ultimately show "a \<le> round_even y" and "round_even y \<le> b" by (auto simp: round_even_def Let_def)
qed

lemma fl_multiple:
  assumes y: "0 < y"
  shows "\<exists>k :: int. fl y = of_int k * ulp (fl y)" and "0 < fl y"
proof -
  let ?u = "ulp y" and ?j = "round_even (y / ulp y)"
  have b: "pw (rexp y) = 2 ^ 63 * ?u" "pw (rexp y + 1) = 2 ^ 64 * ?u"
    using pw_add_nat [of "rexp y - 63" 63] pw_add_nat [of "rexp y - 63" 64]
    by (simp_all add: ulp_def add.commute)
  have "of_int (2 ^ 63) \<le> y / ?u" "y / ?u < of_int (2 ^ 64)"
    using rexp_bounds [OF y] b ulp_pos [of y] by (simp_all add: pos_le_divide_eq pos_divide_less_eq)
  from round_even_range [OF this] have j: "2 ^ 63 \<le> ?j" "?j \<le> 2 ^ 64" .
  have f: "fl y = of_int ?j * ?u" using y by (simp add: fl_def fl_pos_def)
  have jr: "(2 ^ 63 :: rat) \<le> of_int ?j" using j(1) by (metis of_int_le_iff of_int_numeral of_int_power)
  then have "0 < (of_int ?j :: rat)" by (rule less_le_trans [rotated]) simp
  then show p: "0 < fl y" using f by simp
  show "\<exists>k :: int. fl y = of_int k * ulp (fl y)"
  proof (cases "?j = 2 ^ 64")
    case True
    then have e: "fl y = pw (rexp y + 1)" using f b(2) by simp
    have "rexp (fl y) = rexp y + 1"
      using pw_Suc [of "rexp y + 1"] pw_pos [of "rexp y + 1"] by (intro rexp_unique [OF p]) (simp_all add: e)
    then have "ulp (fl y) = 2 * ?u" using pw_Suc [of "rexp y - 63"] by (simp add: ulp_def)
    then have "fl y = of_int (2 ^ 63) * ulp (fl y)" using f True by simp
    then show ?thesis by blast
  next
    case False
    with j(2) have "?j < 2 ^ 64" by simp
    then have "(of_int ?j :: rat) < 2 ^ 64" by (metis of_int_less_iff of_int_numeral of_int_power)
    then have "fl y < pw (rexp y + 1)" unfolding f b by (rule mult_strict_right_mono) simp
    moreover have "pw (rexp y) \<le> fl y" unfolding f b using jr by (rule mult_right_mono) (simp add: less_imp_le)
    ultimately have "rexp (fl y) = rexp y" using rexp_unique [OF p] by blast
    then show ?thesis using f by (auto simp: ulp_def)
  qed
qed

text \<open>Rounding is monotone.\<close>

lemma round_even_mono:
  assumes "x \<le> y"
  shows "round_even x \<le> round_even y"
proof (cases "\<lfloor>x\<rfloor> = \<lfloor>y\<rfloor>")
  case True
  with assms show ?thesis by (auto simp: round_even_def Let_def)
next
  case False
  then have "\<lfloor>x\<rfloor> + 1 \<le> \<lfloor>y\<rfloor>" using floor_mono [OF assms] by simp
  moreover have "round_even x \<le> \<lfloor>x\<rfloor> + 1" "\<lfloor>y\<rfloor> \<le> round_even y" by (simp_all add: round_even_def Let_def)
  ultimately show ?thesis by linarith
qed

lemma fl_range:
  assumes y: "0 < y"
  shows "pw (rexp y) \<le> fl y" and "fl y \<le> pw (rexp y + 1)"
proof -
  have b: "pw (rexp y) / ulp y = 2 ^ 63" "pw (rexp y + 1) / ulp y = 2 ^ 64"
    by (simp_all add: ulp_def pw_diff [symmetric]) (simp_all add: pw_def)
  have u: "0 \<le> ulp y" by (simp add: less_imp_le)
  have "2 ^ 63 \<le> y / ulp y" "y / ulp y \<le> 2 ^ 64"
    using divide_right_mono [OF rexp_bounds(1) [OF y] u] divide_right_mono [OF less_imp_le [OF rexp_bounds(2) [OF y]] u] b
    by simp_all
  then have "round_even (of_int (2 ^ 63)) \<le> round_even (y / ulp y)"
    "round_even (y / ulp y) \<le> round_even (of_int (2 ^ 64))"
    by (intro round_even_mono, simp)+
  then have "(of_int (2 ^ 63) :: rat) \<le> of_int (round_even (y / ulp y))"
    "(of_int (round_even (y / ulp y)) :: rat) \<le> of_int (2 ^ 64)"
    by (simp_all only: round_even_int of_int_le_iff)
  then have "of_int (2 ^ 63) * ulp y \<le> fl y" "fl y \<le> of_int (2 ^ 64) * ulp y"
    using y u by (auto simp: fl_def fl_pos_def intro: mult_right_mono)
  moreover have "ulp y \<noteq> 0" using ulp_pos [of y] by linarith
  ultimately show "pw (rexp y) \<le> fl y" and "fl y \<le> pw (rexp y + 1)"
    using b by (simp_all add: divide_eq_eq)
qed

lemma fl_mono:
  assumes "x \<le> y" and "0 \<le> x"
  shows "fl x \<le> fl y"
proof (cases "x = 0")
  case True
  then show ?thesis using fl_multiple(2) [of y] assms(1) by (cases "y = 0") (auto simp: less_imp_le)
next
  case False
  then have x: "0 < x" and y: "0 < y" using assms by auto
  show ?thesis
  proof (cases "rexp x = rexp y")
    case True
    then have "x / ulp x \<le> y / ulp y" using assms(1) by (simp add: ulp_def divide_right_mono less_imp_le)
    then have "of_int (round_even (x / ulp x)) \<le> (of_int (round_even (y / ulp y)) :: rat)"
      using round_even_mono by (simp only: of_int_le_iff)
    then show ?thesis using x y True
      by (simp add: fl_def fl_pos_def ulp_def mult_right_mono less_imp_le)
  next
    case False
    then have "pw (rexp x + 1) \<le> pw (rexp y)" using rexp_mono [OF x assms(1)] by (intro pw_mono) simp
    with fl_range(2) [OF x] fl_range(1) [OF y] show ?thesis by linarith
  qed
qed

end
