(* ===== verification/Timelib.thy ===== *)
theory Timelib
  imports Clib
begin

text \<open>
  Calendar time as the programs use it: \<open>gmtime\<close>, \<open>localtime\<close> for a given offset, and the formats
  of \<open>strftime\<close> that occur (C locale). Times are seconds since 1970, not negative.
\<close>

record tm =
  tm_sec :: nat
  tm_min :: nat
  tm_hour :: nat
  tm_mday :: nat
  tm_mon :: nat
  tm_year :: nat
  tm_yday :: nat

definition leap :: "nat \<Rightarrow> bool" where
  "leap y \<longleftrightarrow> (4 dvd y \<and> \<not> 100 dvd y) \<or> 400 dvd y"

definition year_days :: "nat \<Rightarrow> nat" where
  "year_days y = (if leap y then 366 else 365)"

text \<open>The year and the day of the year, from a day count since 1 January of a year.\<close>

function split_years :: "nat \<Rightarrow> nat \<Rightarrow> nat \<times> nat" where
  "split_years y d = (if d < year_days y then (y, d) else split_years (Suc y) (d - year_days y))"
  by pat_completeness auto
termination by (relation "measure snd") (auto simp: year_days_def split: if_splits)

declare split_years.simps [simp del]

definition month_days :: "bool \<Rightarrow> nat list" where
  "month_days l = [31, if l then 29 else 28, 31, 30, 31, 30, 31, 31, 30, 31, 30, 31]"

fun split_months :: "nat list \<Rightarrow> nat \<Rightarrow> nat \<Rightarrow> nat \<times> nat" where
  "split_months [] m d = (m, d)"
| "split_months (l # ls) m d = (if d < l then (m, d) else split_months ls (Suc m) (d - l))"

definition gmtime :: "int \<Rightarrow> tm" where
  "gmtime t =
     (let s = nat t mod 86400; (y, yd) = split_years 1970 (nat t div 86400);
          (m, d) = split_months (month_days (leap y)) 0 yd in
      \<lparr>tm_sec = s mod 60, tm_min = s div 60 mod 60, tm_hour = s div 3600, tm_mday = Suc d,
       tm_mon = m, tm_year = y - 1900, tm_yday = yd\<rparr>)"

definition localtime :: "(int \<Rightarrow> int) \<Rightarrow> int \<Rightarrow> tm" where
  "localtime offset t = gmtime (t + offset t)"

definition month_names :: "string list" where
  "month_names = [''Jan'', ''Feb'', ''Mar'', ''Apr'', ''May'', ''Jun'', ''Jul'', ''Aug'', ''Sep'', ''Oct'',
     ''Nov'', ''Dec'']"

text \<open>\<open>%H:%M\<close>, \<open>%b %d\<close> and \<open>%y\<close>.\<close>

definition strftime_HM :: "tm \<Rightarrow> string" where
  "strftime_HM t = show_int_0w 2 (int (tm_hour t)) @ '':'' @ show_int_0w 2 (int (tm_min t))"

definition strftime_bd :: "tm \<Rightarrow> string" where
  "strftime_bd t = month_names ! (tm_mon t mod 12) @ '' '' @ show_int_0w 2 (int (tm_mday t))"

definition strftime_y :: "tm \<Rightarrow> string" where
  "strftime_y t = show_int_0w 2 (int (tm_year t mod 100))"

lemma gmtime_ranges:
  "tm_sec (gmtime t) < 60" "tm_min (gmtime t) < 60" "tm_hour (gmtime t) < 24"
proof -
  have "nat t mod 86400 < 86400" by simp
  then have "nat t mod 86400 div 3600 < 24" by (simp add: less_mult_imp_div_less)
  then show "tm_sec (gmtime t) < 60" "tm_min (gmtime t) < 60" "tm_hour (gmtime t) < 24"
    by (auto simp: gmtime_def Let_def split: prod.splits)
qed

text \<open>Hours, minutes and seconds of a time below a day are its digits in base 60.\<close>

lemma gmtime_day:
  assumes "0 \<le> t" and "t < 86400"
  shows "int (tm_hour (gmtime t)) * 3600 + int (tm_min (gmtime t)) * 60 + int (tm_sec (gmtime t)) = t"
proof -
  have lt: "nat t < 86400" using assms by simp
  have "(nat t div 3600) * 3600 + (nat t div 60 mod 60) * 60 + nat t mod 60 = nat t"
  proof -
    have "nat t div 3600 = nat t div 60 div 60" by (simp add: div_mult2_eq [symmetric])
    then have "(nat t div 3600) * 60 + nat t div 60 mod 60 = nat t div 60" by (simp add: div_mult_mod_eq)
    then have "((nat t div 3600) * 60 + nat t div 60 mod 60) * 60 + nat t mod 60 = nat t"
      by (simp add: div_mult_mod_eq)
    then show ?thesis by (simp add: distrib_right)
  qed
  then have "int ((nat t div 3600) * 3600 + (nat t div 60 mod 60) * 60 + nat t mod 60) = t"
    using assms(1) by simp
  then show ?thesis
    using lt by (simp add: gmtime_def Let_def split: prod.splits)
qed

end
