(* ===== verification/Proc.thy ===== *)
theory Proc
  imports Longdouble Timelib
begin

text \<open>
  What \<open>myps\<close> and \<open>mytop\<close> share: the environment they read (a snapshot of the file system with
  \<open>/proc\<close>, the user database, the clock), the structure \<open>myProc\<close>, and the functions both sources
  contain in the same words. The definitions are mapped to \<open>src/Assignment_2/myps.c\<close>; the theory
  \<open>Mytop\<close> uses them for the copies in \<open>mytop.c\<close>.

  An \<open>option res\<close> is \<open>Inl\<close> for an exit or undefined behaviour, \<open>Inr None\<close> for an early return.
\<close>

section \<open>The environment\<close>

record fstat =
  st_dir :: bool
  st_chr :: bool
  st_uid :: int
  st_rdev :: int

record os =
  os_file :: "string \<Rightarrow> string option"      \<comment> \<open>content of a file that \<open>fopen\<close> opens\<close>
  os_exists :: "string \<Rightarrow> bool"             \<comment> \<open>\<open>access(path, F_OK)\<close>\<close>
  os_readable :: "string \<Rightarrow> bool"           \<comment> \<open>\<open>access(path, R_OK)\<close>\<close>
  os_dir :: "string \<Rightarrow> string list option"  \<comment> \<open>\<open>opendir\<close> and the names \<open>readdir\<close> gives\<close>
  os_stat :: "string \<Rightarrow> fstat option"
  os_link :: "string \<Rightarrow> string option"      \<comment> \<open>\<open>readlink\<close>\<close>
  os_user :: "int \<Rightarrow> string option"         \<comment> \<open>\<open>getpwuid\<close>\<close>
  os_time :: int                            \<comment> \<open>\<open>time(NULL)\<close>\<close>
  os_tz :: "int \<Rightarrow> int"                     \<comment> \<open>offset of local time\<close>
  os_hertz :: int                           \<comment> \<open>\<open>sysconf(_SC_CLK_TCK)\<close>\<close>
  os_pid :: int
  os_uid :: int
  os_cols :: int                            \<comment> \<open>\<open>COLS\<close>\<close>

text \<open>A string stored in an array of the given size, its NUL included.\<close>

definition store :: "nat \<Rightarrow> string \<Rightarrow> string res" where
  "store sz s = (if length s < sz then Inr s else Inl BufferOverflow)"

lemma store_Inr_iff [res_simps]: "store n s = Inr t \<longleftrightarrow> t = s \<and> length s < n"
  by (auto simp: store_def)

section \<open>Reading files\<close>

text \<open>\<open>fgets\<close> into a cleared buffer of 1024 bytes, \<open>n\<close> times: the last line and the rest.\<close>

fun fgets_rows :: "nat \<Rightarrow> string \<Rightarrow> string \<Rightarrow> string \<times> string" where
  "fgets_rows 0 line s = (line, s)"
| "fgets_rows (Suc n) line s = (case fgets_line 1024 s of (l, r) \<Rightarrow> fgets_rows n l r)"

text \<open>\<open>while (!isdigit(*ptr)) ptr++\<close>: without a digit the loop leaves the buffer.\<close>

definition first_digit :: "string \<Rightarrow> string res" where
  "first_digit s =
     (let r = dropWhile (\<lambda>c. \<not> isdigit c) s in if r = [] then Inl OutOfBounds else Inr r)"

text \<open>The loop over the line that stops at a digit, and leaves the pointer alone without one.\<close>

definition digit_or_start :: "string \<Rightarrow> string" where
  "digit_or_start s =
     (let r = dropWhile (\<lambda>c. \<not> isdigit c) s in if r = [] then s else r)"

text \<open>\<open>sscanf(ptr, "%lu", &x)\<close> leaves \<open>x\<close> alone when it fails.\<close>

definition sscanf_lu :: "string \<Rightarrow> int \<Rightarrow> int" where
  "sscanf_lu s old = (case scan_lu s of ScanOk v r \<Rightarrow> v | _ \<Rightarrow> old)"

text \<open>\<open>fscanf(fp, "%s", token[i])\<close> for each of \<open>n\<close> cleared tokens of the given size.\<close>

fun read_tokens :: "nat \<Rightarrow> nat \<Rightarrow> string \<Rightarrow> string list res" where
  "read_tokens 0 sz s = Inr []"
| "read_tokens (Suc n) sz s =
     (case scan_s s of
        ScanOk w r \<Rightarrow>
          bindR (store sz w) (\<lambda>w'. bindR (read_tokens n sz r) (\<lambda>ws. Inr (w' # ws)))
      | _ \<Rightarrow> bindR (read_tokens n sz []) (\<lambda>ws. Inr ([] # ws)))"

section \<open>Small functions\<close>

definition kib_to_kb :: "int \<Rightarrow> int" where
  "kib_to_kb kib = to_uint64 (kib * 1024) div 1000"

fun ld_iter :: "nat \<Rightarrow> (ld \<Rightarrow> ld) \<Rightarrow> ld \<Rightarrow> ld" where
  "ld_iter 0 f x = x"
| "ld_iter (Suc n) f x = ld_iter n f (f x)"

definition RoundDouble :: "ld \<Rightarrow> nat \<Rightarrow> ld" where
  "RoundDouble src rdx =
     (if rdx = 0 then ld_of_int (ld_trunc src)
      else
        let tmp = ld_iter (Suc rdx) (\<lambda>t. ld_mul t (Fin 10)) src;
            val = ld_trunc tmp mod 10;
            tmp1 = ld_of_int (ld_trunc (ld_div tmp (Fin 10)));
            tmp2 = (if val \<ge> 5 then ld_add tmp1 (Fin 1) else tmp1)
        in ld_iter rdx (\<lambda>t. ld_div t (Fin 10)) tmp2)"

text \<open>A percentage that is not a number between 0 and 100 counts as 0.\<close>

definition percent :: "ld \<Rightarrow> ld" where
  "percent x =
     (if isnan x \<or> isinf x \<or> ld_less (Fin 100) x \<or> ld_less x (Fin 0) then Fin 0 else RoundDouble x 1)"

definition GetUpTime :: "os \<Rightarrow> int res" where
  "GetUpTime env =
     (case os_file env ''/proc/uptime'' of
        None \<Rightarrow> Inl (Exit 1)
      | Some s \<Rightarrow>
          (case scan_ld (fst (fgets_line 1024 s)) of
             ScanOk t r \<Rightarrow> Inr (ld_trunc t)
           | _ \<Rightarrow> Inl Uninitialised))"

definition GetTotalMemory :: "os \<Rightarrow> int res" where
  "GetTotalMemory env =
     (case os_file env ''/proc/meminfo'' of
        None \<Rightarrow> Inl (Exit 1)
      | Some s \<Rightarrow>
          bindR (first_digit (fst (fgets_rows 1 [] s))) (\<lambda>ptr. Inr (kib_to_kb (sscanf_lu ptr 0))))"

section \<open>Terminals\<close>

text \<open>The search for a character device with the number of the terminal in \<open>/dev\<close>.\<close>

fun find_tty :: "os \<Rightarrow> int \<Rightarrow> string list \<Rightarrow> string res" where
  "find_tty env nr [] = Inr []"
| "find_tty env nr (name # names) =
     (case os_stat env (''/dev/'' @ name) of
        None \<Rightarrow> Inl (Exit 1)
      | Some st \<Rightarrow>
          if st_chr st \<and> st_rdev st = to_uint64 nr then store 32 name else find_tty env nr names)"

definition tty_from_stat :: "os \<Rightarrow> string \<Rightarrow> string res" where
  "tty_from_stat env path =
     (case os_file env (path @ ''/stat'') of
        None \<Rightarrow> Inr []
      | Some s \<Rightarrow>
          bindR (read_tokens 7 1024 s) (\<lambda>ts.
          case os_dir env ''/dev'' of
            None \<Rightarrow> Inl (Exit 1)
          | Some names \<Rightarrow>
              bindR (find_tty env (atoi (ts ! 6)) names) (\<lambda>t. Inr (if t = [] then ''?'' else t))))"

text \<open>\<open>sscanf(link, "/dev/%s", tty)\<close>\<close>

definition scan_dev :: "string \<Rightarrow> string res" where
  "scan_dev link =
     (if take 5 link = ''/dev/'' then
        (case scan_s (drop 5 link) of ScanOk w r \<Rightarrow> store 32 w | _ \<Rightarrow> Inr [])
      else Inr [])"

definition tty_from_link :: "os \<Rightarrow> string \<Rightarrow> string res" where
  "tty_from_link env fd =
     (case os_link env fd of
        None \<Rightarrow> Inl (Exit 1)
      | Some link \<Rightarrow>
          if 128 \<le> length link then Inl OutOfBounds
          else if link = ''/dev/null'' then Inr ''?'' else scan_dev link)"

definition GetTTY :: "os \<Rightarrow> string \<Rightarrow> string res" where
  "GetTTY env path =
     (if os_exists env (path @ ''/fd/0'') then tty_from_link env (path @ ''/fd/0'')
      else tty_from_stat env path)"

text \<open>The loop in \<open>main\<close> that cuts the own terminal name after \<open>pts/\<close> at the first other character.\<close>

definition cut_tty :: "string \<Rightarrow> string" where
  "cut_tty t = take 4 t @ takeWhile isdigit (drop 4 t)"

end
