(* ===== verification/Myps.thy ===== *)
theory Myps
  imports Proc
begin

text \<open>
  \<open>src/Assignment_2/myps.c\<close>: the options, the list of processes read from \<open>/proc\<close>, and the
  printed table. Error messages go to \<open>stderr\<close> and are not part of the output here.
\<close>

section \<open>Data\<close>

record myProc =
  pid :: int
  uid :: int
  ppid :: int
  user :: string
  cpu :: ld
  mem :: ld
  vsz :: int
  rss :: int
  shr :: int
  priority :: int
  nice :: int
  tty :: string
  stat :: string
  start :: string
  time :: string
  cmd :: string
  command :: string

definition EraseProcess :: myProc where
  "EraseProcess =
     \<lparr>pid = 0, uid = 0, ppid = 0, user = [], cpu = Fin 0, mem = Fin 0, vsz = 0, rss = 0, shr = 0,
      priority = 0, nice = 0, tty = [], stat = [], start = [], time = [], cmd = [], command = []\<rparr>"

record options =
  aOption :: bool
  eOption :: bool
  fOption :: bool
  hOption :: bool
  pOption :: bool
  uOption :: bool
  xOption :: bool
  pidList :: "int list"

definition no_options :: options where
  "no_options = \<lparr>aOption = False, eOption = False, fOption = False, hOption = False, pOption = False,
     uOption = False, xOption = False, pidList = []\<rparr>"

section \<open>Options\<close>

definition option_letter :: "options \<Rightarrow> char \<Rightarrow> options" where
  "option_letter o' c =
     (if c = CHR ''a'' then o'\<lparr>aOption := True\<rparr>
      else if c = CHR ''e'' then o'\<lparr>eOption := True, aOption := True, xOption := True\<rparr>
      else if c = CHR ''f'' then o'\<lparr>fOption := True\<rparr>
      else if c = CHR ''h'' then o'\<lparr>hOption := True\<rparr>
      else if c = CHR ''p'' then o'\<lparr>pOption := True, aOption := True, xOption := True\<rparr>
      else if c = CHR ''u'' then o'\<lparr>uOption := True\<rparr>
      else if c = CHR ''x'' then o'\<lparr>xOption := True\<rparr>
      else o')"

text \<open>\<open>ErrorFunc\<close> prints the usage and calls \<open>exit(0)\<close>.\<close>

definition ErrorFunc :: "'a res" where
  "ErrorFunc = Inl (Exit 0)"

definition pid_argument :: "options \<Rightarrow> string \<Rightarrow> options res" where
  "pid_argument o' arg =
     (if pOption o' then
        if \<forall>c \<in> set arg. isdigit c then
          if length (pidList o') < 32768 then Inr (o'\<lparr>pidList := pidList o' @ [to_uint64 (atoi arg)]\<rparr>)
          else Inl OutOfBounds
        else ErrorFunc
      else Inr o')"

fun parse_args :: "options \<Rightarrow> string list \<Rightarrow> options res" where
  "parse_args o' [] = Inr o'"
| "parse_args o' (arg # args) =
     bindR (pid_argument o' arg) (\<lambda>o1. parse_args (foldl option_letter o1 arg) args)"

section \<open>One process\<close>

text \<open>The tokens of \<open>/proc/pid/stat\<close>, or an early return.\<close>

definition stat_tokens :: "os \<Rightarrow> string \<Rightarrow> string list option res" where
  "stat_tokens env path =
     (if \<not> os_readable env path \<or> \<not> os_readable env (path @ ''/stat'') then Inr None
      else case os_file env (path @ ''/stat'') of
        None \<Rightarrow> Inr None
      | Some s \<Rightarrow> bindR (read_tokens 22 32 s) (\<lambda>ts. Inr (Some ts)))"

definition ulong_token :: "string list \<Rightarrow> nat \<Rightarrow> int" where
  "ulong_token ts i = to_uint64 (atoi (ts ! i))"

definition user_name :: "os \<Rightarrow> int \<Rightarrow> string res" where
  "user_name env u =
     (case os_user env u of
        None \<Rightarrow> Inl NullPointer
      | Some name \<Rightarrow>
          bindR (store 32 name) (\<lambda>tmp.
            Inr (if take 8 tmp = ''systemd-'' then ''systemd+'' else name)))"

definition total_time :: "string list \<Rightarrow> int" where
  "total_time ts = to_uint64 (ulong_token ts 13 + ulong_token ts 14)"

text \<open>The share of the CPU since the process started.\<close>

definition cpu_since_start :: "int \<Rightarrow> int \<Rightarrow> string list \<Rightarrow> ld res" where
  "cpu_since_start hertz uptime ts =
     (if hertz = 0 then Inl DivByZero
      else Inr (ld_mul (ld_div (ld_of_int (total_time ts div hertz))
             (ld_of_int (to_uint64 (uptime - ulong_token ts 21 div hertz)))) (Fin 100)))"

text \<open>
  The memory figures from \<open>/proc/pid/status\<close>: \<open>vsz\<close>, \<open>vmLck\<close>, \<open>rss\<close> and \<open>shr\<close> from
  the lines 18, 19, 22 and 24.
\<close>

record memory =
  m_vsz :: int
  m_lck :: int
  m_rss :: int
  m_shr :: int

definition status_line :: "string \<Rightarrow> int" where
  "status_line l = sscanf_lu (digit_or_start l) 0"

text \<open>
  \<open>None\<close> when line 18 is not the \<open>VmSize\<close> line. The line is cut after \<open>VmSize\<close> before its number is
  read, so a digit in the very next place is lost.
\<close>

definition vsz_line :: "string \<Rightarrow> int" where
  "vsz_line l =
     (let r = dropWhile (\<lambda>c. \<not> isdigit c) l in
      if r = [] \<or> length l - length r = 6 then 0 else sscanf_lu r 0)"

definition status_memory :: "string \<Rightarrow> memory option" where
  "status_memory s =
     (let (l18, s18) = fgets_rows 18 [] s; (l19, s19) = fgets_rows 1 [] s18;
          (l22, s22) = fgets_rows 3 [] s19; (l24, s24) = fgets_rows 2 [] s22 in
      if take 6 l18 \<noteq> ''VmSize'' then None
      else Some \<lparr>m_vsz = vsz_line l18, m_lck = status_line l19, m_rss = status_line l22,
                 m_shr = status_line l24\<rparr>)"

definition no_memory :: memory where
  "no_memory = \<lparr>m_vsz = 0, m_lck = 0, m_rss = 0, m_shr = 0\<rparr>"

definition mem_percent :: "int \<Rightarrow> int \<Rightarrow> ld" where
  "mem_percent r totalmem = percent (ld_mul (ld_div (ld_of_int r) (ld_of_int totalmem)) (Fin 100))"

text \<open>The letters after the state.\<close>

definition stat_flags :: "int \<Rightarrow> int \<Rightarrow> string list \<Rightarrow> string" where
  "stat_flags p lck ts =
     (if atoi (ts ! 18) < 0 then ''<'' else if atoi (ts ! 18) > 0 then ''N'' else []) @
     (if lck > 0 then ''L'' else []) @
     (if to_uint64 (atoi (ts ! 5)) = p then ''s'' else []) @
     (if atoi (ts ! 19) > 1 then ''l'' else []) @
     (if atoi (ts ! 7) \<noteq> - 1 then ''+'' else [])"

definition start_string :: "os \<Rightarrow> int \<Rightarrow> int \<Rightarrow> string list \<Rightarrow> string" where
  "start_string env hertz uptime ts =
     (let s = to_uint64 (os_time env - uptime + ulong_token ts 21 div hertz);
          t = localtime (os_tz env) s; age = to_uint64 (os_time env - s) in
      if age < 24 * 60 * 60 then strftime_HM t
      else if age < 7 * 24 * 60 * 60 then strftime_bd t
      else strftime_y t)"

definition time_string :: "options \<Rightarrow> int \<Rightarrow> string list \<Rightarrow> string" where
  "time_string o' hertz ts =
     (let t = gmtime (total_time ts div hertz) in
      if eOption o' \<or> (\<not> aOption o' \<and> \<not> uOption o' \<and> \<not> xOption o') then
        show_int_0w 2 (int (tm_hour t)) @ '':'' @ show_int_0w 2 (int (tm_min t)) @ '':'' @
        show_int_0w 2 (int (tm_sec t))
      else show_int (int (tm_min t)) @ '':'' @ show_int_0w 2 (int (tm_sec t)))"

text \<open>\<open>sscanf(token, "(%s", cmd)\<close> and \<open>cmd[strlen(cmd) - 1] = 0\<close>.\<close>

definition cmd_string :: "string \<Rightarrow> string res" where
  "cmd_string token =
     (let c = (if take 1 token = ''('' then
                 (case scan_s (drop 1 token) of ScanOk w r \<Rightarrow> w | _ \<Rightarrow> []) else []) in
      if c = [] then Inl OutOfBounds else Inr (butlast c))"

text \<open>
  The loop over \<open>/proc/pid/cmdline\<close>: a NUL byte becomes a blank, a second one in a row ends the
  loop, as the end of the file does.
\<close>

fun cmdline_loop :: "string \<Rightarrow> string" where
  "cmdline_loop [] = []"
| "cmdline_loop (c # cs) =
     (if c = CHR 0x00 then
        (case cs of
           [] \<Rightarrow> []
         | d # ds \<Rightarrow> if d = CHR 0x00 then [] else CHR '' '' # d # cmdline_loop ds)
      else c # cmdline_loop cs)"

definition command_string :: "string \<Rightarrow> string \<Rightarrow> string res" where
  "command_string c content =
     bindR (store 1024 (cmdline_loop content)) (\<lambda>s.
       if s = [] then store 1024 (''['' @ c @ '']'') else Inr s)"

text \<open>
  \<open>AddProcessList\<close>: the process, or no process after an early return. The last part copies it into
  \<open>procList\<close>, which has 4096 entries.
\<close>

definition read_process :: "os \<Rightarrow> options \<Rightarrow> int \<Rightarrow> int \<Rightarrow> string \<Rightarrow> myProc option res" where
  "read_process env o' totalmem uptime path =
     bindR (stat_tokens env path) (\<lambda>r. case r of None \<Rightarrow> Inr None | Some ts \<Rightarrow>
     case os_stat env (path @ ''/stat'') of None \<Rightarrow> Inr None | Some st \<Rightarrow>
     bindR (user_name env (st_uid st)) (\<lambda>name.
     bindR (cpu_since_start (os_hertz env) uptime ts) (\<lambda>share.
     case os_file env (path @ ''/status'') of None \<Rightarrow> Inr None | Some status \<Rightarrow>
     let sm = status_memory status; m = (case sm of None \<Rightarrow> no_memory | Some m \<Rightarrow> m); p = ulong_token ts 0 in
     bindR (GetTTY env path) (\<lambda>t.
     bindR (store 8 (ts ! 2 @ stat_flags p (m_lck m) ts)) (\<lambda>state.
     bindR (cmd_string (ts ! 1)) (\<lambda>c.
     case os_file env (path @ ''/cmdline'') of None \<Rightarrow> Inr None | Some line \<Rightarrow>
     bindR (command_string c line) (\<lambda>full.
       Inr (Some (EraseProcess
         \<lparr>pid := p, uid := st_uid st, ppid := ulong_token ts 3, user := name, cpu := percent share,
          mem := (if sm = None then Fin 0 else mem_percent (m_rss m) totalmem),
          vsz := m_vsz m, rss := m_rss m, shr := m_shr m, priority := atoi (ts ! 17),
          nice := atoi (ts ! 18), tty := t, stat := state,
          start := start_string env (os_hertz env) uptime ts,
          time := time_string o' (os_hertz env) ts, cmd := c, command := full\<rparr>)))))))))"

definition AddProcessList ::
  "os \<Rightarrow> options \<Rightarrow> int \<Rightarrow> int \<Rightarrow> string \<Rightarrow> myProc list \<Rightarrow> myProc list res" where
  "AddProcessList env o' totalmem uptime path procs =
     bindR (read_process env o' totalmem uptime path) (\<lambda>r.
       case r of
         None \<Rightarrow> Inr procs
       | Some p \<Rightarrow> if length procs < 4096 then Inr (procs @ [p]) else Inl OutOfBounds)"

section \<open>All processes\<close>

definition is_pid :: "string \<Rightarrow> bool" where
  "is_pid name \<longleftrightarrow> (\<forall>c \<in> set name. isdigit c)"

text \<open>
  The tests of \<open>SearchProcess\<close> on one entry of \<open>/proc\<close>, in their order. The terminal is asked for only
  when an option needs it.
\<close>

definition wanted :: "os \<Rightarrow> options \<Rightarrow> string \<Rightarrow> fstat \<Rightarrow> string \<Rightarrow> bool res" where
  "wanted env o' myTTY st name =
     (let path = ''/proc/'' @ name in
      if \<not> st_dir st \<or> \<not> is_pid name then Inr False
      else if \<not> aOption o' \<and> st_uid st \<noteq> os_uid env then Inr False
      else
        bindR (if xOption o' then Inr True
               else bindR (GetTTY env path) (\<lambda>t. Inr (t \<noteq> [] \<and> t \<noteq> ''?''))) (\<lambda>b.
        if \<not> b then Inr False
        else if \<not> aOption o' \<and> \<not> uOption o' \<and> \<not> xOption o' then
          bindR (GetTTY env path) (\<lambda>t. Inr (t = myTTY))
        else Inr True))"

fun search_loop ::
  "os \<Rightarrow> options \<Rightarrow> string \<Rightarrow> int \<Rightarrow> int \<Rightarrow> string list \<Rightarrow> myProc list \<Rightarrow> myProc list res" where
  "search_loop env o' myTTY totalmem uptime [] procs = Inr procs"
| "search_loop env o' myTTY totalmem uptime (name # names) procs =
     (case os_stat env (''/proc/'' @ name) of
        None \<Rightarrow> Inl (Exit 1)
      | Some st \<Rightarrow>
          bindR (wanted env o' myTTY st name) (\<lambda>w.
          bindR (if w then AddProcessList env o' totalmem uptime (''/proc/'' @ name) procs else Inr procs)
            (\<lambda>procs'. search_loop env o' myTTY totalmem uptime names procs')))"

definition SearchProcess :: "os \<Rightarrow> options \<Rightarrow> string \<Rightarrow> int \<Rightarrow> myProc list res" where
  "SearchProcess env o' myTTY totalmem =
     bindR (GetUpTime env) (\<lambda>uptime.
       case os_dir env ''/proc'' of
         None \<Rightarrow> Inl (Exit 1)
       | Some names \<Rightarrow> search_loop env o' myTTY totalmem uptime names [])"

section \<open>The table\<close>

datatype column =
    USER | UID | PID | PPID | C | STIME | CPU | MEM | VSZ | RSS | TTY | STAT | START | TIME | CMD | COMMAND

fun column_str :: "column \<Rightarrow> string" where
  "column_str USER = ''USER''" | "column_str UID = ''UID''" | "column_str PID = ''PID''"
| "column_str PPID = ''PPID''" | "column_str C = ''C''" | "column_str STIME = ''STIME''"
| "column_str CPU = ''%CPU''" | "column_str MEM = ''%MEM''" | "column_str VSZ = ''VSZ''"
| "column_str RSS = ''RSS''" | "column_str TTY = ''TTY''" | "column_str STAT = ''STAT''"
| "column_str START = ''START''" | "column_str TIME = ''TIME''" | "column_str CMD = ''CMD''"
| "column_str COMMAND = ''COMMAND''"

text \<open>The text of a process in a column.\<close>

fun cell :: "column \<Rightarrow> myProc \<Rightarrow> string" where
  "cell USER p = user p" | "cell UID p = user p" | "cell PID p = show_int (pid p)"
| "cell PPID p = show_int (ppid p)" | "cell C p = show_int (ld_trunc (cpu p))"
| "cell STIME p = start p" | "cell CPU p = show_ld 3 1 (cpu p)" | "cell MEM p = show_ld 3 1 (mem p)"
| "cell VSZ p = show_int (vsz p)" | "cell RSS p = show_int (rss p)" | "cell TTY p = tty p"
| "cell STAT p = stat p" | "cell START p = start p" | "cell TIME p = time p" | "cell CMD p = cmd p"
| "cell COMMAND p = command p"

text \<open>The loops that make a column as wide as its widest entry.\<close>

definition max_width :: "myProc list \<Rightarrow> column \<Rightarrow> nat" where
  "max_width procs c =
     foldl (\<lambda>w p. if w < length (cell c p) then length (cell c p) else w) (length (column_str c)) procs"

text \<open>The columns whose width is set to -1.\<close>

definition hidden :: "options \<Rightarrow> column \<Rightarrow> bool" where
  "hidden o' c =
     (if fOption o' then c \<in> {USER, MEM, VSZ, RSS, STAT, COMMAND}
      else c \<in> {PPID, C, STIME} \<or>
        (if \<not> aOption o' \<and> \<not> uOption o' \<and> \<not> xOption o' then
           c \<in> {USER, CPU, MEM, VSZ, RSS, STAT, START, COMMAND}
         else if \<not> uOption o' then c \<in> {USER, CPU, MEM, VSZ, RSS, START, CMD}
         else c = CMD))"

definition columnWidth :: "options \<Rightarrow> myProc list \<Rightarrow> column \<Rightarrow> int" where
  "columnWidth o' procs c = (if hidden o' c then - 1 else int (max_width procs c))"

text \<open>A text in a column: the blanks come after it or before it, \<open>k\<close> more than the gap.\<close>

definition left :: "int \<Rightarrow> string \<Rightarrow> string" where
  "left w s = s @ spaces (nat (w - int (length s))) @ '' ''"

definition right :: "int \<Rightarrow> int \<Rightarrow> string \<Rightarrow> string" where
  "right k w s = spaces (nat (w - int (length s) + k)) @ s @ '' ''"

definition shows_stat :: "options \<Rightarrow> bool" where
  "shows_stat o' \<longleftrightarrow> \<not> eOption o' \<and> (aOption o' \<or> uOption o' \<or> xOption o')"

text \<open>
  A line up to the command, for the texts \<open>tx\<close> of its columns: the headings, or the entries of a
  process. The state is padded on the left in the heading and on the right in an entry.
\<close>

definition line_start :: "options \<Rightarrow> (column \<Rightarrow> int) \<Rightarrow> (column \<Rightarrow> string) \<Rightarrow> string" where
  "line_start o' w tx =
     (if uOption o' then left (w USER) (tx USER) else []) @
     (if fOption o' then left (w UID) (tx UID) else []) @
     ''  '' @ right 1 (w PID) (tx PID) @
     (if fOption o' then right 0 (w PPID) (tx PPID) @ right 0 (w C) (tx C) @ left (w STIME) (tx STIME)
      else []) @
     (if uOption o' then right 0 (w CPU) (tx CPU) @ right 0 (w MEM) (tx MEM) @ right 0 (w VSZ) (tx VSZ) @
        right 0 (w RSS) (tx RSS) else []) @
     left (w TTY) (tx TTY)"

definition line_end :: "options \<Rightarrow> (column \<Rightarrow> int) \<Rightarrow> (column \<Rightarrow> string) \<Rightarrow> string" where
  "line_end o' w tx = (if uOption o' then left (w START) (tx START) else []) @ right 2 (w TIME) (tx TIME)"

definition header_line :: "options \<Rightarrow> (column \<Rightarrow> int) \<Rightarrow> string" where
  "header_line o' w =
     line_start o' w column_str @
     (if shows_stat o' then right 3 (w STAT) (column_str STAT) else []) @
     line_end o' w column_str"

definition header_command :: "options \<Rightarrow> string" where
  "header_command o' =
     (if eOption o' \<or> fOption o' then ''CMD''
      else if aOption o' \<or> uOption o' \<or> xOption o' then ''COMMAND'' else ''CMD'')"

definition process_line :: "options \<Rightarrow> (column \<Rightarrow> int) \<Rightarrow> myProc \<Rightarrow> string" where
  "process_line o' w p =
     line_start o' w (\<lambda>c. cell c p) @
     (if shows_stat o' then ''   '' @ left (w STAT) (stat p) else []) @
     line_end o' w (\<lambda>c. cell c p)"

definition process_command :: "options \<Rightarrow> myProc \<Rightarrow> string" where
  "process_command o' p =
     (if aOption o' \<or> uOption o' \<or> xOption o' \<or> fOption o' then command p else cmd p)"

text \<open>The line is built in a buffer of 1024 bytes, cut at the width of the terminal, and printed.\<close>

definition put_line :: "int \<Rightarrow> string \<Rightarrow> string res" where
  "put_line cols s =
     bindR (store 1024 s) (\<lambda>buf.
       if 0 \<le> cols \<and> cols < 1024 then Inr (take (nat cols) buf @ nl) else Inl OutOfBounds)"

definition print_header :: "int \<Rightarrow> options \<Rightarrow> (column \<Rightarrow> int) \<Rightarrow> string res" where
  "print_header cols o' w =
     (if hOption o' then Inr [] else put_line cols (header_line o' w @ header_command o'))"

definition chosen :: "options \<Rightarrow> myProc \<Rightarrow> bool" where
  "chosen o' p \<longleftrightarrow> \<not> pOption o' \<or> pid p \<in> set (pidList o')"

fun print_rows :: "int \<Rightarrow> options \<Rightarrow> (column \<Rightarrow> int) \<Rightarrow> myProc list \<Rightarrow> string res" where
  "print_rows cols o' w [] = Inr []"
| "print_rows cols o' w (p # ps) =
     (if chosen o' p then
        bindR (put_line cols (process_line o' w p @ process_command o' p)) (\<lambda>l.
        bindR (print_rows cols o' w ps) (\<lambda>ls. Inr (l @ ls)))
      else print_rows cols o' w ps)"

definition PrintPS :: "int \<Rightarrow> options \<Rightarrow> myProc list \<Rightarrow> string res" where
  "PrintPS cols o' procs =
     (let w = columnWidth o' procs in
      bindR (print_header cols o' w) (\<lambda>h.
      bindR (print_rows cols o' w procs) (\<lambda>r. Inr (h @ r))))"

section \<open>Main\<close>

definition myps_main :: "os \<Rightarrow> string list \<Rightarrow> string res" where
  "myps_main env args =
     bindR (GetTotalMemory env) (\<lambda>totalmem.
     bindR (GetTTY env (''/proc/'' @ show_int (os_pid env))) (\<lambda>own.
     bindR (parse_args no_options args) (\<lambda>o'.
     bindR (SearchProcess env o' (cut_tty own) totalmem) (\<lambda>procs.
       PrintPS (os_cols env) o' procs))))"

end
