(* ===== verification/Mytop.thy ===== *)
theory Mytop
  imports Myps
begin

text \<open>
  \<open>src/Assignment_2/mytop.c\<close>: the sorted list of processes, the screen, and the loop over keys. The
  functions \<open>mytop.c\<close> has in the same words as \<open>myps.c\<close> are those of \<open>Proc\<close> and \<open>Myps\<close>.
\<close>

section \<open>State\<close>

record topProc = myProc +
  runtime :: int

record top_env = os +
  os_utmp :: "int list"        \<comment> \<open>the \<open>ut_type\<close> of the entries \<open>getutent\<close> gives\<close>
  os_kill :: "int option"      \<comment> \<open>the number typed at the kill prompt\<close>

text \<open>\<open>sorted\<close> holds pointers into \<open>procList\<close>; here it holds the structures they point to.\<close>

record top =
  cpuTimeTable :: "int \<Rightarrow> int"
  procList :: "topProc list"
  sorted :: "topProc list"
  before :: int
  now :: int
  uptime :: int
  beforeUptime :: int
  total_memory :: int
  hertz :: int
  updateTime :: int
  updatePeriod :: int
  beforeTicks :: "ld list"
  ch :: int
  row :: int
  col :: int
  dOption :: bool
  nOption :: bool
  killMode :: bool
  reverseMode :: bool
  sortMode :: int
  byteUnit :: int
  printFlag :: bool

definition CPU_MODE :: int where "CPU_MODE = 1"
definition MEM_MODE :: int where "MEM_MODE = 2"
definition PID_MODE :: int where "PID_MODE = 3"
definition TIME_MODE :: int where "TIME_MODE = 4"

section \<open>Sorting\<close>

text \<open>The result when the keys differ, or the early \<open>return\<close> by process number.\<close>

datatype verdict = Value bool | Return bool

definition by_pid :: "topProc \<Rightarrow> topProc \<Rightarrow> bool" where
  "by_pid a b \<longleftrightarrow> pid a > pid b"

definition compare_mode :: "int \<Rightarrow> topProc \<Rightarrow> topProc \<Rightarrow> verdict option" where
  "compare_mode mode a b =
     (if mode = CPU_MODE then
        Some (if ld_less (cpu a) (cpu b) then Value True
              else if ld_less (cpu b) (cpu a) then Value False else Return (by_pid a b))
      else if mode = MEM_MODE then
        Some (if ld_less (mem a) (mem b) then Value True
              else if ld_less (mem b) (mem a) then Value False
              else if rss a < rss b then Value True
              else if rss b < rss a then Value False else Return (by_pid a b))
      else if mode = PID_MODE then Some (Value (by_pid a b))
      else if mode = TIME_MODE then
        Some (if runtime a < runtime b then Value True
              else if runtime b < runtime a then Value False else Return (by_pid a b))
      else None)"

text \<open>In another mode \<open>value\<close> would be read before it is set; the modes are 1 to 4.\<close>

definition isGreater :: "int \<Rightarrow> bool \<Rightarrow> topProc \<Rightarrow> topProc \<Rightarrow> bool res" where
  "isGreater mode rv a b =
     (case compare_mode mode a b of
        None \<Rightarrow> Inl Uninitialised
      | Some (Return v) \<Rightarrow> Inr v
      | Some (Value v) \<Rightarrow> Inr (if rv then \<not> v else v))"

text \<open>The inner loop: \<open>k\<close> comparisons of neighbours from the front.\<close>

fun bubble :: "('a \<Rightarrow> 'a \<Rightarrow> bool res) \<Rightarrow> nat \<Rightarrow> 'a list \<Rightarrow> 'a list res" where
  "bubble gt (Suc k) (a # b # xs) =
     bindR (gt a b) (\<lambda>g.
       if g then bindR (bubble gt k (a # xs)) (\<lambda>ys. Inr (b # ys))
       else bindR (bubble gt k (b # xs)) (\<lambda>ys. Inr (a # ys)))"
| "bubble gt k xs = Inr xs"

text \<open>The outer loop, from \<open>i = procCnt - 1\<close> down to 1.\<close>

fun sort_loop :: "('a \<Rightarrow> 'a \<Rightarrow> bool res) \<Rightarrow> nat \<Rightarrow> 'a list \<Rightarrow> 'a list res" where
  "sort_loop gt 0 xs = Inr xs"
| "sort_loop gt (Suc i) xs = bindR (bubble gt (Suc i) xs) (sort_loop gt i)"

definition SortProc :: "top \<Rightarrow> top res" where
  "SortProc st =
     bindR (sort_loop (isGreater (sortMode st) (reverseMode st)) (length (procList st) - 1) (procList st))
       (\<lambda>s. Inr (st\<lparr>sorted := s\<rparr>))"

section \<open>Reading processes\<close>

definition top_GetTotalMemory :: "os \<Rightarrow> int res" where
  "top_GetTotalMemory env =
     (case os_file env ''/proc/meminfo'' of
        None \<Rightarrow> Inl (Exit 1)
      | Some s \<Rightarrow> bindR (first_digit (fst (fgets_rows 1 [] s))) (\<lambda>ptr. Inr (sscanf_lu ptr 0)))"

text \<open>
  The CPU share: since the last reading when the table has one, otherwise since the process started.
  The table has 32768 entries, indexed by the process number.
\<close>

definition cpu_share :: "top \<Rightarrow> string list \<Rightarrow> (ld \<times> (int \<Rightarrow> int)) res" where
  "cpu_share st ts =
     (let p = ulong_token ts 0; t = total_time ts; old = cpuTimeTable st p in
      if p < 0 \<or> 32768 \<le> p then Inl OutOfBounds
      else if hertz st = 0 then Inl DivByZero
      else
        bindR (if old \<noteq> 0 then
                 Inr (ld_mul (ld_div (ld_div (ld_of_int (to_uint64 (t - old)))
                        (ld_of_int (now st - before st))) (ld_of_int (hertz st))) (Fin 100))
               else cpu_since_start (hertz st) (uptime st) ts)
          (\<lambda>c. Inr (percent c, (cpuTimeTable st)(p := t))))"

text \<open>
  As in \<open>myps\<close>, but the shared memory is the sum of the lines 24 and 25. Without a number in line 25
  \<open>shr_add\<close> is read before it is set.
\<close>

definition top_status_memory :: "string \<Rightarrow> memory option res" where
  "top_status_memory s =
     (let (l18, s18) = fgets_rows 18 [] s; (l19, s19) = fgets_rows 1 [] s18;
          (l22, s22) = fgets_rows 3 [] s19; (l24, s24) = fgets_rows 2 [] s22;
          (l25, s25) = fgets_rows 1 [] s24 in
      if take 6 l18 \<noteq> ''VmSize'' then Inr None
      else case scan_lu (digit_or_start l25) of
        ScanOk v r \<Rightarrow>
          Inr (Some \<lparr>m_vsz = vsz_line l18, m_lck = status_line l19, m_rss = status_line l22,
                    m_shr = to_uint64 (status_line l24 + v)\<rparr>)
      | _ \<Rightarrow> Inl Uninitialised)"

definition top_time_string :: "int \<Rightarrow> string list \<Rightarrow> string" where
  "top_time_string hz ts =
     (let t = gmtime (total_time ts div hz) in
      show_int (int (tm_min t)) @ '':'' @ show_int_0w 2 (int (tm_sec t)) @ ''.'' @
      show_int_0w 2 (total_time ts mod 100))"

text \<open>
  \<open>AddProcessList\<close>. The table is updated as soon as the tokens are read, also when the function
  returns early afterwards.
\<close>

definition top_process :: "os \<Rightarrow> top \<Rightarrow> string list \<Rightarrow> fstat \<Rightarrow> string \<Rightarrow> ld \<Rightarrow> string \<Rightarrow> topProc option res" where
  "top_process env st ts fs name share path =
     (case os_file env (path @ ''/status'') of None \<Rightarrow> Inr None | Some status \<Rightarrow>
     bindR (top_status_memory status) (\<lambda>sm.
     let m = (case sm of None \<Rightarrow> no_memory | Some m \<Rightarrow> m) in
     bindR (store 8 (ts ! 2)) (\<lambda>state.
     bindR (cmd_string (ts ! 1)) (\<lambda>c.
     case os_file env (path @ ''/cmdline'') of None \<Rightarrow> Inr None | Some line \<Rightarrow>
     bindR (command_string c line) (\<lambda>full.
       Inr (Some
         \<lparr>pid = ulong_token ts 0, uid = st_uid fs, ppid = ulong_token ts 3, user = name, cpu = share,
          mem = (if sm = None then Fin 0 else mem_percent (m_rss m) (total_memory st)),
          vsz = m_vsz m, rss = m_rss m, shr = m_shr m, priority = atoi (ts ! 17),
          nice = atoi (ts ! 18), tty = [], stat = state,
          start = start_string env (hertz st) (uptime st) ts,
          time = top_time_string (hertz st) ts, cmd = c, command = full,
          runtime = total_time ts\<rparr>))))))"

definition top_AddProcessList :: "os \<Rightarrow> top \<Rightarrow> string \<Rightarrow> top res" where
  "top_AddProcessList env st path =
     bindR (stat_tokens env path) (\<lambda>r. case r of None \<Rightarrow> Inr st | Some ts \<Rightarrow>
     case os_stat env (path @ ''/stat'') of None \<Rightarrow> Inr st | Some fs \<Rightarrow>
     bindR (user_name env (st_uid fs)) (\<lambda>name.
     bindR (cpu_share st ts) (\<lambda>(share, table).
     let st1 = st\<lparr>cpuTimeTable := table\<rparr> in
     bindR (top_process env st1 ts fs name share path) (\<lambda>r.
       case r of
         None \<Rightarrow> Inr st1
       | Some p \<Rightarrow>
           if length (procList st1) < 4096 then Inr (st1\<lparr>procList := procList st1 @ [p]\<rparr>)
           else Inl OutOfBounds))))"

fun top_search_loop :: "os \<Rightarrow> string list \<Rightarrow> top \<Rightarrow> top res" where
  "top_search_loop env [] st = Inr st"
| "top_search_loop env (name # names) st =
     (case os_stat env (''/proc/'' @ name) of
        None \<Rightarrow> Inl (Exit 1)
      | Some fs \<Rightarrow>
          bindR (if st_dir fs \<and> is_pid name then top_AddProcessList env st (''/proc/'' @ name) else Inr st)
            (top_search_loop env names))"

definition top_SearchProcess :: "os \<Rightarrow> top \<Rightarrow> top res" where
  "top_SearchProcess env st =
     bindR (GetUpTime env) (\<lambda>u.
       case os_dir env ''/proc'' of
         None \<Rightarrow> Inl (Exit 1)
       | Some names \<Rightarrow> top_search_loop env names (st\<lparr>uptime := u\<rparr>))"

definition EraseProcessList :: "top \<Rightarrow> top" where
  "EraseProcessList st = st\<lparr>procList := []\<rparr>"

text \<open>The kill prompt: the process that gets \<open>SIGTERM\<close>, if any.\<close>

definition KillProcess :: "top_env \<Rightarrow> top \<Rightarrow> (top \<times> int option) res" where
  "KillProcess env st =
     (if killMode st then
        (case os_kill env of
           None \<Rightarrow> Inl Uninitialised
         | Some p \<Rightarrow> Inr (st\<lparr>killMode := False\<rparr>, Some p))
      else Inr (st, None))"

section \<open>The summary lines\<close>

text \<open>A call of \<open>mvprintw\<close>: row, column and text.\<close>

type_synonym mvprint = "int \<times> int \<times> string"

definition now_string :: "os \<Rightarrow> int \<Rightarrow> string" where
  "now_string env t =
     (let m = localtime (os_tz env) t in
      ''top - '' @ show_int_0w 2 (int (tm_hour m)) @ '':'' @ show_int_0w 2 (int (tm_min m)) @ '':'' @
      show_int_0w 2 (int (tm_sec m)) @ '' '')"

definition up_string :: "int \<Rightarrow> string" where
  "up_string u =
     (let m = gmtime u in
      if u < 60 * 60 then show_int_w 2 (int (tm_min m)) @ '' min''
      else if u < 60 * 60 * 24 then show_int_w 2 (int (tm_hour m)) @ '':'' @ show_int_0w 2 (int (tm_min m))
      else show_int_w 3 (int (tm_yday m)) @ '' days, '' @ show_int_0w 2 (int (tm_hour m)) @ '':'' @
           show_int_0w 2 (int (tm_min m)))"

text \<open>\<open>sscanf\<close> with \<open>%Lf\<close> for each entry, which stops at the first failure.\<close>

fun scan_lds :: "ld list \<Rightarrow> string \<Rightarrow> ld list" where
  "scan_lds [] s = []"
| "scan_lds (d # ds) s = (case scan_ld s of ScanOk v r \<Rightarrow> v # scan_lds ds r | _ \<Rightarrow> d # ds)"

text \<open>The three load averages, which are not initialised.\<close>

fun scan_loads :: "nat \<Rightarrow> string \<Rightarrow> ld list res" where
  "scan_loads 0 s = Inr []"
| "scan_loads (Suc n) s =
     (case scan_ld s of
        ScanOk v r \<Rightarrow> bindR (scan_loads n r) (\<lambda>vs. Inr (v # vs))
      | _ \<Rightarrow> Inl Uninitialised)"

definition top_row :: "top_env \<Rightarrow> top \<Rightarrow> mvprint res" where
  "top_row env st =
     (case os_file env ''/proc/loadavg'' of
        None \<Rightarrow> Inl (Exit 1)
      | Some s \<Rightarrow>
          bindR (scan_loads 3 (fst (fgets_line 1024 s))) (\<lambda>ls.
            Inr (0, 0, now_string (os.truncate env) (now st) @ ''up '' @ up_string (uptime st) @ '', '' @
              show_int (int (length (filter (\<lambda>t. t = 7) (os_utmp env)))) @ '' users, load average: '' @
              show_ld 4 2 (ls ! 0) @ '', '' @ show_ld 4 2 (ls ! 1) @ '', '' @ show_ld 4 2 (ls ! 2))))"

record tasks =
  running :: nat
  sleeping :: nat
  stopped :: nat
  zombie :: nat

definition count_task :: "tasks \<Rightarrow> topProc \<Rightarrow> tasks" where
  "count_task t p =
     (if stat p = ''R'' then t\<lparr>running := Suc (running t)\<rparr>
      else if stat p = ''D'' \<or> stat p = ''S'' \<or> stat p = ''I'' then t\<lparr>sleeping := Suc (sleeping t)\<rparr>
      else if stat p = ''T'' \<or> stat p = ''t'' then t\<lparr>stopped := Suc (stopped t)\<rparr>
      else if stat p = ''Z'' then t\<lparr>zombie := Suc (zombie t)\<rparr>
      else t)"

definition count_tasks :: "topProc list \<Rightarrow> tasks" where
  "count_tasks ps = foldl count_task \<lparr>running = 0, sleeping = 0, stopped = 0, zombie = 0\<rparr> ps"

definition task_row :: "top \<Rightarrow> mvprint" where
  "task_row st =
     (let t = count_tasks (procList st); n = (\<lambda>k. show_int_w 4 (int k)) in
      (1, 0, ''Tasks: '' @ n (length (procList st)) @ '' total, '' @ n (running t) @ '' running, '' @
         n (sleeping t) @ '' sleeping, '' @ n (stopped t) @ '' stopped, '' @ n (zombie t) @ '' zombie''))"

text \<open>The CPU line: the ticks of each kind since the last refresh, in percent of all ticks.\<close>

definition tick_share :: "int \<Rightarrow> ld \<Rightarrow> ld" where
  "tick_share n r =
     (let x = ld_mul (ld_div r (ld_of_int n)) (Fin 100) in if isnan x \<or> isinf x then Fin 0 else x)"

definition tick_results :: "top \<Rightarrow> ld list \<Rightarrow> ld list" where
  "tick_results st ticks =
     (if beforeUptime st = 0 then map (tick_share (to_uint64 (uptime st * hertz st))) ticks
      else map (tick_share (to_uint64 (to_uint64 (uptime st - beforeUptime st) * hertz st)))
             (map2 ld_sub ticks (beforeTicks st)))"

definition cpu_row :: "os \<Rightarrow> top \<Rightarrow> (top \<times> mvprint) res" where
  "cpu_row env st =
     (case os_file env ''/proc/stat'' of
        None \<Rightarrow> Inl (Exit 1)
      | Some s \<Rightarrow>
          bindR (first_digit (fst (fgets_line 1024 s))) (\<lambda>ptr.
            let ticks = scan_lds (replicate 8 (Fin 0)) ptr; r = tick_results st ticks;
                f = (\<lambda>i. show_ld 4 1 (r ! i)) in
            Inr (st\<lparr>beforeUptime := uptime st, beforeTicks := ticks\<rparr>,
                 (2, 0, ''%Cpu(s): '' @ f 0 @ '' us, '' @ f 2 @ '' sy, '' @ f 1 @ '' ni, '' @ f 3 @ '' id, '' @
                    f 4 @ '' wa, '' @ f 5 @ '' hi, '' @ f 6 @ '' si, '' @ f 7 @ '' st''))))"

section \<open>The memory lines\<close>

record meminfo =
  memTotal :: int
  memFree :: int
  memAvailable :: int
  buffers :: int
  cached :: int
  swapTotal :: int
  swapFree :: int
  sReclaimable :: int

text \<open>\<open>n\<close> more lines, then the number of the last of them.\<close>

definition next_number :: "nat \<Rightarrow> string \<Rightarrow> (int \<times> string) res" where
  "next_number n s =
     (case fgets_rows n [] s of (l, r) \<Rightarrow> bindR (first_digit l) (\<lambda>ptr. Inr (sscanf_lu ptr 0, r)))"

definition read_meminfo :: "string \<Rightarrow> meminfo res" where
  "read_meminfo s =
     bindR (next_number 1 s) (\<lambda>(a, s1). bindR (next_number 1 s1) (\<lambda>(b, s2).
     bindR (next_number 1 s2) (\<lambda>(c, s3). bindR (next_number 1 s3) (\<lambda>(d, s4).
     bindR (next_number 1 s4) (\<lambda>(e, s5). bindR (next_number 10 s5) (\<lambda>(f, s15).
     bindR (next_number 1 s15) (\<lambda>(g, s16). bindR (next_number 8 s16) (\<lambda>(h, s24).
       Inr \<lparr>memTotal = a, memFree = b, memAvailable = c, buffers = d, cached = e, swapTotal = f,
            swapFree = g, sReclaimable = h\<rparr>))))))))"

definition memUsed :: "meminfo \<Rightarrow> int" where
  "memUsed m = to_uint64 (memTotal m - memFree m - buffers m - cached m - sReclaimable m)"

definition swapUsed :: "meminfo \<Rightarrow> int" where
  "swapUsed m = to_uint64 (swapTotal m - swapFree m)"

definition buffCache :: "meminfo \<Rightarrow> int" where
  "buffCache m = to_uint64 (buffers m + cached m + sReclaimable m)"

definition unit_name :: "int \<Rightarrow> string" where
  "unit_name u =
     (if u = 2 then ''MiB'' else if u = 3 then ''GiB'' else if u = 4 then ''TiB''
      else if u = 5 then ''PiB'' else if u = 6 then ''EiB'' else [])"

text \<open>A size in the unit, divided by 1024 once for each step from KiB.\<close>

definition in_unit :: "int \<Rightarrow> int \<Rightarrow> ld" where
  "in_unit u n = ld_iter (nat (u - 1)) (\<lambda>x. ld_div x (Fin 1024)) (ld_of_int n)"

definition mem_rows :: "int \<Rightarrow> meminfo \<Rightarrow> mvprint list" where
  "mem_rows u m =
     (if u = 1 then
        (let n = show_int_w 8 in
         [(3, 0, ''Kib Mem : '' @ n (memTotal m) @ '' total,  '' @ n (memFree m) @ '' free,  '' @
             n (memUsed m) @ '' used,  '' @ n (buffCache m) @ '' buff/cache''),
          (4, 0, ''Kib Swap: '' @ n (swapTotal m) @ '' total,  '' @ n (swapFree m) @ '' free,  '' @
             n (swapUsed m) @ '' used,  '' @ n (memAvailable m) @ '' avail Mem'')])
      else
        (let n = (\<lambda>x. show_ld 6 1 (in_unit u x)) in
         [(3, 0, unit_name u @ '' Mem : '' @ n (memTotal m) @ '' total, '' @ n (memFree m) @ '' free, '' @
             n (memUsed m) @ '' used, '' @ n (buffCache m) @ '' buff/cache''),
          (4, 0, unit_name u @ '' Swap: '' @ n (swapTotal m) @ '' total, '' @ n (swapFree m) @ '' free, '' @
             n (swapUsed m) @ '' used, '' @ n (memAvailable m) @ '' avail Mem'')]))"

section \<open>The columns\<close>

text \<open>The indices of \<open>columnWidth\<close> are 0 (\<open>PID\<close>) to 11 (\<open>COMMAND\<close>).\<close>

definition top_titles :: "string list" where
  "top_titles = [''PID'', ''USER'', ''PR'', ''NI'', ''VIRT'', ''RES'', ''SHR'', ''S'', ''%CPU'', ''%MEM'',
     ''TIME+'', ''COMMAND'']"

definition top_cells :: "topProc \<Rightarrow> string list" where
  "top_cells p = [show_int (pid p), user p, show_int (priority p), show_int (nice p), show_int (vsz p),
     show_int (rss p), show_int (shr p), stat p, show_ld 3 1 (cpu p), show_ld 3 1 (mem p), time p,
     command p]"

definition top_width :: "topProc list \<Rightarrow> nat \<Rightarrow> int" where
  "top_width ps i =
     int (foldl (\<lambda>w p. if w < length (top_cells p ! i) then length (top_cells p ! i) else w)
       (length (top_titles ! i)) ps)"

text \<open>
  The loop that places the columns from \<open>col + 1\<close> on, until one starts outside the terminal: the
  start positions, and that column if there is one.
\<close>

fun place_columns :: "int \<Rightarrow> (nat \<Rightarrow> int) \<Rightarrow> nat \<Rightarrow> nat \<Rightarrow> (nat \<Rightarrow> int) \<Rightarrow> (nat \<Rightarrow> int) \<times> nat option" where
  "place_columns cols w 0 i startX = (startX, None)"
| "place_columns cols w (Suc k) i startX =
     (let x = w (i - 1) + 2 + startX (i - 1); startX' = startX(i := x) in
      if x \<ge> cols then (startX', Some i) else place_columns cols w k (Suc i) startX')"

record layout =
  startX :: "nat \<Rightarrow> int"
  startCol :: int
  endCol :: int
  maxCmd :: int

definition top_layout :: "int \<Rightarrow> (nat \<Rightarrow> int) \<Rightarrow> int \<Rightarrow> layout" where
  "top_layout cols w c =
     (let x0 = (\<lambda>i. if i = 0 then 2 else 0) in
      if c \<ge> 11 then \<lparr>startX = x0, startCol = 11, endCol = 12, maxCmd = cols\<rparr>
      else case place_columns cols w (11 - nat c) (nat c + 1) x0 of
        (xs, Some e) \<Rightarrow> \<lparr>startX = xs, startCol = c, endCol = int e, maxCmd = - 1\<rparr>
      | (xs, None) \<Rightarrow> \<lparr>startX = xs, startCol = c, endCol = 12, maxCmd = cols - xs 11\<rparr>)"

definition visible :: "layout \<Rightarrow> nat \<Rightarrow> bool" where
  "visible l i \<longleftrightarrow> startCol l \<le> int i \<and> int i < endCol l"

text \<open>Right-aligned columns; the others (\<open>USER\<close>, \<open>S\<close>) start at the column. \<open>TIME+\<close> is one further right.\<close>

definition column_x :: "layout \<Rightarrow> (nat \<Rightarrow> int) \<Rightarrow> nat \<Rightarrow> string \<Rightarrow> int" where
  "column_x l w i s =
     startX l i + (if i = 1 \<or> i = 7 then 0 else w i - int (length s)) + (if i = 10 then 1 else 0)"

definition title_row :: "int \<Rightarrow> layout \<Rightarrow> (nat \<Rightarrow> int) \<Rightarrow> mvprint list" where
  "title_row cols l w =
     map (\<lambda>i. (6, int i, '' '')) [0..<nat cols] @
     map (\<lambda>i. (6, column_x l w i (top_titles ! i), top_titles ! i)) (filter (visible l) [0..<11]) @
     [(6, startX l 11, ''COMMAND'')]"

text \<open>
  The command: \<open>cmd[maxCmd] = 0\<close>, then the text from \<open>cmd + tap * 8\<close>. The array has 1024 bytes, all
  zero after the text; beyond the new zero the old text is still there.
\<close>

definition command_cell :: "int \<Rightarrow> layout \<Rightarrow> topProc \<Rightarrow> string res" where
  "command_cell c l p =
     (let k = (if c < 11 then 0 else nat ((c - 11) * 8)); n = nat (maxCmd l) in
      if maxCmd l < 0 \<or> 1024 \<le> maxCmd l then Inl OutOfBounds
      else if 1024 \<le> k then Inl OutOfBounds
      else Inr (if k \<le> n then drop k (take n (cmd p)) else drop k (cmd p)))"

definition process_row :: "int \<Rightarrow> layout \<Rightarrow> (nat \<Rightarrow> int) \<Rightarrow> int \<Rightarrow> topProc \<Rightarrow> mvprint list res" where
  "process_row c l w y p =
     bindR (command_cell c l p) (\<lambda>s.
       Inr (map (\<lambda>i. (y, column_x l w i (top_cells p ! i), top_cells p ! i)) (filter (visible l) [0..<11]) @
            [(y, startX l 11, s)]))"

fun process_rows :: "int \<Rightarrow> layout \<Rightarrow> (nat \<Rightarrow> int) \<Rightarrow> int \<Rightarrow> topProc list \<Rightarrow> mvprint list res" where
  "process_rows c l w y [] = Inr []"
| "process_rows c l w y (p # ps) =
     bindR (process_row c l w y p) (\<lambda>ws. bindR (process_rows c l w (y + 1) ps) (\<lambda>ws'. Inr (ws @ ws')))"

definition PrintTOP :: "top_env \<Rightarrow> top \<Rightarrow> (top \<times> mvprint list) res" where
  "PrintTOP env st0 =
     bindR (GetUpTime (os.truncate env)) (\<lambda>u.
     let st1 = st0\<lparr>uptime := u\<rparr> in
     bindR (top_row env st1) (\<lambda>w1.
     bindR (cpu_row (os.truncate env) st1) (\<lambda>(st2, w3).
     case os_file env ''/proc/meminfo'' of
       None \<Rightarrow> Inl (Exit 1)
     | Some s \<Rightarrow>
         bindR (read_meminfo s) (\<lambda>m.
         let w = top_width (procList st2); l = top_layout (os_cols env) w (col st2) in
         bindR (process_rows (col st2) l w 7 (drop (nat (row st2)) (sorted st2))) (\<lambda>rows.
           Inr (st2, w1 # task_row st2 # w3 # mem_rows (byteUnit st2) m @ title_row (os_cols env) l w @ rows))))))"

section \<open>Main\<close>

text \<open>The \<open>switch\<close> over the key: ncurses numbers the arrow keys 258 to 261.\<close>

definition top_key :: "top \<Rightarrow> top" where
  "top_key st =
     (let k = ch st; pr = st\<lparr>printFlag := True\<rparr> in
      if k = 260 then pr\<lparr>col := (if col st - 1 < 0 then 0 else col st - 1)\<rparr>
      else if k = 261 then pr\<lparr>col := col st + 1\<rparr>
      else if k = 259 then pr\<lparr>row := (if row st - 1 < 0 then 0 else row st - 1)\<rparr>
      else if k = 258 then
        pr\<lparr>row := (if row st + 1 > int (length (procList st)) then int (length (procList st)) else row st + 1)\<rparr>
      else if k = 10 \<or> k = 32 then pr
      else if k = 82 then pr\<lparr>reverseMode := \<not> reverseMode st\<rparr>
      else if k = 80 then pr\<lparr>sortMode := CPU_MODE\<rparr>
      else if k = 77 then pr\<lparr>sortMode := MEM_MODE\<rparr>
      else if k = 78 then pr\<lparr>sortMode := PID_MODE\<rparr>
      else if k = 84 then pr\<lparr>sortMode := TIME_MODE\<rparr>
      else if k = 69 then pr\<lparr>byteUnit := (if byteUnit st + 1 > 6 then 1 else byteUnit st + 1)\<rparr>
      else if k = 107 then pr\<lparr>killMode := True\<rparr>
      else st)"

definition refresh_due :: "top \<Rightarrow> bool" where
  "refresh_due st \<longleftrightarrow> printFlag st \<or> to_uint64 (now st - before st) \<ge> updateTime st"

text \<open>The body of the refresh: the flag says that the loop ends because the count of \<open>-n\<close> is used up.\<close>

definition top_refresh :: "top_env \<Rightarrow> top \<Rightarrow> (top \<times> mvprint list \<times> bool) res" where
  "top_refresh env st =
     (let st1 = (if ch st = 10 \<or> ch st = 32 then st\<lparr>updateTime := 0\<rparr> else st) in
      bindR (KillProcess env st1) (\<lambda>(st2, k).
      bindR (top_SearchProcess (os.truncate env) (EraseProcessList st2)) (\<lambda>st3.
      bindR (SortProc st3) (\<lambda>st4.
      bindR (PrintTOP env st4) (\<lambda>(st5, ws).
      let st6 = st5\<lparr>before := now st5, printFlag := False\<rparr> in
      if nOption st6 then
        let st7 = st6\<lparr>updatePeriod := to_uint64 (updatePeriod st6 - 1)\<rparr> in Inr (st7, ws, updatePeriod st7 = 0)
      else Inr (st6, ws, False))))))"

text \<open>One pass of the \<open>do\<close> loop.\<close>

definition top_iteration :: "top_env \<Rightarrow> top \<Rightarrow> (top \<times> mvprint list \<times> bool) res" where
  "top_iteration env st =
     (let st1 = top_key (st\<lparr>now := os_time env\<rparr>);
          st2 = (if dOption st1 then st1 else st1\<lparr>updateTime := 3\<rparr>) in
      if refresh_due st2 then top_refresh env st2 else Inr (st2, [], False))"

text \<open>
  The loop over the environments and keys it meets. It ends with the key \<open>q\<close> or the count; otherwise
  it is still running after the events given.
\<close>

fun top_loop :: "(top_env \<times> int) list \<Rightarrow> top \<Rightarrow> (top \<times> mvprint list list \<times> bool) res" where
  "top_loop [] st = Inr (st, [], False)"
| "top_loop ((env, k) # es) st =
     bindR (top_iteration env st) (\<lambda>(st1, ws, stop).
       if stop then Inr (st1, [ws], True)
       else if k = 113 then Inr (st1\<lparr>ch := k\<rparr>, [ws], True)
       else bindR (top_loop es (st1\<lparr>ch := k\<rparr>)) (\<lambda>(st2, wss, b). Inr (st2, ws # wss, b)))"

text \<open>The options \<open>-d\<close> and \<open>-n\<close>: the first of the letters in \<open>argv[1]\<close> decides.\<close>

fun top_option :: "string \<Rightarrow> string \<Rightarrow> top \<Rightarrow> top" where
  "top_option [] arg st = st"
| "top_option (c # cs) arg st =
     (if c = CHR ''d'' then st\<lparr>updateTime := to_uint64 (atoi arg), dOption := True\<rparr>
      else if c = CHR ''n'' then st\<lparr>updatePeriod := to_uint64 (atoi arg), nOption := True\<rparr>
      else top_option cs arg st)"

definition init_top :: top where
  "init_top =
     \<lparr>cpuTimeTable = \<lambda>_. 0, procList = [], sorted = [], before = 0, now = 0, uptime = 0,
      beforeUptime = 0, total_memory = 0, hertz = 0, updateTime = 0, updatePeriod = 0,
      beforeTicks = replicate 8 (Fin 0), ch = 0, row = 0, col = 0, dOption = False, nOption = False,
      killMode = False, reverseMode = False, sortMode = CPU_MODE, byteUnit = 2, printFlag = False\<rparr>"

definition top_main :: "top_env \<Rightarrow> string list \<Rightarrow> (top_env \<times> int) list \<Rightarrow> (top \<times> mvprint list list \<times> bool) res" where
  "top_main env args es =
     bindR (top_GetTotalMemory (os.truncate env)) (\<lambda>tm.
     bindR (GetTTY (os.truncate env) (''/proc/'' @ show_int (os_pid env))) (\<lambda>own.
     let st = init_top\<lparr>total_memory := tm, hertz := os_hertz env, now := os_time env\<rparr> in
     bindR (top_SearchProcess (os.truncate env) st) (\<lambda>st1.
     let st2 = st1\<lparr>before := os_time env\<rparr>;
         st3 = (case args of opt # arg # _ \<Rightarrow> top_option opt arg st2 | _ \<Rightarrow> st2) in
     bindR (SortProc st3) (\<lambda>st4.
     bindR (PrintTOP env st4) (\<lambda>(st5, ws).
     bindR (top_loop es st5) (\<lambda>(st6, wss, b). Inr (st6, ws # wss, b)))))))"

end
