(* ===== verification/Mytop_Sort.thy ===== *)
theory Mytop_Sort
  imports Mytop "HOL-Library.Multiset"
begin

text \<open>
  \<open>SortProc\<close> sorts: for a comparison that is a strict total order on the entries the two loops give
  the only sorted arrangement, and \<open>isGreater\<close> is such a comparison in each mode when the process
  numbers differ.
\<close>

section \<open>Bubble sort for any strict total order\<close>

locale bubble_order =
  fixes gt :: "'a \<Rightarrow> 'a \<Rightarrow> bool" and ok :: "'a \<Rightarrow> 'a \<Rightarrow> bool"
  assumes total: "ok a b \<Longrightarrow> gt a b \<longleftrightarrow> \<not> gt b a"
    and trans: "ok a b \<Longrightarrow> ok b c \<Longrightarrow> ok a c \<Longrightarrow> gt a b \<Longrightarrow> gt b c \<Longrightarrow> gt a c"
begin

lemma bubble_max:
  assumes "length us = Suc k" and "pairwise ok (set us)" and "distinct us"
  shows "\<exists>us' m. bubble (\<lambda>a b. Inr (gt a b)) k (us @ vs) = Inr (us' @ m # vs)
    \<and> mset (m # us') = mset us \<and> (\<forall>u \<in> set us'. \<not> gt u m)"
  using assms
proof (induction k arbitrary: us)
  case 0
  then obtain a where "us = [a]" by (auto simp: length_Suc_conv)
  then show ?case by (intro exI [of _ "[]"] exI [of _ a]) (cases vs, simp_all)
next
  case (Suc k)
  then obtain a b ws where us: "us = a # b # ws" by (auto simp: length_Suc_conv)
  define x y where "x = (if gt a b then b else a)" and "y = (if gt a b then a else b)"
  have ys: "length (y # ws) = Suc k" "pairwise ok (set (y # ws))" "distinct (y # ws)"
    using Suc.prems us by (auto simp: y_def pairwise_insert)
  from Suc.IH [OF ys] obtain us' m where
    b: "bubble (\<lambda>a b. Inr (gt a b)) k ((y # ws) @ vs) = Inr (us' @ m # vs)"
    and ms: "mset (m # us') = mset (y # ws)" and le: "\<forall>u \<in> set us'. \<not> gt u m" by blast
  have ok: "ok u v" if "u \<in> set us" "v \<in> set us" "u \<noteq> v" for u v
    using that Suc.prems(2) by (simp add: pairwise_def)
  have xy: "x \<in> set us" "y \<in> set us" "x \<noteq> y" "\<not> gt x y"
    using Suc.prems us total [OF ok [of a b]] by (auto simp: x_def y_def)
  have mem: "set (m # us') = set (y # ws)" using ms by (metis set_mset_mset)
  have xn: "x \<notin> set (y # ws)" using Suc.prems us by (auto simp: x_def y_def)
  have "m \<in> set (y # ws)" using mem by auto
  then have m: "m \<in> set us" "m \<noteq> x" using us xn by (auto simp: y_def split: if_splits)
  have "\<not> gt x m"
  proof (cases "m = y")
    case True
    then show ?thesis using xy by simp
  next
    case False
    then have "y \<in> set us'" using mem by auto
    then have "gt m y" using le total [OF ok [of m y]] m xy False by auto
    moreover have "gt y x" using total [OF ok [of y x]] xy by auto
    ultimately have "gt m x" using trans [OF ok [of m y] ok [of y x] ok [of m x]] m xy False by auto
    then show ?thesis using total [OF ok [of m x]] m xy by auto
  qed
  moreover have "bubble (\<lambda>a b. Inr (gt a b)) (Suc k) (us @ vs) = Inr ((x # us') @ m # vs)"
    using b by (simp add: us x_def y_def split: if_splits)
  moreover have "mset (m # x # us') = mset us" using ms by (auto simp: us x_def y_def split: if_splits)
  ultimately show ?case using le by (intro exI [of _ "x # us'"] exI [of _ m]) auto
qed

lemma sort_loop_sorts:
  assumes "length us = Suc i" and "pairwise ok (set us)" and "distinct (us @ vs)"
    and "sorted_wrt (\<lambda>a b. \<not> gt a b) vs" and "\<forall>u \<in> set us. \<forall>v \<in> set vs. \<not> gt u v"
  shows "\<exists>ys. sort_loop (\<lambda>a b. Inr (gt a b)) i (us @ vs) = Inr ys \<and> mset ys = mset (us @ vs)
    \<and> sorted_wrt (\<lambda>a b. \<not> gt a b) ys"
  using assms
proof (induction i arbitrary: us vs)
  case 0
  then obtain a where "us = [a]" by (auto simp: length_Suc_conv)
  with 0 show ?case by simp
next
  case (Suc i)
  have d: "distinct us" using Suc.prems by simp
  from bubble_max [OF Suc.prems(1,2) d, of vs] obtain us' m where
    b: "bubble (\<lambda>a b. Inr (gt a b)) (Suc i) (us @ vs) = Inr (us' @ m # vs)"
    and ms: "mset (m # us') = mset us" and le: "\<forall>u \<in> set us'. \<not> gt u m" by blast
  have mem: "set (m # us') = set us" using ms by (metis set_mset_mset)
  have len: "length us' = Suc i" using ms Suc.prems(1) by (metis length_Cons nat.inject size_mset)
  have msall: "mset (us' @ m # vs) = mset (us @ vs)" using ms by (simp add: union_commute)
  have "distinct (us' @ m # vs)" using Suc.prems(3) mset_eq_imp_distinct_iff [OF msall] by simp
  moreover have "sorted_wrt (\<lambda>a b. \<not> gt a b) (m # vs)" using Suc.prems(4,5) mem by auto
  moreover have "\<forall>u \<in> set us'. \<forall>v \<in> set (m # vs). \<not> gt u v" using le Suc.prems(5) mem by auto
  moreover have "pairwise ok (set us')" using mem Suc.prems(2) by (metis pairwise_subset set_subset_Cons)
  ultimately obtain ys where "sort_loop (\<lambda>a b. Inr (gt a b)) i (us' @ m # vs) = Inr ys"
    "mset ys = mset (us' @ m # vs)" "sorted_wrt (\<lambda>a b. \<not> gt a b) ys"
    using Suc.IH [OF len] by blast
  with b msall show ?case by auto
qed

lemma sort_loop_all:
  assumes "pairwise ok (set xs)" and "distinct xs"
  shows "\<exists>ys. sort_loop (\<lambda>a b. Inr (gt a b)) (length xs - 1) xs = Inr ys \<and> mset ys = mset xs
    \<and> sorted_wrt (\<lambda>a b. \<not> gt a b) ys"
proof (cases xs)
  case Nil
  then show ?thesis by simp
next
  case (Cons x xs')
  then show ?thesis using sort_loop_sorts [of xs "length xs - 1" "[]"] assms by simp
qed

end

section \<open>The order of the modes\<close>

text \<open>
  Which of two processes comes first. The keys are compared downwards, upwards in reverse mode; equal
  keys are ordered by process number, upwards in either mode.
\<close>

definition key_less :: "int \<Rightarrow> topProc \<Rightarrow> topProc \<Rightarrow> bool" where
  "key_less mode a b =
     (if mode = CPU_MODE then ld_less (cpu a) (cpu b)
      else if mode = MEM_MODE then ld_less (mem a) (mem b) \<or> (mem a = mem b \<and> rss a < rss b)
      else runtime a < runtime b)"

definition precedes :: "int \<Rightarrow> bool \<Rightarrow> topProc \<Rightarrow> topProc \<Rightarrow> bool" where
  "precedes mode rv a b =
     (if mode = PID_MODE then (if rv then pid b < pid a else pid a < pid b)
      else (if rv then key_less mode a b else key_less mode b a)
        \<or> (\<not> key_less mode a b \<and> \<not> key_less mode b a \<and> pid a < pid b))"

definition proper :: "topProc \<Rightarrow> bool" where
  "proper p \<longleftrightarrow> (\<exists>x y. cpu p = Fin x \<and> mem p = Fin y)"

definition greater :: "int \<Rightarrow> bool \<Rightarrow> topProc \<Rightarrow> topProc \<Rightarrow> bool" where
  "greater mode rv a b \<longleftrightarrow> isGreater mode rv a b = Inr True"

lemma mode_cases: "mode \<in> {1..4} \<longleftrightarrow> mode = CPU_MODE \<or> mode = MEM_MODE \<or> mode = PID_MODE \<or> mode = TIME_MODE"
  by (auto simp: CPU_MODE_def MEM_MODE_def PID_MODE_def TIME_MODE_def)

lemmas mode_defs = CPU_MODE_def MEM_MODE_def PID_MODE_def TIME_MODE_def

lemma isGreater_total: "mode \<in> {1..4} \<Longrightarrow> isGreater mode rv a b = Inr (greater mode rv a b)"
  unfolding mode_cases
  by (auto simp: greater_def isGreater_def compare_mode_def mode_defs split: verdict.splits)

lemma greater_precedes:
  assumes m: "mode \<in> {1..4}" and a: "proper a" and b: "proper b" and d: "pid a \<noteq> pid b"
  shows "greater mode rv a b \<longleftrightarrow> precedes mode rv b a"
proof -
  obtain ca ma cb mb where f: "cpu a = Fin ca" "mem a = Fin ma" "cpu b = Fin cb" "mem b = Fin mb"
    using a b by (auto simp: proper_def)
  consider "mode = CPU_MODE" | "mode = MEM_MODE" | "mode = PID_MODE" | "mode = TIME_MODE"
    using m mode_cases by blast
  then show ?thesis
  proof cases
    case 1
    then show ?thesis using d f
      by (auto simp: greater_def isGreater_def compare_mode_def precedes_def key_less_def by_pid_def mode_defs)
  next
    case 2
    consider "ma < mb" | "mb < ma" | "ma = mb" by linarith
    then show ?thesis using 2 d f
      by cases (auto simp: greater_def isGreater_def compare_mode_def precedes_def key_less_def by_pid_def mode_defs)
  next
    case 3
    then show ?thesis using d
      by (auto simp: greater_def isGreater_def compare_mode_def precedes_def by_pid_def mode_defs)
  next
    case 4
    then show ?thesis using d
      by (auto simp: greater_def isGreater_def compare_mode_def precedes_def key_less_def by_pid_def mode_defs)
  qed
qed

lemma key_less_laws:
  assumes "proper a" and "proper b" and "proper c"
  shows "key_less mode a b \<Longrightarrow> \<not> key_less mode b a"
    and "key_less mode a b \<Longrightarrow> key_less mode b c \<Longrightarrow> key_less mode a c"
    and "\<not> key_less mode a b \<Longrightarrow> \<not> key_less mode b c \<Longrightarrow> \<not> key_less mode a c"
  using assms by (auto simp: key_less_def proper_def split: if_splits)

text \<open>A strict weak order with ties broken by a number is transitive.\<close>

lemma tie_break_trans:
  fixes pa pb pc :: int
  assumes t: "K a b \<and> K b c \<longrightarrow> K a c"
    and n: "\<And>x y z. x \<in> {a, b, c} \<Longrightarrow> y \<in> {a, b, c} \<Longrightarrow> z \<in> {a, b, c} \<Longrightarrow> K x z \<Longrightarrow> K x y \<or> K y z"
    and ab: "K a b \<or> (\<not> K a b \<and> \<not> K b a \<and> pa < pb)" and bc: "K b c \<or> (\<not> K b c \<and> \<not> K c b \<and> pb < pc)"
  shows "K a c \<or> (\<not> K a c \<and> \<not> K c a \<and> pa < pc)"
proof (cases "K a b")
  case True
  show ?thesis
  proof (cases "K b c")
    case True
    with \<open>K a b\<close> t show ?thesis by simp
  next
    case False
    with bc have "\<not> K c b" by simp
    with n [of a c b] True show ?thesis by simp
  qed
next
  case False
  with ab have ab': "\<not> K b a" "pa < pb" by simp_all
  show ?thesis
  proof (cases "K b c")
    case True
    with n [of b a c] ab' show ?thesis by simp
  next
    case no: False
    with bc have "\<not> K c b" "pb < pc" by simp_all
    with n [of a b c] n [of c b a] False no ab' show ?thesis by auto
  qed
qed

lemma precedes_order:
  assumes "proper a" and "proper b" and "proper c" and "pid a \<noteq> pid b"
  shows "precedes mode rv a b \<longleftrightarrow> \<not> precedes mode rv b a"
    and "pid b \<noteq> pid c \<Longrightarrow> pid a \<noteq> pid c \<Longrightarrow> precedes mode rv a b \<Longrightarrow> precedes mode rv b c \<Longrightarrow> precedes mode rv a c"
proof -
  show "precedes mode rv a b \<longleftrightarrow> \<not> precedes mode rv b a"
    using assms(4) key_less_laws(1) [OF assms(1,2,3), of mode] key_less_laws(1) [OF assms(2,1,3), of mode]
    by (auto simp: precedes_def)
  show "precedes mode rv a c" if "pid b \<noteq> pid c" "pid a \<noteq> pid c" "precedes mode rv a b" "precedes mode rv b c"
  proof (cases "mode = PID_MODE")
    case True
    with that show ?thesis by (auto simp: precedes_def split: if_splits)
  next
    case False
    have e: "precedes mode rv x y \<longleftrightarrow> K x y \<or> (\<not> K x y \<and> \<not> K y x \<and> pid x < pid y)"
      if "K = (\<lambda>x y. if rv then key_less mode x y else key_less mode y x)" for K x y
      using False that by (auto simp: precedes_def)
    define K where "K = (\<lambda>x y. if rv then key_less mode x y else key_less mode y x)"
    have t: "K a b \<and> K b c \<longrightarrow> K a c"
      using key_less_laws(2) [OF assms(1-3), of mode] key_less_laws(2) [OF assms(3,2,1), of mode]
      by (simp add: K_def)
    have n: "K x y \<or> K y z" if "x \<in> {a, b, c}" "y \<in> {a, b, c}" "z \<in> {a, b, c}" "K x z" for x y z
    proof -
      have p: "proper x" "proper y" "proper z" using that assms(1-3) by auto
      show ?thesis using key_less_laws(3) [OF p, of mode] key_less_laws(3) [OF p(3,2,1), of mode] that(4)
        by (auto simp: K_def split: if_splits)
    qed
    show ?thesis
      unfolding e [OF K_def]
      by (rule tie_break_trans [OF t n]) (use that in \<open>simp_all only: e [OF K_def]\<close>)
  qed
qed

text \<open>Processes with different numbers that came from \<open>AddProcessList\<close>.\<close>

definition entries :: "topProc list \<Rightarrow> bool" where
  "entries ps \<longleftrightarrow> distinct (map pid ps) \<and> (\<forall>p \<in> set ps. proper p)"

text \<open>Each mode is a strict total order on processes with different numbers.\<close>

definition comparable :: "int \<Rightarrow> topProc \<Rightarrow> topProc \<Rightarrow> bool" where
  "comparable mode a b \<longleftrightarrow> mode \<in> {1..4} \<and> proper a \<and> proper b \<and> pid a \<noteq> pid b"

interpretation top_order: bubble_order "greater mode rv" "comparable mode"
proof
  fix a b c
  assume "comparable mode a b"
  then show "greater mode rv a b \<longleftrightarrow> \<not> greater mode rv b a"
    using greater_precedes [of mode a b rv] greater_precedes [of mode b a rv] precedes_order(1) [of b a b mode rv]
    by (auto simp: comparable_def)
next
  fix a b c
  assume "comparable mode a b" "comparable mode b c" "comparable mode a c"
    "greater mode rv a b" "greater mode rv b c"
  then show "greater mode rv a c"
    using greater_precedes [of mode _ _ rv] precedes_order(2) [of c b a mode rv]
    by (auto simp: comparable_def)
qed

lemma entries_comparable:
  assumes "entries ps" and "mode \<in> {1..4}"
  shows "pairwise (comparable mode) (set ps)" and "distinct ps"
  using assms by (auto simp: entries_def pairwise_def comparable_def distinct_map inj_on_def)

lemma sorted_wrt_distinct_pid:
  "sorted_wrt R s \<Longrightarrow> distinct (map pid s) \<Longrightarrow> sorted_wrt (\<lambda>a b. R a b \<and> pid a \<noteq> pid b) s"
  by (induction s) (auto simp: image_iff)

lemma SortProc_sorts:
  assumes e: "entries (procList st)" and m: "sortMode st \<in> {1..4}"
  obtains s where "SortProc st = Inr (st\<lparr>sorted := s\<rparr>)" and "mset s = mset (procList st)"
    and "sorted_wrt (precedes (sortMode st) (reverseMode st)) s"
proof -
  let ?gt = "greater (sortMode st) (reverseMode st)"
  obtain s where s: "sort_loop (\<lambda>a b. Inr (?gt a b)) (length (procList st) - 1) (procList st) = Inr s"
    "mset s = mset (procList st)" "sorted_wrt (\<lambda>a b. \<not> ?gt a b) s"
    using top_order.sort_loop_all [OF entries_comparable [OF e m]] by blast
  have g: "isGreater (sortMode st) (reverseMode st) = (\<lambda>a b. Inr (?gt a b))"
    using isGreater_total [OF m] by (intro ext) blast
  have mem: "set s = set (procList st)" using s(2) by (metis set_mset_mset)
  have d: "distinct (map pid s)"
    using e s(2) by (metis entries_def mset_eq_imp_distinct_iff mset_map)
  have "sorted_wrt (precedes (sortMode st) (reverseMode st)) s"
  proof (rule sorted_wrt_mono_rel [OF _ sorted_wrt_distinct_pid [OF s(3) d]])
    fix a b
    assume "a \<in> set s" "b \<in> set s" "\<not> ?gt a b \<and> pid a \<noteq> pid b"
    then show "precedes (sortMode st) (reverseMode st) a b"
      using e m mem greater_precedes [of "sortMode st" a b] precedes_order(1) [of a b a]
      by (auto simp: entries_def)
  qed
  with s(1,2) g show ?thesis by (intro that [of s]) (simp_all add: SortProc_def)
qed

end
