(* ===== verification/Proc_Laws.thy ===== *)
theory Proc_Laws
  imports Mytop
begin

text \<open>
  Laws of the functions the two programs share: rounding to one decimal, percentages, and the parsing
  of \<open>/proc/pid/stat\<close> and \<open>/proc/pid/cmdline\<close>.
\<close>

section \<open>Rounding\<close>

lemma fl_nonneg: "0 \<le> x \<Longrightarrow> 0 \<le> fl x"
  using fl_multiple(2) [of x] by (cases "x = 0") (auto simp: less_imp_le)

text \<open>The digits \<open>RoundDouble\<close> works with: the value times 100, as the machine computes it.\<close>

definition hundred :: "rat \<Rightarrow> rat" where
  "hundred x = fl (fl (x * 10) * 10)"

definition tenths :: "rat \<Rightarrow> int" where
  "tenths x = (\<lfloor>hundred x\<rfloor> + 5) div 10"

lemma floor_tenth:
  assumes t: "t = fl y" "0 \<le> y" and b: "t < 2 ^ 40"
  shows "\<lfloor>fl (t / 10)\<rfloor> = \<lfloor>t\<rfloor> div 10"
proof (cases "y = 0")
  case True
  then show ?thesis using t by simp
next
  case False
  then have y: "0 < y" using t by simp
  obtain k :: int where k: "t = of_int k * ulp t" and tp: "0 < t"
    using fl_multiple [OF y] t(1) by blast
  define q where "q = nat (\<lfloor>t\<rfloor> div 10)"
  have q: "int q = \<lfloor>t\<rfloor> div 10" using tp by (simp add: q_def pos_imp_zdiv_nonneg_iff)
  have fb: "of_int \<lfloor>t\<rfloor> \<le> t" "t < of_int \<lfloor>t\<rfloor> + 1" using floor_correct [of t] by auto
  have dv: "10 * (F div 10) \<le> F" "F + 1 \<le> 10 * (F div 10) + 10" for F :: int by presburger+
  have "10 * int q \<le> \<lfloor>t\<rfloor>" "\<lfloor>t\<rfloor> + 1 \<le> 10 * int (Suc q)" using q dv [of "\<lfloor>t\<rfloor>"] by simp_all
  then have "(of_int (10 * int q) :: rat) \<le> of_int \<lfloor>t\<rfloor>" "(of_int (\<lfloor>t\<rfloor> + 1) :: rat) \<le> of_int (10 * int (Suc q))"
    by (simp_all only: of_int_le_iff)
  then have "10 * of_nat q \<le> (of_int \<lfloor>t\<rfloor> :: rat)" "(of_int \<lfloor>t\<rfloor> :: rat) + 1 \<le> 10 * of_nat (Suc q)"
    by simp_all
  then have lo: "10 * of_nat q \<le> t" and hi: "t < 10 * of_nat (Suc q)" using fb by linarith+
  have "10 * of_nat q < (2 ^ 40 :: rat)" using lo b by simp
  then have "of_nat (10 * q) < (of_nat (2 ^ 40) :: rat)" by simp
  then have qb: "10 * q < 2 ^ 40" by (simp only: of_nat_less_iff)
  then have qs: "10 * Suc q < 2 ^ 63" "q < 2 ^ 64" by simp_all
  have "fl (t / 10) < of_nat (Suc q)" by (rule fl_tenth_below [OF t(1) tp hi qs(1) k])
  moreover have "of_nat q \<le> fl (t / 10)"
  proof -
    have "of_nat q \<le> t / 10" using lo by simp
    then have "fl (of_nat q) \<le> fl (t / 10)" by (rule fl_mono) simp
    then show ?thesis using fl_nat [OF qs(2)] by simp
  qed
  ultimately have "\<lfloor>fl (t / 10)\<rfloor> = int q" by (intro floor_unique) simp_all
  then show ?thesis using q by simp
qed

lemma ulp_bound:
  assumes "0 < x" and "x < 2 ^ k"
  shows "ulp x \<le> pw (int k - 64)"
proof -
  have "pw (rexp x) < pw (int k)" using rexp_bounds(1) [OF assms(1)] assms(2) by (simp only: pw_nat)
  then have "rexp x < int k" using pw_mono [of "int k" "rexp x"] by linarith
  then show ?thesis unfolding ulp_def by (intro pw_mono) simp
qed

lemma fl_error_bound:
  assumes "0 \<le> x" and "x < 2 ^ k"
  shows "\<bar>fl x - x\<bar> \<le> pw (int k - 65)"
proof (cases "x = 0")
  case True
  then show ?thesis by (simp add: less_imp_le)
next
  case False
  then have "ulp x / 2 \<le> pw (int k - 65)"
    using ulp_bound [of x k] assms pw_Suc [of "int k - 65"] by simp
  then show ?thesis using fl_error [OF assms(1)] by linarith
qed

lemma hundred_bounds:
  assumes "0 \<le> x" and "x \<le> 100"
  shows "0 \<le> hundred x" and "hundred x \<le> 10000" and "\<bar>hundred x - 100 * x\<bar> \<le> 1 / 2 ^ 50"
    and "hundred x = fl (fl (x * 10) * 10)" and "0 \<le> fl (x * 10) * 10"
proof -
  have "fl (x * 10) \<le> fl (of_nat 1000)" using assms by (intro fl_mono) auto
  then have a: "0 \<le> fl (x * 10)" "fl (x * 10) \<le> 1000"
    using fl_nat [of 1000] assms by (auto intro: fl_nonneg)
  then have "fl (fl (x * 10) * 10) \<le> fl (of_nat 10000)" by (intro fl_mono) auto
  then show "hundred x \<le> 10000" using fl_nat [of 10000] by (simp add: hundred_def)
  show "0 \<le> hundred x" "0 \<le> fl (x * 10) * 10" using a by (auto simp: hundred_def intro: fl_nonneg)
  have e1: "\<bar>fl (x * 10) - x * 10\<bar> \<le> 1 / 2 ^ 55"
    using fl_error_bound [of "x * 10" 10] assms by (simp add: pw_def)
  have e2: "\<bar>hundred x - fl (x * 10) * 10\<bar> \<le> 1 / 2 ^ 51"
    using fl_error_bound [of "fl (x * 10) * 10" 14] a by (simp add: pw_def hundred_def)
  have "10 * (1 / 2 ^ 55) + 1 / 2 ^ 51 \<le> (1 / 2 ^ 50 :: rat)" by simp
  then show "\<bar>hundred x - 100 * x\<bar> \<le> 1 / 2 ^ 50" using e1 e2 by linarith
  show "hundred x = fl (fl (x * 10) * 10)" by (simp add: hundred_def)
qed

lemma tenths_bounds:
  assumes "0 \<le> x" and "x \<le> 100"
  shows "0 \<le> tenths x" and "tenths x \<le> 1000" and "\<bar>of_int (tenths x) / 10 - x\<bar> \<le> 1 / 20 + 1 / 2 ^ 50"
proof -
  note h = hundred_bounds [OF assms]
  define f where "f = \<lfloor>hundred x\<rfloor>"
  let ?f = f
  have f: "0 \<le> ?f" "?f \<le> 10000" unfolding f_def using h(1,2) by (simp_all add: le_floor_iff floor_le_iff)
  then show "0 \<le> tenths x" "tenths x \<le> 1000" unfolding tenths_def f_def [symmetric] by linarith+
  have "10 * tenths x \<le> ?f + 5" "?f - 4 \<le> 10 * tenths x" unfolding tenths_def f_def [symmetric] by linarith+
  then have "(of_int (10 * tenths x) :: rat) \<le> of_int (?f + 5)" "(of_int (?f - 4) :: rat) \<le> of_int (10 * tenths x)"
    by (simp_all only: of_int_le_iff)
  moreover have "of_int ?f \<le> hundred x" "hundred x < of_int ?f + 1"
    unfolding f_def using floor_correct [of "hundred x"] by auto
  ultimately have "10 * of_int (tenths x) \<le> hundred x + 5" "hundred x - 5 \<le> 10 * of_int (tenths x)" by simp_all
  moreover have "hundred x - 100 * x \<le> 1 / 2 ^ 50" "100 * x - hundred x \<le> 1 / 2 ^ 50"
    using abs_le_D1 [OF h(3)] abs_le_D2 [OF h(3)] by simp_all
  ultimately have "of_int (tenths x) / 10 - x \<le> 1 / 20 + 1 / 2 ^ 50" "- (of_int (tenths x) / 10 - x) \<le> 1 / 20 + 1 / 2 ^ 50"
    by (simp_all add: field_simps)
  then show "\<bar>of_int (tenths x) / 10 - x\<bar> \<le> 1 / 20 + 1 / 2 ^ 50" by (rule abs_leI)
qed

lemma RoundDouble_one:
  assumes "0 \<le> x" and "x \<le> 100"
  shows "RoundDouble (Fin x) 1 = Fin (fl (of_int (tenths x) / 10))"
proof -
  note h = hundred_bounds [OF assms]
  define f where "f = \<lfloor>hundred x\<rfloor>"
  let ?f = f
  have f: "0 \<le> ?f" "?f \<le> 10000" unfolding f_def using h(1,2) by (simp_all add: le_floor_iff floor_le_iff)
  then have fd': "0 \<le> ?f div 10" "?f div 10 \<le> 1000" by linarith+
  have it: "ld_iter (Suc 1) (\<lambda>t. ld_mul t (Fin 10)) (Fin x) = Fin (hundred x)"
    by (simp add: ld_mul_def hundred_def)
  have tr: "ld_trunc (Fin (hundred x)) = ?f" unfolding f_def using h(1,2) by (simp add: ld_trunc_def)
  have fd: "\<lfloor>fl (hundred x / 10)\<rfloor> = ?f div 10"
    unfolding f_def by (rule floor_tenth [OF h(4,5)]) (use h(2) in simp)
  have "0 \<le> fl (hundred x / 10)" using h(1) by (auto intro: fl_nonneg)
  moreover have "fl (hundred x / 10) \<le> fl (of_nat 1000)" using h(1,2) by (intro fl_mono) auto
  ultimately have td: "ld_trunc (ld_div (Fin (hundred x)) (Fin 10)) = ?f div 10"
    using fd fl_nat [of 1000] by (simp add: ld_div_def ld_trunc_def)
  have ex: "fl (of_int n) = of_int n" if "0 \<le> n" "n \<le> 2000" for n
    using fl_nat [of "nat n"] that by simp
  have t2: "(if ?f mod 10 \<ge> 5 then ld_add (ld_of_int (?f div 10)) (Fin 1) else ld_of_int (?f div 10)) =
      Fin (of_int (tenths x))"
  proof (cases "?f mod 10 \<ge> 5")
    case True
    then have n: "tenths x = ?f div 10 + 1" unfolding tenths_def f_def [symmetric]
      by (intro int_div_pos_eq [where r = "?f mod 10 - 5"]) (use div_mult_mod_eq [of ?f 10] in auto)
    have "fl (of_int (?f div 10) + 1) = of_int (?f div 10 + 1)" using ex [of "?f div 10 + 1"] fd' by simp
    with True n fd' show ?thesis by (simp add: ld_add_def ld_of_int_def ex)
  next
    case False
    then have "tenths x = ?f div 10" unfolding tenths_def f_def [symmetric]
      by (intro int_div_pos_eq [where r = "?f mod 10 + 5"]) (use div_mult_mod_eq [of ?f 10] in auto)
    with False fd' show ?thesis by (simp add: ld_of_int_def ex)
  qed
  show ?thesis
    unfolding RoundDouble_def Let_def it tr td t2 by (simp add: ld_div_def)
qed

lemma percent_tenths: "\<exists>n. percent y = Fin (fl (of_int n / 10)) \<and> 0 \<le> n \<and> n \<le> 1000"
proof (cases "isnan y \<or> isinf y \<or> ld_less (Fin 100) y \<or> ld_less y (Fin 0)")
  case True
  then show ?thesis by (intro exI [of _ 0]) (auto simp: percent_def)
next
  case False
  then obtain x where x: "y = Fin x" "0 \<le> x" "x \<le> 100"
    by (cases y) (auto simp: isnan_def isinf_def)
  then show ?thesis
    using RoundDouble_one [of x] tenths_bounds [of x] False by (intro exI [of _ "tenths x"]) (simp add: percent_def)
qed

lemma show_tenths:
  assumes "0 \<le> n" and "n \<le> 1000"
  shows "show_ld 3 1 (Fin (fl (of_int n / 10))) = show_nat (nat n div 10) @ ''.'' @ show_nat (nat n mod 10)"
proof -
  let ?v = "fl (of_int n / 10) :: rat"
  have ab: "\<bar>?v - of_int n / 10\<bar> \<le> 1 / 2 ^ 55"
    using fl_error_bound [of "of_int n / 10" 10] assms by (simp add: pw_def)
  have "?v - of_int n / 10 \<le> 1 / 2 ^ 55" "of_int n / 10 - ?v \<le> 1 / 2 ^ 55"
    using abs_le_D1 [OF ab] abs_le_D2 [OF ab] by simp_all
  then have lo: "of_int n - 1 / 2 < ?v * 10" and hi: "?v * 10 < of_int n + 1 / 2" by simp_all
  have r: "round_even (?v * 10) = n"
  proof -
    have "of_int (round_even (?v * 10)) - ?v * 10 \<le> 1 / 2" "- (of_int (round_even (?v * 10)) - ?v * 10) \<le> 1 / 2"
      using abs_le_D1 [OF round_even_bounds] abs_le_D2 [OF round_even_bounds] by blast+
    then have "of_int n - 1 < (of_int (round_even (?v * 10)) :: rat)" "(of_int (round_even (?v * 10)) :: rat) < of_int n + 1"
      using lo hi by linarith+
    then have "of_int (n - 1) < (of_int (round_even (?v * 10)) :: rat)" "(of_int (round_even (?v * 10)) :: rat) < of_int (n + 1)"
      by simp_all
    then have "n - 1 < round_even (?v * 10)" "round_even (?v * 10) < n + 1" by (simp_all only: of_int_less_iff)
    then show ?thesis by simp
  qed
  have nn: "0 \<le> ?v" using assms by (intro fl_nonneg) simp
  have d: "show_int_0w 1 (int (nat n mod 10)) = show_nat (nat n mod 10)"
    by (simp add: show_int_0w_def show_nat_nonempty Suc_leI)
  have "show_decimals 1 ?v = show_nat (nat n div 10) @ ''.'' @ show_nat (nat n mod 10)"
    using nn r d by (simp add: show_decimals_def Let_def)
  moreover have "3 \<le> length (show_nat (nat n div 10) @ ''.'' @ show_nat (nat n mod 10))"
    using show_nat_nonempty [of "nat n div 10"] show_nat_nonempty [of "nat n mod 10"]
    by (cases "show_nat (nat n div 10)"; cases "show_nat (nat n mod 10)") auto
  ultimately show ?thesis by (simp add: show_ld_def pad_left_def spaces_def)
qed

end
