(* ===== verification/Mytop_Props.thy ===== *)
theory Mytop_Props
  imports Mytop_Sort Proc_Laws
begin

text \<open>
  The properties of \<open>mytop\<close>: sorting, rounding, the layout of the screen and the bounds of the command
  column, the invariant of the loop and the number of refreshes.
\<close>

section \<open>Sorting\<close>


definition sample_proc :: "int \<Rightarrow> rat \<Rightarrow> topProc" where
  "sample_proc n c = \<lparr>pid = n, uid = 0, ppid = 1, user = ''root'', cpu = Fin c, mem = Fin 0, vsz = 0, rss = 0,
     shr = 0, priority = 20, nice = 0, tty = [], stat = ''S'', start = [], time = ''0:00.00'', cmd = ''sh'',
     command = ''sh'', runtime = 0\<rparr>"



section \<open>Percentages\<close>

text \<open>
  C13. A percentage is rounded to one decimal: for every long double between 0 and 100 the stored value
  is the long double next to a number \<open>n / 10\<close> with \<open>n\<close> between 0 and 1000, which differs from the
  percentage by at most a twentieth (and the rounding errors of the machine), and it is printed as
  exactly that number. Other values, infinities and NaN included, become 0.
\<close>

theorem percent_rounds:
  "\<exists>n. percent y = Fin (fl (of_int n / 10)) \<and> 0 \<le> n \<and> n \<le> 1000
      \<and> show_ld 3 1 (percent y) = show_nat (nat n div 10) @ ''.'' @ show_nat (nat n mod 10)
      \<and> (case y of Fin x \<Rightarrow> if 0 \<le> x \<and> x \<le> 100 then \<bar>of_int n / 10 - x\<bar> \<le> 1 / 20 + 1 / 2 ^ 50 else n = 0
         | _ \<Rightarrow> n = 0)"
proof (cases "\<exists>x. y = Fin x \<and> 0 \<le> x \<and> x \<le> 100")
  case True
  then obtain x where x: "y = Fin x" "0 \<le> x" "x \<le> 100" by blast
  have p: "percent y = Fin (fl (of_int (tenths x) / 10))"
    using RoundDouble_one [OF x(2,3)] x by (simp add: percent_def isnan_def isinf_def)
  then show ?thesis
    using tenths_bounds [OF x(2,3)] show_tenths [of "tenths x"] x by (intro exI [of _ "tenths x"]) simp
next
  case False
  then have "percent y = Fin 0" by (cases y) (auto simp: percent_def isnan_def isinf_def)
  then show ?thesis
    using False show_tenths [of 0] by (intro exI [of _ 0]) (cases y; auto)
qed

section \<open>The command column\<close>

text \<open>Where the command column starts when the columns from \<open>c\<close> on are shown.\<close>

definition command_x :: "(nat \<Rightarrow> int) \<Rightarrow> nat \<Rightarrow> int" where
  "command_x w c = (if c = 0 then 2 else 0) + (\<Sum>m = c..<11. w m + 2)"

lemma place_columns_end:
  assumes "\<forall>m. 0 \<le> w m"
  shows "case place_columns cols w k (Suc j) xs of (ys, r) \<Rightarrow>
     (r = None \<longleftrightarrow> k = 0 \<or> xs j + (\<Sum>m = j..<j + k. w m + 2) < cols)
     \<and> (r = None \<longrightarrow> ys (j + k) = xs j + (\<Sum>m = j..<j + k. w m + 2))"
proof (induction k arbitrary: j xs)
  case (Suc k)
  let ?x = "w j + 2 + xs j"
  have s: "(\<Sum>m = j..<j + Suc k. w m + 2) = (w j + 2) + (\<Sum>m = Suc j..<Suc j + k. w m + 2)"
    by (subst sum.atLeast_Suc_lessThan) simp_all
  have nn: "0 \<le> (\<Sum>m = Suc j..<Suc j + k. w m + 2)" using assms by (intro sum_nonneg) (simp add: add_nonneg_nonneg)
  show ?case
  proof (cases "?x \<ge> cols")
    case True
    with s nn show ?thesis by (auto simp: Let_def)
  next
    case False
    let ?xs = "xs(Suc j := ?x)" and ?t = "\<Sum>m = Suc j..<Suc j + k. w m + 2"
    obtain ys r where p: "place_columns cols w k (Suc (Suc j)) ?xs = (ys, r)" by (metis surj_pair)
    have e: "place_columns cols w (Suc k) (Suc j) xs = (ys, r)" using False p by (simp add: Let_def)
    have "(r = None \<longleftrightarrow> k = 0 \<or> ?x + ?t < cols) \<and> (r = None \<longrightarrow> ys (Suc j + k) = ?x + ?t)"
      using Suc.IH [where j = "Suc j" and xs = ?xs] unfolding p by simp
    moreover have "xs j + (\<Sum>m = j..<j + Suc k. w m + 2) = ?x + ?t" unfolding s by simp
    moreover have "?t = 0" if "k = 0" using that by simp
    ultimately show ?thesis unfolding e using False by auto
  qed
qed simp

lemma top_layout_maxCmd:
  assumes "\<forall>m. 0 \<le> w m" and "0 \<le> c" and "c < 11"
  shows "maxCmd (top_layout cols w c) =
    (if command_x w (nat c) < cols then cols - command_x w (nat c) else - 1)"
proof -
  define x0 where "x0 = (\<lambda>i::nat. if i = 0 then 2 else 0 :: int)"
  obtain ys r where p: "place_columns cols w (11 - nat c) (Suc (nat c)) x0 = (ys, r)"
    by (metis surj_pair)
  have e: "nat c + (11 - nat c) = 11" "11 - nat c \<noteq> 0" using assms(2,3) by auto
  from place_columns_end [OF assms(1), where cols = cols and k = "11 - nat c" and j = "nat c" and xs = x0]
  have "(r = None \<longleftrightarrow> command_x w (nat c) < cols) \<and> (r = None \<longrightarrow> ys 11 = command_x w (nat c))"
    unfolding p e(1) using e(2) assms(3) by (simp add: command_x_def x0_def)
  then show ?thesis
    using p assms(3) unfolding top_layout_def Let_def x0_def [symmetric]
    by (auto simp: x0_def split: option.splits)
qed

lemma process_rows_outcome:
  assumes "ps \<noteq> []"
  shows "if 0 \<le> maxCmd l \<and> maxCmd l < 1024 \<and> (c < 11 \<or> (c - 11) * 8 < 1024)
    then \<exists>rows. process_rows c l w y ps = Inr rows else process_rows c l w y ps = Inl OutOfBounds"
proof -
  have cell: "command_cell c l p =
      (if 0 \<le> maxCmd l \<and> maxCmd l < 1024 \<and> (c < 11 \<or> (c - 11) * 8 < 1024)
       then Inr (let k = (if c < 11 then 0 else nat ((c - 11) * 8)) in
         if k \<le> nat (maxCmd l) then drop k (take (nat (maxCmd l)) (cmd p)) else drop k (cmd p))
       else Inl OutOfBounds)" for p
    by (auto simp: command_cell_def Let_def)
  show ?thesis
  proof (cases "0 \<le> maxCmd l \<and> maxCmd l < 1024 \<and> (c < 11 \<or> (c - 11) * 8 < 1024)")
    case True
    then have "\<exists>rows. process_rows c l w y ps = Inr rows"
      by (induction ps arbitrary: y) (auto simp: process_row_def cell bindR_Inr_iff)
    with True show ?thesis by simp
  next
    case False
    then show ?thesis using assms by (cases ps) (auto simp: process_row_def cell)
  qed
qed

lemma layout_outcome:
  assumes "ps \<noteq> []" and "0 \<le> c" and "\<forall>m. 0 \<le> w m"
  shows "if (if c < 11 then command_x w (nat c) < cols \<and> cols - command_x w (nat c) < 1024
             else 0 \<le> cols \<and> cols < 1024 \<and> c < 139)
    then \<exists>rows. process_rows c (top_layout cols w c) w y ps = Inr rows
    else process_rows c (top_layout cols w c) w y ps = Inl OutOfBounds"
proof (cases "c < 11")
  case True
  with process_rows_outcome [OF assms(1), of "top_layout cols w c" c w y]
    top_layout_maxCmd [OF assms(3,2) True, of cols]
  show ?thesis by (auto split: if_splits)
next
  case False
  then have m: "maxCmd (top_layout cols w c) = cols" by (simp add: top_layout_def)
  have "(c - 11) * 8 < 1024 \<longleftrightarrow> c < 139" by auto
  with False m process_rows_outcome [OF assms(1), of "top_layout cols w c" c w y]
  show ?thesis by (simp split: if_splits)
qed

text \<open>
  When the rows of the processes can be drawn: with the columns from \<open>c\<close> on shown, exactly when the
  command column starts on the screen and has less than 1024 places; with the command alone, exactly
  when the terminal has less than 1024 columns and the right arrow was pressed less than 139 times.
  In every other case \<open>cmd[maxCmd]\<close> or \<open>cmd + tap * 8\<close> is outside the array.
\<close>

theorem rows_drawn_iff:
  assumes "ps \<noteq> []" and "0 \<le> c" and "\<forall>m. 0 \<le> w m"
  shows "if (if c < 11 then command_x w (nat c) < cols \<and> cols - command_x w (nat c) < 1024
             else 0 \<le> cols \<and> cols < 1024 \<and> c < 139)
    then \<exists>rows. process_rows c (top_layout cols w c) w y ps = Inr rows
    else process_rows c (top_layout cols w c) w y ps = Inl OutOfBounds"
  by (rule layout_outcome [OF assms])

theorem rows_drawn_iff_witness:
  "\<exists>rows. process_rows 0 (top_layout 80 (\<lambda>_. 4) 0) (\<lambda>_. 4) 7 [sample_proc 1 0] = Inr rows"
  using rows_drawn_iff [of "[sample_proc 1 0]" 0 "\<lambda>_. 4" 80 7] by (simp add: command_x_def)

lemma top_width_title: "int (length (top_titles ! i)) \<le> top_width ps i"
  unfolding top_width_def by (simp add: foldl_max_ge)

text \<open>
  On a terminal of at most 59 columns \<open>mytop\<close> writes outside an array as soon as there is a process
  to draw: the headings alone need 59 columns before the command.
\<close>

theorem narrow_terminal_overruns:
  assumes "cols \<le> 59" and "ps \<noteq> []"
  shows "process_rows 0 (top_layout cols (top_width procs) 0) (top_width procs) y ps = Inl OutOfBounds"
proof -
  let ?w = "top_width procs"
  have r: "[0..<11] = [0, 1, 2, 3, 4, 5, 6, 7, 8, 9, 10::nat]" by code_simp
  have "57 \<le> (\<Sum>m = 0..<11. ?w m + 2)"
    using top_width_title [of 0 procs] top_width_title [of 1 procs] top_width_title [of 2 procs]
      top_width_title [of 3 procs] top_width_title [of 4 procs] top_width_title [of 5 procs]
      top_width_title [of 6 procs] top_width_title [of 7 procs] top_width_title [of 8 procs]
      top_width_title [of 9 procs] top_width_title [of 10 procs]
    unfolding atLeastLessThan_upt sum_set_upt_conv_sum_list_nat r by (simp add: top_titles_def)
  then have "\<not> command_x ?w (nat 0) < cols" using assms(1) by (simp add: command_x_def)
  moreover have "\<forall>m. 0 \<le> ?w m" by (simp add: top_width_def)
  ultimately show ?thesis using layout_outcome [OF assms(2), of 0 ?w cols y] by simp
qed

theorem narrow_terminal_overruns_witness:
  "process_rows 0 (top_layout 50 (top_width [sample_proc 1 0]) 0) (top_width [sample_proc 1 0]) 7
     [sample_proc 1 0] = Inl OutOfBounds"
  by (rule narrow_terminal_overruns) simp_all

end
