(* ===== verification/Line_Laws.thy ===== *)
theory Line_Laws
  imports Proc
begin

text \<open>
  Files as lists of lines: what the loops of \<open>fgets\<close> calls give on a file whose lines fit the buffer.
\<close>

definition text_of :: "string list \<Rightarrow> string" where
  "text_of ls = concat (map (\<lambda>l. l @ nl) ls)"

definition plain_line :: "string \<Rightarrow> bool" where
  "plain_line l \<longleftrightarrow> length l < 1023 \<and> CHR 0x0A \<notin> set l"

lemma text_of_simps [simp]: "text_of [] = []" "text_of (l # ls) = l @ nl @ text_of ls"
  by (simp_all add: text_of_def)

lemma text_of_empty_iff: "text_of ls = [] \<longleftrightarrow> ls = []"
  by (cases ls) (simp_all add: nl_def)

lemma fgets_line_plain:
  assumes "plain_line l"
  shows "fgets_line 1024 (l @ nl @ r) = (l @ nl, r)"
proof -
  have "\<forall>c \<in> set l. c \<noteq> CHR 0x0A" using assms by (auto simp: plain_line_def)
  then have "takeWhile (\<lambda>c. c \<noteq> CHR 0x0A) (l @ nl @ r) = l"
    by (simp add: takeWhile_append2 nl_def)
  moreover have "min 1023 (Suc (length l)) = Suc (length l)"
    using assms by (simp add: plain_line_def)
  ultimately show ?thesis by (simp add: fgets_line_def Let_def nl_def)
qed

text \<open>A line that does not fit is read in parts, the first of them without a newline.\<close>

lemma fgets_line_long:
  assumes "CHR 0x0A \<notin> set l" and "1023 \<le> length l"
  shows "fgets_line 1024 (l @ r) = (take 1023 l, drop 1023 l @ r)"
proof -
  have "length l \<le> length (takeWhile (\<lambda>c. c \<noteq> CHR 0x0A) (l @ r))"
  proof -
    have "\<forall>c \<in> set l. c \<noteq> CHR 0x0A" using assms(1) by auto
    then show ?thesis by (simp add: takeWhile_append2)
  qed
  with assms(2) have "min 1023 (Suc (length (takeWhile (\<lambda>c. c \<noteq> CHR 0x0A) (l @ r)))) = 1023" by simp
  with assms(2) show ?thesis by (simp add: fgets_line_def Let_def)
qed

lemma fgets_rows_text:
  assumes "\<forall>l \<in> set ls. plain_line l" and "n < length ls"
  shows "fgets_rows (Suc n) buf (text_of ls @ r) = (ls ! n @ nl, text_of (drop (Suc n) ls) @ r)"
  using assms
proof (induction n arbitrary: ls buf)
  case 0
  then obtain l ls' where "ls = l # ls'" by (cases ls) auto
  with 0 show ?case by (simp add: fgets_line_plain)
next
  case (Suc n)
  then obtain l ls' where ls: "ls = l # ls'" by (cases ls) auto
  with Suc show ?case by (simp add: fgets_line_plain del: fgets_rows.simps(2)) (subst fgets_rows.simps, simp add: fgets_line_plain)
qed

text \<open>The rows between two reads.\<close>

lemma fgets_rows_from:
  assumes "\<forall>l \<in> set ls. plain_line l" and "k + n < length ls"
  shows "fgets_rows (Suc n) buf (text_of (drop k ls) @ r) =
    (ls ! (k + n) @ nl, text_of (drop (Suc (k + n)) ls) @ r)"
  using fgets_rows_text [of "drop k ls" n buf r] assms set_drop_subset [of k ls]
  by (auto simp: add.commute subset_iff)

section \<open>Words\<close>

text \<open>Words that fit an array of the given size, each followed by a blank.\<close>

definition token :: "nat \<Rightarrow> string \<Rightarrow> bool" where
  "token sz w \<longleftrightarrow> w \<noteq> [] \<and> length w < sz \<and> (\<forall>c \<in> set w. \<not> isspace c)"

definition words_of :: "string list \<Rightarrow> string" where
  "words_of ws = concat (map (\<lambda>w. w @ '' '') ws)"

lemma words_of_simps [simp]: "words_of [] = []" "words_of (w # ws) = w @ '' '' @ words_of ws"
  by (simp_all add: words_of_def)

lemma scan_s_token:
  assumes "w \<noteq> []" and "\<forall>c \<in> set w. \<not> isspace c"
  shows "scan_s (w @ CHR '' '' # s) = ScanOk w (CHR '' '' # s)"
proof -
  have "skip_ws (w @ CHR '' '' # s) = w @ CHR '' '' # s" using assms by (cases w) (auto simp: skip_ws_def)
  then show ?thesis
    using assms by (simp add: scan_s_def takeWhile_append2 dropWhile_append2 isspace_def)
qed

lemma scan_s_skip: "scan_s (CHR '' '' # s) = scan_s s"
  by (simp add: scan_s_def skip_ws_def isspace_def)

lemma read_tokens_skip: "read_tokens n sz (CHR '' '' # s) = read_tokens n sz s"
  by (cases n) (simp_all add: scan_s_skip)

lemma read_tokens_words:
  "\<forall>w \<in> set ws. token sz w \<Longrightarrow> n \<le> length ws \<Longrightarrow> read_tokens n sz (words_of ws @ r) = Inr (take n ws)"
proof (induction ws arbitrary: n)
  case (Cons w ws)
  show ?case
  proof (cases n)
    case (Suc m)
    have "scan_s (words_of (w # ws) @ r) = ScanOk w (CHR '' '' # words_of ws @ r)"
      using scan_s_token [of w "words_of ws @ r"] Cons.prems(1) by (simp add: token_def)
    then show ?thesis
      using Cons Suc by (simp add: token_def store_def read_tokens_skip)
  qed simp
qed simp

lemma token_show_nat: "length (show_nat n) < sz \<Longrightarrow> token sz (show_nat n)"
  using show_nat_digits [of n] by (auto simp: token_def isdigit_not_space)

end
