(* ===== verification/Mytop_Loop.thy ===== *)
theory Mytop_Loop
  imports Mytop_Props Line_Laws
begin

text \<open>
  The loop of \<open>mytop\<close>: what each operation leaves alone, the invariant of the state, the count of the
  option \<open>-n\<close> and the refresh interval.
\<close>

section \<open>Frames\<close>

text \<open>The parts of the state that only keys and options change.\<close>

definition settings :: "top \<Rightarrow> int \<times> int \<times> int \<times> int \<times> bool \<times> bool" where
  "settings st = (row st, col st, sortMode st, byteUnit st, dOption st, nOption st)"

definition timing :: "top \<Rightarrow> int \<times> int" where
  "timing st = (updateTime st, updatePeriod st)"

lemma cpu_share_percent: "cpu_share st ts = Inr (c, t) \<Longrightarrow> \<exists>y. c = percent y"
  by (auto simp: cpu_share_def Let_def elim!: bindR_InrE split: if_splits)

lemma percent_Fin: "\<exists>x. percent y = Fin x"
  using percent_tenths by blast

lemma top_process_proper:
  assumes "top_process env st ts fs name share path = Inr (Some p)" and "share = percent y"
  shows "proper p"
  using assms percent_Fin
  by (auto simp: top_process_def proper_def mem_percent_def Let_def elim!: bindR_InrE split: option.splits if_splits)

lemma shared_process_proper:
  "cpu_share st ts = Inr (c, t) \<Longrightarrow> top_process env st' ts fs name c path = Inr (Some p) \<Longrightarrow> proper p"
  using cpu_share_percent top_process_proper by metis

lemma top_AddProcessList_frame:
  assumes "top_AddProcessList env st path = Inr st'"
  shows "settings st' = settings st \<and> timing st' = timing st
    \<and> (procList st' = procList st \<or>
       (\<exists>p. proper p \<and> procList st' = procList st @ [p] \<and> length (procList st) < 4096))"
  using assms
  by (auto simp: top_AddProcessList_def settings_def timing_def Let_def elim!: bindR_InrE
      split: option.splits if_splits) (metis shared_process_proper)

definition listed :: "topProc list \<Rightarrow> bool" where
  "listed ps \<longleftrightarrow> length ps \<le> 4096 \<and> (\<forall>p \<in> set ps. proper p)"

lemma top_search_loop_frame:
  "top_search_loop env names st = Inr st' \<Longrightarrow> listed (procList st) \<Longrightarrow>
     settings st' = settings st \<and> timing st' = timing st \<and> listed (procList st')"
proof (induction names arbitrary: st)
  case (Cons name names)
  from Cons.prems(1) obtain fs :: fstat and st1 where
    a: "(if st_dir fs \<and> is_pid name then top_AddProcessList env st (''/proc/'' @ name) else Inr st) = Inr st1"
    and r: "top_search_loop env names st1 = Inr st'"
    by (auto split: option.splits elim!: bindR_InrE)
  have "settings st1 = settings st \<and> timing st1 = timing st \<and> listed (procList st1)"
    using a Cons.prems(2) by (auto simp: listed_def split: if_splits dest!: top_AddProcessList_frame)
  with Cons.IH [OF r] show ?case by simp
qed simp

lemma top_SearchProcess_frame:
  "top_SearchProcess env st = Inr st' \<Longrightarrow> listed (procList st) \<Longrightarrow>
     settings st' = settings st \<and> timing st' = timing st \<and> listed (procList st')"
  by (auto simp: top_SearchProcess_def settings_def timing_def elim!: bindR_InrE split: option.splits
      dest!: top_search_loop_frame)

lemma SortProc_frame:
  "SortProc st = Inr st' \<Longrightarrow> settings st' = settings st \<and> timing st' = timing st \<and> procList st' = procList st"
  by (auto simp: SortProc_def settings_def timing_def elim!: bindR_InrE)

lemma PrintTOP_frame:
  "PrintTOP env st = Inr (st', ws) \<Longrightarrow>
     settings st' = settings st \<and> timing st' = timing st \<and> procList st' = procList st \<and> ws \<noteq> []"
  by (auto simp: PrintTOP_def cpu_row_def settings_def timing_def Let_def elim!: bindR_InrE
      split: option.splits)

lemma KillProcess_frame:
  "KillProcess env st = Inr (st', k) \<Longrightarrow>
     settings st' = settings st \<and> timing st' = timing st \<and> procList st' = procList st"
  by (auto simp: KillProcess_def settings_def timing_def split: if_splits option.splits)

lemmas top_frames = top_SearchProcess_frame SortProc_frame PrintTOP_frame KillProcess_frame

section \<open>The invariant\<close>

definition top_inv :: "top \<Rightarrow> bool" where
  "top_inv st \<longleftrightarrow> 0 \<le> row st \<and> 0 \<le> col st \<and> sortMode st \<in> {1..4} \<and> byteUnit st \<in> {1..6}
     \<and> listed (procList st)"

lemma top_inv_frame: "settings st' = settings st \<Longrightarrow> listed (procList st') \<Longrightarrow> top_inv st \<Longrightarrow> top_inv st'"
  by (simp add: top_inv_def settings_def)

lemma top_key_inv: "top_inv st \<Longrightarrow> top_inv (top_key st)"
  by (auto simp: top_inv_def top_key_def Let_def mode_defs)

lemma top_key_frame: "timing (top_key st) = timing st \<and> dOption (top_key st) = dOption st
    \<and> nOption (top_key st) = nOption st \<and> ch (top_key st) = ch st \<and> now (top_key st) = now st
    \<and> before (top_key st) = before st"
  by (auto simp: timing_def top_key_def Let_def)

lemma listed_Nil: "listed []"
  by (simp add: listed_def)

text \<open>What a refresh does to the settings and to the count.\<close>

lemma top_refresh_frame:
  assumes "top_refresh env st = Inr (st', ws, stop)"
  shows "settings st' = settings st \<and> listed (procList st') \<and> ws \<noteq> []
    \<and> updateTime st' = (if ch st = 10 \<or> ch st = 32 then 0 else updateTime st)
    \<and> updatePeriod st' = (if nOption st then to_uint64 (updatePeriod st - 1) else updatePeriod st)
    \<and> (stop \<longleftrightarrow> nOption st \<and> updatePeriod st' = 0)"
proof -
  define st1 where "st1 = (if ch st = 10 \<or> ch st = 32 then st\<lparr>updateTime := 0\<rparr> else st)"
  from assms obtain st2 k st3 st4 st5 ws' where
    k: "KillProcess env st1 = Inr (st2, k)" and
    s: "top_SearchProcess (os.truncate env) (EraseProcessList st2) = Inr st3" and
    o: "SortProc st3 = Inr st4" and p: "PrintTOP env st4 = Inr (st5, ws')" and
    e: "(st', ws, stop) =
      (if nOption st5 then
        (st5\<lparr>before := now st5, printFlag := False, updatePeriod := to_uint64 (updatePeriod st5 - 1)\<rparr>, ws',
          to_uint64 (updatePeriod st5 - 1) = 0)
       else (st5\<lparr>before := now st5, printFlag := False\<rparr>, ws', False))"
    unfolding top_refresh_def Let_def st1_def [symmetric]
    by (auto elim!: bindR_InrE split: if_splits)
  have f1: "settings st1 = settings st" "timing st1 = (if ch st = 10 \<or> ch st = 32 then 0 else updateTime st, updatePeriod st)"
    by (simp_all add: st1_def settings_def timing_def)
  have f2: "settings (EraseProcessList st2) = settings st2" "timing (EraseProcessList st2) = timing st2"
    "listed (procList (EraseProcessList st2))"
    by (simp_all add: EraseProcessList_def settings_def timing_def listed_Nil)
  have f: "settings st5 = settings st" "timing st5 = timing st1" "listed (procList st5)" "ws' \<noteq> []"
    using KillProcess_frame [OF k] top_SearchProcess_frame [OF s f2(3)] SortProc_frame [OF o]
      PrintTOP_frame [OF p] f1 f2 by simp_all
  from f(1) have n: "nOption st5 = nOption st" by (simp add: settings_def)
  show ?thesis using e f f1(2) n by (auto simp: settings_def timing_def split: if_splits)
qed

text \<open>The state in which the refresh is decided.\<close>

definition top_ready :: "top_env \<Rightarrow> top \<Rightarrow> top" where
  "top_ready env st =
     (let st1 = top_key (st\<lparr>now := os_time env\<rparr>) in if dOption st1 then st1 else st1\<lparr>updateTime := 3\<rparr>)"

lemma top_iteration_ready:
  "top_iteration env st =
     (if refresh_due (top_ready env st) then top_refresh env (top_ready env st)
      else Inr (top_ready env st, [], False))"
  unfolding top_iteration_def top_ready_def Let_def by (rule refl)

lemma top_ready_inv: "top_inv st \<Longrightarrow> top_inv (top_ready env st)"
  using top_key_inv [of "st\<lparr>now := os_time env\<rparr>"] by (auto simp: top_ready_def Let_def top_inv_def)

lemma top_iteration_inv:
  "top_iteration env st = Inr (st', ws, stop) \<Longrightarrow> top_inv st \<Longrightarrow> top_inv st'"
  using top_ready_inv [of st env] top_refresh_frame [of env "top_ready env st" st' ws stop]
    top_inv_frame [of st' "top_ready env st"]
  by (auto simp: top_iteration_ready split: if_splits)

lemma top_loop_inv: "top_loop es st = Inr (st', wss, b) \<Longrightarrow> top_inv st \<Longrightarrow> top_inv st'"
proof (induction es arbitrary: st wss b)
  case (Cons e es)
  obtain env k where e: "e = (env, k)" by (cases e)
  from Cons.prems(1) obtain st1 ws stop where i: "top_iteration env st = Inr (st1, ws, stop)"
    and r: "(if stop then Inr (st1, [ws], True)
       else if k = 113 then Inr (st1\<lparr>ch := k\<rparr>, [ws], True)
       else bindR (top_loop es (st1\<lparr>ch := k\<rparr>)) (\<lambda>(st2, wss, b). Inr (st2, ws # wss, b))) = Inr (st', wss, b)"
    unfolding e by (auto elim!: bindR_InrE)
  have t: "top_inv st1" "top_inv (st1\<lparr>ch := k\<rparr>)"
    using top_iteration_inv [OF i Cons.prems(2)] by (simp_all add: top_inv_def)
  from r show ?case
    using t Cons.IH by (auto split: if_splits elim!: bindR_InrE)
qed simp

lemma top_option_frame: "top_inv (top_option o' a st) = top_inv st"
  by (induction o' arbitrary: st) (auto simp: top_inv_def)

text \<open>The state when the loop starts.\<close>

definition top_boot :: "top_env \<Rightarrow> string list \<Rightarrow> (top \<times> mvprint list) res" where
  "top_boot env args =
     bindR (top_GetTotalMemory (os.truncate env)) (\<lambda>tm.
     bindR (GetTTY (os.truncate env) (''/proc/'' @ show_int (os_pid env))) (\<lambda>own.
     let st = init_top\<lparr>total_memory := tm, hertz := os_hertz env, now := os_time env\<rparr> in
     bindR (top_SearchProcess (os.truncate env) st) (\<lambda>st1.
     let st2 = st1\<lparr>before := os_time env\<rparr>;
         st3 = (case args of opt # arg # _ \<Rightarrow> top_option opt arg st2 | _ \<Rightarrow> st2) in
     bindR (SortProc st3) (PrintTOP env))))"

lemma top_main_boot:
  "top_main env args es =
     bindR (top_boot env args) (\<lambda>(st, ws). bindR (top_loop es st) (\<lambda>(st', wss, b). Inr (st', ws # wss, b)))"
  by (simp add: top_main_def top_boot_def bindR_assoc Let_def)

lemma init_top_inv: "top_inv init_top"
  by (simp add: top_inv_def init_top_def CPU_MODE_def listed_def)

lemma top_boot_parts:
  assumes "top_boot env args = Inr (st, ws)"
  obtains st2 where "top_inv st2" and "dOption st2 = False" and "nOption st2 = False"
    and "settings st = settings (case args of opt # arg # _ \<Rightarrow> top_option opt arg st2 | _ \<Rightarrow> st2)"
    and "timing st = timing (case args of opt # arg # _ \<Rightarrow> top_option opt arg st2 | _ \<Rightarrow> st2)"
    and "top_inv st" and "ws \<noteq> []"
proof -
  from assms obtain tm st1 st4 where
    s: "top_SearchProcess (os.truncate env)
      (init_top\<lparr>total_memory := tm, hertz := os_hertz env, now := os_time env\<rparr>) = Inr st1" and
    o: "SortProc (case args of opt # arg # _ \<Rightarrow> top_option opt arg (st1\<lparr>before := os_time env\<rparr>)
      | _ \<Rightarrow> st1\<lparr>before := os_time env\<rparr>) = Inr st4" and p: "PrintTOP env st4 = Inr (st, ws)"
    by (auto simp: top_boot_def Let_def elim!: bindR_InrE)
  define st2 where "st2 = st1\<lparr>before := os_time env\<rparr>"
  define st3 where "st3 = (case args of opt # arg # _ \<Rightarrow> top_option opt arg st2 | _ \<Rightarrow> st2)"
  have f: "settings st1 = settings init_top" "listed (procList st1)"
    using top_SearchProcess_frame [OF s] by (simp_all add: settings_def init_top_def listed_Nil)
  then have i: "top_inv st2" "dOption st2 = False" "nOption st2 = False"
    using init_top_inv by (auto simp: st2_def top_inv_def settings_def init_top_def)
  then have i3: "top_inv st3" by (auto simp: st3_def top_option_frame split: list.splits)
  have o': "SortProc st3 = Inr st4" using o unfolding st3_def st2_def .
  have e: "settings st = settings st3" "timing st = timing st3" "procList st = procList st3" "ws \<noteq> []"
    using SortProc_frame [OF o'] PrintTOP_frame [OF p] by simp_all
  then have "top_inv st" using i3 by (simp add: top_inv_def settings_def)
  then show ?thesis using that [OF i] e by (simp add: st3_def)
qed

section \<open>A system without processes\<close>

text \<open>An environment on which the loop can be followed by hand, at a given time.\<close>

definition quiet_file :: "string \<Rightarrow> string option" where
  "quiet_file f =
     (if f = ''/proc/uptime'' then Some ''9 9''
      else if f = ''/proc/loadavg'' then Some ''1 2 3''
      else if f = ''/proc/stat'' then Some ''cpu  1 2 3 4 5 6 7 8''
      else if f = ''/proc/meminfo'' then Some (text_of (replicate 24 ''M: 8''))
      else None)"

definition quiet_env :: "int \<Rightarrow> top_env" where
  "quiet_env t =
     \<lparr>os_file = quiet_file, os_exists = \<lambda>_. False, os_readable = \<lambda>_. False, os_dir = \<lambda>_. Some [],
      os_stat = \<lambda>_. None, os_link = \<lambda>_. None, os_user = \<lambda>_. None, os_time = t, os_tz = \<lambda>_. 0,
      os_hertz = 100, os_pid = 1, os_uid = 0, os_cols = 80, os_utmp = [], os_kill = None\<rparr>"

lemmas scan_defs = scan_ld_def skip_ws_def isspace_def take_sign_def isdigit_def frac_digits_def Let_def

lemma quiet_uptime: "\<exists>u. GetUpTime (os.truncate (quiet_env t)) = Inr u"
  by (simp add: GetUpTime_def quiet_env_def quiet_file_def os.defs fgets_line_def scan_defs)

lemma quiet_loads: "\<exists>w. top_row (quiet_env t) st = Inr w"
  by (simp add: top_row_def quiet_env_def quiet_file_def fgets_line_def numeral_3_eq_3 scan_defs)

lemma quiet_cpu: "\<exists>st' w. cpu_row (os.truncate (quiet_env t)) st = Inr (st', w) \<and> sorted st' = sorted st
    \<and> row st' = row st"
  by (simp add: cpu_row_def quiet_env_def quiet_file_def os.defs fgets_line_def first_digit_def isdigit_def Let_def)

lemma quiet_number:
  assumes "n < m"
  shows "next_number (Suc n) (text_of (replicate m ''M: 8'')) = Inr (8, text_of (replicate (m - Suc n) ''M: 8''))"
proof -
  have "fgets_rows (Suc n) [] (text_of (replicate m ''M: 8'') @ []) =
      (''M: 8'' @ nl, text_of (replicate (m - Suc n) ''M: 8'') @ [])"
    using fgets_rows_text [of "replicate m ''M: 8''" n "[]" "[]"] assms by (simp add: plain_line_def)
  then show ?thesis
    by (simp add: next_number_def first_digit_def sscanf_lu_def scan_lu_def scan_number_def skip_ws_def isspace_def
        take_sign_def isdigit_def digit_val_def clamp_ulong_def nl_def)
qed

lemma quiet_meminfo: "\<exists>m. read_meminfo (text_of (replicate 24 ''M: 8'')) = Inr m"
  using quiet_number [of 0 24] quiet_number [of 0 23] quiet_number [of 0 22] quiet_number [of 0 21]
    quiet_number [of 0 20] quiet_number [of 9 19] quiet_number [of 0 9] quiet_number [of 7 8]
  by (simp add: read_meminfo_def)

lemma quiet_print: "sorted st = [] \<Longrightarrow> \<exists>st' ws. PrintTOP (quiet_env t) st = Inr (st', ws)"
proof -
  assume s: "sorted st = []"
  from quiet_uptime obtain u where u: "GetUpTime (os.truncate (quiet_env t)) = Inr u" by blast
  from quiet_loads obtain w where w: "top_row (quiet_env t) (st\<lparr>uptime := u\<rparr>) = Inr w" by blast
  from quiet_cpu [of t "st\<lparr>uptime := u\<rparr>"] s obtain st2 w2 where
    c: "cpu_row (os.truncate (quiet_env t)) (st\<lparr>uptime := u\<rparr>) = Inr (st2, w2)" "sorted st2 = []" by auto
  from quiet_meminfo obtain m where m: "read_meminfo (text_of (replicate 24 ''M: 8'')) = Inr m" by blast
  have f: "os_file (quiet_env t) ''/proc/meminfo'' = Some (text_of (replicate 24 ''M: 8''))"
    by (simp add: quiet_env_def quiet_file_def)
  show ?thesis by (simp only: PrintTOP_def u w c f m Let_def bindR_simps prod.case option.case) (simp add: c)
qed

lemma quiet_search:
  "\<exists>u. top_SearchProcess (os.truncate (quiet_env t)) st = Inr (st\<lparr>uptime := u\<rparr>)"
  using quiet_uptime [of t] by (auto simp: top_SearchProcess_def) (auto simp: quiet_env_def os.defs)

lemma sort_nothing: "procList st = [] \<Longrightarrow> SortProc st = Inr (st\<lparr>sorted := []\<rparr>)"
  by (simp add: SortProc_def)

lemma quiet_refresh: "killMode st = False \<Longrightarrow> \<exists>r. top_refresh (quiet_env t) st = Inr r"
proof -
  assume k: "killMode st = False"
  define st1 where "st1 = (if ch st = 10 \<or> ch st = 32 then st\<lparr>updateTime := 0\<rparr> else st)"
  have "KillProcess (quiet_env t) st1 = Inr (st1, None)" using k by (simp add: KillProcess_def st1_def)
  moreover obtain u where "top_SearchProcess (os.truncate (quiet_env t)) (EraseProcessList st1)
      = Inr ((EraseProcessList st1)\<lparr>uptime := u\<rparr>)" using quiet_search by blast
  moreover have "SortProc ((EraseProcessList st1)\<lparr>uptime := u\<rparr>)
      = Inr ((EraseProcessList st1)\<lparr>uptime := u, sorted := []\<rparr>)"
    by (simp add: sort_nothing EraseProcessList_def)
  moreover obtain st5 ws where "PrintTOP (quiet_env t) ((EraseProcessList st1)\<lparr>uptime := u, sorted := []\<rparr>)
      = Inr (st5, ws)" using quiet_print [of "(EraseProcessList st1)\<lparr>uptime := u, sorted := []\<rparr>" t] by auto
  ultimately show ?thesis
    unfolding top_refresh_def Let_def st1_def [symmetric] by (simp del: not_all) (metis (full_types))
qed

lemma PrintTOP_keeps:
  "PrintTOP env st = Inr (st', ws) \<Longrightarrow>
     before st' = before st \<and> killMode st' = killMode st \<and> printFlag st' = printFlag st \<and> ch st' = ch st"
  by (auto simp: PrintTOP_def cpu_row_def Let_def elim!: bindR_InrE split: option.splits)

lemma top_option_keeps:
  "before (top_option o' a st) = before st \<and> killMode (top_option o' a st) = killMode st
    \<and> printFlag (top_option o' a st) = printFlag st \<and> ch (top_option o' a st) = ch st
    \<and> procList (top_option o' a st) = procList st"
  by (induction o' arbitrary: st) auto

lemma quiet_boot:
  "\<exists>st ws. top_boot (quiet_env t) [o', a] = Inr (st, ws) \<and> before st = t \<and> killMode st = False
     \<and> printFlag st = False \<and> ch st = 0"
proof -
  let ?st = "init_top\<lparr>total_memory := 8, hertz := 100, now := t\<rparr>"
  have m: "top_GetTotalMemory (os.truncate (quiet_env t)) = Inr 8"
    using quiet_number [of 0 24] unfolding top_GetTotalMemory_def next_number_def
    by (auto simp: quiet_env_def quiet_file_def os.defs bindR_Inr_iff split: prod.splits)
  have tty: "GetTTY (os.truncate (quiet_env t)) (''/proc/'' @ show_int (os_pid (quiet_env t))) = Inr []"
    by (simp add: GetTTY_def tty_from_stat_def quiet_env_def quiet_file_def os.defs show_int_def show_nat.simps
        digit_char_def)
  obtain u where s: "top_SearchProcess (os.truncate (quiet_env t)) ?st = Inr (?st\<lparr>uptime := u\<rparr>)"
    using quiet_search by blast
  define st3 where "st3 = top_option o' a (?st\<lparr>uptime := u, before := t\<rparr>)"
  have k: "before st3 = t" "killMode st3 = False" "printFlag st3 = False" "ch st3 = 0" "procList st3 = []"
    by (simp_all add: st3_def top_option_keeps) (simp_all add: init_top_def)
  obtain st ws where p: "PrintTOP (quiet_env t) (st3\<lparr>sorted := []\<rparr>) = Inr (st, ws)"
    using quiet_print [of "st3\<lparr>sorted := []\<rparr>" t] by auto
  have e: "os_hertz (quiet_env t) = 100" "os_time (quiet_env t) = t" by (simp_all add: quiet_env_def)
  have "top_boot (quiet_env t) [o', a] = Inr (st, ws)"
    by (simp only: top_boot_def m tty e s Let_def bindR_simps list.case st3_def [symmetric] sort_nothing [OF k(5)] p)
  with PrintTOP_keeps [OF p] k show ?thesis by auto
qed

lemma quiet_pass:
  "killMode st = False \<Longrightarrow> ch st \<noteq> 107 \<Longrightarrow> \<exists>r. top_iteration (quiet_env t) st = Inr r"
proof -
  assume a: "killMode st = False" "ch st \<noteq> 107"
  then have "killMode (top_ready (quiet_env t) st) = False"
    by (auto simp: top_ready_def top_key_def Let_def)
  then show ?thesis using quiet_refresh [of "top_ready (quiet_env t) st" t] unfolding top_iteration_ready by metis
qed

lemma quiet_one_pass:
  "killMode st = False \<Longrightarrow> ch st \<noteq> 107 \<Longrightarrow> \<exists>st' wss b. top_loop [(quiet_env t, k)] st = Inr (st', wss, b)"
proof -
  assume "killMode st = False" "ch st \<noteq> 107"
  then obtain r where r: "top_iteration (quiet_env t) st = Inr r" using quiet_pass by blast
  show ?thesis by (cases r; cases "snd (snd r)"; cases "k = 113") (simp_all add: r, blast+)
qed

text \<open>
  C16. The state of \<open>mytop\<close> stays well formed: whatever the options, the keys and the contents of \<open>/proc\<close>,
  when the program has run without failing, the first row and column are not negative, the sort mode
  is one of the four, the unit one of the six, at most 4096 processes are listed, and their
  percentages are numbers (so that the comparisons of \<open>SortProc\<close> form an order).
\<close>

theorem top_main_invariant:
  assumes "top_main env args es = Inr (st, wss, b)"
  shows "top_inv st"
proof -
  from assms obtain st0 ws wss' where o: "top_boot env args = Inr (st0, ws)"
    and l: "top_loop es st0 = Inr (st, wss', b)"
    by (auto simp: top_main_boot elim!: bindR_InrE)
  from o have "top_inv st0" by (rule top_boot_parts)
  with l show ?thesis by (rule top_loop_inv)
qed

theorem top_main_invariant_witness:
  "\<exists>st wss b. top_main (quiet_env 0) [''-n'', ''1''] [(quiet_env 5, 261)] = Inr (st, wss, b) \<and> top_inv st"
proof -
  obtain st ws where "top_boot (quiet_env 0) [''-n'', ''1''] = Inr (st, ws)" "killMode st = False" "ch st = 0"
    using quiet_boot by blast
  with quiet_one_pass [of st 5 261] obtain st' wss b where
    r: "top_main (quiet_env 0) [''-n'', ''1''] [(quiet_env 5, 261)] = Inr (st', wss, b)"
    by (auto simp: top_main_boot)
  from r top_main_invariant [OF r] show ?thesis by blast
qed

section \<open>The count of \<open>-n\<close>\<close>

definition refreshes :: "mvprint list list \<Rightarrow> int" where
  "refreshes wss = int (length (filter (\<lambda>ws. ws \<noteq> []) wss))"

lemma top_iteration_count:
  assumes "top_iteration env st = Inr (st', ws, stop)" and "nOption st" and "0 < updatePeriod st"
    and "updatePeriod st < 2 ^ 64"
  shows "nOption st' \<and> updatePeriod st' = updatePeriod st - (if ws = [] then 0 else 1)
    \<and> (stop \<longleftrightarrow> updatePeriod st' = 0)"
proof -
  have r: "nOption (top_ready env st)" "updatePeriod (top_ready env st) = updatePeriod st"
    using top_key_frame [of "st\<lparr>now := os_time env\<rparr>"] assms(2) by (auto simp: top_ready_def Let_def timing_def)
  show ?thesis
    using assms(1,3,4) r top_refresh_frame [of env "top_ready env st" st' ws stop]
    by (auto simp: top_iteration_ready settings_def to_uint64_def split: if_splits)
qed

lemma top_loop_count:
  assumes "top_loop es st = Inr (st', wss, b)" and "nOption st" and "0 < updatePeriod st"
    and "updatePeriod st < 2 ^ 64" and "\<forall>(env, k) \<in> set es. k \<noteq> 113"
  shows "refreshes wss = updatePeriod st - updatePeriod st' \<and> 0 \<le> updatePeriod st'
    \<and> (b \<longleftrightarrow> updatePeriod st' = 0)"
  using assms
proof (induction es arbitrary: st wss b)
  case Nil
  then show ?case by (auto simp: refreshes_def)
next
  case (Cons e es)
  obtain env k where e: "e = (env, k)" by (cases e)
  from Cons.prems(1) obtain st1 ws stop where i: "top_iteration env st = Inr (st1, ws, stop)"
    and r: "(if stop then Inr (st1, [ws], True)
       else if k = 113 then Inr (st1\<lparr>ch := k\<rparr>, [ws], True)
       else bindR (top_loop es (st1\<lparr>ch := k\<rparr>)) (\<lambda>(st2, wss, b). Inr (st2, ws # wss, b))) = Inr (st', wss, b)"
    unfolding e by (auto elim!: bindR_InrE)
  note c = top_iteration_count [OF i Cons.prems(2-4)]
  show ?case
  proof (cases stop)
    case True
    with r c Cons.prems(3) show ?thesis by (auto simp: refreshes_def)
  next
    case False
    with r Cons.prems(5) e obtain wss' where l: "top_loop es (st1\<lparr>ch := k\<rparr>) = Inr (st', wss', b)" "wss = ws # wss'"
      by (auto elim!: bindR_InrE)
    have "0 < updatePeriod st1" "updatePeriod st1 < 2 ^ 64" using c False Cons.prems(3,4) by auto
    with Cons.IH [OF l(1)] c Cons.prems(5) l(2) show ?thesis by (auto simp: refreshes_def)
  qed
qed

text \<open>
  The option \<open>-n\<close>: started with \<open>-n N\<close> and no key \<open>q\<close>, the program draws the screen once and then
  refreshes it at most \<open>N\<close> times, and it ends exactly when the \<open>N\<close>th refresh is done.
\<close>

theorem n_option_count:
  assumes "top_main env [''-n'', show_int n] es = Inr (st, wss, b)" and "1 \<le> n" and "n < 2 ^ 31"
    and "\<forall>(env, k) \<in> set es. k \<noteq> 113"
  shows "hd wss \<noteq> [] \<and> refreshes (tl wss) \<le> n \<and> (b \<longleftrightarrow> refreshes (tl wss) = n)"
proof -
  from assms(1) obtain st0 ws wss' where o: "top_boot env [''-n'', show_int n] = Inr (st0, ws)"
    and l: "top_loop es st0 = Inr (st, wss', b)" and w: "wss = ws # wss'"
    by (auto simp: top_main_boot elim!: bindR_InrE)
  from o obtain st2 where "settings st0 = settings (top_option ''-n'' (show_int n) st2)"
    "timing st0 = timing (top_option ''-n'' (show_int n) st2)" "ws \<noteq> []"
    by (rule top_boot_parts) (use that in auto)
  then have "nOption st0" "updatePeriod st0 = n" "ws \<noteq> []"
    using assms(2,3) by (simp_all add: settings_def timing_def atoi_show_int to_uint64_def)
  with top_loop_count [OF l] assms(2-4) w show ?thesis by auto
qed

theorem n_option_count_witness:
  "\<exists>st wss b. top_main (quiet_env 0) [''-n'', show_int 1] [(quiet_env 5, 0)] = Inr (st, wss, b)
    \<and> hd wss \<noteq> [] \<and> refreshes (tl wss) \<le> 1 \<and> (b \<longleftrightarrow> refreshes (tl wss) = 1)"
proof -
  obtain st ws where "top_boot (quiet_env 0) [''-n'', show_int 1] = Inr (st, ws)" "killMode st = False" "ch st = 0"
    using quiet_boot by blast
  with quiet_one_pass [of st 5 0] obtain st' wss b where
    r: "top_main (quiet_env 0) [''-n'', show_int 1] [(quiet_env 5, 0)] = Inr (st', wss, b)"
    by (auto simp: top_main_boot)
  from r n_option_count [OF r] show ?thesis by auto
qed

section \<open>The interval of \<open>-d\<close>\<close>

lemma top_loop_zero_interval:
  assumes "top_loop es st = Inr (st', wss, b)" and "dOption st"
    and "updateTime st = 0 \<or> ch st = 10 \<or> ch st = 32"
  shows "\<forall>ws \<in> set wss. ws \<noteq> []"
  using assms
proof (induction es arbitrary: st wss b)
  case (Cons e es)
  obtain env k where e: "e = (env, k)" by (cases e)
  from Cons.prems(1) obtain st1 ws stop where i: "top_iteration env st = Inr (st1, ws, stop)"
    and r: "(if stop then Inr (st1, [ws], True)
       else if k = 113 then Inr (st1\<lparr>ch := k\<rparr>, [ws], True)
       else bindR (top_loop es (st1\<lparr>ch := k\<rparr>)) (\<lambda>(st2, wss, b). Inr (st2, ws # wss, b))) = Inr (st', wss, b)"
    unfolding e by (auto elim!: bindR_InrE)
  let ?s = "top_ready env st"
  have k: "dOption ?s" "updateTime ?s = updateTime st" "ch ?s = ch st"
    using top_key_frame [of "st\<lparr>now := os_time env\<rparr>"] Cons.prems(2) by (auto simp: top_ready_def Let_def timing_def)
  have "refresh_due ?s"
    using Cons.prems(2,3)
    by (auto simp: refresh_due_def top_ready_def top_key_def Let_def to_uint64_def)
  with i have "top_refresh env ?s = Inr (st1, ws, stop)" by (simp add: top_iteration_ready)
  with top_refresh_frame have f: "ws \<noteq> []" "dOption st1" "updateTime st1 = 0"
    using k Cons.prems(3) by (auto simp: settings_def)
  show ?case
    using r f Cons.IH [of "st1\<lparr>ch := k\<rparr>"] by (auto split: if_splits elim!: bindR_InrE)
qed simp

text \<open>
  With the option \<open>-d\<close>, a single ENTER or SPACE ends the interval: it sets \<open>updateTime\<close> to 0, nothing
  sets it back, and from then on every pass of the loop reads all processes and draws the screen.
\<close>

theorem enter_refreshes_for_ever:
  assumes "dOption st" and "ch st = 10 \<or> ch st = 32" and "top_loop es st = Inr (st', wss, b)"
  shows "\<forall>ws \<in> set wss. ws \<noteq> []"
  using top_loop_zero_interval [OF assms(3,1)] assms(2) by blast

theorem enter_refreshes_for_ever_witness:
  "\<exists>st' wss b. top_loop [(quiet_env 1, 0)] (init_top\<lparr>dOption := True, updateTime := 60, ch := 10\<rparr>)
      = Inr (st', wss, b) \<and> (\<forall>ws \<in> set wss. ws \<noteq> [])"
proof -
  let ?st = "init_top\<lparr>dOption := True, updateTime := 60, ch := 10\<rparr>"
  obtain st' wss b where r: "top_loop [(quiet_env 1, 0)] ?st = Inr (st', wss, b)"
    using quiet_one_pass [of ?st 1 0] by (auto simp: init_top_def)
  with enter_refreshes_for_ever [OF _ _ r] show ?thesis by auto
qed

section \<open>Large process numbers\<close>

text \<open>
  A process number of 32768 or more, which Linux gives out on 64-bit systems, makes \<open>mytop\<close> index
  \<open>cpuTimeTable\<close> past its end.
\<close>

theorem large_pid_overruns:
  assumes "stat_tokens env path = Inr (Some ts)" and "ts ! 0 = show_int p" and "32768 \<le> p" and "p < 2 ^ 31"
    and "os_stat env (path @ ''/stat'') = Some fs" and "user_name env (st_uid fs) = Inr name"
  shows "top_AddProcessList env st path = Inl OutOfBounds"
proof -
  have "ulong_token ts 0 = p"
    using assms(2-4) by (simp add: ulong_token_def atoi_show_int to_uint64_def)
  then have "cpu_share st ts = Inl OutOfBounds" using assms(3) by (simp add: cpu_share_def Let_def)
  with assms(1,5,6) show ?thesis by (simp add: top_AddProcessList_def)
qed

definition busy_env :: os where
  "busy_env =
     \<lparr>os_file = \<lambda>_. Some (words_of (show_int 40000 # ''(sh)'' # ''S'' # replicate 19 ''1'') @ []),
      os_exists = \<lambda>_. True, os_readable = \<lambda>_. True, os_dir = \<lambda>_. None,
      os_stat = \<lambda>_. Some \<lparr>st_dir = False, st_chr = False, st_uid = 0, st_rdev = 0\<rparr>, os_link = \<lambda>_. None,
      os_user = \<lambda>_. Some ''root'', os_time = 0, os_tz = \<lambda>_. 0, os_hertz = 100, os_pid = 1, os_uid = 0,
      os_cols = 80\<rparr>"

theorem large_pid_overruns_witness:
  "top_AddProcessList busy_env init_top ''/proc/40000'' = Inl OutOfBounds"
proof (rule large_pid_overruns)
  let ?ws = "show_int 40000 # ''(sh)'' # ''S'' # replicate 19 ''1''"
  have "token 32 (show_int 40000)" by (simp add: token_def show_int_def show_nat.simps digit_char_def isspace_def)
  then have "\<forall>w \<in> set ?ws. token 32 w" by (simp add: token_def isspace_def)
  from read_tokens_words [OF this, of 22 "[]"]
  show "stat_tokens busy_env ''/proc/40000'' = Inr (Some ?ws)"
    unfolding stat_tokens_def busy_env_def by simp
  show "(32768 :: int) \<le> 40000" "(40000 :: int) < 2 ^ 31" by simp_all
qed (simp_all add: busy_env_def user_name_def store_def)

end
