(* ===== verification/Myps_Props.thy ===== *)
theory Myps_Props
  imports Myps Line_Laws
begin

text \<open>
  The properties of \<open>myps\<close>: which processes are listed, the alignment of the table, and what is read
  from the options, from \<open>/proc/pid/stat\<close> and from \<open>/proc/pid/cmdline\<close>.
\<close>

section \<open>The processes that are listed\<close>
















definition idle_env :: os where
  "idle_env =
     \<lparr>os_file = \<lambda>_. Some ''9 9'', os_exists = \<lambda>_. False, os_readable = \<lambda>_. False, os_dir = \<lambda>_. Some [''self'', ''12''],
      os_stat = \<lambda>_. Some \<lparr>st_dir = True, st_chr = False, st_uid = 0, st_rdev = 0\<rparr>, os_link = \<lambda>_. None,
      os_user = \<lambda>_. None, os_time = 0, os_tz = \<lambda>_. 0, os_hertz = 100, os_pid = 1, os_uid = 0, os_cols = 80\<rparr>"

section \<open>Alignment\<close>

lemma length_left: "int (length s) \<le> w \<Longrightarrow> length (left w s) = nat w + 1"
  by (auto simp: left_def)

lemma length_right: "int (length s) \<le> w \<Longrightarrow> 0 \<le> k \<Longrightarrow> length (right k w s) = nat (w + k) + 1"
  by (auto simp: right_def)

lemma max_width_bounds:
  "length (column_str c) \<le> max_width procs c" "p \<in> set procs \<Longrightarrow> length (cell c p) \<le> max_width procs c"
  unfolding max_width_def by (rule foldl_max_ge, erule foldl_max_mem)

lemma columnWidth_bounds:
  assumes "\<not> hidden o' c"
  shows "int (length (column_str c)) \<le> columnWidth o' procs c"
    and "p \<in> set procs \<Longrightarrow> int (length (cell c p)) \<le> columnWidth o' procs c"
  using assms max_width_bounds(1) [of c procs] max_width_bounds(2) [of p procs c] by (simp_all add: columnWidth_def)

text \<open>The columns a line shows before the command, and the length of the line.\<close>

definition line_columns :: "options \<Rightarrow> column set" where
  "line_columns o' =
     {PID, TTY, TIME} \<union> (if uOption o' then {USER, CPU, MEM, VSZ, RSS, START} else {}) \<union>
     (if fOption o' then {UID, PPID, C, STIME} else {})"

lemma line_parts_length:
  assumes "\<forall>c \<in> line_columns o'. int (length (tx c)) \<le> w c" and "\<forall>c \<in> line_columns o'. int (length (tx' c)) \<le> w c"
  shows "length (line_start o' w tx) = length (line_start o' w tx')"
    and "length (line_end o' w tx) = length (line_end o' w tx')"
proof -
  have l: "c \<in> line_columns o' \<Longrightarrow> length (left (w c) (tx c)) = length (left (w c) (tx' c))" for c
    using assms by (simp add: length_left)
  have r: "c \<in> line_columns o' \<Longrightarrow> 0 \<le> k \<Longrightarrow> length (right k (w c) (tx c)) = length (right k (w c) (tx' c))" for c k
    using assms by (simp add: length_right)
  show "length (line_start o' w tx) = length (line_start o' w tx')"
    unfolding line_start_def length_append
    by (intro arg_cong2 [where f = "(+)"]) (auto simp: l r line_columns_def)
  show "length (line_end o' w tx) = length (line_end o' w tx')"
    unfolding line_end_def length_append
    by (intro arg_cong2 [where f = "(+)"]) (auto simp: l r line_columns_def)
qed

lemma shown_columns:
  "c \<in> line_columns o' \<Longrightarrow> hidden o' c \<Longrightarrow> fOption o' \<and> uOption o' \<and> c \<in> {USER, MEM, VSZ, RSS}"
  by (auto simp: line_columns_def hidden_def split: if_splits)

text \<open>How much longer than its heading an entry is in a column that is printed although it is hidden.\<close>

definition surplus :: "column \<Rightarrow> myProc \<Rightarrow> int" where
  "surplus c p = int (length (cell c p)) - int (length (column_str c))"

lemma hidden_length:
  "hidden o' c \<Longrightarrow> length (left (columnWidth o' procs c) s) = length s + 1"
  "hidden o' c \<Longrightarrow> length (right 0 (columnWidth o' procs c) s) = length s + 1"
  by (simp_all add: columnWidth_def left_def right_def)

lemma line_start_surplus:
  assumes p: "p \<in> set procs"
  shows "int (length (line_start o' (columnWidth o' procs) (\<lambda>c. cell c p))) =
    int (length (line_start o' (columnWidth o' procs) column_str)) +
    (if fOption o' \<and> uOption o' then surplus USER p + surplus MEM p + surplus VSZ p + surplus RSS p else 0)"
proof -
  let ?w = "columnWidth o' procs"
  have l: "length (left (?w c) (cell c p)) = length (left (?w c) (column_str c))" if "\<not> hidden o' c" for c
    using columnWidth_bounds(1) [OF that, of procs] columnWidth_bounds(2) [OF that p] by (simp add: length_left)
  have r: "length (right k (?w c) (cell c p)) = length (right k (?w c) (column_str c))"
    if "\<not> hidden o' c" "0 \<le> k" for c k
    using columnWidth_bounds(1) [OF that(1), of procs] columnWidth_bounds(2) [OF that(1) p] that(2)
    by (simp add: length_right)
  show ?thesis
  proof (cases "fOption o' \<and> uOption o'")
    case True
    then have h: "hidden o' USER" "hidden o' MEM" "hidden o' VSZ" "hidden o' RSS"
      and n: "\<not> hidden o' UID" "\<not> hidden o' PID" "\<not> hidden o' PPID" "\<not> hidden o' C" "\<not> hidden o' STIME"
        "\<not> hidden o' CPU" "\<not> hidden o' TTY"
      by (simp_all add: hidden_def)
    show ?thesis
      unfolding line_start_def length_append
      by (simp add: True n [THEN l] n [THEN r] h [THEN hidden_length(1)] h [THEN hidden_length(2)] surplus_def
          del: cell.simps column_str.simps)
  next
    case False
    then have n: "c \<in> line_columns o' \<Longrightarrow> \<not> hidden o' c" for c using shown_columns [of c o'] by blast
    have "length (line_start o' ?w (\<lambda>c. cell c p)) = length (line_start o' ?w column_str)"
      using line_parts_length(1) [of o' "\<lambda>c. cell c p" ?w column_str] columnWidth_bounds [OF n] p by blast
    with False show ?thesis by auto
  qed
qed

lemma line_end_equal:
  assumes "p \<in> set procs"
  shows "length (line_end o' (columnWidth o' procs) (\<lambda>c. cell c p)) = length (line_end o' (columnWidth o' procs) column_str)"
proof -
  have n: "uOption o' \<Longrightarrow> \<not> hidden o' START" "\<not> hidden o' TIME" by (auto simp: hidden_def)
  show ?thesis
    using columnWidth_bounds(1) [OF n(1), of procs] columnWidth_bounds(2) [OF n(1) assms]
      columnWidth_bounds(1) [OF n(2), of procs] columnWidth_bounds(2) [OF n(2) assms]
    by (auto simp: line_end_def length_left length_right simp del: cell.simps column_str.simps)
qed

text \<open>
  C17. How the lines of the table of \<open>myps\<close> are aligned, for every combination of options and every
  process of the list. The text before the command is as long as the heading before \<open>CMD\<close> or
  \<open>COMMAND\<close>, so that the commands start in one column, whenever the option \<open>f\<close> is not given, and
  with \<open>f\<close> when neither \<open>u\<close> nor the state is shown. With \<open>f\<close> and \<open>u\<close> (also together with \<open>e\<close>, which
  hides the state) a line is shifted by what the user, the memory share and the two memory sizes are
  longer than their headings, because these columns are printed although their width is -1; with
  \<open>f\<close> and the state (\<open>myps af\<close>) it is shifted by the number of letters after the first of its state.
\<close>

theorem table_aligned:
  assumes "p \<in> set procs"
  shows "int (length (process_line o' (columnWidth o' procs) p)) =
    int (length (header_line o' (columnWidth o' procs))) +
    (if fOption o' \<and> uOption o' then
       (int (length (user p)) - 4) + (int (length (show_ld 3 1 (mem p))) - 4)
       + (int (length (show_int (vsz p))) - 3) + (int (length (show_int (rss p))) - 3)
     else 0) +
    (if fOption o' \<and> \<not> eOption o' \<and> (aOption o' \<or> uOption o' \<or> xOption o') then int (length (stat p)) - 1
     else 0)"
proof -
  let ?w = "columnWidth o' procs"
  have st: "int (length (if shows_stat o' then ''   '' @ left (?w STAT) (stat p) else [])) =
      int (length (if shows_stat o' then right 3 (?w STAT) (column_str STAT) else [])) +
      (if fOption o' \<and> shows_stat o' then int (length (stat p)) - 1 else 0)"
  proof (cases "shows_stat o'")
    case True
    show ?thesis
    proof (cases "fOption o'")
      case f: True
      then have "?w STAT = - 1" by (simp add: columnWidth_def hidden_def)
      with True f show ?thesis by (simp add: left_def right_def)
    next
      case False
      with True have "\<not> hidden o' STAT" by (auto simp: hidden_def shows_stat_def)
      with columnWidth_bounds(1) [OF this, of procs] columnWidth_bounds(2) [OF this assms(1)] False True show ?thesis
        by (simp add: length_left length_right)
    qed
  qed simp
  have s: "shows_stat o' \<longleftrightarrow> \<not> eOption o' \<and> (aOption o' \<or> uOption o' \<or> xOption o')"
    by (simp add: shows_stat_def)
  show ?thesis
    unfolding process_line_def header_line_def s [symmetric]
    using line_start_surplus [OF assms, of o'] line_end_equal [OF assms, of o'] st by (simp add: surplus_def)
qed

definition sample_myProc :: myProc where
  "sample_myProc = EraseProcess\<lparr>pid := 12, user := ''root'', tty := ''pts/0'', stat := ''Ss+'', start := ''10:00'',
     time := ''0:00'', cmd := ''sh'', command := ''/bin/sh -i''\<rparr>"

definition efu_options :: options where
  "efu_options = no_options\<lparr>eOption := True, aOption := True, xOption := True, fOption := True, uOption := True\<rparr>"

theorem table_aligned_witness:
  "int (length (process_line (no_options\<lparr>aOption := True, fOption := True\<rparr>)
      (columnWidth (no_options\<lparr>aOption := True, fOption := True\<rparr>) [sample_myProc]) sample_myProc)) =
    int (length (header_line (no_options\<lparr>aOption := True, fOption := True\<rparr>)
      (columnWidth (no_options\<lparr>aOption := True, fOption := True\<rparr>) [sample_myProc]))) + 2
   \<and> int (length (process_line efu_options (columnWidth efu_options [sample_myProc]) sample_myProc)) =
    int (length (header_line efu_options (columnWidth efu_options [sample_myProc]))) + (0 - 1 - 2 - 2)"
proof -
  have v: "vsz sample_myProc = 0" "rss sample_myProc = 0" "user sample_myProc = ''root''"
    "length (show_int 0) = 1" "length (show_ld 3 1 (mem sample_myProc)) = 3"
    by code_simp+
  show ?thesis
    using table_aligned [of sample_myProc "[sample_myProc]" "no_options\<lparr>aOption := True, fOption := True\<rparr>"]
      table_aligned [of sample_myProc "[sample_myProc]" efu_options] v
    by (simp add: no_options_def efu_options_def) (simp add: sample_myProc_def)
qed

section \<open>The command line\<close>

text \<open>Arguments as \<open>/proc/pid/cmdline\<close> holds them, and joined by blanks.\<close>

definition cmdline_of :: "string list \<Rightarrow> string" where
  "cmdline_of args = concat (map (\<lambda>a. a @ [CHR 0x00]) args)"

fun joined :: "string list \<Rightarrow> string" where
  "joined [] = []"
| "joined [a] = a"
| "joined (a # b # as) = a @ CHR '' '' # joined (b # as)"

lemma cmdline_loop_word: "CHR 0x00 \<notin> set a \<Longrightarrow> cmdline_loop (a @ s) = a @ cmdline_loop s"
  by (induction a) auto

lemma cmdline_loop_zero:
  "cmdline_loop (CHR 0x00 # s) =
     (if s = [] \<or> hd s = CHR 0x00 then [] else CHR '' '' # cmdline_loop s)"
  by (cases s) auto

lemma cmdline_loop_args:
  assumes "args \<noteq> []" and "\<forall>a \<in> set args. a \<noteq> [] \<and> CHR 0x00 \<notin> set a" and "rest = [] \<or> hd rest = CHR 0x00"
  shows "cmdline_loop (cmdline_of args @ rest) = joined args"
  using assms(1,2)
proof (induction args rule: joined.induct)
  case (2 a)
  then show ?case using assms(3) by (simp add: cmdline_of_def cmdline_loop_word cmdline_loop_zero del: cmdline_loop.simps)
next
  case (3 a b as)
  obtain c cs where b: "b = c # cs" "c \<noteq> CHR 0x00" using 3(3) by (cases b) auto
  let ?s = "cmdline_of (b # as) @ rest"
  have "cmdline_loop (cmdline_of (a # b # as) @ rest) = a @ cmdline_loop (CHR 0x00 # ?s)"
    using 3(3) by (simp add: cmdline_of_def cmdline_loop_word del: cmdline_loop.simps)
  also have "\<dots> = a @ CHR '' '' # cmdline_loop ?s"
    using b by (simp add: cmdline_loop_zero cmdline_of_def del: cmdline_loop.simps)
  finally show ?case using 3 by simp
qed simp

lemma joined_nonempty: "args \<noteq> [] \<Longrightarrow> hd args \<noteq> [] \<Longrightarrow> joined args \<noteq> []"
  by (induction args rule: joined.induct) auto

text \<open>
  C21. The command shown is the command line of the process: for arguments that are not empty it is the
  arguments joined by blanks, and an empty argument ends it there; it must be shorter than 1024
  characters, otherwise \<open>strcat\<close> writes past the end of \<open>command\<close>.
\<close>

theorem command_line_shown:
  assumes "args \<noteq> []" and "\<forall>a \<in> set args. a \<noteq> [] \<and> CHR 0x00 \<notin> set a"
  shows "\<forall>rest. (rest = [] \<or> hd rest = CHR 0x00) \<longrightarrow>
    command_string c (cmdline_of args @ rest) =
      (if length (joined args) < 1024 then Inr (joined args) else Inl BufferOverflow)"
proof (intro allI impI)
  fix rest :: string
  assume r: "rest = [] \<or> hd rest = CHR 0x00"
  have "hd args \<noteq> []" using assms by (cases args) auto
  then show "command_string c (cmdline_of args @ rest) =
      (if length (joined args) < 1024 then Inr (joined args) else Inl BufferOverflow)"
    using cmdline_loop_args [OF assms r] joined_nonempty [OF assms(1)]
    by (simp add: command_string_def store_def)
qed

theorem command_line_shown_witness:
  "command_string ''ls'' (cmdline_of [''ls'', ''-l''] @ []) = Inr ''ls -l''"
  using command_line_shown [of "[''ls'', ''-l'']" "''ls''"] by simp

section \<open>/proc/pid/stat\<close>

lemma stat_tokens_words:
  assumes "os_readable env path" and "os_readable env (path @ ''/stat'')"
    and "os_file env (path @ ''/stat'') = Some (words_of ws @ r)"
    and "\<forall>w \<in> set ws. token 32 w" and "22 \<le> length ws"
  shows "stat_tokens env path = Inr (Some (take 22 ws))"
  using assms read_tokens_words [OF assms(4,5), of r] by (simp add: stat_tokens_def)

text \<open>
  What is read from \<open>/proc/pid/stat\<close>: for a program name without blanks the third word is the state
  and the fourth the parent. A name of two words shifts every later field by one: the state shown is
  the end of the name, and the parent is read from the state letter, which gives 0.
\<close>

theorem stat_fields:
  assumes "os_readable env path" and "os_readable env (path @ ''/stat'')"
    and "os_file env (path @ ''/stat'') = Some (words_of (show_int p # name @ state # show_int pp # others) @ r)"
    and "\<forall>w \<in> set (show_int p # name @ state # show_int pp # others). token 32 w"
    and "0 \<le> p" and "p < 2 ^ 31" and "0 \<le> pp" and "pp < 2 ^ 31"
    and "state = ''S'' \<or> state = ''R''" and "19 \<le> length others" and "name \<noteq> []"
  shows "\<exists>ts. stat_tokens env path = Inr (Some ts) \<and> ulong_token ts 0 = p
    \<and> (length name = 1 \<longrightarrow> ts ! 2 = state \<and> ulong_token ts 3 = pp)
    \<and> (length name = 2 \<longrightarrow> ts ! 2 = name ! 1 \<and> ulong_token ts 3 = 0)"
proof -
  let ?ws = "show_int p # name @ state # show_int pp # others"
  let ?ts = "take 22 ?ws"
  have t: "stat_tokens env path = Inr (Some ?ts)"
    by (rule stat_tokens_words [OF assms(1-4)]) (use assms(10,11) in \<open>cases name; simp\<close>)
  have n: "to_uint64 (atoi (show_int v)) = v" if "0 \<le> v" "v < 2 ^ 31" for v
    using that by (simp add: atoi_show_int to_uint64_def)
  have z: "to_uint64 (atoi state) = 0"
    using assms(9) by (auto simp: atoi_def scan_number_def skip_ws_def isspace_def take_sign_def isdigit_def
        to_uint64_def)
  have one: "length name = 1 \<longrightarrow> ?ts ! 2 = state \<and> ulong_token ?ts 3 = pp"
    using n [OF assms(7,8)] by (auto simp: ulong_token_def length_Suc_conv nth_take numeral_eq_Suc)
  have two: "length name = 2 \<longrightarrow> ?ts ! 2 = name ! 1 \<and> ulong_token ?ts 3 = 0"
    using z by (auto simp: ulong_token_def length_Suc_conv nth_take numeral_eq_Suc)
  have "ulong_token ?ts 0 = p" using n [OF assms(5,6)] by (simp add: ulong_token_def)
  with t one two show ?thesis by blast
qed

definition two_word_env :: os where
  "two_word_env = idle_env\<lparr>os_readable := \<lambda>_. True,
     os_file := \<lambda>_. Some (words_of (show_int 7 # [''(tmux:'', ''server)''] @ ''S'' # show_int 1 # replicate 19 ''0'') @ [])\<rparr>"

theorem stat_fields_witness:
  "\<exists>ts. stat_tokens two_word_env ''/proc/7'' = Inr (Some ts) \<and> ulong_token ts 0 = 7
    \<and> (length [''(tmux:'', ''server)''] = 1 \<longrightarrow> ts ! 2 = ''S'' \<and> ulong_token ts 3 = 1)
    \<and> (length [''(tmux:'', ''server)''] = 2 \<longrightarrow> ts ! 2 = [''(tmux:'', ''server)''] ! 1 \<and> ulong_token ts 3 = 0)"
  by (rule stat_fields [where others = "replicate 19 ''0''" and r = "[]"])
    (simp_all add: two_word_env_def token_def show_int_def show_nat.simps digit_char_def isspace_def)

section \<open>Options\<close>

lemma letters_digits:
  assumes "\<forall>c \<in> set arg. isdigit c"
  shows "foldl option_letter o' arg = o'"
proof -
  have "\<not> isdigit (CHR ''a'')" "\<not> isdigit (CHR ''e'')" "\<not> isdigit (CHR ''f'')" "\<not> isdigit (CHR ''h'')"
    "\<not> isdigit (CHR ''p'')" "\<not> isdigit (CHR ''u'')" "\<not> isdigit (CHR ''x'')"
    by (simp_all add: isdigit_def)
  then have n: "c \<noteq> CHR ''a''" "c \<noteq> CHR ''e''" "c \<noteq> CHR ''f''" "c \<noteq> CHR ''h''" "c \<noteq> CHR ''p''" "c \<noteq> CHR ''u''"
    "c \<noteq> CHR ''x''" if "isdigit c" for c
    using that by blast+
  have "option_letter o' c = o'" if "isdigit c" for c o'
    by (simp only: option_letter_def n [OF that] if_False)
  with assms show ?thesis by (induction arg) auto
qed

lemma show_int_digits: "0 \<le> v \<Longrightarrow> \<forall>c \<in> set (show_int v). isdigit c"
  using show_nat_digits by (simp add: show_int_def)

lemma parse_pids:
  assumes "pOption o'" and "\<forall>v \<in> set vs. 0 \<le> v \<and> v < 2 ^ 31" and "length (pidList o') + length vs \<le> 32768"
  shows "parse_args o' (map show_int vs) = Inr (o'\<lparr>pidList := pidList o' @ vs\<rparr>)"
  using assms
proof (induction vs arbitrary: o')
  case (Cons v vs)
  have v: "\<forall>c \<in> set (show_int v). isdigit c" "atoi (show_int v) = v" "to_uint64 v = v"
    using Cons.prems(2) show_int_digits [of v] by (simp_all add: atoi_show_int to_uint64_def)
  with Cons show ?case by (simp add: pid_argument_def letters_digits)
qed simp

text \<open>
  The option \<open>p\<close>: the numbers printed after it are read back as the list of processes to show, and the
  option implies \<open>a\<close> and \<open>x\<close>; an argument after it with a character that is no digit ends the
  program, with the exit status 0 of success.
\<close>

theorem pid_option:
  assumes "\<forall>v \<in> set vs. 0 \<le> v \<and> v < 2 ^ 31" and "length vs \<le> 32767"
  shows "parse_args no_options (''-p'' # map show_int vs) =
      Inr (no_options\<lparr>pOption := True, aOption := True, xOption := True, pidList := vs\<rparr>)
    \<and> (\<forall>arg args. (\<exists>c \<in> set arg. \<not> isdigit c) \<longrightarrow>
        parse_args no_options (''-p'' # map show_int vs @ arg # args) = Inl (Exit 0))"
proof -
  let ?o = "no_options\<lparr>pOption := True, aOption := True, xOption := True\<rparr>"
  have s: "parse_args no_options (''-p'' # args) = parse_args ?o args" for args
    by (simp add: pid_argument_def option_letter_def) (simp add: no_options_def)
  have p: "parse_args ?o (map show_int vs) = Inr (?o\<lparr>pidList := vs\<rparr>)"
    using parse_pids [of ?o vs] assms by (simp add: no_options_def)
  have app: "parse_args o' (xs @ ys) = bindR (parse_args o' xs) (\<lambda>o1. parse_args o1 ys)" for o' xs ys
    by (induction xs arbitrary: o') (simp_all add: bindR_assoc)
  have "parse_args (?o\<lparr>pidList := vs\<rparr>) (arg # args) = Inl (Exit 0)" if "\<exists>c \<in> set arg. \<not> isdigit c" for arg args
    using that by (auto simp: pid_argument_def ErrorFunc_def no_options_def)
  with s p show ?thesis by (simp only: app bindR_simps) blast
qed

theorem pid_option_witness:
  "parse_args no_options (''-p'' # map show_int [1, 12]) =
      Inr (no_options\<lparr>pOption := True, aOption := True, xOption := True, pidList := [1, 12]\<rparr>)
    \<and> parse_args no_options (''-p'' # map show_int [1, 12] @ [''1a'']) = Inl (Exit 0)"
proof -
  have "\<exists>c \<in> set ''1a''. \<not> isdigit c" by (simp add: isdigit_def)
  moreover have p: "\<forall>v \<in> set [1, 12]. 0 \<le> v \<and> v < (2 ^ 31 :: int)" "length [1, 12 :: int] \<le> 32767" by simp_all
  ultimately show ?thesis using pid_option [OF p] by blast
qed

end
