(* ===== verification/Mylscpu.thy ===== *)
theory Mylscpu
  imports Proc
begin

text \<open>
  \<open>src/Assignment_2/mylscpu.c\<close>: what is read from \<open>/proc/cpuinfo\<close> and \<open>/sys\<close>, and the printed
  report. The files, the directories and the width of the terminal come from the environment of
  \<open>Proc\<close>; \<open>uname\<close> and the byte order of the machine are arguments of \<open>main\<close>.
\<close>

section \<open>State\<close>

record cpuInfo =
  arch :: string
  opmode :: string
  byteorder :: string
  addrsize :: string
  online :: string
  venderid :: string
  cpufamily :: string
  model :: string
  modelname :: string
  stepping :: string
  speed :: string
  bogomips :: string
  vulnerability :: "string list"
  flags :: string
  numofcpu :: int
  threads :: int
  cores :: int
  sockets :: int
  siblings :: int

record lscpu =
  info :: cpuInfo
  cacheStr :: "string list"
  cacheVal :: "int list"
  nodeCnt :: int

definition blank :: string where
  "blank = spaces 33"

definition init_lscpu :: lscpu where
  "init_lscpu =
     \<lparr>info = \<lparr>arch = [], opmode = [], byteorder = [], addrsize = [], online = [], venderid = [],
        cpufamily = [], model = [], modelname = [], stepping = [], speed = [], bogomips = [],
        vulnerability = replicate 9 [], flags = [], numofcpu = 0, threads = 0, cores = 0, sockets = 0,
        siblings = 0\<rparr>,
      cacheStr = replicate 4 [], cacheVal = replicate 4 0, nodeCnt = 0\<rparr>"

section \<open>/proc/cpuinfo\<close>

text \<open>The first loop counts the lines that start with \<open>processor\<close>.\<close>

function count_processors :: "string \<Rightarrow> int" where
  "count_processors s =
     (if s = [] then 0
      else case fgets_line 1024 s of (l, r) \<Rightarrow>
        (if take 9 l = ''processor'' then 1 else 0) + count_processors r)"
  by auto
termination
  by (relation "measure length") (auto simp: fgets_line_def Let_def)

declare count_processors.simps [simp del]

text \<open>The loop that looks for a colon: the text two places after it, or the whole line.\<close>

definition after_colon :: "string \<Rightarrow> string res" where
  "after_colon buf =
     (let r = dropWhile (\<lambda>c. c \<noteq> CHR '':'') buf in
      if r = [] then Inr buf
      else if length buf = 1023 \<and> length r = 1 then Inl OutOfBounds
      else Inr (drop 2 r))"

text \<open>\<open>n\<close> more lines, then the value of the last of them.\<close>

definition cpuinfo_row :: "nat \<Rightarrow> string \<Rightarrow> (string \<times> string) res" where
  "cpuinfo_row n s =
     (case fgets_rows n [] s of (buf, r) \<Rightarrow> bindR (after_colon buf) (\<lambda>v. Inr (v, r)))"

text \<open>The two quotients at the end; \<open>unsigned long\<close> division by zero is undefined.\<close>

definition cpu_topology :: "cpuInfo \<Rightarrow> cpuInfo res" where
  "cpu_topology i =
     (if cores i = 0 then Inl DivByZero
      else let t = siblings i div cores i in
        if t = 0 then Inl DivByZero
        else Inr (i\<lparr>threads := t, sockets := (numofcpu i div t) div cores i\<rparr>))"

definition ReadCpuInfo :: "os \<Rightarrow> cpuInfo \<Rightarrow> cpuInfo res" where
  "ReadCpuInfo env i =
     (case os_file env ''/proc/cpuinfo'' of
        None \<Rightarrow> Inl (Exit 1)
      | Some s \<Rightarrow>
          bindR (cpuinfo_row 2 s) (\<lambda>(v2, s2).
          bindR (cpuinfo_row 1 s2) (\<lambda>(v3, s3).
          bindR (cpuinfo_row 1 s3) (\<lambda>(v4, s4).
          bindR (cpuinfo_row 1 s4) (\<lambda>(v5, s5).
          bindR (cpuinfo_row 1 s5) (\<lambda>(v6, s6).
          bindR (cpuinfo_row 2 s6) (\<lambda>(v8, s8).
          bindR (cpuinfo_row 3 s8) (\<lambda>(v11, s11).
          bindR (cpuinfo_row 2 s11) (\<lambda>(v13, s13).
          bindR (cpuinfo_row 7 s13) (\<lambda>(v20, s20).
          bindR (cpuinfo_row 2 s20) (\<lambda>(v22, s22).
          bindR (cpuinfo_row 4 s22) (\<lambda>(v26, s26).
            cpu_topology
              (i\<lparr>numofcpu := to_uint64 (count_processors s), venderid := v2, cpufamily := v3, model := v4,
                 modelname := v5, stepping := v6, speed := v8, siblings := sscanf_lu v11 (siblings i),
                 cores := sscanf_lu v13 (cores i), flags := v20, bogomips := v22,
                 addrsize := v26\<rparr>)))))))))))))"

section \<open>/sys\<close>

text \<open>The size of a cache in a file, cut at the first character that is no digit.\<close>

definition cache_size :: "os \<Rightarrow> string \<Rightarrow> int res" where
  "cache_size env path =
     (case os_file env path of
        None \<Rightarrow> Inl (Exit 1)
      | Some s \<Rightarrow> Inr (atoi (takeWhile isdigit (fst (fgets_line 1024 s)))))"

text \<open>\<open>cacheVal[i] *= n\<close> in \<open>unsigned long\<close>, stored in an \<open>int\<close>.\<close>

definition times_count :: "int \<Rightarrow> int \<Rightarrow> int" where
  "times_count v n = to_int32 (to_uint64 (to_uint64 v * n))"

definition cache_unit :: "int \<Rightarrow> int \<times> string" where
  "cache_unit v = (if v \<ge> 1024 then (v div 1024, ''MiB'') else (v, ''KiB''))"

definition cache_index :: "string \<Rightarrow> string" where
  "cache_index k = ''/sys/devices/system/cpu/cpu0/cache/index'' @ k @ ''/size''"

definition ReadFileSystemCPU :: "os \<Rightarrow> lscpu \<Rightarrow> lscpu res" where
  "ReadFileSystemCPU env st =
     (case os_file env ''/sys/devices/system/cpu/online'' of
        None \<Rightarrow> Inl (Exit 1)
      | Some s \<Rightarrow>
          let l = fst (fgets_line 1024 s);
              i = (info st)\<lparr>online := (if s = [] then online (info st) else l)\<rparr> in
          bindR (cache_size env (cache_index ''0'')) (\<lambda>c0.
          bindR (cache_size env (cache_index ''1'')) (\<lambda>c1.
          bindR (cache_size env (cache_index ''2'')) (\<lambda>c2.
          bindR (cache_size env (cache_index ''3'')) (\<lambda>c3.
            let vs = map cache_unit [times_count c0 (numofcpu i), times_count c1 (numofcpu i),
                       times_count c2 (numofcpu i), times_count c3 (sockets i)] in
            Inr (st\<lparr>info := i, cacheVal := map fst vs, cacheStr := map snd vs\<rparr>))))))"

fun count_nodes :: "os \<Rightarrow> string list \<Rightarrow> int \<Rightarrow> int res" where
  "count_nodes env [] n = Inr n"
| "count_nodes env (name # names) n =
     (case os_stat env (''/sys/devices/system/node/'' @ name) of
        None \<Rightarrow> Inl (Exit 1)
      | Some fs \<Rightarrow>
          count_nodes env names (if st_dir fs \<and> take 4 name = ''node'' then n + 1 else n))"

definition ReadFileSystemNode :: "os \<Rightarrow> lscpu \<Rightarrow> lscpu res" where
  "ReadFileSystemNode env st =
     (case os_dir env ''/sys/devices/system/node'' of
        None \<Rightarrow> Inl (Exit 1)
      | Some names \<Rightarrow> bindR (count_nodes env names (nodeCnt st)) (\<lambda>n. Inr (st\<lparr>nodeCnt := n\<rparr>)))"

definition vul_names :: "string list" where
  "vul_names = [''itlb_multihit'', ''l1tf'', ''mds'', ''meltdown'', ''spec_store_bypass'',
     ''spectre_v1'', ''spectre_v2'', ''srbds'', ''tsx_async_abort'']"

text \<open>
  The chain of \<open>strcmp\<close>: an entry with one of the nine names stores the first line of the file in
  that place.
\<close>

definition store_vul :: "string \<Rightarrow> string \<Rightarrow> string list \<Rightarrow> string list" where
  "store_vul name s vs =
     map (\<lambda>(n, v). if name = n then fst (fgets_line 1024 s) else v) (zip vul_names vs)"

text \<open>The loop over the directory, which ends at the first entry that cannot be opened.\<close>

fun read_vuls :: "os \<Rightarrow> string list \<Rightarrow> string list \<Rightarrow> string list" where
  "read_vuls env [] vs = vs"
| "read_vuls env (name # names) vs =
     (case os_file env (''/sys/devices/system/cpu/vulnerabilities//'' @ name) of
        None \<Rightarrow> vs
      | Some s \<Rightarrow> read_vuls env names (store_vul name s vs))"

definition ReadFileSystemVul :: "os \<Rightarrow> lscpu \<Rightarrow> lscpu res" where
  "ReadFileSystemVul env st =
     (case os_dir env ''/sys/devices/system/cpu/vulnerabilities/'' of
        None \<Rightarrow> Inl (Exit 1)
      | Some names \<Rightarrow>
          Inr (st\<lparr>info := (info st)\<lparr>vulnerability := read_vuls env names (vulnerability (info st))\<rparr>\<rparr>))"

section \<open>The report\<close>

text \<open>
  The loop of \<open>PrintTerminal\<close> over the bytes of the array from place \<open>i\<close> on: 33 blanks before every
  place that is a multiple of \<open>termWidth - 33\<close>, except the first. It ends at a newline only.
\<close>

fun print_chars :: "int \<Rightarrow> nat \<Rightarrow> string \<Rightarrow> string res" where
  "print_chars w i [] = Inl OutOfBounds"
| "print_chars w i (c # cs) =
     (if c = CHR 0x0A then Inr nl
      else if i \<noteq> 0 \<and> w - 33 = 0 then Inl DivByZero
      else bindR (print_chars w (Suc i) cs) (\<lambda>r.
        Inr ((if i \<noteq> 0 \<and> c_mod (int i) (w - 33) = 0 then blank else []) @ c # r)))"

text \<open>A text in an array of the given size is followed by zeros.\<close>

definition PrintTerminal :: "int \<Rightarrow> nat \<Rightarrow> string \<Rightarrow> string res" where
  "PrintTerminal w sz p = print_chars w 0 (p @ replicate (sz - length p) (CHR 0x00))"

definition line_of :: "int \<Rightarrow> nat \<Rightarrow> string \<times> string \<Rightarrow> string res" where
  "line_of w sz hp = bindR (PrintTerminal w sz (snd hp)) (\<lambda>t. Inr (fst hp @ t))"

fun lines_of :: "int \<Rightarrow> nat \<Rightarrow> (string \<times> string) list \<Rightarrow> string res" where
  "lines_of w sz [] = Inr []"
| "lines_of w sz (hp # hps) =
     bindR (line_of w sz hp) (\<lambda>l. bindR (lines_of w sz hps) (\<lambda>ls. Inr (l @ ls)))"

text \<open>The heading of a line, padded to 33 places.\<close>

definition heading :: "string \<Rightarrow> string" where
  "heading h = h @ spaces (33 - length h)"

definition summary :: "lscpu \<Rightarrow> string" where
  "summary st =
     (let i = info st in
      heading ''Architecture:'' @ arch i @ nl @ heading ''CPU op-mode(s):'' @ opmode i @ nl @
      heading ''Byte Order:'' @ byteorder i @ nl @ heading ''Address sizes:'' @ addrsize i @
      heading ''CPU(s):'' @ show_int (numofcpu i) @ nl @ heading ''On-line CPU(s) list:'' @ online i @
      heading ''Thread(s) per core:'' @ show_int (threads i) @ nl @
      heading ''Core(s) per socket:'' @ show_int (cores i) @ nl @
      heading ''Socket(s):'' @ show_int (sockets i) @ nl @
      heading ''NUMA node(s):'' @ show_int (nodeCnt st) @ nl)"

definition cache_lines :: "lscpu \<Rightarrow> string" where
  "cache_lines st =
     concat (map (\<lambda>(h, v, u). heading h @ show_int v @ '' '' @ u @ nl)
       (zip [''L1d cache:'', ''L1i cache:'', ''L2 cache:'', ''L3 cache:'']
            (zip (cacheVal st) (cacheStr st))))"

definition vul_headings :: "string list" where
  "vul_headings = [''Itlb multihit:'', ''L1tf:'', ''Mds:'', ''Meltdown:'', ''Spec store bypass:'',
     ''Spectre v1:'', ''Spectre v2:'', ''Srbds:'', ''Tsx async abort:'']"

definition PrintLSCPU :: "int \<Rightarrow> lscpu \<Rightarrow> string res" where
  "PrintLSCPU w st =
     (let i = info st in
      bindR (lines_of w 1024
        [(heading ''Vendor ID:'', venderid i), (heading ''CPU family:'', cpufamily i),
         (heading ''Model:'', model i), (heading ''Model name:'', modelname i),
         (heading ''Stepping:'', stepping i), (heading ''CPU MHz:'', speed i),
         (heading ''BogoMIPS:'', bogomips i)]) (\<lambda>a.
      bindR (line_of w 1024 (heading ''NUMA node0 CPU(s):'', online i)) (\<lambda>b.
      bindR (lines_of w 1024
        (map (\<lambda>(h, v). (heading (''Vulnerability '' @ h), v)) (zip vul_headings (vulnerability i)))) (\<lambda>c.
      bindR (line_of w 2048 (heading ''Flags:'', flags i)) (\<lambda>d.
        Inr (summary st @ a @ cache_lines st @ b @ c @ d))))))"

section \<open>Main\<close>

text \<open>The bytes of an \<open>int\<close> in memory, and the test on the first byte of \<open>0x12345678\<close>.\<close>

definition int_bytes :: "bool \<Rightarrow> int \<Rightarrow> int list" where
  "int_bytes little n =
     (let bs = [n mod 256, (n div 256) mod 256, (n div 65536) mod 256, (n div 16777216) mod 256] in
      if little then bs else [bs ! 3, bs ! 2, bs ! 1, bs ! 0])"

definition byte_order :: "bool \<Rightarrow> string" where
  "byte_order little =
     (if int_bytes little 0x12345678 ! 0 > 0x20 then ''Little Endian'' else ''Big Endian'')"

definition lscpu_main :: "os \<Rightarrow> bool \<Rightarrow> string \<Rightarrow> string res" where
  "lscpu_main env little machine =
     (let i0 = (info init_lscpu)\<lparr>arch := machine, opmode := ''32-bit, 64-bit'',
                 byteorder := byte_order little\<rparr> in
      bindR (ReadCpuInfo env i0) (\<lambda>i.
      bindR (ReadFileSystemCPU env (init_lscpu\<lparr>info := i\<rparr>)) (\<lambda>st1.
      bindR (ReadFileSystemNode env st1) (\<lambda>st2.
      bindR (ReadFileSystemVul env st2) (PrintLSCPU (os_cols env))))))"

end
