(* ===== verification/Mylscpu_Props.thy ===== *)
theory Mylscpu_Props
  imports Mylscpu Line_Laws
begin

text \<open>
  The properties of \<open>mylscpu\<close>: the wrapped output of \<open>PrintTerminal\<close>, the values read from
  \<open>/proc/cpuinfo\<close>, the counts of threads and sockets, and when the report runs out of an array.
\<close>

section \<open>PrintTerminal\<close>

text \<open>A text in rows of \<open>n\<close> characters, the rows after the first indented by 33 blanks.\<close>

function rows_of :: "nat \<Rightarrow> string \<Rightarrow> string list" where
  "rows_of n t = (if n = 0 \<or> length t \<le> n then [t] else take n t # rows_of n (drop n t))"
  by auto
termination
  by (relation "measure (\<lambda>(n, t). length t)") auto

declare rows_of.simps [simp del]

fun indented :: "string list \<Rightarrow> string" where
  "indented [] = []"
| "indented [r] = r"
| "indented (r # r' # rs) = r @ blank @ indented (r' # rs)"

lemma rows_of_length: "0 < n \<Longrightarrow> r \<in> set (rows_of n t) \<Longrightarrow> length r \<le> n"
proof (induction n t rule: rows_of.induct)
  case (1 n t)
  then show ?case by (subst (asm) rows_of.simps) (auto split: if_splits)
qed

lemma rows_of_concat: "concat (rows_of n t) = t"
proof (induction n t rule: rows_of.induct)
  case (1 n t)
  then show ?case by (subst rows_of.simps) auto
qed

lemma c_mod_int: "0 < n \<Longrightarrow> c_mod (int i) (int n) = int (i mod n)"
  by (simp add: c_mod_nonneg zmod_int)

lemma rows_of_Cons: "\<exists>x xs. rows_of n t = x # xs"
  by (subst rows_of.simps) auto

text \<open>Inside a row the characters are printed as they are.\<close>

lemma print_inside:
  assumes "int n = w - 33" and "0 < n" and "CHR 0x0A \<notin> set u" and "0 < d" and "d + length u \<le> n"
  shows "print_chars w (k * n + d) (u @ s) = bindR (print_chars w (k * n + d + length u) s) (\<lambda>r. Inr (u @ r))"
  using assms(3-5)
proof (induction u arbitrary: d)
  case Nil
  show ?case by (cases "print_chars w (k * n + d) s") auto
next
  case (Cons c u)
  have "(k * n + d) mod n = d" using Cons.prems by simp
  then have "c_mod (int (k * n + d)) (w - 33) \<noteq> 0"
    unfolding assms(1) [symmetric] c_mod_int [OF assms(2)] using Cons.prems(2) by simp
  moreover have "c \<noteq> CHR 0x0A" "w - 33 \<noteq> 0" using Cons.prems(1) assms(1,2) by auto
  moreover have "print_chars w (k * n + Suc d) (u @ s) =
      bindR (print_chars w (k * n + Suc d + length u) s) (\<lambda>r. Inr (u @ r))"
    by (rule Cons.IH) (use Cons.prems in auto)
  ultimately show ?case
    by (cases "print_chars w (k * n + Suc d + length u) s") (auto simp del: of_nat_add of_nat_mult)
qed

lemma print_row:
  assumes "int n = w - 33" and "0 < n" and "CHR 0x0A \<notin> set u" and "u \<noteq> []" and "length u \<le> n"
  shows "print_chars w (k * n) (u @ s) =
    bindR (print_chars w (k * n + length u) s) (\<lambda>r. Inr ((if k = 0 then [] else blank) @ u @ r))"
proof -
  obtain c v where u: "u = c # v" using assms(4) by (cases u) auto
  have "c_mod (int (k * n)) (w - 33) = 0"
    unfolding assms(1) [symmetric] c_mod_int [OF assms(2)] by simp
  moreover have "c \<noteq> CHR 0x0A" "w - 33 \<noteq> 0" using assms(1-3) u by auto
  moreover have "print_chars w (Suc (k * n)) (v @ s) =
      bindR (print_chars w (k * n + length u) s) (\<lambda>r. Inr (v @ r))"
    using print_inside [OF assms(1,2), of v 1 k s] assms(3,5) u by simp
  ultimately show ?thesis
    using assms(2) u by (cases "print_chars w (k * n + length u) s") (auto simp del: of_nat_mult)
qed

lemma print_rows_of:
  assumes "int n = w - 33" and "0 < n" and "CHR 0x0A \<notin> set t" and "t \<noteq> []"
  shows "print_chars w (k * n) (t @ nl @ s) =
    Inr ((if k = 0 then [] else blank) @ indented (rows_of n t) @ nl)"
  using assms(3,4)
proof (induction "length t" arbitrary: t k rule: less_induct)
  case less
  show ?case
  proof (cases "length t \<le> n")
    case True
    with print_row [OF assms(1,2) less.prems, of k "nl @ s"] show ?thesis
      by (subst rows_of.simps) (simp add: nl_def)
  next
    case False
    let ?u = "take n t" and ?v = "drop n t"
    have v: "?v \<noteq> []" "CHR 0x0A \<notin> set ?v" "CHR 0x0A \<notin> set ?u" "?u \<noteq> []"
      using False less.prems assms(2) by (auto dest: in_set_dropD in_set_takeD)
    have "print_chars w (Suc k * n) (?v @ nl @ s) = Inr (blank @ indented (rows_of n ?v) @ nl)"
      using less.hyps [of ?v "Suc k"] False assms(2) v by simp
    with print_row [OF assms(1,2) v(3,4), of k "?v @ nl @ s"] False
    have p: "print_chars w (k * n) (?u @ ?v @ nl @ s) =
        Inr ((if k = 0 then [] else blank) @ ?u @ blank @ indented (rows_of n ?v) @ nl)"
      by (simp add: add.commute)
    have r: "rows_of n t = ?u # rows_of n ?v" using False assms(2) by (subst rows_of.simps) simp
    obtain x xs where "rows_of n ?v = x # xs" using rows_of_Cons by blast
    then have "indented (rows_of n t) = ?u @ blank @ indented (rows_of n ?v)" using r by simp
    then show ?thesis using p by (metis append_assoc append_take_drop_id)
  qed
qed

text \<open>
  \<open>PrintTerminal\<close> prints a text in rows: on a terminal of more than 33 columns, a line that fits
  its array is printed completely, cut into rows of \<open>termWidth - 33\<close> characters, each row but the
  first after 33 blanks. With the 33 columns of the heading every row fits the terminal.
\<close>

theorem print_terminal_wraps:
  assumes "33 < w" and "CHR 0x0A \<notin> set t" and "t \<noteq> []"
  shows "PrintTerminal w sz (t @ nl) = Inr (indented (rows_of (nat (w - 33)) t) @ nl)
    \<and> concat (rows_of (nat (w - 33)) t) = t
    \<and> (\<forall>r \<in> set (rows_of (nat (w - 33)) t). 33 + int (length r) \<le> w)"
proof (intro conjI ballI)
  show "PrintTerminal w sz (t @ nl) = Inr (indented (rows_of (nat (w - 33)) t) @ nl)"
    using print_rows_of [of "nat (w - 33)" w t 0] assms by (simp add: PrintTerminal_def)
  show "concat (rows_of (nat (w - 33)) t) = t" by (rule rows_of_concat)
  fix r assume "r \<in> set (rows_of (nat (w - 33)) t)"
  then have "length r \<le> nat (w - 33)" using assms(1) by (intro rows_of_length) auto
  then show "33 + int (length r) \<le> w" using assms(1) by linarith
qed

theorem print_terminal_wraps_witness:
  "PrintTerminal 36 1024 (''abcdefgh'' @ nl) = Inr (''abc'' @ blank @ ''def'' @ blank @ ''gh'' @ nl)"
proof -
  have "rows_of 3 ''abcdefgh'' = [''abc'', ''def'', ''gh'']" by (simp add: rows_of.simps)
  with print_terminal_wraps [of 36 "''abcdefgh''" 1024] show ?thesis by simp
qed

section \<open>/proc/cpuinfo\<close>

text \<open>A line with a name, a colon, a blank and a value.\<close>

definition named_row :: "string list \<Rightarrow> nat \<Rightarrow> string \<Rightarrow> bool" where
  "named_row ls k v \<longleftrightarrow> dropWhile (\<lambda>c. c \<noteq> CHR '':'') (ls ! k) = '': '' @ v"

lemma after_colon_named:
  assumes "dropWhile (\<lambda>c. c \<noteq> CHR '':'') l = '': '' @ v"
  shows "after_colon (l @ nl) = Inr (v @ nl)"
proof -
  have "dropWhile (\<lambda>c. c \<noteq> CHR '':'') (l @ nl) = '': '' @ v @ nl"
    using assms by (auto simp: dropWhile_append dropWhile_eq_Nil_conv [symmetric])
  then show ?thesis by (simp add: after_colon_def)
qed

lemma cpuinfo_row_named:
  assumes "\<forall>l \<in> set ls. plain_line l" and "k + n < length ls" and "named_row ls (k + n) v"
  shows "cpuinfo_row (Suc n) (text_of (drop k ls) @ r) = Inr (v @ nl, text_of (drop (Suc (k + n)) ls) @ r)"
  using after_colon_named [of "ls ! (k + n)" v] fgets_rows_from [OF assms(1,2), of "[]" r] assms(3)
  unfolding cpuinfo_row_def named_row_def by simp

lemma scan_lu_show_int:
  "0 \<le> v \<Longrightarrow> v < 2 ^ 64 \<Longrightarrow> ys = [] \<or> \<not> isdigit (hd ys) \<Longrightarrow> scan_lu (show_int v @ ys) = ScanOk v ys"
  by (simp add: scan_lu_def scan_number_show_int clamp_ulong_def)

lemma sscanf_lu_line: "0 \<le> v \<Longrightarrow> v < 2 ^ 64 \<Longrightarrow> sscanf_lu (show_int v @ nl) old = v"
  by (simp add: sscanf_lu_def scan_lu_show_int nl_def isdigit_def)

text \<open>The rows the program reads (from 0), with the values.\<close>

definition cpuinfo_file :: "string list \<Rightarrow> cpuInfo \<Rightarrow> bool" where
  "cpuinfo_file ls v \<longleftrightarrow> (\<forall>l \<in> set ls. plain_line l) \<and> 26 \<le> length ls
     \<and> named_row ls 1 (venderid v) \<and> named_row ls 2 (cpufamily v) \<and> named_row ls 3 (model v)
     \<and> named_row ls 4 (modelname v) \<and> named_row ls 5 (stepping v) \<and> named_row ls 7 (speed v)
     \<and> named_row ls 10 (show_int (siblings v)) \<and> named_row ls 12 (show_int (cores v))
     \<and> named_row ls 19 (flags v) \<and> named_row ls 21 (bogomips v) \<and> named_row ls 25 (addrsize v)
     \<and> 0 \<le> siblings v \<and> siblings v < 2 ^ 64 \<and> 0 \<le> cores v \<and> cores v < 2 ^ 64"

lemma cpuinfo_file_rows:
  assumes "cpuinfo_file ls v"
  shows "cpuinfo_row 2 (text_of ls @ r) = Inr (venderid v @ nl, text_of (drop 2 ls) @ r)"
    and "cpuinfo_row 1 (text_of (drop 2 ls) @ r) = Inr (cpufamily v @ nl, text_of (drop 3 ls) @ r)"
    and "cpuinfo_row 1 (text_of (drop 3 ls) @ r) = Inr (model v @ nl, text_of (drop 4 ls) @ r)"
    and "cpuinfo_row 1 (text_of (drop 4 ls) @ r) = Inr (modelname v @ nl, text_of (drop 5 ls) @ r)"
    and "cpuinfo_row 1 (text_of (drop 5 ls) @ r) = Inr (stepping v @ nl, text_of (drop 6 ls) @ r)"
    and "cpuinfo_row 2 (text_of (drop 6 ls) @ r) = Inr (speed v @ nl, text_of (drop 8 ls) @ r)"
    and "cpuinfo_row 3 (text_of (drop 8 ls) @ r) = Inr (show_int (siblings v) @ nl, text_of (drop 11 ls) @ r)"
    and "cpuinfo_row 2 (text_of (drop 11 ls) @ r) = Inr (show_int (cores v) @ nl, text_of (drop 13 ls) @ r)"
    and "cpuinfo_row 7 (text_of (drop 13 ls) @ r) = Inr (flags v @ nl, text_of (drop 20 ls) @ r)"
    and "cpuinfo_row 2 (text_of (drop 20 ls) @ r) = Inr (bogomips v @ nl, text_of (drop 22 ls) @ r)"
    and "cpuinfo_row 4 (text_of (drop 22 ls) @ r) = Inr (addrsize v @ nl, text_of (drop 26 ls) @ r)"
  using assms
    cpuinfo_row_named [of ls 0 1 _ r] cpuinfo_row_named [of ls 2 0 _ r] cpuinfo_row_named [of ls 3 0 _ r]
    cpuinfo_row_named [of ls 4 0 _ r] cpuinfo_row_named [of ls 5 0 _ r] cpuinfo_row_named [of ls 6 1 _ r]
    cpuinfo_row_named [of ls 8 2 _ r] cpuinfo_row_named [of ls 11 1 _ r] cpuinfo_row_named [of ls 13 6 _ r]
    cpuinfo_row_named [of ls 20 1 _ r] cpuinfo_row_named [of ls 22 3 _ r]
  by (simp_all add: cpuinfo_file_def eval_nat_numeral)

definition read_values :: "string \<Rightarrow> cpuInfo \<Rightarrow> cpuInfo \<Rightarrow> cpuInfo" where
  "read_values content v i =
     i\<lparr>numofcpu := to_uint64 (count_processors content), venderid := venderid v @ nl,
       cpufamily := cpufamily v @ nl, model := model v @ nl, modelname := modelname v @ nl,
       stepping := stepping v @ nl, speed := speed v @ nl, siblings := siblings v, cores := cores v,
       flags := flags v @ nl, bogomips := bogomips v @ nl, addrsize := addrsize v @ nl\<rparr>"

lemma ReadCpuInfo_values:
  assumes "cpuinfo_file ls v" and "os_file env ''/proc/cpuinfo'' = Some (text_of ls @ r)"
  shows "ReadCpuInfo env i = cpu_topology (read_values (text_of ls @ r) v i)"
proof -
  have n: "sscanf_lu (show_int (siblings v) @ nl) old = siblings v"
    "sscanf_lu (show_int (cores v) @ nl) old = cores v" for old
    using assms(1) by (simp_all add: cpuinfo_file_def sscanf_lu_line)
  show ?thesis
    by (simp only: ReadCpuInfo_def assms(2) option.case cpuinfo_file_rows [OF assms(1)] bindR_simps
        prod.case n read_values_def)
qed

text \<open>
  C15. Reading back a printed \<open>/proc/cpuinfo\<close>: when its first 26 lines fit the buffer and the rows the
  program looks at have a name, a colon and a value, the program stores exactly these values (with
  their newline) and the two numbers, and then divides: it fails only when there is no core or
  fewer siblings than cores.
\<close>

theorem cpuinfo_roundtrip:
  assumes "cpuinfo_file ls v" and "os_file env ''/proc/cpuinfo'' = Some (text_of ls @ r)"
  shows "ReadCpuInfo env i = cpu_topology (read_values (text_of ls @ r) v i)
    \<and> ((\<exists>i'. ReadCpuInfo env i = Inr i') \<longleftrightarrow> 0 < cores v \<and> cores v \<le> siblings v)"
proof -
  note e = ReadCpuInfo_values [OF assms, of i]
  have n: "0 \<le> siblings v" "0 \<le> cores v" using assms(1) by (simp_all add: cpuinfo_file_def)
  then have "siblings v div cores v = 0 \<longleftrightarrow> siblings v < cores v" if "0 < cores v"
    using that by (auto simp: zdiv_eq_0_iff)
  then have "(\<exists>i'. ReadCpuInfo env i = Inr i') \<longleftrightarrow> 0 < cores v \<and> cores v \<le> siblings v"
    unfolding e using n by (auto simp: cpu_topology_def Let_def read_values_def)
  with e show ?thesis by blast
qed

definition sample_values :: cpuInfo where
  "sample_values = (info init_lscpu)\<lparr>venderid := ''v'', siblings := 4, cores := 2\<rparr>"

definition sample_lines :: "string list" where
  "sample_lines = (replicate 26 ''k: '')[1 := ''vendor_id: v'', 10 := ''siblings: 4'', 12 := ''cpu cores: 2'']"

definition sample_env :: os where
  "sample_env = \<lparr>os_file = (\<lambda>_. Some (text_of sample_lines @ [])), os_exists = \<lambda>_. True, os_readable = \<lambda>_. True,
     os_dir = \<lambda>_. None, os_stat = \<lambda>_. None, os_link = \<lambda>_. None, os_user = \<lambda>_. None, os_time = 0, os_tz = \<lambda>_. 0,
     os_hertz = 100, os_pid = 1, os_uid = 0, os_cols = 80\<rparr>"

lemma sample_file: "cpuinfo_file sample_lines sample_values"
  by code_simp

theorem cpuinfo_roundtrip_witness:
  "ReadCpuInfo sample_env (info init_lscpu) =
      cpu_topology (read_values (text_of sample_lines @ []) sample_values (info init_lscpu))
    \<and> ((\<exists>i'. ReadCpuInfo sample_env (info init_lscpu) = Inr i') \<longleftrightarrow>
        0 < cores sample_values \<and> cores sample_values \<le> siblings sample_values)"
  by (rule cpuinfo_roundtrip [OF sample_file]) (simp add: sample_env_def)

section \<open>Threads and sockets\<close>

text \<open>
  On a machine with the same number of cores in every socket and of threads in every core, the
  program reports these numbers. The size of the first three caches is multiplied by the number of
  logical CPUs: where every core has one cache of that size, the report is the true total times the
  number of threads in a core.
\<close>

theorem topology_correct:
  assumes "0 < t" and "0 < c" and "siblings i = c * t" and "cores i = c" and "numofcpu i = n * c * t"
    and "0 \<le> n" and "0 \<le> size1" and "size1 * (n * c * t) < 2 ^ 31"
  shows "\<exists>i'. cpu_topology i = Inr i' \<and> threads i' = t \<and> sockets i' = n \<and> cores i' = c
    \<and> times_count size1 (numofcpu i') = t * (size1 * (cores i' * sockets i'))"
proof -
  have "c * t div c = t" using assms(2) by simp
  moreover have "n * c * t div t div c = n" using assms(1,2) by (simp add: div_mult2_eq)
  moreover have "times_count size1 (n * c * t) = t * (size1 * (c * n))"
  proof -
    have p: "0 \<le> size1 * (n * c * t)" using assms(1,2,6,7) by simp
    have "times_count size1 (n * c * t) = size1 * (n * c * t)"
    proof (cases "n * c * t = 0")
      case False
      then have "1 \<le> n * c * t" using assms(1,2,6) by (simp add: pos_imp_zdiv_nonneg_iff int_one_le_iff_zero_less)
      then have "size1 * 1 \<le> size1 * (n * c * t)" using assms(7) by (rule mult_left_mono)
      with assms(8) have "size1 < 2 ^ 31" by linarith
      with p assms(7,8) show ?thesis by (simp add: times_count_def to_uint64_def to_int32_def)
    qed (simp only: times_count_def to_uint64_def to_int32_def, simp)
    then show ?thesis by (simp add: mult_ac)
  qed
  ultimately show ?thesis using assms(1-5) by (simp add: cpu_topology_def Let_def)
qed

theorem topology_correct_witness:
  "\<exists>i'. cpu_topology ((info init_lscpu)\<lparr>siblings := 8, cores := 4, numofcpu := 16\<rparr>) = Inr i'
    \<and> threads i' = 2 \<and> sockets i' = 2 \<and> cores i' = 4
    \<and> times_count 32 (numofcpu i') = 2 * (32 * (cores i' * sockets i'))"
  by (rule topology_correct) (simp_all add: init_lscpu_def)

section \<open>The report\<close>

lemma print_chars_needs_newline: "print_chars w i s = Inr out \<Longrightarrow> CHR 0x0A \<in> set s"
  by (induction w i s arbitrary: out rule: print_chars.induct) (auto simp: bindR_Inr_iff split: if_splits)

text \<open>A computation that gives a result when a condition holds, and a certain error otherwise.\<close>

definition ends_in :: "bool \<Rightarrow> c_error \<Rightarrow> 'a res \<Rightarrow> bool" where
  "ends_in b e r \<longleftrightarrow> (if b then \<exists>x. r = Inr x else r = Inl e)"

lemma ends_in_Inr: "ends_in True e (Inr x)"
  by (simp add: ends_in_def)

lemma ends_in_bind:
  "ends_in b e m \<Longrightarrow> (\<And>x. ends_in b' e (f x)) \<Longrightarrow> ends_in (b \<and> b') e (bindR m f)"
  by (cases b) (auto simp: ends_in_def)

lemma ends_in_map: "ends_in b e m \<Longrightarrow> (\<And>x. \<exists>y. f x = Inr y) \<Longrightarrow> ends_in b e (bindR m f)"
  using ends_in_bind [of b e m True f] by (simp add: ends_in_def)

text \<open>Whether a text can be printed: in a terminal of 33 columns the second character divides by zero.\<close>

definition printable :: "int \<Rightarrow> string \<Rightarrow> bool" where
  "printable w t \<longleftrightarrow> CHR 0x0A \<in> set (if w = 33 then take 2 t else t)"

definition print_error :: "int \<Rightarrow> c_error" where
  "print_error w = (if w = 33 then DivByZero else OutOfBounds)"

lemma print_chars_ends: "w \<noteq> 33 \<Longrightarrow> ends_in (CHR 0x0A \<in> set s) OutOfBounds (print_chars w i s)"
  by (induction w i s rule: print_chars.induct) (auto simp: ends_in_def split: if_splits)

lemma print_chars_33: "2 \<le> length s \<Longrightarrow> ends_in (CHR 0x0A \<in> set (take 2 s)) DivByZero (print_chars 33 0 s)"
  by (cases s; cases "tl s") (auto simp: ends_in_def)

lemma PrintTerminal_ends: "2 \<le> sz \<Longrightarrow> ends_in (printable w t) (print_error w) (PrintTerminal w sz t)"
  using print_chars_ends [of w "t @ replicate (sz - length t) (CHR 0x00)" 0]
    print_chars_33 [of "t @ replicate (sz - length t) (CHR 0x00)"]
  by (auto simp: PrintTerminal_def printable_def print_error_def split: if_splits)

lemma line_of_ends: "2 \<le> sz \<Longrightarrow> ends_in (printable w (snd hp)) (print_error w) (line_of w sz hp)"
  unfolding line_of_def by (rule ends_in_map [OF PrintTerminal_ends]) auto

lemma lines_of_ends:
  "2 \<le> sz \<Longrightarrow> ends_in (\<forall>hp \<in> set hps. printable w (snd hp)) (print_error w) (lines_of w sz hps)"
proof (induction hps)
  case (Cons hp hps)
  have "ends_in (printable w (snd hp) \<and> (\<forall>hp \<in> set hps. printable w (snd hp))) (print_error w)
      (lines_of w sz (hp # hps))"
    unfolding lines_of.simps
    by (intro ends_in_bind ends_in_map line_of_ends Cons) auto
  then show ?case by simp
qed (simp add: ends_in_def)

text \<open>The texts that are printed up to their newline.\<close>

definition printed :: "cpuInfo \<Rightarrow> string list" where
  "printed i = [venderid i, cpufamily i, model i, modelname i, stepping i, speed i, bogomips i, online i,
     flags i] @ vulnerability i"

lemma vul_lines:
  assumes "length vs = 9"
  shows "(\<forall>hp \<in> set (map (\<lambda>(h, v). (heading (''Vulnerability '' @ h), v)) (zip vul_headings vs)).
       printable w (snd hp)) \<longleftrightarrow> (\<forall>v \<in> set vs. printable w v)"
proof -
  have "(\<forall>hp \<in> set (map (\<lambda>(h, v). (heading (''Vulnerability '' @ h), v)) (zip vul_headings vs)).
       printable w (snd hp)) \<longleftrightarrow> (\<forall>v \<in> set (map snd (zip vul_headings vs)). printable w v)"
    by auto
  with assms show ?thesis by (simp add: vul_headings_def)
qed

lemma PrintLSCPU_ends:
  assumes "length (vulnerability (info st)) = 9"
  shows "ends_in (\<forall>t \<in> set (printed (info st)). printable w t) (print_error w) (PrintLSCPU w st)"
proof -
  let ?i = "info st"
  let ?ids = "[(heading ''Vendor ID:'', venderid ?i), (heading ''CPU family:'', cpufamily ?i),
    (heading ''Model:'', model ?i), (heading ''Model name:'', modelname ?i),
    (heading ''Stepping:'', stepping ?i), (heading ''CPU MHz:'', speed ?i), (heading ''BogoMIPS:'', bogomips ?i)]"
  let ?vul = "map (\<lambda>(h, v). (heading (''Vulnerability '' @ h), v)) (zip vul_headings (vulnerability ?i))"
  have "ends_in ((\<forall>hp \<in> set ?ids. printable w (snd hp)) \<and> printable w (snd (heading ''NUMA node0 CPU(s):'', online ?i))
      \<and> (\<forall>hp \<in> set ?vul. printable w (snd hp)) \<and> printable w (snd (heading ''Flags:'', flags ?i)))
    (print_error w) (PrintLSCPU w st)"
    unfolding PrintLSCPU_def Let_def
    by (intro ends_in_bind ends_in_map lines_of_ends line_of_ends) auto
  moreover have "((\<forall>hp \<in> set ?ids. printable w (snd hp)) \<and> printable w (snd (heading ''NUMA node0 CPU(s):'', online ?i))
      \<and> (\<forall>hp \<in> set ?vul. printable w (snd hp)) \<and> printable w (snd (heading ''Flags:'', flags ?i)))
    \<longleftrightarrow> (\<forall>t \<in> set (printed ?i). printable w t)"
    unfolding vul_lines [OF assms] printed_def by auto
  ultimately show ?thesis by simp
qed

text \<open>
  C25. The report, for every width of the terminal. Unless the width is 33 it is printed exactly when
  every one of the eighteen texts that \<open>PrintTerminal\<close> prints contains a newline, and otherwise the
  loop reads past the end of an array. The texts are those read by \<open>fgets\<close>, so a missing file of
  \<open>vulnerabilities\<close> (whose text stays empty) or a \<open>flags\<close> line longer than the buffer is enough. With a
  width of 33 the program divides by zero, unless each text has a newline among its first two characters.
\<close>

theorem report_needs_newlines:
  assumes "length (vulnerability (info st)) = 9"
  shows "(w \<noteq> 33 \<longrightarrow>
      (if \<forall>t \<in> set (printed (info st)). CHR 0x0A \<in> set t then \<exists>out. PrintLSCPU w st = Inr out
       else PrintLSCPU w st = Inl OutOfBounds))
    \<and> (w = 33 \<longrightarrow>
      (if \<forall>t \<in> set (printed (info st)). CHR 0x0A \<in> set (take 2 t) then \<exists>out. PrintLSCPU w st = Inr out
       else PrintLSCPU w st = Inl DivByZero))"
  using PrintLSCPU_ends [OF assms, of w]
  by (cases "w = 33") (simp_all add: ends_in_def printable_def print_error_def)

theorem report_needs_newlines_witness:
  "PrintLSCPU 80 init_lscpu = Inl OutOfBounds \<and> PrintLSCPU 33 init_lscpu = Inl DivByZero"
proof -
  have v: "length (vulnerability (info init_lscpu)) = 9" by (simp add: init_lscpu_def)
  have "flags (info init_lscpu) = []" by (simp add: init_lscpu_def)
  then have n: "\<not> (\<forall>t \<in> set (printed (info init_lscpu)). CHR 0x0A \<in> set t)"
    "\<not> (\<forall>t \<in> set (printed (info init_lscpu)). CHR 0x0A \<in> set (take 2 t))"
    by (simp_all add: printed_def)
  from report_needs_newlines [OF v, of 80] report_needs_newlines [OF v, of 33] show ?thesis
    by (simp add: n)
qed

lemma cpuinfo_row_Inr:
  "cpuinfo_row n s = Inr (v, r) \<longleftrightarrow>
     after_colon (fst (fgets_rows n [] s)) = Inr v \<and> r = snd (fgets_rows n [] s)"
  by (auto simp: cpuinfo_row_def bindR_Inr_iff split: prod.splits)

lemma fgets_rows_add:
  "0 < n \<Longrightarrow> fgets_rows (m + n) buf s = fgets_rows n [] (snd (fgets_rows m buf s))"
proof (induction m arbitrary: buf s)
  case 0
  then show ?case by (cases n) auto
next
  case (Suc m)
  then show ?case by (simp split: prod.splits)
qed

text \<open>The flags row is the twentieth line, whatever the rows before it hold.\<close>

lemma flags_row:
  assumes "ReadCpuInfo env i = Inr i'" and "os_file env ''/proc/cpuinfo'' = Some s"
  shows "after_colon (fst (fgets_rows 20 [] s)) = Inr (flags i')"
proof -
  from assms obtain s2 s3 s4 s5 s6 s8 s11 s13 where
    s: "s2 = snd (fgets_rows 2 [] s)" "s3 = snd (fgets_rows 1 [] s2)" "s4 = snd (fgets_rows 1 [] s3)"
      "s5 = snd (fgets_rows 1 [] s4)" "s6 = snd (fgets_rows 1 [] s5)" "s8 = snd (fgets_rows 2 [] s6)"
      "s11 = snd (fgets_rows 3 [] s8)" "s13 = snd (fgets_rows 2 [] s11)"
    and v: "after_colon (fst (fgets_rows 7 [] s13)) = Inr (flags i')"
    by (auto simp: ReadCpuInfo_def cpu_topology_def Let_def cpuinfo_row_Inr
        simp del: fgets_rows.simps elim!: bindR_InrE split: if_splits)
  have "s13 = snd (fgets_rows 13 [] s)"
    unfolding s by (simp add: fgets_rows_add [symmetric] del: fgets_rows.simps)
  with v fgets_rows_add [of 7 13 "[]" s] show ?thesis by simp
qed

lemma fgets_rows_long:
  assumes "\<forall>l \<in> set ls. plain_line l" and "CHR 0x0A \<notin> set l" and "1023 \<le> length l"
  shows "fgets_rows (Suc (length ls)) buf (text_of ls @ l @ r) = (take 1023 l, drop 1023 l @ r)"
  using assms(1) fgets_line_long [OF assms(2,3), of r]
  by (induction ls arbitrary: buf) (simp_all add: fgets_line_plain)

lemma after_colon_no_newline: "after_colon s = Inr v \<Longrightarrow> c \<notin> set s \<Longrightarrow> c \<notin> set v"
  by (auto simp: after_colon_def Let_def split: if_splits dest: in_set_dropD set_dropWhileD)

lemma files_keep_flags:
  assumes "ReadFileSystemCPU env (init_lscpu\<lparr>info := i\<rparr>) = Inr st1" and "ReadFileSystemNode env st1 = Inr st2"
    and "ReadFileSystemVul env st2 = Inr st3"
  shows "flags (info st3) = flags i"
  using assms
  by (auto simp: ReadFileSystemCPU_def ReadFileSystemNode_def ReadFileSystemVul_def Let_def
      split: option.splits elim!: bindR_InrE)

lemma report_flags_newline: "PrintLSCPU w st = Inr out \<Longrightarrow> CHR 0x0A \<in> set (flags (info st))"
  by (auto simp: PrintLSCPU_def Let_def line_of_def PrintTerminal_def elim!: bindR_InrE
      dest!: print_chars_needs_newline)

text \<open>
  A \<open>flags\<close> line of 1023 characters or more, which recent processors have, makes the program fail:
  \<open>fgets\<close> reads it in parts, the stored flags have no newline, and the report never ends normally,
  although \<open>info.flags\<close> has room for 2047 characters.
\<close>

theorem long_flags_overrun:
  assumes "os_file env ''/proc/cpuinfo'' = Some (text_of ls @ l @ r)"
    and "\<forall>l \<in> set ls. plain_line l" and "length ls = 19" and "CHR 0x0A \<notin> set l" and "1023 \<le> length l"
  shows "\<exists>e. lscpu_main env little machine = Inl e"
proof (rule ccontr)
  assume "\<nexists>e. lscpu_main env little machine = Inl e"
  then obtain out where "lscpu_main env little machine = Inr out" by (cases "lscpu_main env little machine") auto
  then obtain i0 i st1 st2 st3 where r: "ReadCpuInfo env i0 = Inr i"
    and f: "ReadFileSystemCPU env (init_lscpu\<lparr>info := i\<rparr>) = Inr st1" "ReadFileSystemNode env st1 = Inr st2"
      "ReadFileSystemVul env st2 = Inr st3" and p: "PrintLSCPU (os_cols env) st3 = Inr out"
    by (auto simp: lscpu_main_def Let_def elim!: bindR_InrE)
  have "fst (fgets_rows 20 [] (text_of ls @ l @ r)) = take 1023 l"
    using fgets_rows_long [OF assms(2,4,5), of "[]" r] assms(3) by (simp del: fgets_rows.simps)
  with flags_row [OF r assms(1)] assms(4) have "CHR 0x0A \<notin> set (flags i)"
    by (metis after_colon_no_newline in_set_takeD)
  with report_flags_newline [OF p] files_keep_flags [OF f] show False by simp
qed

theorem long_flags_overrun_witness:
  "\<exists>e. lscpu_main (sample_env\<lparr>os_file := \<lambda>_. Some (text_of (replicate 19 ''k: '') @
       replicate 2000 (CHR ''f'') @ nl)\<rparr>) True ''x86_64'' = Inl e"
proof (rule long_flags_overrun [where ls = "replicate 19 ''k: ''" and r = nl])
  show "CHR 0x0A \<notin> set (replicate 2000 (CHR ''f''))" by (subst set_replicate_conv_if) simp
  show "1023 \<le> length (replicate 2000 (CHR ''f''))" by (subst length_replicate) simp
qed (simp_all only: sample_env_def os.simps, simp_all add: plain_line_def)

end
