(* ===== verification/Syscalls.thy ===== *)
theory Syscalls
  imports Clib
begin

text \<open>
  The four system calls of \<open>src/Assignment_3\<close> (\<open>sys_basic_add.c\<close>, \<open>sys_basic_sub.c\<close>, \<open>sys_basic_mul.c\<close>,
  \<open>sys_basic_mod.c\<close>, numbers 443 to 446 of \<open>syscall_64.tbl\<close>) and the calculator that calls them
  (\<open>syscall_operation.c\<close>).

  \<open>int\<close> is a 32-bit word; the kernel is compiled so that signed overflow wraps. \<open>put_user\<close> is code of
  the kernel outside the repository and a parameter: it takes the value, the address, which
  addresses the process may write, and its memory, and gives its return code and the memory. An
  address the process may read need not be one it may write. The pointer \<open>result\<close> of the calculator
  is never set; the address it happens to hold is an argument of the model, which takes it to be
  none of the program's own variables.
\<close>

section \<open>System calls\<close>

type_synonym umem = "nat \<Rightarrow> s32 option"
type_synonym put_user = "s32 \<Rightarrow> nat \<Rightarrow> (nat \<Rightarrow> bool) \<Rightarrow> umem \<Rightarrow> int \<times> umem"

text \<open>\<open>user_mem\<close> gives the words the process can read, \<open>user_writable\<close> where it can write.\<close>

record kstate =
  user_mem :: umem
  user_writable :: "nat \<Rightarrow> bool"
  kernel_log :: "string list"

text \<open>\<open>if (put_user(val, result) < 0) printk(...) else printk(...); return 0;\<close>\<close>

definition store_result :: "put_user \<Rightarrow> string \<Rightarrow> s32 \<Rightarrow> nat \<Rightarrow> kstate \<Rightarrow> int \<times> kstate" where
  "store_result put opname val result k =
     (case put val result (user_writable k) (user_mem k) of (rc, m) \<Rightarrow>
        (0, k\<lparr>user_mem := m, kernel_log := kernel_log k @
               [''The '' @ opname @ '' operation '' @ (if rc < 0 then ''failed!'' else ''success!'') @ nl]\<rparr>))"

definition sys_basic_add :: "put_user \<Rightarrow> s32 \<Rightarrow> s32 \<Rightarrow> nat \<Rightarrow> kstate \<Rightarrow> (int \<times> kstate) res" where
  "sys_basic_add put num1 num2 result k =
     (let val = num1 + num2 in Inr (store_result put ''addition'' val result k))"

definition sys_basic_sub :: "put_user \<Rightarrow> s32 \<Rightarrow> s32 \<Rightarrow> nat \<Rightarrow> kstate \<Rightarrow> (int \<times> kstate) res" where
  "sys_basic_sub put num1 num2 result k =
     (let val = num1 - num2 in Inr (store_result put ''subtraction'' val result k))"

definition sys_basic_mul :: "put_user \<Rightarrow> s32 \<Rightarrow> s32 \<Rightarrow> nat \<Rightarrow> kstate \<Rightarrow> (int \<times> kstate) res" where
  "sys_basic_mul put num1 num2 result k =
     (let val = num1 * num2 in Inr (store_result put ''multiplication'' val result k))"

text \<open>
  A remainder by zero raises the divide error of the processor in the kernel, as does the smallest
  integer by -1.
\<close>

definition sys_basic_mod :: "put_user \<Rightarrow> s32 \<Rightarrow> s32 \<Rightarrow> nat \<Rightarrow> kstate \<Rightarrow> (int \<times> kstate) res" where
  "sys_basic_mod put num1 num2 result k =
     (if num2 = 0 \<or> (sint num1 = - (2 ^ 31) \<and> sint num2 = - 1) then Inl DivByZero
      else let val = word_of_int (c_mod (sint num1) (sint num2)) in
        Inr (store_result put ''moduler'' val result k))"

text \<open>The table; another number is \<open>-1\<close> for the caller.\<close>

definition syscall :: "put_user \<Rightarrow> int \<Rightarrow> s32 \<Rightarrow> s32 \<Rightarrow> nat \<Rightarrow> kstate \<Rightarrow> (int \<times> kstate) res" where
  "syscall put nr num1 num2 result k =
     (if nr = 443 then sys_basic_add put num1 num2 result k
      else if nr = 444 then sys_basic_sub put num1 num2 result k
      else if nr = 445 then sys_basic_mul put num1 num2 result k
      else if nr = 446 then sys_basic_mod put num1 num2 result k
      else Inr (- 1, k))"

section \<open>The calculator\<close>

datatype message = Prompt | InputError | OpError | Result s32 char s32 s32

text \<open>\<open>scanf("%d %c %d")\<close>: the three values when all were read, and the rest of the input.\<close>

definition scan_line :: "string \<Rightarrow> (s32 \<times> char \<times> s32) option \<times> string" where
  "scan_line s =
     (case scan_d s of
        ScanEOF \<Rightarrow> (None, [])
      | ScanFail r \<Rightarrow> (None, r)
      | ScanOk a r1 \<Rightarrow>
          (case skip_ws r1 of
             [] \<Rightarrow> (None, [])
           | c # r2 \<Rightarrow>
               (case scan_d r2 of
                  ScanEOF \<Rightarrow> (None, [])
                | ScanFail r \<Rightarrow> (None, r)
                | ScanOk b r3 \<Rightarrow> (Some (word_of_int a, c, word_of_int b), r3))))"

definition op_number :: "char \<Rightarrow> int option" where
  "op_number c =
     (if c = CHR ''+'' then Some 443 else if c = CHR ''-'' then Some 444
      else if c = CHR ''*'' then Some 445 else if c = CHR ''%'' then Some 446 else None)"

text \<open>The \<open>switch\<close> and the print of \<open>*result\<close>, for a line that was read.\<close>

definition calculate :: "put_user \<Rightarrow> nat \<Rightarrow> s32 \<Rightarrow> char \<Rightarrow> s32 \<Rightarrow> kstate \<Rightarrow> message res \<times> kstate" where
  "calculate put result num1 c num2 k =
     (case op_number c of
        None \<Rightarrow> (Inr OpError, k)
      | Some nr \<Rightarrow>
          (case syscall put nr num1 num2 result k of
             Inl e \<Rightarrow> (Inl e, k)
           | Inr (check, k') \<Rightarrow>
               (case user_mem k' result of
                  None \<Rightarrow> (Inl NullPointer, k')
                | Some v \<Rightarrow> (Inr (Result num1 c num2 v), k'))))"

text \<open>How the program stops going on: a fault, or the inner loop that waits for a newline at the end of the input.\<close>

datatype ending = Fails c_error | Spins

lemma scan_d_shorter: "scan_d s = ScanOk v r \<Longrightarrow> length r < length s"
  and scan_d_fail: "scan_d s = ScanFail r \<Longrightarrow> length r \<le> length s"
proof -
  have t: "length (snd (take_sign s)) \<le> length s" for s
    by (cases s) (auto simp: take_sign_def)
  have k: "length (snd (take_sign (skip_ws s))) \<le> length s"
    using t [of "skip_ws s"] skip_ws_length [of s] by linarith
  show "length r < length s" if "scan_d s = ScanOk v r"
  proof -
    from that obtain neg ds where d: "take_sign (skip_ws s) = (neg, ds)" "ds \<noteq> []" "isdigit (hd ds)"
      "r = dropWhile isdigit ds"
      by (auto simp: scan_d_def scan_number_def Let_def split: scan.splits if_splits prod.splits)
    then have "length r < length ds"
      by (cases ds) (auto simp: le_imp_less_Suc length_dropWhile_le)
    with k d(1) show ?thesis by simp
  qed
  show "length r \<le> length s" if "scan_d s = ScanFail r"
    using that k by (auto simp: scan_d_def scan_number_def Let_def split: scan.splits if_splits prod.splits)
qed

lemma scan_line_shorter:
  "scan_line s = (Some x, r) \<Longrightarrow> length r < length s" "scan_line s = (None, r) \<Longrightarrow> length r \<le> length s"
proof -
  have k: "length r2 < length r1" if "skip_ws r1 = c # r2" for r1 c r2
    using skip_ws_length [of r1] that by simp
  show "length r < length s" if "scan_line s = (Some x, r)"
    using that unfolding scan_line_def
    by (auto split: scan.splits list.splits dest!: scan_d_shorter k)
  show "length r \<le> length s" if "scan_line s = (None, r)"
    using that unfolding scan_line_def
    by (auto split: scan.splits list.splits dest!: scan_d_shorter scan_d_fail k)
qed

lemma drain_shorter: "dropWhile P r = c # r' \<Longrightarrow> length r' < length r"
  using length_dropWhile_le [of P r] by simp

function calculator :: "put_user \<Rightarrow> nat \<Rightarrow> string \<Rightarrow> kstate \<Rightarrow> message list \<times> kstate \<times> ending" where
  "calculator put result s k =
     (case scan_line s of
        (None, r) \<Rightarrow>
          (case dropWhile (\<lambda>c. c \<noteq> CHR 0x0A) r of
             [] \<Rightarrow> ([Prompt, InputError], k, Spins)
           | _ # r' \<Rightarrow>
               (case calculator put result r' k of (ms, k', e) \<Rightarrow> (Prompt # InputError # ms, k', e)))
      | (Some (num1, c, num2), r) \<Rightarrow>
          (case calculate put result num1 c num2 k of
             (Inl e, k1) \<Rightarrow> ([Prompt], k1, Fails e)
           | (Inr m, k1) \<Rightarrow>
               (case calculator put result r k1 of (ms, k', e) \<Rightarrow> (Prompt # m # ms, k', e))))"
  by auto
termination
  by (relation "measure (\<lambda>(put, result, s, k). length s)")
    (auto dest!: sym [of _ "scan_line _"] scan_line_shorter drain_shorter)

declare calculator.simps [simp del]

section \<open>Properties\<close>

text \<open>
  What the kernel documents of \<open>put_user\<close>: 0 and the value stored, or a negative code and no change
  for an address that the process may not write.
\<close>

definition put_user_spec :: "put_user \<Rightarrow> bool" where
  "put_user_spec put \<longleftrightarrow>
     (\<forall>v p w m. if w p then put v p w m = (0, m(p \<mapsto> v))
        else fst (put v p w m) < 0 \<and> snd (put v p w m) = m)"

text \<open>The value an operation stores, on integers.\<close>

definition op_value :: "char \<Rightarrow> int \<Rightarrow> int \<Rightarrow> int" where
  "op_value c a b =
     (if c = CHR ''+'' then a + b else if c = CHR ''-'' then a - b else if c = CHR ''*'' then a * b else c_mod a b)"

definition op_faults :: "char \<Rightarrow> int \<Rightarrow> int \<Rightarrow> bool" where
  "op_faults c a b \<longleftrightarrow> c = CHR ''%'' \<and> (b = 0 \<or> a = - (2 ^ 31) \<and> b = - 1)"

lemma store_result_spec:
  assumes "put_user_spec put"
  shows "fst (store_result put n v p k) = 0"
    and "user_mem (snd (store_result put n v p k)) = (if user_writable k p then (user_mem k)(p \<mapsto> v) else user_mem k)"
    and "user_writable (snd (store_result put n v p k)) = user_writable k"
    and "kernel_log (snd (store_result put n v p k)) = kernel_log k
      @ [''The '' @ n @ '' operation '' @ (if user_writable k p then ''success!'' else ''failed!'') @ nl]"
proof -
  have "if user_writable k p then put v p (user_writable k) (user_mem k) = (0, (user_mem k)(p \<mapsto> v))
    else fst (put v p (user_writable k) (user_mem k)) < 0 \<and> snd (put v p (user_writable k) (user_mem k)) = user_mem k"
    using assms unfolding put_user_spec_def by blast
  then show "fst (store_result put n v p k) = 0"
    "user_mem (snd (store_result put n v p k)) = (if user_writable k p then (user_mem k)(p \<mapsto> v) else user_mem k)"
    "user_writable (snd (store_result put n v p k)) = user_writable k"
    "kernel_log (snd (store_result put n v p k)) = kernel_log k
      @ [''The '' @ n @ '' operation '' @ (if user_writable k p then ''success!'' else ''failed!'') @ nl]"
    by (auto simp: store_result_def split: prod.splits if_splits)
qed

lemma sint_0_iff: "sint (w :: s32) = 0 \<longleftrightarrow> w = 0"
  by (simp add: signed_eq_0_iff)

text \<open>The value a call stores, as a word.\<close>

lemma syscall_value:
  assumes "op_number c = Some nr"
  shows "syscall put nr num1 num2 p k =
    (if op_faults c (sint num1) (sint num2) then Inl DivByZero
     else Inr (store_result put
       (if c = CHR ''+'' then ''addition'' else if c = CHR ''-'' then ''subtraction''
        else if c = CHR ''*'' then ''multiplication'' else ''moduler'')
       (word_of_int (op_value c (sint num1) (sint num2))) p k))"
proof -
  have w: "word_of_int (sint num1 + sint num2) = num1 + num2" "word_of_int (sint num1 - sint num2) = num1 - num2"
    "word_of_int (sint num1 * sint num2) = num1 * num2"
    by simp_all
  from assms consider "c = CHR ''+''" "nr = 443" | "c = CHR ''-''" "nr = 444" | "c = CHR ''*''" "nr = 445"
    | "c = CHR ''%''" "nr = 446"
    by (auto simp: op_number_def split: if_splits)
  then show ?thesis
  proof cases
    case 1
    then show ?thesis unfolding op_value_def op_faults_def by (simp add: syscall_def sys_basic_add_def)
  next
    case 2
    then show ?thesis unfolding op_value_def op_faults_def by (simp add: syscall_def sys_basic_sub_def)
  next
    case 3
    then show ?thesis unfolding op_value_def op_faults_def by (simp add: syscall_def sys_basic_mul_def)
  next
    case 4
    then show ?thesis unfolding op_value_def op_faults_def by (simp add: syscall_def sys_basic_mod_def sint_0_iff)
  qed
qed

text \<open>
  C14. The system calls: on an address the process may write each call stores the sum, difference, product
  or remainder of its arguments, reduced to 32 bits; on another address nothing is stored. Either way
  it returns 0 and only the kernel log tells the two apart. A remainder by zero (or of the smallest
  integer by -1) faults inside the kernel, whatever the address.
\<close>

theorem syscall_results:
  assumes "put_user_spec put" and "op_number c = Some nr"
  shows "if op_faults c (sint num1) (sint num2) then syscall put nr num1 num2 p k = Inl DivByZero
    else \<exists>k' n. syscall put nr num1 num2 p k = Inr (0, k')
      \<and> user_mem k' = (if user_writable k p
          then (user_mem k)(p \<mapsto> word_of_int (op_value c (sint num1) (sint num2))) else user_mem k)
      \<and> user_writable k' = user_writable k
      \<and> kernel_log k' = kernel_log k
          @ [''The '' @ n @ '' operation '' @ (if user_writable k p then ''success!'' else ''failed!'') @ nl]"
proof (cases "op_faults c (sint num1) (sint num2)")
  case False
  obtain n where e: "syscall put nr num1 num2 p k =
      Inr (store_result put n (word_of_int (op_value c (sint num1) (sint num2))) p k)"
    using syscall_value [OF assms(2)] False by metis
  let ?r = "store_result put n (word_of_int (op_value c (sint num1) (sint num2))) p k"
  have "syscall put nr num1 num2 p k = Inr (0, snd ?r)"
    using e store_result_spec(1) [OF assms(1), of n] by (simp add: prod_eq_iff)
  with store_result_spec(2-4) [OF assms(1), of n] False show ?thesis by (simp only: if_False) blast
qed (simp add: syscall_value [OF assms(2)])

definition put_mapped :: put_user where
  "put_mapped v p w m = (if w p then (0, m(p \<mapsto> v)) else (- 14, m))"

lemma put_mapped_spec: "put_user_spec put_mapped"
  by (simp add: put_user_spec_def put_mapped_def)

text \<open>A memory with a word that can be written and one that can only be read.\<close>

definition one_word :: kstate where
  "one_word = \<lparr>user_mem = [8 \<mapsto> 0, 16 \<mapsto> 5], user_writable = \<lambda>p. p = 8, kernel_log = []\<rparr>"

theorem syscall_results_witness:
  "\<exists>k'. syscall put_mapped 445 (word_of_int (2 ^ 30)) 6 8 one_word = Inr (0, k')
      \<and> user_mem k' 8 = Some (word_of_int (- (2 ^ 31))) \<and> length (kernel_log k') = 1"
proof -
  have "op_number (CHR ''*'') = Some 445" by (simp add: op_number_def)
  from syscall_results [OF put_mapped_spec this, of "word_of_int (2 ^ 30)" 6 8 one_word] show ?thesis
    by (auto simp: op_faults_def op_value_def one_word_def word_eq_iff_signed)
qed

section \<open>The calculator\<close>

lemma sint_of_int32: "- (2 ^ 31) \<le> v \<Longrightarrow> v < 2 ^ 31 \<Longrightarrow> sint (word_of_int v :: s32) = v"
  by (simp add: signed_of_int signed_take_bit_int_eq_self)

lemma scan_line_printed:
  assumes "- (2 ^ 31) \<le> a" and "a < 2 ^ 31" and "- (2 ^ 31) \<le> b" and "b < 2 ^ 31" and "\<not> isspace c"
  shows "scan_line (show_int a @ '' '' @ c # '' '' @ show_int b @ nl @ rest) =
    (Some (word_of_int a, c, word_of_int b), nl @ rest)"
proof -
  have "scan_d (show_int a @ '' '' @ c # '' '' @ show_int b @ nl @ rest) =
      ScanOk a ('' '' @ c # '' '' @ show_int b @ nl @ rest)"
    by (rule scan_d_show_int) (use assms in \<open>simp_all add: isdigit_def\<close>)
  moreover have "skip_ws ('' '' @ c # '' '' @ show_int b @ nl @ rest) = c # '' '' @ show_int b @ nl @ rest"
    using assms(5) unfolding skip_ws_def by (simp add: dropWhile.simps) (simp add: isspace_def)
  moreover have "scan_d ('' '' @ show_int b @ nl @ rest) = ScanOk b (nl @ rest)"
  proof -
    have "scan_d ('' '' @ show_int b @ nl @ rest) = scan_d (show_int b @ nl @ rest)"
      by (simp add: scan_d_def scan_number_def skip_ws_def isspace_def)
    also have "\<dots> = ScanOk b (nl @ rest)"
      by (rule scan_d_show_int) (use assms in \<open>simp_all add: isdigit_def nl_def\<close>)
    finally show ?thesis .
  qed
  ultimately show ?thesis unfolding scan_line_def by simp
qed

text \<open>
  C22. The calculator on a printed expression, for the three kinds of address the pointer \<open>result\<close> may
  happen to hold. On one the process may write, it prints the value of the expression in 32 bits,
  which is also what the address holds now. On one it may read only, the call stores nothing and
  still returns 0, and the program prints the old word found there as the result. On any other,
  nothing is stored and reading \<open>*result\<close> faults. A remainder by zero ends in the kernel.
\<close>

theorem calculator_line:
  assumes "put_user_spec put" and "op_number c = Some nr"
    and "- (2 ^ 31) \<le> a" and "a < 2 ^ 31" and "- (2 ^ 31) \<le> b" and "b < 2 ^ 31"
  shows "\<exists>k1. calculator put p (show_int a @ '' '' @ c # '' '' @ show_int b @ nl @ rest) k =
    (if op_faults c a b then ([Prompt], k, Fails DivByZero)
     else if user_writable k p then
       (case calculator put p (nl @ rest) k1 of (ms, k', e) \<Rightarrow>
         (Prompt # Result (word_of_int a) c (word_of_int b) (word_of_int (op_value c a b)) # ms, k', e))
     else case user_mem k p of
         None \<Rightarrow> ([Prompt], k1, Fails NullPointer)
       | Some old \<Rightarrow>
           (case calculator put p (nl @ rest) k1 of (ms, k', e) \<Rightarrow>
             (Prompt # Result (word_of_int a) c (word_of_int b) old # ms, k', e)))
    \<and> user_mem k1 = (if user_writable k p then (user_mem k)(p \<mapsto> word_of_int (op_value c a b)) else user_mem k)
    \<and> user_writable k1 = user_writable k \<and> length (kernel_log k1) = length (kernel_log k) + 1"
proof -
  have c: "\<not> isspace c" using assms(2) by (auto simp: op_number_def isspace_def split: if_splits)
  have v: "sint (word_of_int a :: s32) = a" "sint (word_of_int b :: s32) = b"
    using assms(3-6) by (simp_all only: sint_of_int32)
  obtain n where e: "syscall put nr (word_of_int a) (word_of_int b) p k =
      (if op_faults c a b then Inl DivByZero else Inr (store_result put n (word_of_int (op_value c a b)) p k))"
    using syscall_value [OF assms(2)] v by metis
  obtain rc k1 where r: "store_result put n (word_of_int (op_value c a b)) p k = (rc, k1)" by fastforce
  have m: "user_mem k1 = (if user_writable k p then (user_mem k)(p \<mapsto> word_of_int (op_value c a b)) else user_mem k)"
    "user_writable k1 = user_writable k" "length (kernel_log k1) = length (kernel_log k) + 1"
    using store_result_spec(2-4) [OF assms(1), of n "word_of_int (op_value c a b)" p k] r by simp_all
  have "calculate put p (word_of_int a) c (word_of_int b) k =
      (if op_faults c a b then (Inl DivByZero, k)
       else if user_writable k p then
         (Inr (Result (word_of_int a) c (word_of_int b) (word_of_int (op_value c a b))), k1)
       else case user_mem k p of None \<Rightarrow> (Inl NullPointer, k1)
         | Some old \<Rightarrow> (Inr (Result (word_of_int a) c (word_of_int b) old), k1))"
    using assms(2) e r m(1) by (simp add: calculate_def)
  then show ?thesis
    using scan_line_printed [OF assms(3-6) c, of rest] m
    by (intro exI [of _ k1]) (subst calculator.simps, simp split: option.split)
qed

theorem calculator_line_witness:
  "(\<exists>k1. calculator put_mapped 8 (show_int 7 @ '' '' @ CHR ''-'' # '' '' @ show_int 9 @ nl @ []) one_word =
     (case calculator put_mapped 8 (nl @ []) k1 of (ms, k', e) \<Rightarrow>
       (Prompt # Result 7 (CHR ''-'') 9 (word_of_int (- 2)) # ms, k', e)))
   \<and> (\<exists>k1. calculator put_mapped 16 (show_int 7 @ '' '' @ CHR ''-'' # '' '' @ show_int 9 @ nl @ []) one_word =
     (case calculator put_mapped 16 (nl @ []) k1 of (ms, k', e) \<Rightarrow>
       (Prompt # Result 7 (CHR ''-'') 9 5 # ms, k', e)))
   \<and> (\<exists>k1. calculator put_mapped 24 (show_int 7 @ '' '' @ CHR ''-'' # '' '' @ show_int 9 @ nl @ []) one_word =
     ([Prompt], k1, Fails NullPointer))"
proof -
  have o: "op_number (CHR ''-'') = Some 444" by (simp add: op_number_def)
  have w: "user_writable one_word 8" "\<not> user_writable one_word 16" "\<not> user_writable one_word 24"
    "user_mem one_word 16 = Some 5" "user_mem one_word 24 = None" "\<not> op_faults (CHR ''-'') 7 9"
    "op_value (CHR ''-'') 7 9 = - 2"
    by (simp_all add: one_word_def op_faults_def op_value_def)
  note l = calculator_line [OF put_mapped_spec o, of 7 9 _ "[]" one_word]
  show ?thesis using l [of 8] l [of 16] l [of 24] by (auto simp: w)
qed

end
