(* ===== verification/Sched.thy ===== *)
theory Sched
  imports Clib
begin

unbundle bit_operations_syntax

text \<open>
  The changes of \<open>src/Assignment_4\<close> to the Linux scheduler: the accounting of CPU time in \<open>stats.h\<close>
  (with \<open>CONFIG_SCHEDSTATS\<close> and \<open>CONFIG_SCHED_INFO\<close>), the priorities and \<open>sched_fork\<close> of \<open>cfs/core.c\<close>
  and \<open>fifo/core.c\<close>, and the forced policy in \<open>fifo/core.c\<close>.

  \<open>task_struct\<close> has the fields these functions use. Macros and constants of headers outside the
  repository are fields of the parameter \<open>headers\<close>; \<open>sched_info_on()\<close> is a parameter too. The calls of
  \<open>sched_fork\<close> that set up other fields (\<open>__sched_fork\<close>, \<open>uclamp_fork\<close>, \<open>set_load_weight\<close>,
  \<open>__set_task_cpu\<close> and the class's own \<open>task_fork\<close>) do not write the fields modelled here.
\<close>

section \<open>Tasks and run queues\<close>

record sched_info =
  pcount :: u64
  run_delay :: u64
  last_arrival :: u64
  last_queued :: u64

text \<open>The classes from the lowest to the highest.\<close>

datatype sched_class = Idle | Fair | Rt | Dl | Stop

record task_struct =
  state :: int
  prio :: int
  static_prio :: int
  normal_prio :: int
  rt_priority :: int
  cls :: sched_class
  policy :: int
  sched_reset_on_fork :: bool
  accumulated_cputime :: u64
  info :: sched_info

definition TASK_RUNNING :: int where "TASK_RUNNING = 0"
definition TASK_DEAD :: int where "TASK_DEAD = 0x80"
definition TASK_NEW :: int where "TASK_NEW = 0x800"

record rq =
  clock :: u64
  rq_run_delay :: u64
  rq_pcount :: u64
  rq_cpu_time :: u64

section \<open>Accounting\<close>

text \<open>The three updates of the run queue do nothing for a null pointer.\<close>

definition rq_sched_info_arrive :: "rq option \<Rightarrow> u64 \<Rightarrow> rq option" where
  "rq_sched_info_arrive q delta =
     (case q of None \<Rightarrow> None
      | Some r \<Rightarrow> Some (r\<lparr>rq_run_delay := rq_run_delay r + delta, rq_pcount := rq_pcount r + 1\<rparr>))"

definition rq_sched_info_depart :: "rq option \<Rightarrow> u64 \<Rightarrow> rq option" where
  "rq_sched_info_depart q delta =
     (case q of None \<Rightarrow> None | Some r \<Rightarrow> Some (r\<lparr>rq_cpu_time := rq_cpu_time r + delta\<rparr>))"

definition rq_sched_info_dequeued :: "rq option \<Rightarrow> u64 \<Rightarrow> rq option" where
  "rq_sched_info_dequeued q delta =
     (case q of None \<Rightarrow> None | Some r \<Rightarrow> Some (r\<lparr>rq_run_delay := rq_run_delay r + delta\<rparr>))"

definition sched_info_reset_dequeued :: "task_struct \<Rightarrow> task_struct" where
  "sched_info_reset_dequeued t = t\<lparr>info := (info t)\<lparr>last_queued := 0\<rparr>\<rparr>"

definition sched_info_dequeued :: "bool \<Rightarrow> rq \<Rightarrow> task_struct \<Rightarrow> rq \<times> task_struct" where
  "sched_info_dequeued on r t =
     (let now = clock r;
          delta = (if on \<and> last_queued (info t) \<noteq> 0 then now - last_queued (info t) else 0);
          t1 = sched_info_reset_dequeued t;
          t2 = t1\<lparr>info := (info t1)\<lparr>run_delay := run_delay (info t1) + delta\<rparr>\<rparr> in
      (the (rq_sched_info_dequeued (Some r) delta), t2))"

definition sched_info_arrive :: "rq \<Rightarrow> task_struct \<Rightarrow> rq \<times> task_struct" where
  "sched_info_arrive r t =
     (let now = clock r;
          delta = (if last_queued (info t) \<noteq> 0 then now - last_queued (info t) else 0);
          t1 = sched_info_reset_dequeued t;
          i = info t1;
          t2 = t1\<lparr>info := i\<lparr>run_delay := run_delay i + delta, last_arrival := now, pcount := pcount i + 1\<rparr>\<rparr> in
      (the (rq_sched_info_arrive (Some r) delta), t2))"

definition sched_info_queued :: "bool \<Rightarrow> rq \<Rightarrow> task_struct \<Rightarrow> task_struct" where
  "sched_info_queued on r t =
     (if on \<and> last_queued (info t) = 0 then t\<lparr>info := (info t)\<lparr>last_queued := clock r\<rparr>\<rparr> else t)"

definition sched_info_depart :: "bool \<Rightarrow> rq \<Rightarrow> task_struct \<Rightarrow> rq \<times> task_struct" where
  "sched_info_depart on r t =
     (let delta = clock r - last_arrival (info t);
          t1 = t\<lparr>accumulated_cputime := accumulated_cputime t + delta\<rparr>;
          r1 = the (rq_sched_info_depart (Some r) delta) in
      (r1, if state t1 = TASK_RUNNING then sched_info_queued on r1 t1 else t1))"

text \<open>Tasks are numbered; \<open>idle\<close> is the idle task of the run queue.\<close>

definition sched_info_switch_on ::
  "bool \<Rightarrow> nat \<Rightarrow> nat \<Rightarrow> nat \<Rightarrow> rq \<Rightarrow> (nat \<Rightarrow> task_struct) \<Rightarrow> rq \<times> (nat \<Rightarrow> task_struct)" where
  "sched_info_switch_on on idle prev next r ts =
     (let (r1, ts1) = (if prev \<noteq> idle then case sched_info_depart on r (ts prev) of (r', t) \<Rightarrow> (r', ts(prev := t))
                       else (r, ts)) in
      if next \<noteq> idle then case sched_info_arrive r1 (ts1 next) of (r', t) \<Rightarrow> (r', ts1(next := t))
      else (r1, ts1))"

definition sched_info_switch ::
  "bool \<Rightarrow> nat \<Rightarrow> nat \<Rightarrow> nat \<Rightarrow> rq \<Rightarrow> (nat \<Rightarrow> task_struct) \<Rightarrow> rq \<times> (nat \<Rightarrow> task_struct)" where
  "sched_info_switch on idle prev next r ts =
     (if on then sched_info_switch_on on idle prev next r ts else (r, ts))"

text \<open>What \<open>finish_task_switch\<close> of \<open>cfs/core.c\<close> prints of the task that was switched away from.\<close>

definition burst_report :: "int \<Rightarrow> int \<Rightarrow> task_struct \<Rightarrow> string list" where
  "burst_report pid prev_state prev =
     (if prev_state = TASK_DEAD then
        [''[PID '' @ show_int pid @ ''] CPU burst time : '' @ show_int (uint (accumulated_cputime prev)) @ '' ns'' @ nl]
      else [])"

section \<open>Priorities\<close>

record headers =
  MAX_RT_PRIO :: int
  MAX_DL_PRIO :: int
  NICE_TO_PRIO :: "int \<Rightarrow> int"
  PRIO_TO_NICE :: "int \<Rightarrow> int"
  rt_prio :: "int \<Rightarrow> bool"
  dl_prio :: "int \<Rightarrow> bool"
  rt_policy :: "int \<Rightarrow> bool"
  dl_policy :: "int \<Rightarrow> bool"
  fair_policy :: "int \<Rightarrow> bool"
  idle_policy :: "int \<Rightarrow> bool"
  valid_policy :: "int \<Rightarrow> bool"
  nice_to_rlimit :: "int \<Rightarrow> int"
  scale_load :: "int \<Rightarrow> int"
  MAX_USER_RT_PRIO :: int
  MIN_NICE :: int
  MAX_NICE :: int
  NICE_WIDTH :: int
  WEIGHT_IDLEPRIO :: int
  WMULT_IDLEPRIO :: int
  SCHED_NORMAL :: int
  SCHED_FIFO :: int
  SCHED_RR :: int
  SCHED_BATCH :: int
  SCHED_IDLE :: int
  SCHED_DEADLINE :: int
  SCHED_RESET_ON_FORK :: int
  SCHED_FLAG_RESET_ON_FORK :: int
  SCHED_FLAG_KEEP_POLICY :: int
  SCHED_FLAG_KEEP_PARAMS :: int
  SCHED_FLAG_UTIL_CLAMP_MIN :: int
  SCHED_FLAG_UTIL_CLAMP_MAX :: int
  SCHED_FLAG_UTIL_CLAMP :: int
  SCHED_FLAG_ALL :: int
  SCHED_FLAG_SUGOV :: int
  EPERM :: int
  ESRCH :: int
  EAGAIN :: int
  EFAULT :: int
  EBUSY :: int
  EINVAL :: int
  E2BIG :: int
  SCHED_ATTR_SIZE_VER0 :: int
  SCHED_ATTR_SIZE_VER1 :: int
  PAGE_SIZE :: int

text \<open>\<open>sched_setparam\<close> passes this as its policy.\<close>

definition SETPARAM_POLICY :: int where "SETPARAM_POLICY = - 1"

definition static_normal_prio :: "task_struct \<Rightarrow> int" where
  "static_normal_prio p = static_prio p"

definition calc_normal_prio :: "headers \<Rightarrow> task_struct \<Rightarrow> int" where
  "calc_normal_prio h p =
     (if dl_policy h (policy p) then MAX_DL_PRIO h - 1
      else if rt_policy h (policy p) then MAX_RT_PRIO h - 1 - rt_priority p
      else static_normal_prio p)"

definition effective_prio :: "headers \<Rightarrow> task_struct \<Rightarrow> task_struct \<times> int" where
  "effective_prio h p =
     (let p1 = p\<lparr>normal_prio := calc_normal_prio h p\<rparr> in
      (p1, if \<not> rt_prio h (prio p1) then normal_prio p1 else prio p1))"

section \<open>sched_fork\<close>

text \<open>\<open>if (unlikely(p->sched_reset_on_fork)) { ... }\<close>\<close>

definition fork_reset :: "headers \<Rightarrow> task_struct \<Rightarrow> task_struct" where
  "fork_reset h p =
     (if sched_reset_on_fork p then
        let p1 = (if dl_policy h (policy p) \<or> rt_policy h (policy p) then
                    p\<lparr>policy := SCHED_NORMAL h, static_prio := NICE_TO_PRIO h 0, rt_priority := 0\<rparr>
                  else if PRIO_TO_NICE h (static_prio p) < 0 then p\<lparr>static_prio := NICE_TO_PRIO h 0\<rparr>
                  else p);
            p2 = p1\<lparr>normal_prio := static_normal_prio p1, prio := static_normal_prio p1\<rparr>
        in p2\<lparr>sched_reset_on_fork := False\<rparr>
      else p)"

text \<open>The rest of the function: the class, and the cleared accounting.\<close>

definition fork_class :: "headers \<Rightarrow> bool \<Rightarrow> task_struct \<Rightarrow> int \<times> task_struct" where
  "fork_class h on p =
     (if dl_prio h (prio p) then (- EAGAIN h, p)
      else
        let p1 = p\<lparr>cls := (if rt_prio h (prio p) then Rt else Fair)\<rparr>;
            p2 = (if on then p1\<lparr>info := \<lparr>pcount = 0, run_delay = 0, last_arrival = 0, last_queued = 0\<rparr>\<rparr> else p1)
        in (0, p2))"

definition cfs_sched_fork :: "headers \<Rightarrow> bool \<Rightarrow> task_struct \<Rightarrow> task_struct \<Rightarrow> int \<times> task_struct" where
  "cfs_sched_fork h on current p =
     fork_class h on (fork_reset h
       (p\<lparr>state := TASK_NEW, accumulated_cputime := 0, prio := normal_prio current\<rparr>))"

definition fifo_force :: "headers \<Rightarrow> task_struct \<Rightarrow> task_struct" where
  "fifo_force h p =
     (if policy p = SCHED_NORMAL h then
        let n = MAX_RT_PRIO h div 2 in
        p\<lparr>prio := n, normal_prio := n, rt_priority := n, policy := SCHED_FIFO h\<rparr>
      else p)"

definition fifo_sched_fork :: "headers \<Rightarrow> bool \<Rightarrow> task_struct \<Rightarrow> task_struct \<Rightarrow> int \<times> task_struct" where
  "fifo_sched_fork h on current p =
     fork_class h on (fork_reset h (fifo_force h (p\<lparr>state := TASK_NEW\<rparr>)))"

section \<open>sched_setscheduler\<close>

record sched_attr =
  sched_policy :: int
  sched_priority :: int
  sched_nice :: int
  sched_flags :: int
  sched_util_min :: int
  sched_util_max :: int

text \<open>The attributes \<open>_sched_setscheduler\<close> passes on, with the policy forced or not; the priority is stored as an unsigned number.\<close>

definition reset_flag :: "headers \<Rightarrow> int \<Rightarrow> sched_attr \<Rightarrow> sched_attr" where
  "reset_flag h pol a =
     (if pol \<noteq> SETPARAM_POLICY \<and> pol AND SCHED_RESET_ON_FORK h \<noteq> 0 then
        a\<lparr>sched_flags := sched_flags a OR SCHED_FLAG_RESET_ON_FORK h,
          sched_policy := pol AND NOT (SCHED_RESET_ON_FORK h)\<rparr>
      else a)"

definition cfs_attr :: "headers \<Rightarrow> task_struct \<Rightarrow> int \<Rightarrow> int \<Rightarrow> sched_attr" where
  "cfs_attr h p pol param =
     reset_flag h pol \<lparr>sched_policy = pol, sched_priority = param mod 2 ^ 32, sched_nice = PRIO_TO_NICE h (static_prio p),
       sched_flags = 0, sched_util_min = 0, sched_util_max = 0\<rparr>"

definition fifo_attr :: "headers \<Rightarrow> task_struct \<Rightarrow> int \<Rightarrow> int \<Rightarrow> sched_attr" where
  "fifo_attr h p pol param =
     (let a = \<lparr>sched_policy = pol, sched_priority = param mod 2 ^ 32, sched_nice = PRIO_TO_NICE h (static_prio p),
              sched_flags = 0, sched_util_min = 0, sched_util_max = 0\<rparr> in
      reset_flag h pol
        (if sched_policy a = SCHED_NORMAL h then a\<lparr>sched_priority := MAX_RT_PRIO h div 2, sched_policy := SCHED_FIFO h\<rparr>
         else a))"

end
