(* ===== verification/Sched_Props.thy ===== *)
theory Sched_Props
  imports Sched
begin

text \<open>
  The properties of the scheduler changes: the accounting over any sequence of scheduling events, and
  what the two versions of \<open>sched_fork\<close> give to a child.
\<close>

section \<open>Scheduling events\<close>

text \<open>
  One CPU: the clock of its run queue runs, tasks are queued and dequeued (\<open>enqueue_task\<close> and
  \<open>dequeue_task\<close> call the accounting), change their state, and the CPU switches to another task
  (\<open>prepare_task_switch\<close>, then \<open>finish_task_switch\<close> of the CFS kernel with its report). Task 0 is the idle task.
\<close>

datatype event = Tick nat | Enqueue nat | Dequeue nat | SetState nat int | Switch nat

record cpu =
  runq :: rq
  tasks :: "nat \<Rightarrow> task_struct"
  curr :: nat
  klog :: "string list"

definition cpu_step :: "cpu \<Rightarrow> event \<Rightarrow> cpu" where
  "cpu_step c e =
     (case e of
        Tick d \<Rightarrow> c\<lparr>runq := (runq c)\<lparr>clock := clock (runq c) + of_nat d\<rparr>\<rparr>
      | Enqueue t \<Rightarrow> c\<lparr>tasks := (tasks c)(t := sched_info_queued True (runq c) (tasks c t))\<rparr>
      | Dequeue t \<Rightarrow>
          (case sched_info_dequeued True (runq c) (tasks c t) of (r, t') \<Rightarrow>
             c\<lparr>runq := r, tasks := (tasks c)(t := t')\<rparr>)
      | SetState t s \<Rightarrow> c\<lparr>tasks := (tasks c)(t := (tasks c t)\<lparr>state := s\<rparr>)\<rparr>
      | Switch n \<Rightarrow>
          if n = curr c then c
          else (case sched_info_switch True 0 (curr c) n (runq c) (tasks c) of (r, ts) \<Rightarrow>
            c\<lparr>runq := r, tasks := ts, curr := n,
              klog := klog c @ burst_report (int (curr c)) (state (tasks c (curr c))) (ts (curr c))\<rparr>))"

definition cpu_run :: "cpu \<Rightarrow> event list \<Rightarrow> cpu" where
  "cpu_run c es = foldl cpu_step c es"

text \<open>The time a task was on the CPU, read off the events.\<close>

fun ran :: "nat \<Rightarrow> nat \<Rightarrow> event list \<Rightarrow> nat" where
  "ran t cur [] = 0"
| "ran t cur (Tick d # es) = (if cur = t then d else 0) + ran t cur es"
| "ran t cur (Switch n # es) = ran t n es"
| "ran t cur (_ # es) = ran t cur es"

definition on_cpu_time :: "cpu \<Rightarrow> nat \<Rightarrow> u64" where
  "on_cpu_time c t =
     accumulated_cputime (tasks c t) +
     (if curr c = t then clock (runq c) - last_arrival (info (tasks c t)) else 0)"

lemmas sched_info_defs = sched_info_queued_def sched_info_dequeued_def sched_info_depart_def sched_info_arrive_def
  sched_info_reset_dequeued_def sched_info_switch_def sched_info_switch_on_def rq_sched_info_arrive_def
  rq_sched_info_depart_def rq_sched_info_dequeued_def Let_def

lemma on_cpu_step:
  assumes "t \<noteq> 0"
  shows "on_cpu_time (cpu_step c e) t =
    on_cpu_time c t + (case e of Tick d \<Rightarrow> if curr c = t then of_nat d else 0 | _ \<Rightarrow> 0)"
  using assms
  by (cases e) (auto simp: cpu_step_def on_cpu_time_def sched_info_defs)

lemma curr_step: "curr (cpu_step c e) = (case e of Switch n \<Rightarrow> n | _ \<Rightarrow> curr c)"
  by (cases e) (auto simp: cpu_step_def split: prod.splits)

lemma on_cpu_run:
  "t \<noteq> 0 \<Longrightarrow> on_cpu_time (cpu_run c es) t = on_cpu_time c t + of_nat (ran t (curr c) es)"
proof (induction es arbitrary: c)
  case (Cons e es)
  then show ?case by (cases e) (simp_all add: cpu_run_def on_cpu_step curr_step)
qed (simp add: cpu_run_def)

text \<open>The run queue's own counter.\<close>

lemma rq_time_step:
  assumes "finite T" and "0 \<notin> T" and "curr c \<in> insert 0 T"
  shows "rq_cpu_time (runq (cpu_step c e)) - (\<Sum>t\<in>T. accumulated_cputime (tasks (cpu_step c e) t)) =
    rq_cpu_time (runq c) - (\<Sum>t\<in>T. accumulated_cputime (tasks c t))"
proof (cases "\<exists>n. e = Switch n \<and> n \<noteq> curr c \<and> curr c \<noteq> 0")
  case False
  then have "rq_cpu_time (runq (cpu_step c e)) = rq_cpu_time (runq c)"
    "accumulated_cputime (tasks (cpu_step c e) t) = accumulated_cputime (tasks c t)" for t
    by (cases e; auto simp: cpu_step_def sched_info_defs)+
  then show ?thesis by simp
next
  case True
  then obtain n where e: "e = Switch n" "n \<noteq> curr c" "curr c \<noteq> 0" by blast
  let ?d = "clock (runq c) - last_arrival (info (tasks c (curr c)))"
  have m: "curr c \<in> T" using e assms(3) by simp
  have r: "rq_cpu_time (runq (cpu_step c e)) = rq_cpu_time (runq c) + ?d"
    using e by (auto simp: cpu_step_def sched_info_defs)
  have a: "accumulated_cputime (tasks (cpu_step c e) t) =
      accumulated_cputime (tasks c t) + (if t = curr c then ?d else 0)" for t
    using e by (auto simp: cpu_step_def sched_info_defs)
  have "(\<Sum>t\<in>T. accumulated_cputime (tasks (cpu_step c e) t)) = (\<Sum>t\<in>T. accumulated_cputime (tasks c t)) + ?d"
    unfolding a sum.distrib using assms(1) m by simp
  with r show ?thesis by simp
qed

definition switches_to :: "event list \<Rightarrow> nat set" where
  "switches_to es = {n. Switch n \<in> set es}"

lemma rq_time_run:
  assumes "finite T" and "0 \<notin> T" and "curr c \<in> insert 0 T" and "switches_to es \<subseteq> insert 0 T"
  shows "rq_cpu_time (runq (cpu_run c es)) - (\<Sum>t\<in>T. accumulated_cputime (tasks (cpu_run c es) t)) =
    rq_cpu_time (runq c) - (\<Sum>t\<in>T. accumulated_cputime (tasks c t))"
  using assms(3,4)
proof (induction es arbitrary: c)
  case (Cons e es)
  have "curr (cpu_step c e) \<in> insert 0 T" "switches_to es \<subseteq> insert 0 T"
    using Cons.prems by (auto simp: curr_step switches_to_def split: event.splits)
  from Cons.IH [OF this] rq_time_step [OF assms(1,2) Cons.prems(1), of e] show ?case
    by (simp add: cpu_run_def)
qed (simp add: cpu_run_def)

text \<open>A CPU that runs its idle task, with nothing accounted yet.\<close>

definition fresh_cpu :: "cpu \<Rightarrow> bool" where
  "fresh_cpu c \<longleftrightarrow> curr c = 0 \<and> rq_cpu_time (runq c) = 0 \<and> (\<forall>t. accumulated_cputime (tasks c t) = 0)"

text \<open>
  C4. The accounting that was added is right: after any sequence of clock ticks, wake-ups, blockings and
  switches on a CPU that started idle, \<open>accumulated_cputime\<close> of a task, plus what it has run since it
  was last switched to, is exactly the time it was on the CPU (modulo 2 to the 64 nanoseconds), and
  the times of all tasks add up to the time counted for the run queue.
\<close>

theorem cputime_accounting:
  assumes "fresh_cpu c" and "t \<noteq> 0" and "finite T" and "0 \<notin> T" and "switches_to es \<subseteq> insert 0 T"
  shows "on_cpu_time (cpu_run c es) t = of_nat (ran t 0 es)
    \<and> rq_cpu_time (runq (cpu_run c es)) = (\<Sum>t\<in>T. accumulated_cputime (tasks (cpu_run c es) t))"
proof
  show "on_cpu_time (cpu_run c es) t = of_nat (ran t 0 es)"
    using on_cpu_run [OF assms(2), of c es] assms(1,2) by (simp add: fresh_cpu_def on_cpu_time_def)
  show "rq_cpu_time (runq (cpu_run c es)) = (\<Sum>t\<in>T. accumulated_cputime (tasks (cpu_run c es) t))"
    using rq_time_run [OF assms(3,4) _ assms(5), of c] assms(1) by (simp add: fresh_cpu_def)
qed

definition new_task :: task_struct where
  "new_task = \<lparr>state = TASK_RUNNING, prio = 120, static_prio = 120, normal_prio = 120, rt_priority = 0, cls = Fair,
     policy = 0, sched_reset_on_fork = False, accumulated_cputime = 0,
     info = \<lparr>pcount = 0, run_delay = 0, last_arrival = 0, last_queued = 0\<rparr>\<rparr>"

definition boot_cpu :: cpu where
  "boot_cpu = \<lparr>runq = \<lparr>clock = 5, rq_run_delay = 0, rq_pcount = 0, rq_cpu_time = 0\<rparr>, tasks = \<lambda>_. new_task, curr = 0, klog = []\<rparr>"

definition some_events :: "event list" where
  "some_events = [Enqueue 1, Tick 3, Switch 1, Tick 4, Switch 2, Tick 6, Switch 1, Tick 1]"

theorem cputime_accounting_witness:
  "on_cpu_time (cpu_run boot_cpu some_events) 1 = 5
    \<and> rq_cpu_time (runq (cpu_run boot_cpu some_events))
      = (\<Sum>t\<in>{1, 2}. accumulated_cputime (tasks (cpu_run boot_cpu some_events) t))"
proof -
  have f: "fresh_cpu boot_cpu" by (simp add: fresh_cpu_def boot_cpu_def new_task_def)
  have s: "switches_to some_events \<subseteq> insert 0 {1, 2}" by (auto simp: switches_to_def some_events_def)
  have r: "ran 1 0 some_events = 5" by (simp add: some_events_def)
  show ?thesis using cputime_accounting [OF f _ _ _ s, of 1] by (simp add: r del: One_nat_def)
qed

text \<open>A task that is switched away from is not on the CPU: all its time is in the accumulated time.\<close>

lemma reported_time:
  assumes "t \<noteq> 0" and "curr c = t" and "n \<noteq> t" and "state (tasks c t) = TASK_DEAD"
  shows "klog (cpu_step c (Switch n)) = klog c @
    [''[PID '' @ show_int (int t) @ ''] CPU burst time : '' @ show_int (uint (on_cpu_time c t)) @ '' ns'' @ nl]"
  using assms by (auto simp: cpu_step_def sched_info_defs burst_report_def on_cpu_time_def)

text \<open>
  The report of a task that ends: when the CPU switches away from a dead task, the kernel prints one
  line with exactly the time the task was on the CPU since it first ran (modulo 2 to the 64 nanoseconds),
  the last stretch included.
\<close>

theorem burst_time_reported:
  assumes "fresh_cpu c" and "t \<noteq> 0" and "n \<noteq> t" and "curr (cpu_run c es) = t"
    and "state (tasks (cpu_run c es) t) = TASK_DEAD"
  shows "klog (cpu_run c (es @ [Switch n])) = klog (cpu_run c es) @
    [''[PID '' @ show_int (int t) @ ''] CPU burst time : '' @ show_int (int (ran t 0 es) mod 2 ^ 64) @ '' ns'' @ nl]"
proof -
  have "on_cpu_time (cpu_run c es) t = of_nat (ran t 0 es)"
    using on_cpu_run [OF assms(2), of c es] assms(1,2) by (simp add: fresh_cpu_def on_cpu_time_def)
  then have "uint (on_cpu_time (cpu_run c es) t) = int (ran t 0 es) mod 2 ^ 64"
    by (simp add: unsigned_of_nat take_bit_eq_mod of_nat_mod)
  with reported_time [OF assms(2,4,3,5)] show ?thesis by (simp add: cpu_run_def)
qed

theorem burst_time_reported_witness:
  "klog (cpu_run boot_cpu (some_events @ [SetState 1 TASK_DEAD, Switch 0])) =
    [''[PID '' @ show_int 1 @ ''] CPU burst time : '' @ show_int 5 @ '' ns'' @ nl]"
proof -
  let ?es = "some_events @ [SetState 1 TASK_DEAD]"
  note defs = cpu_run_def some_events_def cpu_step_def boot_cpu_def new_task_def sched_info_defs
    burst_report_def TASK_DEAD_def TASK_RUNNING_def
  have f: "fresh_cpu boot_cpu" by (simp add: fresh_cpu_def boot_cpu_def new_task_def)
  have c: "curr (cpu_run boot_cpu ?es) = 1" by (simp add: defs)
  have d: "state (tasks (cpu_run boot_cpu ?es) 1) = TASK_DEAD" by (simp add: defs)
  have k: "klog (cpu_run boot_cpu ?es) = []" by (simp add: defs)
  have r: "ran 1 0 ?es = 5" by (simp add: some_events_def)
  from burst_time_reported [OF f _ _ c d, of 0] show ?thesis by (simp add: k r del: One_nat_def)
qed

section \<open>Forking\<close>

text \<open>The documented values of the headers of Linux 5.11.\<close>

definition linux_headers :: "headers \<Rightarrow> bool" where
  "linux_headers h \<longleftrightarrow> MAX_RT_PRIO h = 100 \<and> MAX_DL_PRIO h = 0 \<and> (\<forall>n. NICE_TO_PRIO h n = n + 120)
     \<and> (\<forall>n. PRIO_TO_NICE h n = n - 120) \<and> (\<forall>n. rt_prio h n \<longleftrightarrow> n < 100) \<and> (\<forall>n. dl_prio h n \<longleftrightarrow> n < 0)
     \<and> (\<forall>n. rt_policy h n \<longleftrightarrow> n = 1 \<or> n = 2) \<and> (\<forall>n. dl_policy h n \<longleftrightarrow> n = 6)
     \<and> (\<forall>n. fair_policy h n \<longleftrightarrow> n = 0 \<or> n = 3) \<and> (\<forall>n. idle_policy h n \<longleftrightarrow> n = 5)
     \<and> (\<forall>n. valid_policy h n \<longleftrightarrow> n \<in> {0, 1, 2, 3, 5, 6}) \<and> (\<forall>n. nice_to_rlimit h n = 20 - n)
     \<and> (\<forall>n. scale_load h n = n * 1024) \<and> MAX_USER_RT_PRIO h = 100 \<and> MIN_NICE h = - 20 \<and> MAX_NICE h = 19
     \<and> NICE_WIDTH h = 40 \<and> WEIGHT_IDLEPRIO h = 3 \<and> WMULT_IDLEPRIO h = 1431655765
     \<and> SCHED_NORMAL h = 0 \<and> SCHED_FIFO h = 1 \<and> SCHED_RR h = 2 \<and> SCHED_BATCH h = 3 \<and> SCHED_IDLE h = 5
     \<and> SCHED_DEADLINE h = 6 \<and> SCHED_RESET_ON_FORK h = 0x40000000 \<and> SCHED_FLAG_RESET_ON_FORK h = 1
     \<and> SCHED_FLAG_KEEP_POLICY h = 8 \<and> SCHED_FLAG_KEEP_PARAMS h = 16 \<and> SCHED_FLAG_UTIL_CLAMP_MIN h = 32
     \<and> SCHED_FLAG_UTIL_CLAMP_MAX h = 64 \<and> SCHED_FLAG_UTIL_CLAMP h = 96 \<and> SCHED_FLAG_ALL h = 127
     \<and> SCHED_FLAG_SUGOV h = 0x10000000 \<and> EPERM h = 1 \<and> ESRCH h = 3 \<and> EAGAIN h = 11 \<and> EFAULT h = 14
     \<and> EBUSY h = 16 \<and> EINVAL h = 22 \<and> E2BIG h = 7 \<and> SCHED_ATTR_SIZE_VER0 h = 48 \<and> SCHED_ATTR_SIZE_VER1 h = 56 \<and> PAGE_SIZE h = 4096"

definition linux_5_11 :: headers where
  "linux_5_11 = \<lparr>MAX_RT_PRIO = 100, MAX_DL_PRIO = 0, NICE_TO_PRIO = \<lambda>n. n + 120, PRIO_TO_NICE = \<lambda>n. n - 120,
     rt_prio = \<lambda>n. n < 100, dl_prio = \<lambda>n. n < 0, rt_policy = \<lambda>n. n = 1 \<or> n = 2, dl_policy = \<lambda>n. n = 6,
     fair_policy = \<lambda>n. n = 0 \<or> n = 3, idle_policy = \<lambda>n. n = 5, valid_policy = \<lambda>n. n \<in> {0, 1, 2, 3, 5, 6},
     nice_to_rlimit = \<lambda>n. 20 - n, scale_load = \<lambda>n. n * 1024, MAX_USER_RT_PRIO = 100, MIN_NICE = - 20,
     MAX_NICE = 19, NICE_WIDTH = 40, WEIGHT_IDLEPRIO = 3, WMULT_IDLEPRIO = 1431655765,
     SCHED_NORMAL = 0, SCHED_FIFO = 1, SCHED_RR = 2, SCHED_BATCH = 3, SCHED_IDLE = 5, SCHED_DEADLINE = 6,
     SCHED_RESET_ON_FORK = 0x40000000, SCHED_FLAG_RESET_ON_FORK = 1, SCHED_FLAG_KEEP_POLICY = 8,
     SCHED_FLAG_KEEP_PARAMS = 16, SCHED_FLAG_UTIL_CLAMP_MIN = 32, SCHED_FLAG_UTIL_CLAMP_MAX = 64,
     SCHED_FLAG_UTIL_CLAMP = 96, SCHED_FLAG_ALL = 127, SCHED_FLAG_SUGOV = 0x10000000, EPERM = 1, ESRCH = 3,
     EAGAIN = 11, EFAULT = 14, EBUSY = 16, EINVAL = 22, E2BIG = 7, SCHED_ATTR_SIZE_VER0 = 48,
     SCHED_ATTR_SIZE_VER1 = 56, PAGE_SIZE = 4096\<rparr>"

lemma linux_5_11_headers: "linux_headers linux_5_11"
  by (simp add: linux_headers_def linux_5_11_def)

lemmas fork_defs = cfs_sched_fork_def fifo_sched_fork_def fork_class_def fork_reset_def fifo_force_def
  linux_headers_def static_normal_prio_def calc_normal_prio_def effective_prio_def Let_def

text \<open>
  C23. The child of a normal task (the copy of its parent, priority 100 to 139, no reset asked for): with
  the CFS kernel it stays in the fair class with its parent's normal priority and starts with no CPU
  time; with the FIFO kernel it is a real-time FIFO task of priority 50, whose CPU time starts with
  that of its parent and whose priority is not the one its \<open>rt_priority\<close> of 50 stands for (49), which
  \<open>effective_prio\<close> does not correct.
\<close>

theorem fork_of_normal_task:
  assumes "linux_headers h" and "policy p = 0" and "\<not> sched_reset_on_fork p" and "100 \<le> normal_prio p"
  shows "\<exists>c f. cfs_sched_fork h on p p = (0, c) \<and> fifo_sched_fork h on p p = (0, f)
    \<and> state c = TASK_NEW \<and> policy c = 0 \<and> cls c = Fair \<and> prio c = normal_prio p \<and> accumulated_cputime c = 0
    \<and> state f = TASK_NEW \<and> policy f = 1 \<and> cls f = Rt \<and> prio f = 50 \<and> rt_priority f = 50
    \<and> calc_normal_prio h f = 49 \<and> snd (effective_prio h f) = 50 \<and> accumulated_cputime f = accumulated_cputime p"
  using assms by (auto simp: fork_defs)

theorem fork_of_normal_task_witness:
  "\<exists>c f. cfs_sched_fork linux_5_11 True new_task new_task = (0, c) \<and> fifo_sched_fork linux_5_11 True new_task new_task = (0, f)
    \<and> state c = TASK_NEW \<and> policy c = 0 \<and> cls c = Fair \<and> prio c = normal_prio new_task \<and> accumulated_cputime c = 0
    \<and> state f = TASK_NEW \<and> policy f = 1 \<and> cls f = Rt \<and> prio f = 50 \<and> rt_priority f = 50
    \<and> calc_normal_prio linux_5_11 f = 49 \<and> snd (effective_prio linux_5_11 f) = 50 \<and> accumulated_cputime f = accumulated_cputime new_task"
  by (rule fork_of_normal_task [OF linux_5_11_headers]) (simp_all add: new_task_def)

text \<open>
  Not every task becomes FIFO, and a boosted priority leaks: in the FIFO kernel a child whose parent
  asked for a reset on fork is a fair task again; \<open>sched_setscheduler\<close> with the normal policy and the
  reset flag keeps the normal policy; and the child of a task with a real-time policy keeps the
  parent's boosted priority, where the CFS kernel gives it the parent's normal priority.
\<close>

theorem fifo_not_for_all:
  assumes "linux_headers h" and "100 \<le> static_prio p" and "static_prio p < 140"
  shows "(policy p = 0 \<and> sched_reset_on_fork p \<longrightarrow>
      (\<exists>f. fifo_sched_fork h on p p = (0, f) \<and> policy f = 0 \<and> cls f = Fair))
    \<and> sched_policy (fifo_attr h p (0 OR 0x40000000) 0) = 0
    \<and> sched_policy (fifo_attr h p 0 0) = 1 \<and> sched_priority (fifo_attr h p 0 0) = 50
    \<and> (policy p = 1 \<and> \<not> sched_reset_on_fork p \<and> 0 \<le> prio p \<and> 0 \<le> normal_prio p \<longrightarrow>
      prio (snd (fifo_sched_fork h on p p)) = prio p \<and> prio (snd (cfs_sched_fork h on p p)) = normal_prio p)"
proof (intro conjI impI)
  show "\<exists>f. fifo_sched_fork h on p p = (0, f) \<and> policy f = 0 \<and> cls f = Fair" if "policy p = 0 \<and> sched_reset_on_fork p"
    using assms that by (auto simp: fork_defs)
  show "sched_policy (fifo_attr h p (0 OR 0x40000000) 0) = 0"
    using assms(1) by (simp add: fifo_attr_def reset_flag_def SETPARAM_POLICY_def linux_headers_def Let_def)
  show "sched_policy (fifo_attr h p 0 0) = 1" "sched_priority (fifo_attr h p 0 0) = 50"
    using assms(1) by (simp_all add: fifo_attr_def reset_flag_def SETPARAM_POLICY_def linux_headers_def Let_def)
  assume "policy p = 1 \<and> \<not> sched_reset_on_fork p \<and> 0 \<le> prio p \<and> 0 \<le> normal_prio p"
  then show "prio (snd (fifo_sched_fork h on p p)) = prio p" "prio (snd (cfs_sched_fork h on p p)) = normal_prio p"
    using assms(1) by (auto simp: fork_defs)
qed

theorem fifo_not_for_all_witness:
  "(\<exists>f. fifo_sched_fork linux_5_11 True (new_task\<lparr>sched_reset_on_fork := True\<rparr>) (new_task\<lparr>sched_reset_on_fork := True\<rparr>)
      = (0, f) \<and> policy f = 0 \<and> cls f = Fair)
    \<and> sched_policy (fifo_attr linux_5_11 (new_task\<lparr>sched_reset_on_fork := True\<rparr>) (0 OR 0x40000000) 0) = 0"
  using fifo_not_for_all [OF linux_5_11_headers, of "new_task\<lparr>sched_reset_on_fork := True\<rparr>" True]
  by (simp add: new_task_def)

end
