(* ===== verification/Uclamp.thy ===== *)
theory Uclamp
  imports Sched
begin

unbundle bit_operations_syntax

text \<open>
  Utilisation clamping in \<open>src/Assignment_4/cfs/core.c\<close> (the same text in \<open>fifo/core.c\<close>): the clamps a task asks
  for, those in effect, and the counting of the runnable tasks in the buckets of a run queue.

  The number of buckets is a choice of the configuration. An access to a bucket is checked against their
  number. \<open>SCHED_WARN_ON\<close> sets the field \<open>uclamp_warned\<close>. The locks are left out: each function runs with
  the lock of the run queue held.
\<close>

section \<open>Data\<close>

datatype uclamp_id = UCLAMP_MIN | UCLAMP_MAX

definition SCHED_CAPACITY_SCALE :: nat where "SCHED_CAPACITY_SCALE = 2 ^ 10"

text \<open>\<open>value\<close> is a bit field of \<open>bits_per(SCHED_CAPACITY_SCALE)\<close>, that is 11, bits.\<close>

record uclamp_se =
  se_value :: nat
  bucket_id :: nat
  active :: bool
  user_defined :: bool

record uclamp_bucket =
  b_value :: nat
  b_tasks :: nat

record uclamp_rq =
  rq_value :: nat
  bucket :: "uclamp_bucket list"

record clamp_rq =
  uclamps :: "uclamp_id \<Rightarrow> uclamp_rq"
  uclamp_idle :: bool
  uclamp_warned :: bool

text \<open>
  A task: the clamps it asked for, those in effect, those of its group (none for the root group and
  autogroups), whether its class uses clamps, and whether it has a real-time priority.
\<close>

record clamp_task =
  uclamp_req :: "uclamp_id \<Rightarrow> uclamp_se"
  uclamp :: "uclamp_id \<Rightarrow> uclamp_se"
  group_clamps :: "(uclamp_id \<Rightarrow> uclamp_se) option"
  uclamp_enabled :: bool
  is_rt_task :: bool

record clamp_system =
  UCLAMP_BUCKETS :: nat
  sched_uclamp_used :: bool
  uclamp_default :: "uclamp_id \<Rightarrow> uclamp_se"
  sysctl_util_min :: nat
  sysctl_util_max :: nat
  sysctl_util_min_rt_default :: nat

section \<open>Values and buckets\<close>

definition UCLAMP_BUCKET_DELTA :: "nat \<Rightarrow> nat" where
  "UCLAMP_BUCKET_DELTA n = (SCHED_CAPACITY_SCALE + n div 2) div n"

definition uclamp_bucket_id :: "nat \<Rightarrow> nat \<Rightarrow> nat" where
  "uclamp_bucket_id n clamp_value = min (clamp_value div UCLAMP_BUCKET_DELTA n) (n - 1)"

definition uclamp_none :: "uclamp_id \<Rightarrow> nat" where
  "uclamp_none clamp_id = (if clamp_id = UCLAMP_MIN then 0 else SCHED_CAPACITY_SCALE)"

definition uclamp_se_set :: "nat \<Rightarrow> uclamp_se \<Rightarrow> nat \<Rightarrow> bool \<Rightarrow> uclamp_se" where
  "uclamp_se_set n uc_se v user =
     uc_se\<lparr>se_value := v mod 2 ^ 11, bucket_id := uclamp_bucket_id n v, user_defined := user\<rparr>"

definition uclamp_idle_value :: "clamp_rq \<Rightarrow> uclamp_id \<Rightarrow> nat \<Rightarrow> clamp_rq \<times> nat" where
  "uclamp_idle_value rq clamp_id clamp_value =
     (if clamp_id = UCLAMP_MAX then (rq\<lparr>uclamp_idle := True\<rparr>, clamp_value)
      else (rq, uclamp_none UCLAMP_MIN))"

definition set_rq_value :: "uclamp_id \<Rightarrow> nat \<Rightarrow> clamp_rq \<Rightarrow> clamp_rq" where
  "set_rq_value clamp_id v rq = rq\<lparr>uclamps := (uclamps rq)(clamp_id := (uclamps rq clamp_id)\<lparr>rq_value := v\<rparr>)\<rparr>"

definition uclamp_idle_reset :: "clamp_rq \<Rightarrow> uclamp_id \<Rightarrow> nat \<Rightarrow> clamp_rq" where
  "uclamp_idle_reset rq clamp_id clamp_value =
     (if \<not> uclamp_idle rq then rq else set_rq_value clamp_id clamp_value rq)"

text \<open>The loop over the buckets from the highest one down: the value of the first one with tasks.\<close>

fun top_bucket :: "uclamp_bucket list \<Rightarrow> nat \<Rightarrow> nat option" where
  "top_bucket bs 0 = None"
| "top_bucket bs (Suc i) = (if b_tasks (bs ! i) = 0 then top_bucket bs i else Some (b_value (bs ! i)))"

definition uclamp_rq_max_value :: "clamp_rq \<Rightarrow> uclamp_id \<Rightarrow> nat \<Rightarrow> clamp_rq \<times> nat" where
  "uclamp_rq_max_value rq clamp_id clamp_value =
     (let bs = bucket (uclamps rq clamp_id) in
      case top_bucket bs (length bs) of
        Some v \<Rightarrow> (rq, v)
      | None \<Rightarrow> uclamp_idle_value rq clamp_id clamp_value)"

section \<open>Effective clamps\<close>

definition uclamp_tg_restrict :: "clamp_task \<Rightarrow> uclamp_id \<Rightarrow> uclamp_se" where
  "uclamp_tg_restrict p clamp_id =
     (let uc_req = uclamp_req p clamp_id in
      case group_clamps p of
        None \<Rightarrow> uc_req
      | Some g \<Rightarrow>
          let uc_max = g clamp_id in
          if se_value uc_req > se_value uc_max \<or> \<not> user_defined uc_req then uc_max else uc_req)"

definition uclamp_eff_get :: "clamp_system \<Rightarrow> clamp_task \<Rightarrow> uclamp_id \<Rightarrow> uclamp_se" where
  "uclamp_eff_get sys p clamp_id =
     (let uc_req = uclamp_tg_restrict p clamp_id; uc_max = uclamp_default sys clamp_id in
      if se_value uc_req > se_value uc_max then uc_max else uc_req)"

definition uclamp_eff_value :: "clamp_system \<Rightarrow> clamp_task \<Rightarrow> uclamp_id \<Rightarrow> nat" where
  "uclamp_eff_value sys p clamp_id =
     (if active (uclamp p clamp_id) then se_value (uclamp p clamp_id)
      else se_value (uclamp_eff_get sys p clamp_id))"

section \<open>Counting the runnable tasks\<close>

definition uclamp_rq_inc_id ::
  "clamp_system \<Rightarrow> uclamp_id \<Rightarrow> clamp_rq \<Rightarrow> clamp_task \<Rightarrow> (clamp_rq \<times> clamp_task) res" where
  "uclamp_rq_inc_id sys clamp_id rq p =
     (let uc_se = (uclamp_eff_get sys p clamp_id)\<lparr>active := True\<rparr>; v = se_value uc_se; i = bucket_id uc_se in
      bindR (aget (bucket (uclamps rq clamp_id)) (int i)) (\<lambda>b.
        let b1 = b\<lparr>b_tasks := b_tasks b + 1\<rparr>;
            rq1 = uclamp_idle_reset rq clamp_id v;
            b2 = (if b_tasks b1 = 1 \<or> v > b_value b1 then b1\<lparr>b_value := v\<rparr> else b1);
            q = (uclamps rq1 clamp_id)\<lparr>bucket := (bucket (uclamps rq1 clamp_id))[i := b2]\<rparr>;
            q1 = (if v > rq_value q then q\<lparr>rq_value := v\<rparr> else q)
        in Inr (rq1\<lparr>uclamps := (uclamps rq1)(clamp_id := q1)\<rparr>, p\<lparr>uclamp := (uclamp p)(clamp_id := uc_se)\<rparr>)))"

definition uclamp_rq_dec_id ::
  "uclamp_id \<Rightarrow> clamp_rq \<Rightarrow> clamp_task \<Rightarrow> (clamp_rq \<times> clamp_task) res" where
  "uclamp_rq_dec_id clamp_id rq p =
     (let uc_se = uclamp p clamp_id; i = bucket_id uc_se in
      if \<not> active uc_se then Inr (rq, p)
      else bindR (aget (bucket (uclamps rq clamp_id)) (int i)) (\<lambda>b.
        let rq1 = (if b_tasks b = 0 then rq\<lparr>uclamp_warned := True\<rparr> else rq);
            b1 = (if b_tasks b \<noteq> 0 then b\<lparr>b_tasks := b_tasks b - 1\<rparr> else b);
            q = (uclamps rq1 clamp_id)\<lparr>bucket := (bucket (uclamps rq1 clamp_id))[i := b1]\<rparr>;
            rq2 = rq1\<lparr>uclamps := (uclamps rq1)(clamp_id := q)\<rparr>;
            p1 = p\<lparr>uclamp := (uclamp p)(clamp_id := uc_se\<lparr>active := False\<rparr>)\<rparr>
        in if b_tasks b1 \<noteq> 0 then Inr (rq2, p1)
           else
             let rq_clamp = rq_value q;
                 rq3 = (if b_value b1 > rq_clamp then rq2\<lparr>uclamp_warned := True\<rparr> else rq2)
             in if b_value b1 \<ge> rq_clamp then
                  case uclamp_rq_max_value rq3 clamp_id (se_value uc_se) of (rq4, bkt_clamp) \<Rightarrow>
                    Inr (set_rq_value clamp_id bkt_clamp rq4, p1)
                else Inr (rq3, p1)))"

text \<open>\<open>for_each_clamp_id\<close>\<close>

definition uclamp_rq_inc :: "clamp_system \<Rightarrow> clamp_rq \<Rightarrow> clamp_task \<Rightarrow> (clamp_rq \<times> clamp_task) res" where
  "uclamp_rq_inc sys rq p =
     (if \<not> sched_uclamp_used sys then Inr (rq, p)
      else if \<not> uclamp_enabled p then Inr (rq, p)
      else bindR (uclamp_rq_inc_id sys UCLAMP_MIN rq p) (\<lambda>(rq1, p1).
           bindR (uclamp_rq_inc_id sys UCLAMP_MAX rq1 p1) (\<lambda>(rq2, p2).
             Inr (if uclamp_idle rq2 then rq2\<lparr>uclamp_idle := False\<rparr> else rq2, p2))))"

definition uclamp_rq_dec :: "clamp_system \<Rightarrow> clamp_rq \<Rightarrow> clamp_task \<Rightarrow> (clamp_rq \<times> clamp_task) res" where
  "uclamp_rq_dec sys rq p =
     (if \<not> sched_uclamp_used sys then Inr (rq, p)
      else if \<not> uclamp_enabled p then Inr (rq, p)
      else bindR (uclamp_rq_dec_id UCLAMP_MIN rq p) (\<lambda>(rq1, p1). uclamp_rq_dec_id UCLAMP_MAX rq1 p1))"

definition uclamp_update_active ::
  "clamp_system \<Rightarrow> uclamp_id \<Rightarrow> clamp_rq \<Rightarrow> clamp_task \<Rightarrow> (clamp_rq \<times> clamp_task) res" where
  "uclamp_update_active sys clamp_id rq p =
     (if active (uclamp p clamp_id) then
        bindR (uclamp_rq_dec_id clamp_id rq p) (\<lambda>(rq1, p1). uclamp_rq_inc_id sys clamp_id rq1 p1)
      else Inr (rq, p))"

section \<open>Requests\<close>

text \<open>\<open>uclamp_validate\<close>: the return value, and that clamping is switched on.\<close>

definition uclamp_validate :: "headers \<Rightarrow> clamp_system \<Rightarrow> clamp_task \<Rightarrow> sched_attr \<Rightarrow> int \<times> clamp_system" where
  "uclamp_validate h sys p attr =
     (let with_min = sched_flags attr AND SCHED_FLAG_UTIL_CLAMP_MIN h \<noteq> 0;
          with_max = sched_flags attr AND SCHED_FLAG_UTIL_CLAMP_MAX h \<noteq> 0;
          util_min = (if with_min then to_int32 (sched_util_min attr) else int (se_value (uclamp_req p UCLAMP_MIN)));
          util_max = (if with_max then to_int32 (sched_util_max attr) else int (se_value (uclamp_req p UCLAMP_MAX)))
      in if with_min \<and> to_int32 (util_min + 1) > int SCHED_CAPACITY_SCALE + 1 then (- EINVAL h, sys)
         else if with_max \<and> to_int32 (util_max + 1) > int SCHED_CAPACITY_SCALE + 1 then (- EINVAL h, sys)
         else if util_min \<noteq> - 1 \<and> util_max \<noteq> - 1 \<and> util_min > util_max then (- EINVAL h, sys)
         else (0, sys\<lparr>sched_uclamp_used := True\<rparr>))"

text \<open>The comparison with -1 is one of 32-bit unsigned numbers.\<close>

definition uclamp_reset :: "headers \<Rightarrow> sched_attr \<Rightarrow> uclamp_id \<Rightarrow> uclamp_se \<Rightarrow> bool" where
  "uclamp_reset h attr clamp_id uc_se \<longleftrightarrow>
     sched_flags attr AND SCHED_FLAG_UTIL_CLAMP h = 0 \<and> \<not> user_defined uc_se \<or>
     clamp_id = UCLAMP_MIN \<and> sched_flags attr AND SCHED_FLAG_UTIL_CLAMP_MIN h \<noteq> 0 \<and> sched_util_min attr = 2 ^ 32 - 1 \<or>
     clamp_id = UCLAMP_MAX \<and> sched_flags attr AND SCHED_FLAG_UTIL_CLAMP_MAX h \<noteq> 0 \<and> sched_util_max attr = 2 ^ 32 - 1"

definition reset_request :: "headers \<Rightarrow> clamp_system \<Rightarrow> sched_attr \<Rightarrow> uclamp_id \<Rightarrow> clamp_task \<Rightarrow> clamp_task" where
  "reset_request h sys attr clamp_id p =
     (let uc_se = uclamp_req p clamp_id in
      if \<not> uclamp_reset h attr clamp_id uc_se then p
      else
        let v = (if is_rt_task p \<and> clamp_id = UCLAMP_MIN then sysctl_util_min_rt_default sys else uclamp_none clamp_id)
        in p\<lparr>uclamp_req := (uclamp_req p)(clamp_id := uclamp_se_set (UCLAMP_BUCKETS sys) uc_se v False)\<rparr>)"

definition user_request :: "clamp_system \<Rightarrow> uclamp_id \<Rightarrow> int \<Rightarrow> clamp_task \<Rightarrow> clamp_task" where
  "user_request sys clamp_id v p =
     p\<lparr>uclamp_req := (uclamp_req p)(clamp_id :=
        uclamp_se_set (UCLAMP_BUCKETS sys) (uclamp_req p clamp_id) (nat v) True)\<rparr>"

definition setscheduler_uclamp :: "headers \<Rightarrow> clamp_system \<Rightarrow> sched_attr \<Rightarrow> clamp_task \<Rightarrow> clamp_task" where
  "setscheduler_uclamp h sys attr p =
     (let p1 = reset_request h sys attr UCLAMP_MAX (reset_request h sys attr UCLAMP_MIN p) in
      if sched_flags attr AND SCHED_FLAG_UTIL_CLAMP h = 0 then p1
      else
        let p2 = (if sched_flags attr AND SCHED_FLAG_UTIL_CLAMP_MIN h \<noteq> 0 \<and> sched_util_min attr \<noteq> 2 ^ 32 - 1
                  then user_request sys UCLAMP_MIN (sched_util_min attr) p1 else p1)
        in if sched_flags attr AND SCHED_FLAG_UTIL_CLAMP_MAX h \<noteq> 0 \<and> sched_util_max attr \<noteq> 2 ^ 32 - 1
           then user_request sys UCLAMP_MAX (sched_util_max attr) p2 else p2)"

section \<open>Fork and start-up\<close>

text \<open>The argument is the \<open>sched_reset_on_fork\<close> flag of the child.\<close>

definition uclamp_fork :: "clamp_system \<Rightarrow> bool \<Rightarrow> clamp_task \<Rightarrow> clamp_task" where
  "uclamp_fork sys reset_on_fork p =
     (let p1 = p\<lparr>uclamp := \<lambda>i. (uclamp p i)\<lparr>active := False\<rparr>\<rparr> in
      if \<not> reset_on_fork then p1
      else p1\<lparr>uclamp_req := \<lambda>i. uclamp_se_set (UCLAMP_BUCKETS sys) (uclamp_req p1 i) (uclamp_none i) False\<rparr>)"

text \<open>The default boost of real-time tasks, for a new task or after a change of the setting.\<close>

definition uclamp_update_util_min_rt_default :: "clamp_system \<Rightarrow> clamp_task \<Rightarrow> clamp_task" where
  "uclamp_update_util_min_rt_default sys p =
     (if \<not> is_rt_task p then p
      else if user_defined (uclamp_req p UCLAMP_MIN) then p
      else p\<lparr>uclamp_req := (uclamp_req p)(UCLAMP_MIN :=
        uclamp_se_set (UCLAMP_BUCKETS sys) (uclamp_req p UCLAMP_MIN) (sysctl_util_min_rt_default sys) False)\<rparr>)"

definition uclamp_post_fork :: "clamp_system \<Rightarrow> clamp_task \<Rightarrow> clamp_task" where
  "uclamp_post_fork sys p = uclamp_update_util_min_rt_default sys p"

definition init_uclamp_rq :: "nat \<Rightarrow> clamp_rq" where
  "init_uclamp_rq n =
     \<lparr>uclamps = \<lambda>i. \<lparr>rq_value = uclamp_none i, bucket = replicate n \<lparr>b_value = 0, b_tasks = 0\<rparr>\<rparr>,
      uclamp_idle = False, uclamp_warned = False\<rparr>"

definition zero_se :: uclamp_se where
  "zero_se = \<lparr>se_value = 0, bucket_id = 0, active = False, user_defined = False\<rparr>"

definition init_uclamp :: "nat \<Rightarrow> clamp_system \<times> (uclamp_id \<Rightarrow> uclamp_se)" where
  "init_uclamp n =
     (let uc_max = uclamp_se_set n zero_se (uclamp_none UCLAMP_MAX) False in
      (\<lparr>UCLAMP_BUCKETS = n, sched_uclamp_used = False, uclamp_default = \<lambda>i. uc_max,
        sysctl_util_min = SCHED_CAPACITY_SCALE, sysctl_util_max = SCHED_CAPACITY_SCALE,
        sysctl_util_min_rt_default = SCHED_CAPACITY_SCALE\<rparr>,
       \<lambda>i. uclamp_se_set n zero_se (uclamp_none i) False))"

section \<open>The system settings\<close>

text \<open>
  The handler of a write that \<open>proc_dointvec\<close> accepted: the three new values, and all tasks, whose default
  boosts are updated. (Without task groups: \<open>uclamp_update_root_tg\<close> does nothing.)
\<close>

definition sysctl_uclamp_write ::
  "headers \<Rightarrow> nat \<times> nat \<times> nat \<Rightarrow> clamp_system \<Rightarrow> clamp_task list \<Rightarrow> int \<times> clamp_system \<times> clamp_task list" where
  "sysctl_uclamp_write h vs sys ts =
     (case vs of (mn, mx, rt) \<Rightarrow>
        if mn > mx \<or> mx > SCHED_CAPACITY_SCALE \<or> rt > SCHED_CAPACITY_SCALE then (- EINVAL h, sys, ts)
        else
          let n = UCLAMP_BUCKETS sys;
              d1 = (if sysctl_util_min sys \<noteq> mn
                    then (uclamp_default sys)(UCLAMP_MIN := uclamp_se_set n (uclamp_default sys UCLAMP_MIN) mn False)
                    else uclamp_default sys);
              d2 = (if sysctl_util_max sys \<noteq> mx
                    then d1(UCLAMP_MAX := uclamp_se_set n (d1 UCLAMP_MAX) mx False) else d1);
              changed = (sysctl_util_min sys \<noteq> mn \<or> sysctl_util_max sys \<noteq> mx);
              rt_changed = (sysctl_util_min_rt_default sys \<noteq> rt);
              sys1 = sys\<lparr>sched_uclamp_used := (sched_uclamp_used sys \<or> changed \<or> rt_changed), uclamp_default := d2,
                sysctl_util_min := mn, sysctl_util_max := mx, sysctl_util_min_rt_default := rt\<rparr>
          in (0, sys1, if rt_changed then map (uclamp_update_util_min_rt_default sys1) ts else ts))"

end
