(* ===== verification/Uclamp_Props.thy ===== *)
theory Uclamp_Props
  imports Uclamp Sched_Props
begin

unbundle bit_operations_syntax

text \<open>
  The properties of utilisation clamping: the buckets count the runnable tasks and the clamp of the run
  queue is that of the topmost bucket, in every run of enqueues and dequeues; where the code departs from
  this; and which requests are accepted.
\<close>

section \<open>Buckets\<close>

lemma bucket_delta_pos: "0 < n \<Longrightarrow> n \<le> 1024 \<Longrightarrow> 0 < UCLAMP_BUCKET_DELTA n"
  by (simp add: UCLAMP_BUCKET_DELTA_def SCHED_CAPACITY_SCALE_def div_greater_zero_iff)

lemma bucket_id_less: "0 < n \<Longrightarrow> uclamp_bucket_id n v < n"
  by (simp add: uclamp_bucket_id_def)

lemma bucket_id_mono: "v \<le> w \<Longrightarrow> uclamp_bucket_id n v \<le> uclamp_bucket_id n w"
  unfolding uclamp_bucket_id_def by (meson div_le_mono min.mono order_refl)

text \<open>A value in a lower bucket is smaller.\<close>

lemma bucket_id_less_imp: "uclamp_bucket_id n v < uclamp_bucket_id n w \<Longrightarrow> v < w"
  using bucket_id_mono [of w v n] by linarith

definition is_top :: "uclamp_bucket list \<Rightarrow> nat \<Rightarrow> nat \<Rightarrow> bool" where
  "is_top bs k b \<longleftrightarrow> b < k \<and> b_tasks (bs ! b) \<noteq> 0 \<and> (\<forall>c. b < c \<and> c < k \<longrightarrow> b_tasks (bs ! c) = 0)"

lemma top_bucket_None: "top_bucket bs k = None \<longleftrightarrow> (\<forall>b < k. b_tasks (bs ! b) = 0)"
  by (induction k) (auto simp: less_Suc_eq)

lemma top_bucket_Some: "is_top bs k b \<Longrightarrow> top_bucket bs k = Some (b_value (bs ! b))"
proof (induction k)
  case (Suc k)
  then show ?case
  proof (cases "b = k")
    case False
    with Suc.prems have "is_top bs k b" "b_tasks (bs ! k) = 0" by (auto simp: is_top_def)
    with Suc.IH show ?thesis by simp
  qed (simp add: is_top_def)
qed (simp add: is_top_def)

lemma top_exists:
  assumes "b < k" and "b_tasks (bs ! b) \<noteq> 0"
  shows "\<exists>c. is_top bs k c \<and> b \<le> c"
  using assms
proof (induction k)
  case (Suc k)
  show ?case
  proof (cases "b_tasks (bs ! k) = 0")
    case True
    with Suc.prems have "b < k" using less_Suc_eq by auto
    with Suc obtain c where "is_top bs k c" "b \<le> c" by auto
    with True show ?thesis by (intro exI [of _ c]) (auto simp: is_top_def less_Suc_eq)
  next
    case False
    with Suc.prems show ?thesis by (intro exI [of _ k]) (auto simp: is_top_def)
  qed
qed simp

text \<open>
  What the buckets of one clamp should hold for the runnable tasks \<open>A\<close> with the clamps \<open>f\<close>.
\<close>

definition well_formed :: "nat \<Rightarrow> uclamp_se \<Rightarrow> bool" where
  "well_formed n se \<longleftrightarrow> bucket_id se = uclamp_bucket_id n (se_value se)"

definition counts :: "nat \<Rightarrow> nat set \<Rightarrow> (nat \<Rightarrow> uclamp_se) \<Rightarrow> uclamp_bucket list \<Rightarrow> bool" where
  "counts n A f bs \<longleftrightarrow> length bs = n \<and>
     (\<forall>b < n. b_tasks (bs ! b) = card {t \<in> A. bucket_id (f t) = b}) \<and>
     (\<forall>t \<in> A. well_formed n (f t) \<and> se_value (f t) \<le> b_value (bs ! bucket_id (f t))) \<and>
     (\<forall>b < n. b_tasks (bs ! b) \<noteq> 0 \<longrightarrow> uclamp_bucket_id n (b_value (bs ! b)) = b)"

definition clamped :: "nat \<Rightarrow> nat set \<Rightarrow> (nat \<Rightarrow> uclamp_se) \<Rightarrow> uclamp_rq \<Rightarrow> bool" where
  "clamped n A f q \<longleftrightarrow> counts n A f (bucket q) \<and> (A \<noteq> {} \<longrightarrow> top_bucket (bucket q) n = Some (rq_value q))"

lemma counts_top:
  assumes "counts n A f bs" and "0 < n" and "t \<in> A" and "finite A"
  shows "\<exists>c. is_top bs n c \<and> bucket_id (f t) \<le> c"
proof (rule top_exists)
  have "bucket_id (f t) = uclamp_bucket_id n (se_value (f t))" using assms(1,3) by (auto simp: counts_def well_formed_def)
  then show l: "bucket_id (f t) < n" using bucket_id_less [OF assms(2)] by simp
  have "{s \<in> A. bucket_id (f s) = bucket_id (f t)} \<noteq> {}" using assms(3) by auto
  then show "b_tasks (bs ! bucket_id (f t)) \<noteq> 0" using assms(1,4) l by (auto simp: counts_def)
qed

text \<open>The clamp of the run queue is at least that of every runnable task, and in the bucket of the highest.\<close>

lemma clamped_value:
  assumes "clamped n A f q" and "0 < n" and "finite A" and "t \<in> A"
  shows "se_value (f t) \<le> rq_value q" and "\<exists>s \<in> A. uclamp_bucket_id n (rq_value q) = bucket_id (f s)"
proof -
  have c: "counts n A f (bucket q)" and v: "top_bucket (bucket q) n = Some (rq_value q)"
    using assms(1,4) by (auto simp: clamped_def)
  obtain b where b: "is_top (bucket q) n b" "bucket_id (f t) \<le> b" using counts_top [OF c assms(2,4,3)] by blast
  with v have rv: "rq_value q = b_value (bucket q ! b)" using top_bucket_Some [OF b(1)] by simp
  have bn: "b < n" "b_tasks (bucket q ! b) \<noteq> 0" using b(1) by (auto simp: is_top_def)
  then have bid: "uclamp_bucket_id n (b_value (bucket q ! b)) = b" using c by (auto simp: counts_def)
  have "card {s \<in> A. bucket_id (f s) = b} \<noteq> 0" using c bn by (auto simp: counts_def)
  then have "{s \<in> A. bucket_id (f s) = b} \<noteq> {}" by (metis card.empty)
  then show "\<exists>s \<in> A. uclamp_bucket_id n (rq_value q) = bucket_id (f s)" using bid rv by auto
  have ft: "bucket_id (f t) = uclamp_bucket_id n (se_value (f t))" "se_value (f t) \<le> b_value (bucket q ! bucket_id (f t))"
    using c assms(4) by (auto simp: counts_def well_formed_def)
  show "se_value (f t) \<le> rq_value q"
  proof (cases "bucket_id (f t) = b")
    case False
    with b(2) ft(1) bid have "uclamp_bucket_id n (se_value (f t)) < uclamp_bucket_id n (b_value (bucket q ! b))" by simp
    then show ?thesis using bucket_id_less_imp rv by fastforce
  qed (use ft rv in simp)
qed

section \<open>One more task\<close>

definition add_task :: "nat \<Rightarrow> uclamp_bucket \<Rightarrow> uclamp_bucket" where
  "add_task v b = \<lparr>b_value = (if b_tasks b = 0 \<or> b_value b < v then v else b_value b), b_tasks = b_tasks b + 1\<rparr>"

lemma add_task_simps:
  "b_tasks (add_task v b) = b_tasks b + 1"
  "b_value (add_task v b) = (if b_tasks b = 0 then v else max v (b_value b))"
  by (simp_all add: add_task_def max_def)

lemma counts_length: "counts n A f bs \<Longrightarrow> length bs = n"
  by (simp add: counts_def)

lemma counts_cong:
  assumes "\<And>t. t \<in> A \<Longrightarrow> f t = g t"
  shows "counts n A f bs = counts n A g bs"
proof -
  have "{t \<in> A. bucket_id (f t) = b} = {t \<in> A. bucket_id (g t) = b}" for b using assms by auto
  with assms show ?thesis unfolding counts_def by (simp cong: ball_cong)
qed

lemma counts_index: "counts n A f bs \<Longrightarrow> 0 < n \<Longrightarrow> t \<in> A \<Longrightarrow> bucket_id (f t) < n"
  by (simp add: counts_def well_formed_def bucket_id_less)

lemma card_insert_bucket:
  assumes "finite A" and "t \<notin> A"
  shows "card {s \<in> insert t A. bucket_id ((f(t := se)) s) = b} =
    card {s \<in> A. bucket_id (f s) = b} + (if bucket_id se = b then 1 else 0)"
proof -
  have "{s \<in> insert t A. bucket_id ((f(t := se)) s) = b} =
      (if bucket_id se = b then insert t {s \<in> A. bucket_id (f s) = b} else {s \<in> A. bucket_id (f s) = b})"
    using assms(2) by auto
  then show ?thesis using assms by simp
qed

lemma bucket_zero_iff: "counts n A f bs \<Longrightarrow> finite A \<Longrightarrow> b < n \<Longrightarrow> b_tasks (bs ! b) = 0 \<longleftrightarrow> (\<forall>t \<in> A. bucket_id (f t) \<noteq> b)"
  by (auto simp: counts_def)

lemma counts_insert:
  assumes c: "counts n A f bs" and "finite A" and "t \<notin> A" and "0 < n" and w: "well_formed n se"
  shows "counts n (insert t A) (f(t := se)) (bs[bucket_id se := add_task (se_value se) (bs ! bucket_id se)])"
proof -
  let ?i = "bucket_id se" and ?bs = "bs[bucket_id se := add_task (se_value se) (bs ! bucket_id se)]"
  have i: "?i < n" using w bucket_id_less [OF assms(4)] by (simp add: well_formed_def)
  have l: "length bs = n" by (rule counts_length [OF c])
  have "b_tasks (?bs ! b) = card {s \<in> insert t A. bucket_id ((f(t := se)) s) = b}" if "b < n" for b
    using c that l i unfolding card_insert_bucket [OF assms(2,3)] by (auto simp: counts_def add_task_def nth_list_update)
  moreover have "well_formed n ((f(t := se)) s) \<and> se_value ((f(t := se)) s) \<le> b_value (?bs ! bucket_id ((f(t := se)) s))"
    if "s \<in> insert t A" for s
  proof (cases "s = t")
    case True
    then show ?thesis using w i l by (simp add: add_task_def)
  next
    case False
    then have s: "s \<in> A" "bucket_id (f s) < n" using that counts_index [OF c assms(4)] by auto
    then have "b_tasks (bs ! bucket_id (f s)) \<noteq> 0" using bucket_zero_iff [OF c assms(2)] by blast
    moreover have "well_formed n (f s)" "se_value (f s) \<le> b_value (bs ! bucket_id (f s))" using c s by (simp_all add: counts_def)
    ultimately show ?thesis using i False l by (auto simp: add_task_simps nth_list_update)
  qed
  moreover have "uclamp_bucket_id n (b_value (?bs ! b)) = b" if "b < n" "b_tasks (?bs ! b) \<noteq> 0" for b
  proof (cases "b = ?i")
    case True
    have "uclamp_bucket_id n (b_value (bs ! ?i)) = ?i" if "b_tasks (bs ! ?i) \<noteq> 0" using c i that by (simp add: counts_def)
    then show ?thesis using True w i l by (auto simp: add_task_simps well_formed_def max_def)
  qed (use that c in \<open>simp add: counts_def\<close>)
  ultimately show ?thesis using l by (simp add: counts_def)
qed

lemma top_value:
  assumes "counts n A f bs" and "is_top bs n b"
  shows "top_bucket bs n = Some (b_value (bs ! b))" and "uclamp_bucket_id n (b_value (bs ! b)) = b" and "b < n"
  using assms top_bucket_Some [OF assms(2)] by (auto simp: counts_def is_top_def)

lemma top_insert:
  assumes c: "counts n A f bs" and "finite A" and "0 < n" and w: "well_formed n se"
    and top: "A \<noteq> {} \<Longrightarrow> top_bucket bs n = Some r"
  shows "top_bucket (bs[bucket_id se := add_task (se_value se) (bs ! bucket_id se)]) n =
    Some (if A = {} then se_value se else max (se_value se) r)"
proof -
  let ?i = "bucket_id se" and ?bs = "bs[bucket_id se := add_task (se_value se) (bs ! bucket_id se)]"
  have i: "?i < n" "?i = uclamp_bucket_id n (se_value se)" using w bucket_id_less [OF assms(3)] by (simp_all add: well_formed_def)
  have nth: "?bs ! b = (if b = ?i then add_task (se_value se) (bs ! ?i) else bs ! b)" for b
    using i(1) counts_length [OF c] by (simp add: nth_list_update)
  show ?thesis
  proof (cases "A = {}")
    case True
    then have z: "b_tasks (bs ! b) = 0" if "b < n" for b using that bucket_zero_iff [OF c assms(2)] by blast
    then have "is_top ?bs n ?i" using i(1) unfolding is_top_def nth by (auto simp: add_task_simps)
    from top_bucket_Some [OF this] True i(1) z show ?thesis unfolding nth by (simp add: add_task_simps)
  next
    case False
    then obtain t where "t \<in> A" by blast
    from counts_top [OF c assms(3) this assms(2)] obtain b where b: "is_top bs n b" by blast
    note v = top_value [OF c b]
    have r: "r = b_value (bs ! b)" using top False v(1) by simp
    consider "?i < b" | "?i = b" | "b < ?i" by linarith
    then show ?thesis
    proof cases
      case 1
      then have "is_top ?bs n b" using b unfolding is_top_def nth by auto
      moreover have "se_value se < b_value (bs ! b)" by (rule bucket_id_less_imp [of n]) (use 1 i(2) v(2) in simp)
      ultimately show ?thesis using top_bucket_Some [of ?bs n b] 1 r False unfolding nth by simp
    next
      case 2
      then have "is_top ?bs n b" using b unfolding is_top_def nth by (auto simp: add_task_simps)
      from top_bucket_Some [OF this] 2 r b False show ?thesis unfolding nth by (simp add: add_task_simps is_top_def)
    next
      case 3
      then have z: "b_tasks (bs ! ?i) = 0" using b i by (auto simp: is_top_def)
      have "is_top ?bs n ?i" using b i(1) 3 unfolding is_top_def nth by (auto simp: add_task_simps)
      moreover have "b_value (bs ! b) < se_value se" by (rule bucket_id_less_imp [of n]) (use 3 i(2) v(2) in simp)
      ultimately show ?thesis using top_bucket_Some [of ?bs n ?i] z r False unfolding nth by (simp add: add_task_simps)
    qed
  qed
qed

section \<open>One task less\<close>

definition drop_task :: "uclamp_bucket \<Rightarrow> uclamp_bucket" where
  "drop_task b = b\<lparr>b_tasks := b_tasks b - 1\<rparr>"

lemma drop_task_simps: "b_tasks (drop_task b) = b_tasks b - 1" "b_value (drop_task b) = b_value b"
  by (simp_all add: drop_task_def)

lemma card_remove_bucket:
  assumes "finite A" and "t \<in> A"
  shows "card {s \<in> A - {t}. bucket_id ((f(t := se)) s) = b} =
    card {s \<in> A. bucket_id (f s) = b} - (if bucket_id (f t) = b then 1 else 0)"
proof -
  have "{s \<in> A - {t}. bucket_id ((f(t := se)) s) = b} = {s \<in> A. bucket_id (f s) = b} - {t}" by auto
  then show ?thesis using assms by auto
qed

lemma counts_remove:
  assumes c: "counts n A f bs" and "finite A" and "t \<in> A" and "0 < n"
  shows "counts n (A - {t}) (f(t := se)) (bs[bucket_id (f t) := drop_task (bs ! bucket_id (f t))])"
proof -
  let ?i = "bucket_id (f t)" and ?bs = "bs[bucket_id (f t) := drop_task (bs ! bucket_id (f t))]"
  have i: "?i < n" by (rule counts_index [OF c assms(4,3)])
  have nth: "?bs ! b = (if b = ?i then drop_task (bs ! ?i) else bs ! b)" for b
    using i counts_length [OF c] by (simp add: nth_list_update)
  have "b_tasks (?bs ! b) = card {s \<in> A - {t}. bucket_id ((f(t := se)) s) = b}" if "b < n" for b
    using c that unfolding card_remove_bucket [OF assms(2,3)] nth by (auto simp: counts_def drop_task_simps)
  moreover have "well_formed n ((f(t := se)) s) \<and> se_value ((f(t := se)) s) \<le> b_value (?bs ! bucket_id ((f(t := se)) s))"
    if "s \<in> A - {t}" for s
    using c that unfolding nth by (auto simp: counts_def drop_task_simps)
  moreover have "uclamp_bucket_id n (b_value (?bs ! b)) = b" if "b < n" "b_tasks (?bs ! b) \<noteq> 0" for b
    using c that unfolding nth by (auto simp: counts_def drop_task_simps split: if_splits)
  ultimately show ?thesis using counts_length [OF c] by (simp add: counts_def)
qed

lemma bucket_below_top:
  assumes c: "counts n A f bs" and "finite A" and "t \<in> A" and "0 < n" and "top_bucket bs n = Some r"
  shows "\<exists>b. is_top bs n b \<and> r = b_value (bs ! b) \<and> bucket_id (f t) \<le> b \<and> b_value (bs ! bucket_id (f t)) \<le> r"
proof -
  obtain b where b: "is_top bs n b" "bucket_id (f t) \<le> b" using counts_top [OF c assms(4,3,2)] by blast
  note v = top_value [OF c b(1)]
  have r: "r = b_value (bs ! b)" using v(1) assms(5) by simp
  have i: "bucket_id (f t) < n" by (rule counts_index [OF c assms(4,3)])
  have "b_tasks (bs ! bucket_id (f t)) \<noteq> 0" using bucket_zero_iff [OF c assms(2) i] assms(3) by blast
  then have "uclamp_bucket_id n (b_value (bs ! bucket_id (f t))) = bucket_id (f t)" using c i by (simp add: counts_def)
  then have "b_value (bs ! bucket_id (f t)) \<le> r"
    using b(2) v(2) r bucket_id_less_imp [of n "b_value (bs ! bucket_id (f t))" r] by (cases "bucket_id (f t) = b") auto
  with b r show ?thesis by blast
qed

text \<open>The topmost bucket stays when the bucket of the task is not empty now or was not the topmost one.\<close>

lemma top_remove:
  assumes c: "counts n A f bs" and "finite A" and "t \<in> A" and "0 < n" and top: "top_bucket bs n = Some r"
    and "b_tasks (bs ! bucket_id (f t)) - 1 \<noteq> 0 \<or> b_value (bs ! bucket_id (f t)) < r"
  shows "top_bucket (bs[bucket_id (f t) := drop_task (bs ! bucket_id (f t))]) n = Some r"
proof -
  let ?i = "bucket_id (f t)" and ?bs = "bs[bucket_id (f t) := drop_task (bs ! bucket_id (f t))]"
  have nth: "?bs ! b = (if b = ?i then drop_task (bs ! ?i) else bs ! b)" for b
    using counts_index [OF c assms(4,3)] counts_length [OF c] by (simp add: nth_list_update)
  obtain b where b: "is_top bs n b" "r = b_value (bs ! b)" "?i \<le> b"
    using bucket_below_top [OF assms(1-5)] by blast
  then have "is_top ?bs n b" using assms(6) unfolding is_top_def nth by (auto simp: drop_task_simps)
  moreover have "b_value (?bs ! b) = r" using b(2) unfolding nth by (simp add: drop_task_simps)
  ultimately show ?thesis using top_bucket_Some by blast
qed

lemma top_nonempty:
  assumes c: "counts n A f bs" and "finite A" and "0 < n"
  shows "top_bucket bs n = None \<longleftrightarrow> A = {}"
proof
  assume z: "top_bucket bs n = None"
  show "A = {}"
  proof (rule ccontr)
    assume "A \<noteq> {}"
    then obtain t where t: "t \<in> A" by blast
    have "b_tasks (bs ! bucket_id (f t)) = 0" using z counts_index [OF c assms(3) t] by (simp add: top_bucket_None)
    with bucket_zero_iff [OF c assms(2) counts_index [OF c assms(3) t]] t show False by blast
  qed
next
  assume "A = {}"
  then show "top_bucket bs n = None" using c by (simp add: top_bucket_None counts_def)
qed

section \<open>The functions of core.c\<close>

lemma inc_id_clamped:
  assumes cl: "clamped n A f (uclamps rq ci)" and "finite A" and "t \<notin> A" and "0 < n"
    and se: "se = (uclamp_eff_get sys p ci)\<lparr>active := True\<rparr>" and w: "well_formed n se"
    and e: "A = {} \<Longrightarrow> uclamp_idle rq \<or> rq_value (uclamps rq ci) \<le> se_value se" and ne: "A \<noteq> {} \<Longrightarrow> \<not> uclamp_idle rq"
  shows "\<exists>q. uclamp_rq_inc_id sys ci rq p = Inr (rq\<lparr>uclamps := (uclamps rq)(ci := q)\<rparr>, p\<lparr>uclamp := (uclamp p)(ci := se)\<rparr>)
    \<and> clamped n (insert t A) (f(t := se)) q"
proof -
  let ?bs = "bucket (uclamps rq ci)" and ?i = "bucket_id se" and ?v = "se_value se"
  have c: "counts n A f ?bs" and top: "A \<noteq> {} \<Longrightarrow> top_bucket ?bs n = Some (rq_value (uclamps rq ci))"
    using cl by (auto simp: clamped_def)
  have i: "?i < length ?bs" using w bucket_id_less [OF assms(4)] counts_length [OF c] by (simp add: well_formed_def)
  let ?r = "if uclamp_idle rq then ?v else max ?v (rq_value (uclamps rq ci))"
  let ?q = "(uclamps rq ci)\<lparr>bucket := ?bs[?i := add_task ?v (?bs ! ?i)], rq_value := ?r\<rparr>"
  obtain rv bs where q: "uclamps rq ci = \<lparr>rq_value = rv, bucket = bs\<rparr>" by (cases "uclamps rq ci")
  obtain bv bt where b: "bs ! ?i = \<lparr>b_value = bv, b_tasks = bt\<rparr>" by (cases "bs ! ?i")
  have "uclamp_rq_inc_id sys ci rq p = Inr (rq\<lparr>uclamps := (uclamps rq)(ci := ?q)\<rparr>, p\<lparr>uclamp := (uclamp p)(ci := se)\<rparr>)"
    using i unfolding uclamp_rq_inc_id_def se [symmetric]
    by (simp add: aget_in Let_def uclamp_idle_reset_def set_rq_value_def q b add_task_def max_def)
  moreover have "clamped n (insert t A) (f(t := se)) ?q"
    using counts_insert [OF c assms(2-4) w] top_insert [OF c assms(2,4) w top] e ne
    by (auto simp: clamped_def max_def)
  ultimately show ?thesis by blast
qed

lemma dec_id_clamped:
  assumes cl: "clamped n A f (uclamps rq ci)" and "finite A" and "t \<in> A" and "0 < n"
    and f: "uclamp p ci = f t" "active (f t)"
  shows "\<exists>q. uclamp_rq_dec_id ci rq p =
      Inr (rq\<lparr>uclamps := (uclamps rq)(ci := q), uclamp_idle := (uclamp_idle rq \<or> ci = UCLAMP_MAX \<and> A = {t})\<rparr>,
        p\<lparr>uclamp := (uclamp p)(ci := (f t)\<lparr>active := False\<rparr>)\<rparr>)
    \<and> clamped n (A - {t}) (f(t := (f t)\<lparr>active := False\<rparr>)) q \<and> (A = {t} \<longrightarrow> ci = UCLAMP_MIN \<longrightarrow> rq_value q = 0)"
proof -
  let ?q = "uclamps rq ci" and ?i = "bucket_id (f t)" and ?se = "(f t)\<lparr>active := False\<rparr>"
  let ?bs = "bucket ?q" and ?r = "rq_value (uclamps rq ci)"
  let ?bs' = "?bs[?i := drop_task (?bs ! ?i)]"
  have c: "counts n A f ?bs" and top: "top_bucket ?bs n = Some ?r" using cl assms(3) by (auto simp: clamped_def)
  have l: "length ?bs = n" and i: "?i < n" using counts_length [OF c] counts_index [OF c assms(4,3)] by auto
  have nz: "b_tasks (?bs ! ?i) \<noteq> 0" using bucket_zero_iff [OF c assms(2) i] assms(3) by blast
  have le: "b_value (?bs ! ?i) \<le> ?r" using bucket_below_top [OF c assms(2-4) top] by blast
  have c': "counts n (A - {t}) (f(t := ?se)) ?bs'" by (rule counts_remove [OF c assms(2-4)])
  have e: "A - {t} = {} \<longleftrightarrow> A = {t}" using assms(3) by auto
  have te: "top_bucket ?bs' n = None \<longleftrightarrow> A = {t}" using top_nonempty [OF c' _ assms(4)] assms(2) e by simp
  define keep where "keep \<longleftrightarrow> b_tasks (?bs ! ?i) - 1 \<noteq> 0 \<or> b_value (?bs ! ?i) < ?r"
  define q where "q = ?q\<lparr>bucket := ?bs', rq_value :=
    (if keep then ?r else case top_bucket ?bs' n of Some v \<Rightarrow> v | None \<Rightarrow> if ci = UCLAMP_MAX then se_value (f t) else 0)\<rparr>"
  have tk: "top_bucket ?bs' n = Some ?r" if keep
    by (rule top_remove [OF c assms(2-4) top]) (use that in \<open>simp add: keep_def\<close>)
  have ka: "A \<noteq> {t}" if keep using tk [OF that] te by simp
  have "top_bucket ?bs' n = Some (rq_value q)" if ne: "A - {t} \<noteq> {}"
  proof (cases keep)
    case False
    obtain v where "top_bucket ?bs' n = Some v" using te e ne by auto
    with False show ?thesis by (simp add: q_def)
  qed (simp add: tk q_def)
  with c' have "clamped n (A - {t}) (f(t := ?se)) q" by (simp add: clamped_def q_def)
  moreover have "A = {t} \<longrightarrow> ci = UCLAMP_MIN \<longrightarrow> rq_value q = 0"
    using te ka by (auto simp: q_def)
  moreover have "uclamp_rq_dec_id ci rq p =
      Inr (rq\<lparr>uclamps := (uclamps rq)(ci := q), uclamp_idle := (uclamp_idle rq \<or> ci = UCLAMP_MAX \<and> A = {t})\<rparr>,
        p\<lparr>uclamp := (uclamp p)(ci := ?se)\<rparr>)"
  proof (cases keep)
    case True
    with ka have "A \<noteq> {t}" by blast
    with True i l nz le f show ?thesis
      by (auto simp: uclamp_rq_dec_id_def aget_in Let_def q_def keep_def drop_task_def)
  next
    case False
    define one where "one \<longleftrightarrow> A = {t}"
    have "top_bucket ?bs' n = None \<longleftrightarrow> one" using te by (simp add: one_def)
    with False i l nz le f show ?thesis unfolding one_def [symmetric]
      by (cases one) (auto simp: uclamp_rq_dec_id_def aget_in Let_def q_def keep_def drop_task_def uclamp_rq_max_value_def
        uclamp_idle_value_def set_rq_value_def uclamp_none_def split: option.splits)
  qed
  ultimately show ?thesis by blast
qed

section \<open>Runs\<close>

definition ok_system :: "clamp_system \<Rightarrow> bool" where
  "ok_system sys \<longleftrightarrow> sched_uclamp_used sys \<and> 0 < UCLAMP_BUCKETS sys \<and> sysctl_util_min_rt_default sys \<le> SCHED_CAPACITY_SCALE
     \<and> (\<forall>i. well_formed (UCLAMP_BUCKETS sys) (uclamp_default sys i))"

definition ok_task :: "nat \<Rightarrow> clamp_task \<Rightarrow> bool" where
  "ok_task n p \<longleftrightarrow> uclamp_enabled p \<and> (\<forall>i. well_formed n (uclamp_req p i))
     \<and> (case group_clamps p of None \<Rightarrow> True | Some g \<Rightarrow> \<forall>i. well_formed n (g i))"

lemma eff_well_formed:
  assumes "ok_system sys" and "ok_task (UCLAMP_BUCKETS sys) p"
  shows "well_formed (UCLAMP_BUCKETS sys) ((uclamp_eff_get sys p ci)\<lparr>active := True\<rparr>)"
proof -
  have "well_formed (UCLAMP_BUCKETS sys) (uclamp_tg_restrict p ci)"
    using assms(2) by (auto simp: ok_task_def uclamp_tg_restrict_def Let_def split: option.splits)
  then have "well_formed (UCLAMP_BUCKETS sys) (uclamp_eff_get sys p ci)"
    using assms(1) by (simp add: ok_system_def uclamp_eff_get_def Let_def)
  then show ?thesis by (simp add: well_formed_def)
qed

text \<open>The state between two operations, for the set of the runnable tasks.\<close>

definition clamp_inv :: "clamp_system \<Rightarrow> nat set \<Rightarrow> clamp_rq \<Rightarrow> (nat \<Rightarrow> clamp_task) \<Rightarrow> bool" where
  "clamp_inv sys A rq ts \<longleftrightarrow> finite A \<and> \<not> uclamp_warned rq \<and> (uclamp_idle rq \<longleftrightarrow> A = {})
     \<and> (\<forall>i. clamped (UCLAMP_BUCKETS sys) A (\<lambda>t. uclamp (ts t) i) (uclamps rq i))
     \<and> (A = {} \<longrightarrow> rq_value (uclamps rq UCLAMP_MIN) = 0)
     \<and> (\<forall>t \<in> A. uclamp_enabled (ts t) \<and> (\<forall>i. active (uclamp (ts t) i)))"

lemma clamp_inv_cong:
  assumes "clamp_inv sys A rq ts" and "\<And>t. t \<in> A \<Longrightarrow> uclamp (ts' t) = uclamp (ts t) \<and> uclamp_enabled (ts' t) = uclamp_enabled (ts t)"
  shows "clamp_inv sys A rq ts'"
proof -
  have "counts n A (\<lambda>t. uclamp (ts' t) i) bs = counts n A (\<lambda>t. uclamp (ts t) i) bs" for n i bs
    by (rule counts_cong) (simp add: assms(2))
  with assms show ?thesis by (simp add: clamp_inv_def clamped_def)
qed

text \<open>A task that is queued, and one that is dequeued.\<close>

definition clamp_on :: "clamp_system \<Rightarrow> clamp_task \<Rightarrow> clamp_task" where
  "clamp_on sys p = p\<lparr>uclamp := \<lambda>i. (uclamp_eff_get sys p i)\<lparr>active := True\<rparr>\<rparr>"

definition clamp_off :: "clamp_task \<Rightarrow> clamp_task" where
  "clamp_off p = p\<lparr>uclamp := \<lambda>i. (uclamp p i)\<lparr>active := False\<rparr>\<rparr>"

lemma ok_task_on_off [simp]: "ok_task n (clamp_on sys p) = ok_task n p" "ok_task n (clamp_off p) = ok_task n p"
  by (simp_all add: ok_task_def clamp_on_def clamp_off_def)

lemma all_ids: "(\<lambda>i. f i) = g(UCLAMP_MIN := f UCLAMP_MIN, UCLAMP_MAX := f UCLAMP_MAX)"
proof
  show "f i = (g(UCLAMP_MIN := f UCLAMP_MIN, UCLAMP_MAX := f UCLAMP_MAX)) i" for i by (cases i) simp_all
qed

lemma inc_inv:
  assumes "ok_system sys" and inv: "clamp_inv sys A rq ts" and "t \<notin> A" and ok: "ok_task (UCLAMP_BUCKETS sys) (ts t)"
  shows "\<exists>rq'. uclamp_rq_inc sys rq (ts t) = Inr (rq', clamp_on sys (ts t))
    \<and> clamp_inv sys (insert t A) rq' (ts(t := clamp_on sys (ts t)))"
proof -
  let ?n = "UCLAMP_BUCKETS sys" and ?p = "ts t"
  let ?se = "\<lambda>i. (uclamp_eff_get sys ?p i)\<lparr>active := True\<rparr>"
  have n: "0 < ?n" "sched_uclamp_used sys" using assms(1) by (auto simp: ok_system_def)
  have fin: "finite A" and idle: "uclamp_idle rq \<longleftrightarrow> A = {}"
    and cl: "\<And>i. clamped ?n A (\<lambda>t. uclamp (ts t) i) (uclamps rq i)" using inv by (auto simp: clamp_inv_def)
  have w: "well_formed ?n (?se i)" for i by (rule eff_well_formed [OF assms(1) ok])
  obtain q1 where 1: "uclamp_rq_inc_id sys UCLAMP_MIN rq ?p =
      Inr (rq\<lparr>uclamps := (uclamps rq)(UCLAMP_MIN := q1)\<rparr>, ?p\<lparr>uclamp := (uclamp ?p)(UCLAMP_MIN := ?se UCLAMP_MIN)\<rparr>)"
      "clamped ?n (insert t A) ((\<lambda>t. uclamp (ts t) UCLAMP_MIN)(t := ?se UCLAMP_MIN)) q1"
    using inc_id_clamped [OF cl fin assms(3) n(1) refl w, of UCLAMP_MIN] idle by auto
  let ?rq1 = "rq\<lparr>uclamps := (uclamps rq)(UCLAMP_MIN := q1)\<rparr>" and ?p1 = "?p\<lparr>uclamp := (uclamp ?p)(UCLAMP_MIN := ?se UCLAMP_MIN)\<rparr>"
  have e: "?se UCLAMP_MAX = (uclamp_eff_get sys ?p1 UCLAMP_MAX)\<lparr>active := True\<rparr>"
    by (simp add: uclamp_eff_get_def uclamp_tg_restrict_def)
  have cl1: "clamped ?n A (\<lambda>t. uclamp (ts t) UCLAMP_MAX) (uclamps ?rq1 UCLAMP_MAX)" using cl [of UCLAMP_MAX] by simp
  obtain q2 where 2: "uclamp_rq_inc_id sys UCLAMP_MAX ?rq1 ?p1 =
      Inr (?rq1\<lparr>uclamps := (uclamps ?rq1)(UCLAMP_MAX := q2)\<rparr>, ?p1\<lparr>uclamp := (uclamp ?p1)(UCLAMP_MAX := ?se UCLAMP_MAX)\<rparr>)"
      "clamped ?n (insert t A) ((\<lambda>t. uclamp (ts t) UCLAMP_MAX)(t := ?se UCLAMP_MAX)) q2"
    using inc_id_clamped [OF cl1 fin assms(3) n(1) e w] idle by auto
  have p: "clamp_on sys ?p = ?p1\<lparr>uclamp := (uclamp ?p1)(UCLAMP_MAX := ?se UCLAMP_MAX)\<rparr>"
    unfolding clamp_on_def by (subst all_ids [where g = "uclamp ?p"]) simp
  let ?rq = "rq\<lparr>uclamps := (uclamps rq)(UCLAMP_MIN := q1, UCLAMP_MAX := q2), uclamp_idle := False\<rparr>"
  have "uclamp_rq_inc sys rq ?p = Inr (?rq, clamp_on sys ?p)"
    using 1(1) 2(1) n(2) ok unfolding p by (auto simp: uclamp_rq_inc_def ok_task_def)
  moreover have "clamp_inv sys (insert t A) ?rq (ts(t := clamp_on sys ?p))"
  proof -
    have f: "(\<lambda>s. uclamp ((ts(t := clamp_on sys ?p)) s) i) = (\<lambda>t. uclamp (ts t) i)(t := ?se i)" for i
      by (auto simp: clamp_on_def)
    have "clamped ?n (insert t A) (\<lambda>s. uclamp ((ts(t := clamp_on sys ?p)) s) i) (uclamps ?rq i)" for i
      unfolding f using 1(2) 2(2) by (cases i) simp_all
    with inv ok show ?thesis unfolding clamp_inv_def by (simp add: clamp_on_def ok_task_def)
  qed
  ultimately show ?thesis by (intro exI conjI)
qed

lemma dec_inv:
  assumes "ok_system sys" and inv: "clamp_inv sys A rq ts" and t: "t \<in> A"
  shows "\<exists>rq'. uclamp_rq_dec sys rq (ts t) = Inr (rq', clamp_off (ts t))
    \<and> clamp_inv sys (A - {t}) rq' (ts(t := clamp_off (ts t)))"
proof -
  let ?n = "UCLAMP_BUCKETS sys" and ?p = "ts t"
  let ?se = "\<lambda>i. (uclamp ?p i)\<lparr>active := False\<rparr>"
  have n: "0 < ?n" "sched_uclamp_used sys" using assms(1) by (auto simp: ok_system_def)
  have en: "uclamp_enabled ?p" and fin: "finite A" and idle: "\<not> uclamp_idle rq" and act: "\<And>i. active (uclamp ?p i)"
    and cl: "\<And>i. clamped ?n A (\<lambda>t. uclamp (ts t) i) (uclamps rq i)" using inv t by (auto simp: clamp_inv_def)
  obtain q1 where 1: "uclamp_rq_dec_id UCLAMP_MIN rq ?p =
      Inr (rq\<lparr>uclamps := (uclamps rq)(UCLAMP_MIN := q1)\<rparr>, ?p\<lparr>uclamp := (uclamp ?p)(UCLAMP_MIN := ?se UCLAMP_MIN)\<rparr>)"
      "clamped ?n (A - {t}) ((\<lambda>t. uclamp (ts t) UCLAMP_MIN)(t := ?se UCLAMP_MIN)) q1" "A = {t} \<longrightarrow> rq_value q1 = 0"
    using dec_id_clamped [OF cl fin t n(1) refl act, of UCLAMP_MIN] by auto
  let ?rq1 = "rq\<lparr>uclamps := (uclamps rq)(UCLAMP_MIN := q1)\<rparr>" and ?p1 = "?p\<lparr>uclamp := (uclamp ?p)(UCLAMP_MIN := ?se UCLAMP_MIN)\<rparr>"
  have cl1: "clamped ?n A (\<lambda>t. uclamp (ts t) UCLAMP_MAX) (uclamps ?rq1 UCLAMP_MAX)" using cl [of UCLAMP_MAX] by simp
  obtain q2 where 2: "uclamp_rq_dec_id UCLAMP_MAX ?rq1 ?p1 =
      Inr (?rq1\<lparr>uclamps := (uclamps ?rq1)(UCLAMP_MAX := q2), uclamp_idle := (A = {t})\<rparr>,
        ?p1\<lparr>uclamp := (uclamp ?p1)(UCLAMP_MAX := ?se UCLAMP_MAX)\<rparr>)"
      "clamped ?n (A - {t}) ((\<lambda>t. uclamp (ts t) UCLAMP_MAX)(t := ?se UCLAMP_MAX)) q2"
    using dec_id_clamped [OF cl1 fin t n(1) _ act, where p = ?p1] idle by auto
  have p: "clamp_off ?p = ?p1\<lparr>uclamp := (uclamp ?p1)(UCLAMP_MAX := ?se UCLAMP_MAX)\<rparr>"
    unfolding clamp_off_def by (subst all_ids [where g = "uclamp ?p"]) simp
  let ?rq = "rq\<lparr>uclamps := (uclamps rq)(UCLAMP_MIN := q1, UCLAMP_MAX := q2), uclamp_idle := (A = {t})\<rparr>"
  have "uclamp_rq_dec sys rq ?p = Inr (?rq, clamp_off ?p)"
    using 1(1) 2(1) n(2) en unfolding p by (auto simp: uclamp_rq_dec_def)
  moreover have "clamp_inv sys (A - {t}) ?rq (ts(t := clamp_off ?p))"
  proof -
    have f: "(\<lambda>s. uclamp ((ts(t := clamp_off ?p)) s) i) = (\<lambda>t. uclamp (ts t) i)(t := ?se i)" for i
      by (auto simp: clamp_off_def)
    have "clamped ?n (A - {t}) (\<lambda>s. uclamp ((ts(t := clamp_off ?p)) s) i) (uclamps ?rq i)" for i
      unfolding f using 1(2) 2(2) by (cases i) simp_all
    moreover have "A - {t} = {} \<longleftrightarrow> A = {t}" using t by auto
    ultimately show ?thesis using inv 1(3) unfolding clamp_inv_def by simp
  qed
  ultimately show ?thesis by (intro exI conjI)
qed

datatype clamp_op = Enq nat | Deq nat

fun clamp_step :: "clamp_system \<Rightarrow> clamp_op \<Rightarrow> clamp_rq \<times> (nat \<Rightarrow> clamp_task) \<Rightarrow> (clamp_rq \<times> (nat \<Rightarrow> clamp_task)) res" where
  "clamp_step sys (Enq t) (rq, ts) = bindR (uclamp_rq_inc sys rq (ts t)) (\<lambda>(rq', p). Inr (rq', ts(t := p)))"
| "clamp_step sys (Deq t) (rq, ts) = bindR (uclamp_rq_dec sys rq (ts t)) (\<lambda>(rq', p). Inr (rq', ts(t := p)))"

fun clamp_run :: "clamp_system \<Rightarrow> clamp_op list \<Rightarrow> clamp_rq \<times> (nat \<Rightarrow> clamp_task) \<Rightarrow> (clamp_rq \<times> (nat \<Rightarrow> clamp_task)) res" where
  "clamp_run sys [] st = Inr st"
| "clamp_run sys (x # xs) st = bindR (clamp_step sys x st) (clamp_run sys xs)"

text \<open>The runnable tasks after a run; a task is queued once before it is dequeued.\<close>

fun runnable :: "clamp_op list \<Rightarrow> nat set \<Rightarrow> nat set option" where
  "runnable [] A = Some A"
| "runnable (Enq t # xs) A = (if t \<in> A then None else runnable xs (insert t A))"
| "runnable (Deq t # xs) A = (if t \<in> A then runnable xs (A - {t}) else None)"

lemma run_inv:
  assumes "ok_system sys" and "clamp_inv sys A rq ts" and "\<forall>t. ok_task (UCLAMP_BUCKETS sys) (ts t)" and "runnable xs A = Some B"
  shows "\<exists>rq' ts'. clamp_run sys xs (rq, ts) = Inr (rq', ts') \<and> clamp_inv sys B rq' ts'"
  using assms(2-4)
proof (induction xs arbitrary: A rq ts)
  case (Cons x xs)
  show ?case
  proof (cases x)
    case (Enq t)
    with Cons.prems have t: "t \<notin> A" "runnable xs (insert t A) = Some B" by (auto split: if_splits)
    obtain r where r: "uclamp_rq_inc sys rq (ts t) = Inr (r, clamp_on sys (ts t))"
        "clamp_inv sys (insert t A) r (ts(t := clamp_on sys (ts t)))"
      using inc_inv [OF assms(1) Cons.prems(1) t(1)] Cons.prems(2) by auto
    have "\<forall>s. ok_task (UCLAMP_BUCKETS sys) ((ts(t := clamp_on sys (ts t))) s)" using Cons.prems(2) by simp
    from Cons.IH [OF r(2) this t(2)] r(1) Enq show ?thesis by (simp del: fun_upd_apply)
  next
    case (Deq t)
    with Cons.prems have t: "t \<in> A" "runnable xs (A - {t}) = Some B" by (auto split: if_splits)
    obtain r where r: "uclamp_rq_dec sys rq (ts t) = Inr (r, clamp_off (ts t))"
        "clamp_inv sys (A - {t}) r (ts(t := clamp_off (ts t)))"
      using dec_inv [OF assms(1) Cons.prems(1) t(1)] by blast
    have "\<forall>s. ok_task (UCLAMP_BUCKETS sys) ((ts(t := clamp_off (ts t))) s)" using Cons.prems(2) by simp
    from Cons.IH [OF r(2) this t(2)] r(1) Deq show ?thesis by (simp del: fun_upd_apply)
  qed
qed simp

section \<open>The clamp of a run queue\<close>

text \<open>A run queue that went idle.\<close>

definition idle_queue :: "nat \<Rightarrow> clamp_rq \<Rightarrow> bool" where
  "idle_queue n rq \<longleftrightarrow> uclamp_idle rq \<and> \<not> uclamp_warned rq \<and> rq_value (uclamps rq UCLAMP_MIN) = 0
     \<and> (\<forall>i. length (bucket (uclamps rq i)) = n \<and> (\<forall>b < n. b_tasks (bucket (uclamps rq i) ! b) = 0))"

lemma idle_queue_inv:
  assumes "idle_queue (UCLAMP_BUCKETS sys) rq"
  shows "clamp_inv sys {} rq ts"
  using assms by (auto simp: clamp_inv_def idle_queue_def clamped_def counts_def)

text \<open>
  C38. Utilisation clamping does what it promises: from an idle run queue on, whatever tasks are queued and
  dequeued, no access leaves the buckets and no warning is raised, every bucket counts exactly the
  runnable tasks whose clamp falls into it, the clamp of the run queue is at least the effective clamp
  of every runnable task, and it lies in the bucket of one of them (so it is too high by less than a
  bucket). Both clamps behave so.
\<close>

theorem uclamp_tracks_runnable:
  assumes "ok_system sys" and "idle_queue (UCLAMP_BUCKETS sys) rq"
    and "\<forall>t. ok_task (UCLAMP_BUCKETS sys) (ts t)" and "runnable xs {} = Some A"
  shows "\<exists>rq' ts'. clamp_run sys xs (rq, ts) = Inr (rq', ts') \<and> \<not> uclamp_warned rq'
    \<and> (\<forall>i. \<forall>b < UCLAMP_BUCKETS sys. b_tasks (bucket (uclamps rq' i) ! b) = card {t \<in> A. bucket_id (uclamp (ts' t) i) = b})
    \<and> (\<forall>i. \<forall>t \<in> A. uclamp_eff_value sys (ts' t) i \<le> rq_value (uclamps rq' i))
    \<and> (\<forall>i. A \<noteq> {} \<longrightarrow> (\<exists>t \<in> A. uclamp_bucket_id (UCLAMP_BUCKETS sys) (rq_value (uclamps rq' i)) = bucket_id (uclamp (ts' t) i)))"
proof -
  let ?n = "UCLAMP_BUCKETS sys"
  obtain rq' ts' where r: "clamp_run sys xs (rq, ts) = Inr (rq', ts')" and inv: "clamp_inv sys A rq' ts'"
    using run_inv [OF assms(1) idle_queue_inv [OF assms(2)] _ assms(4)] assms(3) by blast
  have n: "0 < ?n" using assms(1) by (simp add: ok_system_def)
  have fin: "finite A" and cl: "clamped ?n A (\<lambda>t. uclamp (ts' t) i) (uclamps rq' i)" for i
    using inv by (auto simp: clamp_inv_def)
  have "\<forall>b < ?n. b_tasks (bucket (uclamps rq' i) ! b) = card {t \<in> A. bucket_id (uclamp (ts' t) i) = b}" for i
    using cl [of i] by (simp add: clamped_def counts_def)
  moreover have "uclamp_eff_value sys (ts' t) i \<le> rq_value (uclamps rq' i)" if "t \<in> A" for i t
    using clamped_value(1) [OF cl n fin that] inv that by (simp add: uclamp_eff_value_def clamp_inv_def)
  moreover have "\<exists>t \<in> A. uclamp_bucket_id ?n (rq_value (uclamps rq' i)) = bucket_id (uclamp (ts' t) i)" if "A \<noteq> {}" for i
    using clamped_value(2) [OF cl n fin] that by blast
  ultimately show ?thesis using r inv by (auto simp: clamp_inv_def)
qed

definition five_buckets :: clamp_system where
  "five_buckets = (fst (init_uclamp 5))\<lparr>sched_uclamp_used := True\<rparr>"

text \<open>Task \<open>t\<close> asks for the minimum \<open>t\<close> and the maximum \<open>t + 300\<close>.\<close>

definition asking :: "nat \<Rightarrow> clamp_task" where
  "asking t = \<lparr>uclamp_req = \<lambda>i. uclamp_se_set 5 zero_se (if i = UCLAMP_MIN then t mod 100 else t mod 100 + 300) True, uclamp = \<lambda>i. zero_se,
     group_clamps = None, uclamp_enabled = True, is_rt_task = False\<rparr>"

lemma five_buckets_ok: "ok_system five_buckets" and five_is_5: "UCLAMP_BUCKETS five_buckets = 5"
  by (auto simp: ok_system_def five_buckets_def init_uclamp_def Let_def well_formed_def uclamp_se_set_def
    uclamp_none_def SCHED_CAPACITY_SCALE_def)

lemma asking_ok: "ok_task 5 (asking t)"
  by (auto simp: ok_task_def asking_def well_formed_def uclamp_se_set_def zero_se_def)

lemma idle_start: "idle_queue 5 ((init_uclamp_rq 5)\<lparr>uclamp_idle := True\<rparr>)"
  by (simp add: idle_queue_def init_uclamp_rq_def uclamp_none_def)

theorem uclamp_tracks_runnable_witness:
  "\<exists>rq' ts'. clamp_run five_buckets [Enq 3, Enq 7, Deq 3] ((init_uclamp_rq 5)\<lparr>uclamp_idle := True\<rparr>, asking) = Inr (rq', ts')
    \<and> \<not> uclamp_warned rq' \<and> uclamp_eff_value five_buckets (ts' 7) UCLAMP_MAX \<le> rq_value (uclamps rq' UCLAMP_MAX)"
proof -
  have r: "runnable [Enq 3, Enq 7, Deq 3] {} = Some {7}" by (simp add: insert_Diff_if)
  have a: "\<forall>t. ok_task (UCLAMP_BUCKETS five_buckets) (asking t)"
    unfolding five_is_5 using asking_ok by simp
  have q: "idle_queue (UCLAMP_BUCKETS five_buckets) ((init_uclamp_rq 5)\<lparr>uclamp_idle := True\<rparr>)"
    unfolding five_is_5 by (rule idle_start)
  from uclamp_tracks_runnable [OF five_buckets_ok q a r] show ?thesis
  proof (elim exE conjE)
    fix rq' ts'
    assume 1: "clamp_run five_buckets [Enq 3, Enq 7, Deq 3] ((init_uclamp_rq 5)\<lparr>uclamp_idle := True\<rparr>, asking) = Inr (rq', ts')"
      and 2: "\<not> uclamp_warned rq'" and 3: "\<forall>i. \<forall>t \<in> {7}. uclamp_eff_value five_buckets (ts' t) i \<le> rq_value (uclamps rq' i)"
    from 3 have "uclamp_eff_value five_buckets (ts' 7) UCLAMP_MAX \<le> rq_value (uclamps rq' UCLAMP_MAX)" by simp
    with 1 2 show ?thesis by (intro exI conjI)
  qed
qed

section \<open>Where the clamp is wrong\<close>

text \<open>With the idle flag set the clamp of the run queue becomes that of the task.\<close>

lemma inc_id_idle:
  assumes "uclamp_idle rq" and "bucket_id (uclamp_eff_get sys p ci) < length (bucket (uclamps rq ci))"
  shows "\<exists>q. uclamp_rq_inc_id sys ci rq p = Inr (rq\<lparr>uclamps := (uclamps rq)(ci := q)\<rparr>,
      p\<lparr>uclamp := (uclamp p)(ci := (uclamp_eff_get sys p ci)\<lparr>active := True\<rparr>)\<rparr>)
    \<and> rq_value q = se_value (uclamp_eff_get sys p ci)"
  using assms by (auto simp: uclamp_rq_inc_id_def aget_in Let_def uclamp_idle_reset_def set_rq_value_def)

lemma eff_bucket: "ok_system sys \<Longrightarrow> ok_task (UCLAMP_BUCKETS sys) p \<Longrightarrow> bucket_id (uclamp_eff_get sys p ci) < UCLAMP_BUCKETS sys"
  using eff_well_formed [of sys p ci] bucket_id_less [of "UCLAMP_BUCKETS sys"] by (simp add: well_formed_def ok_system_def)

lemma eff_frame: "uclamp_eff_get sys (p\<lparr>uclamp := x\<rparr>) ci = uclamp_eff_get sys p ci"
  by (simp add: uclamp_eff_get_def uclamp_tg_restrict_def)

lemma update_active_idle:
  assumes "ok_system sys" and inv: "clamp_inv sys {t} rq ts" and ok: "ok_task (UCLAMP_BUCKETS sys) (ts t)"
  shows "\<exists>rq1 p1. uclamp_update_active sys UCLAMP_MAX rq (ts t) = Inr (rq1, p1) \<and> uclamp_idle rq1
    \<and> (\<forall>i. length (bucket (uclamps rq1 i)) = UCLAMP_BUCKETS sys)"
proof -
  let ?n = "UCLAMP_BUCKETS sys" and ?f = "\<lambda>t. uclamp (ts t) UCLAMP_MAX"
  have n: "0 < ?n" using assms(1) by (simp add: ok_system_def)
  have cl: "clamped ?n {t} (\<lambda>t. uclamp (ts t) i) (uclamps rq i)" and act: "active (?f t)" for i
    using inv by (auto simp: clamp_inv_def)
  let ?se = "(?f t)\<lparr>active := False\<rparr>" and ?p1 = "(ts t)\<lparr>uclamp := (uclamp (ts t))(UCLAMP_MAX := (?f t)\<lparr>active := False\<rparr>)\<rparr>"
  obtain q where d: "uclamp_rq_dec_id UCLAMP_MAX rq (ts t) =
      Inr (rq\<lparr>uclamps := (uclamps rq)(UCLAMP_MAX := q), uclamp_idle := True\<rparr>, ?p1)" "clamped ?n ({t} - {t}) (?f(t := ?se)) q"
    using dec_id_clamped [OF cl [of UCLAMP_MAX] _ _ n refl act] by auto
  let ?rq1 = "rq\<lparr>uclamps := (uclamps rq)(UCLAMP_MAX := q), uclamp_idle := True\<rparr>"
  have cl1: "clamped ?n {} (?f(t := ?se)) (uclamps ?rq1 UCLAMP_MAX)" using d(2) by simp
  have w: "well_formed ?n ((uclamp_eff_get sys ?p1 UCLAMP_MAX)\<lparr>active := True\<rparr>)"
    unfolding eff_frame by (rule eff_well_formed [OF assms(1) ok])
  obtain q2 where i: "uclamp_rq_inc_id sys UCLAMP_MAX ?rq1 ?p1 = Inr (?rq1\<lparr>uclamps := (uclamps ?rq1)(UCLAMP_MAX := q2)\<rparr>,
      ?p1\<lparr>uclamp := (uclamp ?p1)(UCLAMP_MAX := (uclamp_eff_get sys ?p1 UCLAMP_MAX)\<lparr>active := True\<rparr>)\<rparr>)"
      "counts ?n {t} ((?f(t := ?se))(t := (uclamp_eff_get sys ?p1 UCLAMP_MAX)\<lparr>active := True\<rparr>)) (bucket q2)"
    using inc_id_clamped [OF cl1 _ _ n refl w, of t] by (auto simp: clamped_def)
  let ?rq2 = "?rq1\<lparr>uclamps := (uclamps ?rq1)(UCLAMP_MAX := q2)\<rparr>"
  have "length (bucket (uclamps ?rq2 i)) = ?n" for i
    using counts_length [OF i(2)] cl [of i] by (cases i) (simp_all add: clamped_def counts_def)
  with d(1) i(1) act show ?thesis by (simp add: uclamp_update_active_def)
qed

text \<open>
  C39. A lost clamp: when the maximum of the only runnable task is updated, the run queue is left marked as
  idle, and the next task that is queued replaces both clamps of the run queue by its own, although the
  first task is still runnable and may ask for more.
\<close>

theorem update_active_loses_clamp:
  assumes "ok_system sys" and "clamp_inv sys {t} rq ts" and "u \<noteq> t"
    and "ok_task (UCLAMP_BUCKETS sys) (ts t)" and ok: "ok_task (UCLAMP_BUCKETS sys) (ts u)"
  shows "\<exists>rq1 p1 rq2 p2. uclamp_update_active sys UCLAMP_MAX rq (ts t) = Inr (rq1, p1)
    \<and> uclamp_rq_inc sys rq1 (ts u) = Inr (rq2, p2)
    \<and> (\<forall>i. rq_value (uclamps rq2 i) = se_value (uclamp_eff_get sys (ts u) i))"
proof -
  let ?n = "UCLAMP_BUCKETS sys"
  obtain rq1 p1 where 1: "uclamp_update_active sys UCLAMP_MAX rq (ts t) = Inr (rq1, p1)" "uclamp_idle rq1"
      "\<And>i. length (bucket (uclamps rq1 i)) = ?n"
    using update_active_idle [OF assms(1,2,4)] by blast
  obtain q where q: "uclamp_rq_inc_id sys UCLAMP_MIN rq1 (ts u) = Inr (rq1\<lparr>uclamps := (uclamps rq1)(UCLAMP_MIN := q)\<rparr>,
      (ts u)\<lparr>uclamp := (uclamp (ts u))(UCLAMP_MIN := (uclamp_eff_get sys (ts u) UCLAMP_MIN)\<lparr>active := True\<rparr>)\<rparr>)"
      "rq_value q = se_value (uclamp_eff_get sys (ts u) UCLAMP_MIN)"
    using inc_id_idle [OF 1(2), of sys "ts u" UCLAMP_MIN] eff_bucket [OF assms(1) ok] 1(3) by auto
  let ?rq = "rq1\<lparr>uclamps := (uclamps rq1)(UCLAMP_MIN := q)\<rparr>"
  let ?p = "(ts u)\<lparr>uclamp := (uclamp (ts u))(UCLAMP_MIN := (uclamp_eff_get sys (ts u) UCLAMP_MIN)\<lparr>active := True\<rparr>)\<rparr>"
  obtain q2 where q2: "uclamp_rq_inc_id sys UCLAMP_MAX ?rq ?p = Inr (?rq\<lparr>uclamps := (uclamps ?rq)(UCLAMP_MAX := q2)\<rparr>,
      ?p\<lparr>uclamp := (uclamp ?p)(UCLAMP_MAX := (uclamp_eff_get sys ?p UCLAMP_MAX)\<lparr>active := True\<rparr>)\<rparr>)"
      "rq_value q2 = se_value (uclamp_eff_get sys ?p UCLAMP_MAX)"
    using inc_id_idle [of ?rq sys ?p UCLAMP_MAX] eff_bucket [OF assms(1) ok] 1(2,3) unfolding eff_frame by auto
  have "uclamp_rq_inc sys rq1 (ts u) = Inr ((?rq\<lparr>uclamps := (uclamps ?rq)(UCLAMP_MAX := q2)\<rparr>)\<lparr>uclamp_idle := False\<rparr>,
      ?p\<lparr>uclamp := (uclamp ?p)(UCLAMP_MAX := (uclamp_eff_get sys ?p UCLAMP_MAX)\<lparr>active := True\<rparr>)\<rparr>)"
    using q(1) q2(1) 1(2) assms(1) ok by (simp add: uclamp_rq_inc_def ok_system_def ok_task_def)
  moreover have "\<forall>i. rq_value (uclamps ((?rq\<lparr>uclamps := (uclamps ?rq)(UCLAMP_MAX := q2)\<rparr>)\<lparr>uclamp_idle := False\<rparr>) i) =
      se_value (uclamp_eff_get sys (ts u) i)"
  proof
    show "rq_value (uclamps ((?rq\<lparr>uclamps := (uclamps ?rq)(UCLAMP_MAX := q2)\<rparr>)\<lparr>uclamp_idle := False\<rparr>) i) =
      se_value (uclamp_eff_get sys (ts u) i)" for i
      using q(2) q2(2) unfolding eff_frame by (cases i) simp_all
  qed
  ultimately show ?thesis using 1(1) by (intro exI conjI)
qed

text \<open>The state after task 90 is queued on an idle run queue; its maximum is 390, that of task 3 is 303.\<close>

lemma one_asking:
  "\<exists>rq. clamp_inv five_buckets {90} rq (asking(90 := clamp_on five_buckets (asking 90)))"
proof -
  have i: "clamp_inv five_buckets {} ((init_uclamp_rq 5)\<lparr>uclamp_idle := True\<rparr>) asking"
    by (rule idle_queue_inv) (use idle_start in \<open>simp add: five_is_5\<close>)
  from inc_inv [OF five_buckets_ok i, of 90] asking_ok show ?thesis by (auto simp: five_is_5)
qed

theorem update_active_loses_clamp_witness:
  "\<exists>rq rq1 p1 rq2 p2. clamp_inv five_buckets {90} rq (asking(90 := clamp_on five_buckets (asking 90)))
    \<and> uclamp_eff_value five_buckets (clamp_on five_buckets (asking 90)) UCLAMP_MAX = 390
    \<and> uclamp_update_active five_buckets UCLAMP_MAX rq (clamp_on five_buckets (asking 90)) = Inr (rq1, p1)
    \<and> uclamp_rq_inc five_buckets rq1 (asking 3) = Inr (rq2, p2) \<and> rq_value (uclamps rq2 UCLAMP_MAX) = 303"
proof -
  note defs = asking_def uclamp_eff_get_def uclamp_tg_restrict_def five_buckets_def init_uclamp_def Let_def
    uclamp_se_set_def uclamp_none_def SCHED_CAPACITY_SCALE_def zero_se_def
  obtain rq where r: "clamp_inv five_buckets {90} rq (asking(90 := clamp_on five_buckets (asking 90)))"
    using one_asking by blast
  have v: "se_value (uclamp_eff_get five_buckets (asking 3) UCLAMP_MAX) = 303" by (simp add: defs)
  have w: "uclamp_eff_value five_buckets (clamp_on five_buckets (asking 90)) UCLAMP_MAX = 390"
    by (simp add: defs clamp_on_def uclamp_eff_value_def)
  from update_active_loses_clamp [OF five_buckets_ok r, of 3] v w r asking_ok show ?thesis
    by (fastforce simp: five_is_5)
qed

text \<open>
  The first task of a run queue: the queue is not marked idle at start-up and its maximum starts at the full
  capacity, so the maximum of the first task that is queued has no effect until the queue has been idle.
\<close>

theorem first_enqueue_unclamped:
  assumes "ok_system sys" and "ok_task (UCLAMP_BUCKETS sys) p" and "se_value (uclamp_eff_get sys p UCLAMP_MAX) \<le> 1024"
  shows "\<exists>rq p'. uclamp_rq_inc sys (init_uclamp_rq (UCLAMP_BUCKETS sys)) p = Inr (rq, p')
    \<and> rq_value (uclamps rq UCLAMP_MAX) = 1024
    \<and> (\<exists>rq2 p2. uclamp_rq_inc sys ((init_uclamp_rq (UCLAMP_BUCKETS sys))\<lparr>uclamp_idle := True\<rparr>) p = Inr (rq2, p2)
        \<and> rq_value (uclamps rq2 UCLAMP_MAX) = se_value (uclamp_eff_get sys p UCLAMP_MAX))"
  using assms eff_bucket [OF assms(1,2)]
  by (simp add: uclamp_rq_inc_def uclamp_rq_inc_id_def init_uclamp_rq_def ok_system_def ok_task_def aget_in Let_def
    uclamp_idle_reset_def set_rq_value_def eff_frame uclamp_none_def SCHED_CAPACITY_SCALE_def)

theorem first_enqueue_unclamped_witness:
  "\<exists>rq p'. uclamp_rq_inc five_buckets (init_uclamp_rq 5) (asking 3) = Inr (rq, p')
    \<and> rq_value (uclamps rq UCLAMP_MAX) = 1024 \<and> uclamp_eff_value five_buckets (asking 3) UCLAMP_MAX = 303"
proof -
  have v: "se_value (uclamp_eff_get five_buckets (asking 3) UCLAMP_MAX) = 303"
    by (simp add: asking_def uclamp_eff_get_def uclamp_tg_restrict_def five_buckets_def init_uclamp_def Let_def
        uclamp_se_set_def uclamp_none_def SCHED_CAPACITY_SCALE_def zero_se_def)
  with first_enqueue_unclamped [OF five_buckets_ok, unfolded five_is_5, of "asking 3"] asking_ok [of 3] show ?thesis
    by (fastforce simp: uclamp_eff_value_def asking_def zero_se_def)
qed

section \<open>Which requests are accepted\<close>

lemma well_formed_set: "v \<le> 1024 \<Longrightarrow> well_formed n (uclamp_se_set n se v u)"
  by (simp add: well_formed_def uclamp_se_set_def)

lemma bucket_id_last: "0 < n \<Longrightarrow> n \<le> 1024 \<Longrightarrow> 2 ^ 31 \<le> v \<Longrightarrow> uclamp_bucket_id n v = n - 1"
proof -
  assume n: "0 < n" "n \<le> 1024" and v: "2 ^ 31 \<le> v"
  have d: "0 < UCLAMP_BUCKET_DELTA n" "UCLAMP_BUCKET_DELTA n \<le> 1536"
    using bucket_delta_pos [OF n] n
    by (auto simp: UCLAMP_BUCKET_DELTA_def SCHED_CAPACITY_SCALE_def intro!: div_le_dividend [THEN order_trans])
  have "(n - 1) * UCLAMP_BUCKET_DELTA n \<le> 1023 * 1536" using d n by (intro mult_le_mono) auto
  with v have "(n - 1) * UCLAMP_BUCKET_DELTA n \<le> v" by (simp add: order_trans)
  with d have "n - 1 \<le> v div UCLAMP_BUCKET_DELTA n" by (simp add: less_eq_div_iff_mult_less_eq)
  then show "uclamp_bucket_id n v = n - 1" by (simp add: uclamp_bucket_id_def)
qed

lemma to_int32_high: "2 ^ 31 \<le> v \<Longrightarrow> v < 2 ^ 32 \<Longrightarrow> to_int32 v = v - 2 ^ 32"
proof -
  assume v: "2 ^ 31 \<le> v" "v < 2 ^ 32"
  have "(v + 2 ^ 31) mod 2 ^ 32 = ((v - 2 ^ 31) + 2 ^ 32) mod 2 ^ 32" by (simp add: add.commute)
  also have "\<dots> = v - 2 ^ 31" unfolding mod_add_self2 using v by simp
  finally show ?thesis by (simp add: to_int32_def)
qed

text \<open>
  C40. Asking for clamps: a request with both clamps, the maximum below 2 to the 31 less one, is accepted exactly
  when the minimum is at most the maximum and that at most 1024, or when the minimum is 2 to the 31 or
  more: such a minimum passes a signed comparison, and its low eleven bits are stored with the topmost bucket.
  Otherwise the clamps asked for are those stored, each with its own bucket.
\<close>

theorem clamp_requests:
  assumes "linux_headers h" and "sched_flags attr = 96" and "0 < UCLAMP_BUCKETS sys" and "UCLAMP_BUCKETS sys \<le> 1024"
    and m: "0 \<le> sched_util_min attr" "sched_util_min attr < 2 ^ 32 - 1"
    and M: "0 \<le> sched_util_max attr" "sched_util_max attr < 2 ^ 31 - 1"
  shows "fst (uclamp_validate h sys p attr) =
      (if (sched_util_min attr \<le> sched_util_max attr \<or> 2 ^ 31 \<le> sched_util_min attr) \<and> sched_util_max attr \<le> 1024 then 0 else - 22)
    \<and> (sched_util_min attr \<le> 1024 \<and> sched_util_max attr \<le> 1024 \<longrightarrow>
        (\<forall>i. well_formed (UCLAMP_BUCKETS sys) (uclamp_req (setscheduler_uclamp h sys attr p) i))
        \<and> int (se_value (uclamp_req (setscheduler_uclamp h sys attr p) UCLAMP_MIN)) = sched_util_min attr
        \<and> int (se_value (uclamp_req (setscheduler_uclamp h sys attr p) UCLAMP_MAX)) = sched_util_max attr)
    \<and> (2 ^ 31 \<le> sched_util_min attr \<longrightarrow>
        int (se_value (uclamp_req (setscheduler_uclamp h sys attr p) UCLAMP_MIN)) = sched_util_min attr mod 2048
        \<and> bucket_id (uclamp_req (setscheduler_uclamp h sys attr p) UCLAMP_MIN) = UCLAMP_BUCKETS sys - 1)"
proof (intro conjI)
  let ?m = "sched_util_min attr" and ?M = "sched_util_max attr" and ?n = "UCLAMP_BUCKETS sys"
  have M32: "to_int32 ?M = ?M" "to_int32 (?M + 1) = ?M + 1" using M by (simp_all add: to_int32_id)
  have m32: "to_int32 ?m = (if ?m < 2 ^ 31 then ?m else ?m - 2 ^ 32)" using m by (simp add: to_int32_id to_int32_high)
  have m1: "to_int32 (to_int32 ?m + 1) \<le> 1025 \<longleftrightarrow> ?m \<le> 1024 \<or> 2 ^ 31 - 1 \<le> ?m"
  proof (cases "?m = 2 ^ 31 - 1")
    case True
    then show ?thesis unfolding m32 by (simp add: to_int32_def)
  next
    case False
    then have "to_int32 (to_int32 ?m + 1) = to_int32 ?m + 1" using m unfolding m32 by (intro to_int32_id) auto
    with False show ?thesis using m unfolding m32 by auto
  qed
  show "fst (uclamp_validate h sys p attr) = (if (?m \<le> ?M \<or> 2 ^ 31 \<le> ?m) \<and> ?M \<le> 1024 then 0 else - 22)"
    using assms(1,2) M m m1 unfolding uclamp_validate_def
    by (auto simp: linux_headers_def Let_def SCHED_CAPACITY_SCALE_def M32 m32 split: if_splits)
  have q: "uclamp_req (setscheduler_uclamp h sys attr p) UCLAMP_MIN = uclamp_se_set ?n (uclamp_req p UCLAMP_MIN) (nat ?m) True"
    "uclamp_req (setscheduler_uclamp h sys attr p) UCLAMP_MAX = uclamp_se_set ?n (uclamp_req p UCLAMP_MAX) (nat ?M) True"
    using assms(1,2) m M by (simp_all add: setscheduler_uclamp_def reset_request_def uclamp_reset_def user_request_def
      linux_headers_def Let_def)
  show "?m \<le> 1024 \<and> ?M \<le> 1024 \<longrightarrow>
      (\<forall>i. well_formed ?n (uclamp_req (setscheduler_uclamp h sys attr p) i))
      \<and> int (se_value (uclamp_req (setscheduler_uclamp h sys attr p) UCLAMP_MIN)) = ?m
      \<and> int (se_value (uclamp_req (setscheduler_uclamp h sys attr p) UCLAMP_MAX)) = ?M"
  proof (intro impI conjI allI)
    assume b: "?m \<le> 1024 \<and> ?M \<le> 1024"
    then have "nat ?m \<le> 1024" "nat ?M \<le> 1024" by auto
    then show "well_formed ?n (uclamp_req (setscheduler_uclamp h sys attr p) i)" for i
      by (cases i) (simp_all add: q well_formed_set)
    show "int (se_value (uclamp_req (setscheduler_uclamp h sys attr p) UCLAMP_MIN)) = ?m"
      "int (se_value (uclamp_req (setscheduler_uclamp h sys attr p) UCLAMP_MAX)) = ?M"
      using b m M by (simp_all add: q uclamp_se_set_def zmod_int)
  qed
  show "2 ^ 31 \<le> ?m \<longrightarrow> int (se_value (uclamp_req (setscheduler_uclamp h sys attr p) UCLAMP_MIN)) = ?m mod 2048
      \<and> bucket_id (uclamp_req (setscheduler_uclamp h sys attr p) UCLAMP_MIN) = ?n - 1"
    using m bucket_id_last [OF assms(3,4), of "nat ?m"] by (simp add: q uclamp_se_set_def nat_mod_distrib zmod_int)
qed

theorem clamp_requests_witness:
  "fst (uclamp_validate linux_5_11 five_buckets (asking 3) \<lparr>sched_policy = 0, sched_priority = 0, sched_nice = 0,
      sched_flags = 96, sched_util_min = 0x80000800, sched_util_max = 512\<rparr>) = 0
    \<and> \<not> well_formed 5 (uclamp_req (setscheduler_uclamp linux_5_11 five_buckets \<lparr>sched_policy = 0, sched_priority = 0,
      sched_nice = 0, sched_flags = 96, sched_util_min = 0x80000800, sched_util_max = 512\<rparr> (asking 3)) UCLAMP_MIN)"
  using clamp_requests [OF linux_5_11_headers, of "\<lparr>sched_policy = 0, sched_priority = 0, sched_nice = 0,
      sched_flags = 96, sched_util_min = 0x80000800, sched_util_max = 512\<rparr>" five_buckets "asking 3"]
  by (simp add: five_is_5 well_formed_def uclamp_bucket_id_def)

end
