(* ===== verification/Psi.thy ===== *)
theory Psi
  imports Clib
begin

unbundle bit_operations_syntax

text \<open>
  The pressure stall functions of \<open>src/Assignment_4/stats.h\<close> (with \<open>CONFIG_PSI\<close>): what they tell the
  accounting of \<open>kernel/sched/psi.c\<close> when a task is queued, dequeued, migrated or switched.

  That file is not part of the repository: its functions and the values of the flags are fields of the
  parameter \<open>psi_kernel\<close>. \<open>psi_task_change\<close> and \<open>psi_task_switch\<close> give the changed tasks; a task carries
  whether an inconsistent change of its flags was reported (\<open>psi_bug\<close>).
\<close>

record psi_task =
  in_iowait :: bool
  in_memstall :: bool
  sched_psi_wake_requeue :: bool
  psi_flags :: s32
  psi_bug :: bool

record psi_kernel =
  psi_disabled :: bool
  TSK_IOWAIT :: s32
  TSK_MEMSTALL :: s32
  TSK_RUNNING :: s32
  TSK_ONCPU :: s32
  psi_task_change :: "psi_task \<Rightarrow> s32 \<Rightarrow> s32 \<Rightarrow> psi_task"
  psi_task_switch :: "psi_task \<Rightarrow> psi_task \<Rightarrow> bool \<Rightarrow> psi_task \<times> psi_task"

definition psi_enqueue :: "psi_kernel \<Rightarrow> psi_task \<Rightarrow> bool \<Rightarrow> psi_task" where
  "psi_enqueue k p wakeup =
     (if psi_disabled k then p
      else if \<not> wakeup \<or> sched_psi_wake_requeue p then
        let set1 = (if in_memstall p then TSK_RUNNING k OR TSK_MEMSTALL k else TSK_RUNNING k);
            p1 = (if sched_psi_wake_requeue p then p\<lparr>sched_psi_wake_requeue := False\<rparr> else p)
        in psi_task_change k p1 0 set1
      else
        let clear = (if in_iowait p then 0 OR TSK_IOWAIT k else 0)
        in psi_task_change k p clear (TSK_RUNNING k))"

definition psi_dequeue :: "psi_kernel \<Rightarrow> psi_task \<Rightarrow> bool \<Rightarrow> psi_task" where
  "psi_dequeue k p sleep =
     (if psi_disabled k then p
      else if \<not> sleep then
        psi_task_change k p (if in_memstall p then TSK_RUNNING k OR TSK_MEMSTALL k else TSK_RUNNING k) 0
      else
        psi_task_change k p (TSK_RUNNING k OR TSK_ONCPU k) (if in_iowait p then 0 OR TSK_IOWAIT k else 0))"

definition psi_ttwu_dequeue :: "psi_kernel \<Rightarrow> psi_task \<Rightarrow> psi_task" where
  "psi_ttwu_dequeue k p =
     (if psi_disabled k then p
      else if in_iowait p \<or> in_memstall p then
        let c1 = (if in_iowait p then 0 OR TSK_IOWAIT k else 0);
            c2 = (if in_memstall p then c1 OR TSK_MEMSTALL k else c1)
        in (psi_task_change k p c2 0)\<lparr>sched_psi_wake_requeue := True\<rparr>
      else p)"

definition psi_sched_switch :: "psi_kernel \<Rightarrow> psi_task \<Rightarrow> psi_task \<Rightarrow> bool \<Rightarrow> psi_task \<times> psi_task" where
  "psi_sched_switch k prev next sleep =
     (if psi_disabled k then (prev, next) else psi_task_switch k prev next sleep)"

text \<open>Whether \<open>psi_memstall_tick\<close> is called for the running task.\<close>

definition psi_task_tick :: "psi_kernel \<Rightarrow> psi_task \<Rightarrow> bool" where
  "psi_task_tick k p = (if psi_disabled k then False else in_memstall p)"

end
