(* ===== verification/Psi_Props.thy ===== *)
theory Psi_Props
  imports Psi
begin

unbundle bit_operations_syntax

text \<open>
  The life of a task as a step relation, and the property that makes the calls of \<open>stats.h\<close> right: in
  every reachable state the flags of the task are those of its phase, and no inconsistency is reported.
\<close>

section \<open>What psi.c promises\<close>

text \<open>
  The flags are bits of their own; a change clears and sets, and reports an inconsistency when a flag to
  be set is set already or one to be cleared is not set; a switch sets the flag of the running task for
  the next one and takes it from the previous one, unless that has just been dequeued to sleep.
\<close>

definition changed :: "psi_task \<Rightarrow> s32 \<Rightarrow> s32 \<Rightarrow> psi_task" where
  "changed p clear new =
     p\<lparr>psi_flags := (psi_flags p AND NOT clear) OR new,
       psi_bug := (psi_bug p \<or> psi_flags p AND new \<noteq> 0 \<or> psi_flags p AND clear \<noteq> clear)\<rparr>"

definition psi_contract :: "psi_kernel \<Rightarrow> bool" where
  "psi_contract k \<longleftrightarrow>
     TSK_IOWAIT k = 1 \<and> TSK_MEMSTALL k = 2 \<and> TSK_RUNNING k = 4 \<and> TSK_ONCPU k = 8 \<and>
     psi_task_change k = changed \<and>
     (\<forall>prev next sleep. psi_task_switch k prev next sleep =
        (if sleep then prev else changed prev 8 0, changed next 0 8))"

section \<open>The life of a task\<close>

datatype phase = Born | Queued | OnCpu | Asleep | Waking

text \<open>
  A new task is queued without a wake-up. On its CPU it may start or end waiting for I/O and memory
  stalls (\<open>psi_memstall_enter\<close> and \<open>psi_memstall_leave\<close> of \<open>psi.c\<close>), be preempted, or sleep; a sleeping
  task wakes up on its CPU or on another, in two steps; a task that is queued or runs may be requeued.
\<close>

inductive life :: "psi_kernel \<Rightarrow> phase \<Rightarrow> psi_task \<Rightarrow> bool" for k where
  born: "life k Born \<lparr>in_iowait = False, in_memstall = False, sched_psi_wake_requeue = False, psi_flags = 0,
    psi_bug = False\<rparr>"
| new_task: "life k Born p \<Longrightarrow> life k Queued (psi_enqueue k p False)"
| switch_in: "life k Queued p \<Longrightarrow> life k OnCpu (snd (psi_sched_switch k other p sleep))"
| preempt: "life k OnCpu p \<Longrightarrow> life k Queued (fst (psi_sched_switch k p other False))"
| iowait: "life k OnCpu p \<Longrightarrow> life k OnCpu (p\<lparr>in_iowait := b\<rparr>)"
| stall: "life k OnCpu p \<Longrightarrow> \<not> in_memstall p \<Longrightarrow>
    life k OnCpu ((psi_task_change k p 0 (TSK_MEMSTALL k))\<lparr>in_memstall := True\<rparr>)"
| unstall: "life k OnCpu p \<Longrightarrow> in_memstall p \<Longrightarrow>
    life k OnCpu ((psi_task_change k p (TSK_MEMSTALL k) 0)\<lparr>in_memstall := False\<rparr>)"
| sleep: "life k OnCpu p \<Longrightarrow> life k Asleep (fst (psi_sched_switch k (psi_dequeue k p True) other True))"
| wake_here: "life k Asleep p \<Longrightarrow> life k Waking p"
| wake_elsewhere: "life k Asleep p \<Longrightarrow> life k Waking (psi_ttwu_dequeue k p)"
| woken: "life k Waking p \<Longrightarrow> life k Queued (psi_enqueue k p True)"
| requeue: "life k ph p \<Longrightarrow> ph \<in> {Queued, OnCpu} \<Longrightarrow> life k ph (psi_enqueue k (psi_dequeue k p False) False)"

text \<open>The flags a task should have in its phase.\<close>

definition flags_of :: "phase \<Rightarrow> psi_task \<Rightarrow> s32" where
  "flags_of ph p =
     (if ph = Waking \<and> sched_psi_wake_requeue p then 0
      else (if (ph = Asleep \<or> ph = Waking) \<and> in_iowait p then 1 else 0) OR (if in_memstall p then 2 else 0) OR
        (if ph = Queued \<or> ph = OnCpu then 4 else 0) OR (if ph = OnCpu then 8 else 0))"

definition tracks :: "phase \<Rightarrow> psi_task \<Rightarrow> bool" where
  "tracks ph p \<longleftrightarrow> psi_flags p = flags_of ph p \<and> \<not> psi_bug p \<and> (ph \<noteq> Waking \<longrightarrow> \<not> sched_psi_wake_requeue p)
     \<and> (ph = Born \<longrightarrow> \<not> in_memstall p)"

lemmas psi_defs = psi_enqueue_def psi_dequeue_def psi_ttwu_dequeue_def psi_sched_switch_def changed_def
  tracks_def flags_of_def Let_def

lemma life_tracks:
  assumes "psi_contract k" and "\<not> psi_disabled k" and "life k ph p"
  shows "tracks ph p"
  using assms(3)
proof induction
  case (requeue ph p)
  then show ?case
    using assms(1,2) by (cases "in_memstall p") (auto simp: psi_contract_def psi_defs)
qed (use assms(1,2) in \<open>auto simp: psi_contract_def psi_defs split: if_splits\<close>)

lemma flags_of_memstall: "ph \<noteq> Waking \<Longrightarrow> flags_of ph p AND 2 \<noteq> 0 \<longleftrightarrow> in_memstall p"
  by (cases ph; cases "in_memstall p"; cases "in_iowait p") (simp_all add: flags_of_def)

text \<open>
  The pressure stall calls are consistent: however a task lives (queued, switched to, preempted, asleep
  with or without I/O, woken on its own or another CPU, requeued, in and out of memory stalls), its
  flags are exactly those of its phase, \<open>psi.c\<close> never has an inconsistent change to report, and the tick
  reports a memory stall of the running task exactly when the flag says so.
\<close>

theorem psi_flags_track:
  assumes "psi_contract k" and "\<not> psi_disabled k" and "life k ph p"
  shows "psi_flags p = flags_of ph p \<and> \<not> psi_bug p
    \<and> (ph = OnCpu \<longrightarrow> (psi_task_tick k p \<longleftrightarrow> psi_flags p AND TSK_MEMSTALL k \<noteq> 0))"
proof -
  have "tracks ph p" by (rule life_tracks [OF assms])
  with assms(1,2) flags_of_memstall [of OnCpu p] show ?thesis
    by (auto simp: tracks_def psi_task_tick_def psi_contract_def)
qed

definition linux_psi :: psi_kernel where
  "linux_psi = \<lparr>psi_disabled = False, TSK_IOWAIT = 1, TSK_MEMSTALL = 2, TSK_RUNNING = 4, TSK_ONCPU = 8,
     psi_task_change = changed,
     psi_task_switch = (\<lambda>prev next sleep. (if sleep then prev else changed prev 8 0, changed next 0 8))\<rparr>"

lemma linux_psi_contract: "psi_contract linux_psi" "\<not> psi_disabled linux_psi"
  by (simp_all add: psi_contract_def linux_psi_def)

text \<open>A task that slept for I/O and woke up on another CPU.\<close>

theorem psi_flags_track_witness:
  "\<exists>p. life linux_psi Queued p \<and> in_iowait p \<and> psi_flags p = 4 \<and> \<not> psi_bug p"
proof -
  obtain other :: psi_task where True by blast
  note on_cpu = life.switch_in [OF life.new_task [OF life.born [of linux_psi]], where other = other and sleep = False]
  note asleep = life.sleep [OF life.iowait [OF on_cpu, where b = True], where other = other]
  from life.woken [OF life.wake_elsewhere [OF asleep]]
  obtain p where p: "life linux_psi Queued p" "in_iowait p" "\<not> in_memstall p"
    by (rule that) (simp_all add: psi_defs linux_psi_def)
  from psi_flags_track [OF linux_psi_contract p(1)] p show ?thesis
    by (auto simp: flags_of_def)
qed

end
