(* ===== verification/Sched_Core.thy ===== *)
theory Sched_Core
  imports Sched Psi Uclamp
begin

unbundle bit_operations_syntax

text \<open>
  The main functions of \<open>src/Assignment_4/cfs/core.c\<close> (the same text in \<open>fifo/core.c\<close>), which call the
  accounting of \<open>stats.h\<close>: queueing and dequeueing a task, waking it up, moving it to another CPU,
  \<open>__schedule\<close> and the context switch, the tick, and the new task.

  A machine has run queues and tasks, both numbered. The scheduling classes are not part of the repository:
  their functions, which act on the class's part \<open>classq\<close> of a run queue, are fields of the parameter
  \<open>kernel\<close>, as are the constants of \<open>kernel/sched/sched.h\<close>. A function that takes locks is one step, but
  for the wake lists, on which a task stays until the other CPU empties them. \<open>CONFIG_SMP\<close> is set and
  \<open>CONFIG_SCHED_DEBUG\<close> is not. Left out: tracing, perf, memory barriers, the preemption count, the load averages
  and other statistics of the classes, hints for the placement of tasks and the triggers of the load balancer.
\<close>

section \<open>Tasks, run queues and the machine\<close>

definition TASK_INTERRUPTIBLE :: int where "TASK_INTERRUPTIBLE = 1"
definition TASK_UNINTERRUPTIBLE :: int where "TASK_UNINTERRUPTIBLE = 2"
definition TASK_WAKING :: int where "TASK_WAKING = 0x200"
definition TASK_NOLOAD :: int where "TASK_NOLOAD = 0x400"
definition TASK_NORMAL :: int where "TASK_NORMAL = TASK_INTERRUPTIBLE OR TASK_UNINTERRUPTIBLE"

datatype on_rq = NotQueued | OnRqQueued | OnRqMigrating

record load_weight =
  weight :: int
  inv_weight :: int

record ktask =
  sched :: task_struct
  psi :: psi_task
  clamp :: clamp_task
  load :: load_weight
  on_rq :: on_rq
  task_cpu :: nat
  sched_contributes_to_load :: bool
  sched_remote_wakeup :: bool
  frozen :: bool
  nofreeze :: bool
  need_resched :: bool
  nvcsw :: u64
  nivcsw :: u64
  nr_migrations :: u64
  mm :: "nat option"
  active_mm :: "nat option"
  pi_top_task :: "nat option"

record 'q rqueue =
  acct :: rq
  clock_update_flags :: "32 word"
  rq_curr :: nat
  rq_idle :: nat
  rq_stop :: "nat option"
  clamps :: clamp_rq
  nr_uninterruptible :: u64
  nr_iowait :: int
  nr_switches :: u64
  idle_stamp :: u64
  avg_idle :: u64
  max_idle_balance_cost :: u64
  prev_mm :: "nat option"
  ttwu_pending :: bool
  wake_list :: "nat list"
  classq :: 'q

record 'q machine =
  rqs :: "nat \<Rightarrow> 'q rqueue"
  tk :: "nat \<Rightarrow> ktask"
  clampsys :: clamp_system
  mm_count :: "nat \<Rightarrow> int"
  sched_clock :: "nat \<Rightarrow> u64"
  printed :: "string list"

datatype pick = RetryTask | NoTask | Picked nat

record 'q kernel =
  hdr :: headers
  psik :: psi_kernel
  info_on :: bool
  DEQUEUE_SLEEP :: int
  DEQUEUE_SAVE :: int
  DEQUEUE_MOVE :: int
  DEQUEUE_NOCLOCK :: int
  ENQUEUE_WAKEUP :: int
  ENQUEUE_RESTORE :: int
  ENQUEUE_NOCLOCK :: int
  ENQUEUE_HEAD :: int
  ENQUEUE_REPLENISH :: int
  ENQUEUE_MIGRATED :: int
  WF_FORK :: int
  WF_MIGRATED :: int
  WF_ON_CPU :: int
  update_avg :: "u64 \<Rightarrow> u64 \<Rightarrow> u64"
  reweight_task :: "load_weight \<Rightarrow> int \<Rightarrow> load_weight"
  RQCF_REQ_SKIP :: "32 word"
  RQCF_ACT_SKIP :: "32 word"
  rq_clock_skip_update :: "32 word \<Rightarrow> 32 word"
  ttwu_queue_feat :: bool
  cpu_active :: "nat \<Rightarrow> bool"
  sd_llc_id :: "nat \<Rightarrow> nat"
  uclamp_class :: "sched_class \<Rightarrow> bool"
  cl_enqueue :: "sched_class \<Rightarrow> 'q \<Rightarrow> nat \<Rightarrow> ktask \<Rightarrow> int \<Rightarrow> 'q"
  cl_dequeue :: "sched_class \<Rightarrow> 'q \<Rightarrow> nat \<Rightarrow> ktask \<Rightarrow> int \<Rightarrow> 'q"
  cl_put_prev :: "sched_class \<Rightarrow> 'q \<Rightarrow> nat \<Rightarrow> 'q"
  cl_set_next :: "sched_class \<Rightarrow> 'q \<Rightarrow> nat \<Rightarrow> 'q"
  cl_balance :: "sched_class \<Rightarrow> 'q \<Rightarrow> nat \<Rightarrow> 'q \<times> bool"
  cl_pick :: "sched_class \<Rightarrow> 'q \<Rightarrow> nat \<Rightarrow> 'q \<times> nat option"
  cl_pick_fair :: "'q \<Rightarrow> nat \<Rightarrow> 'q \<times> pick"
  cl_preempts :: "sched_class \<Rightarrow> 'q \<Rightarrow> nat \<Rightarrow> nat \<Rightarrow> int \<Rightarrow> bool"
  cl_woken :: "sched_class \<Rightarrow> 'q \<Rightarrow> nat \<Rightarrow> 'q"
  cl_migrate :: "sched_class \<Rightarrow> 'q \<Rightarrow> nat \<Rightarrow> nat \<Rightarrow> 'q"
  cl_tick :: "sched_class \<Rightarrow> 'q \<Rightarrow> nat \<Rightarrow> 'q \<times> bool"
  cl_dead :: "sched_class \<Rightarrow> 'q \<Rightarrow> nat \<Rightarrow> 'q"
  cl_changed :: "sched_class \<Rightarrow> sched_class \<Rightarrow> 'q \<Rightarrow> nat \<Rightarrow> int \<Rightarrow> 'q \<times> bool"
  nr_running :: "'q \<Rightarrow> nat"
  h_nr_running :: "'q \<Rightarrow> nat"

definition upd_rq :: "nat \<Rightarrow> ('q rqueue \<Rightarrow> 'q rqueue) \<Rightarrow> 'q machine \<Rightarrow> 'q machine" where
  "upd_rq c f m = m\<lparr>rqs := (rqs m)(c := f (rqs m c))\<rparr>"

definition upd_tk :: "nat \<Rightarrow> (ktask \<Rightarrow> ktask) \<Rightarrow> 'q machine \<Rightarrow> 'q machine" where
  "upd_tk t f m = m\<lparr>tk := (tk m)(t := f (tk m t))\<rparr>"

definition set_state :: "nat \<Rightarrow> int \<Rightarrow> 'q machine \<Rightarrow> 'q machine" where
  "set_state t s = upd_tk t (\<lambda>p. p\<lparr>sched := (sched p)\<lparr>state := s\<rparr>\<rparr>)"

abbreviation cls_of :: "'q machine \<Rightarrow> nat \<Rightarrow> sched_class" where
  "cls_of m t \<equiv> cls (sched (tk m t))"

text \<open>The classes are compared by their addresses, from the idle class up.\<close>

fun class_rank :: "sched_class \<Rightarrow> nat" where
  "class_rank Idle = 0"
| "class_rank Fair = 1"
| "class_rank Rt = 2"
| "class_rank Dl = 3"
| "class_rank Stop = 4"

lemma class_rank_inj: "class_rank a = class_rank b \<Longrightarrow> a = b"
  by (cases a; cases b) simp_all

instantiation sched_class :: linorder
begin

definition less_eq_sched_class :: "sched_class \<Rightarrow> sched_class \<Rightarrow> bool" where
  "less_eq_sched_class a b \<longleftrightarrow> class_rank a \<le> class_rank b"

definition less_sched_class :: "sched_class \<Rightarrow> sched_class \<Rightarrow> bool" where
  "less_sched_class a b \<longleftrightarrow> class_rank a < class_rank b"

instance
  by standard (auto simp: less_eq_sched_class_def less_sched_class_def intro: class_rank_inj)

end

section \<open>Queueing\<close>

definition update_rq_clock :: "'q kernel \<Rightarrow> nat \<Rightarrow> 'q machine \<Rightarrow> 'q machine" where
  "update_rq_clock k c m =
     (let r = rqs m c in
      if clock_update_flags r AND RQCF_ACT_SKIP k \<noteq> 0 then m
      else
        let delta = sched_clock m c - clock (acct r) in
        if sint delta < 0 then m
        else upd_rq c (\<lambda>r. r\<lparr>acct := (acct r)\<lparr>clock := clock (acct r) + delta\<rparr>\<rparr>) m)"

text \<open>What utilisation clamping reads of a task's class and priority.\<close>

definition clamp_view :: "'q kernel \<Rightarrow> ktask \<Rightarrow> clamp_task" where
  "clamp_view k p = (clamp p)\<lparr>uclamp_enabled := uclamp_class k (cls (sched p)), is_rt_task := rt_prio (hdr k) (prio (sched p))\<rparr>"

definition enqueue_task :: "'q kernel \<Rightarrow> nat \<Rightarrow> nat \<Rightarrow> int \<Rightarrow> 'q machine \<Rightarrow> 'q machine res" where
  "enqueue_task k c t flags m =
     (let m1 = (if flags AND ENQUEUE_NOCLOCK k = 0 then update_rq_clock k c m else m);
          m2 = (if flags AND ENQUEUE_RESTORE k = 0 then
                  upd_tk t (\<lambda>p. p\<lparr>sched := sched_info_queued (info_on k) (acct (rqs m1 c)) (sched p),
                    psi := psi_enqueue (psik k) (psi p) (flags AND ENQUEUE_WAKEUP k \<noteq> 0)\<rparr>) m1
                else m1)
      in bindR (uclamp_rq_inc (clampsys m2) (clamps (rqs m2 c)) (clamp_view k (tk m2 t))) (\<lambda>(cr, ct).
           let m3 = upd_tk t (\<lambda>p. p\<lparr>clamp := ct\<rparr>) m2 in
           Inr (upd_rq c (\<lambda>r. r\<lparr>clamps := cr, classq := cl_enqueue k (cls_of m3 t) (classq r) t (tk m3 t) flags\<rparr>) m3)))"

definition dequeue_task :: "'q kernel \<Rightarrow> nat \<Rightarrow> nat \<Rightarrow> int \<Rightarrow> 'q machine \<Rightarrow> 'q machine res" where
  "dequeue_task k c t flags m =
     (let m1 = (if flags AND DEQUEUE_NOCLOCK k = 0 then update_rq_clock k c m else m);
          m2 = (if flags AND DEQUEUE_SAVE k = 0 then
                  (case sched_info_dequeued (info_on k) (acct (rqs m1 c)) (sched (tk m1 t)) of (a, s) \<Rightarrow>
                     upd_rq c (\<lambda>r. r\<lparr>acct := a\<rparr>) (upd_tk t (\<lambda>p. p\<lparr>sched := s,
                       psi := psi_dequeue (psik k) (psi p) (flags AND DEQUEUE_SLEEP k \<noteq> 0)\<rparr>) m1))
                else m1)
      in bindR (uclamp_rq_dec (clampsys m2) (clamps (rqs m2 c)) (clamp_view k (tk m2 t))) (\<lambda>(cr, ct).
           let m3 = upd_tk t (\<lambda>p. p\<lparr>clamp := ct\<rparr>) m2 in
           Inr (upd_rq c (\<lambda>r. r\<lparr>clamps := cr, classq := cl_dequeue k (cls_of m3 t) (classq r) t (tk m3 t) flags\<rparr>) m3)))"

definition activate_task :: "'q kernel \<Rightarrow> nat \<Rightarrow> nat \<Rightarrow> int \<Rightarrow> 'q machine \<Rightarrow> 'q machine res" where
  "activate_task k c t flags m =
     bindR (enqueue_task k c t flags m) (\<lambda>m1. Inr (upd_tk t (\<lambda>p. p\<lparr>on_rq := OnRqQueued\<rparr>) m1))"

definition deactivate_task :: "'q kernel \<Rightarrow> nat \<Rightarrow> nat \<Rightarrow> int \<Rightarrow> 'q machine \<Rightarrow> 'q machine res" where
  "deactivate_task k c t flags m =
     dequeue_task k c t flags
       (upd_tk t (\<lambda>p. p\<lparr>on_rq := (if flags AND DEQUEUE_SLEEP k \<noteq> 0 then NotQueued else OnRqMigrating)\<rparr>) m)"

section \<open>Preemption and waking up\<close>

text \<open>With or without an interrupt to the other CPU.\<close>

definition resched_curr :: "nat \<Rightarrow> 'q machine \<Rightarrow> 'q machine" where
  "resched_curr c m =
     (if need_resched (tk m (rq_curr (rqs m c))) then m
      else upd_tk (rq_curr (rqs m c)) (\<lambda>p. p\<lparr>need_resched := True\<rparr>) m)"

definition check_preempt_curr :: "'q kernel \<Rightarrow> nat \<Rightarrow> nat \<Rightarrow> int \<Rightarrow> 'q machine \<Rightarrow> 'q machine" where
  "check_preempt_curr k c t flags m =
     (let cu = rq_curr (rqs m c);
          m1 = (if cls_of m t = cls_of m cu then
                  (if cl_preempts k (cls_of m cu) (classq (rqs m c)) cu t flags then resched_curr c m else m)
                else if cls_of m t > cls_of m cu then resched_curr c m
                else m)
      in if on_rq (tk m1 cu) = OnRqQueued \<and> need_resched (tk m1 cu)
         then upd_rq c (\<lambda>r. r\<lparr>clock_update_flags := rq_clock_skip_update k (clock_update_flags r)\<rparr>) m1
         else m1)"

definition task_woken :: "'q kernel \<Rightarrow> nat \<Rightarrow> nat \<Rightarrow> 'q machine \<Rightarrow> 'q machine" where
  "task_woken k c t m = upd_rq c (\<lambda>r. r\<lparr>classq := cl_woken k (cls_of m t) (classq r) t\<rparr>) m"

text \<open>\<open>if (rq->idle_stamp) { ... }\<close>: how long the CPU had been idle.\<close>

definition idle_average :: "'q kernel \<Rightarrow> nat \<Rightarrow> 'q machine \<Rightarrow> 'q machine" where
  "idle_average k c m =
     (if idle_stamp (rqs m c) \<noteq> 0 then
        let delta = clock (acct (rqs m c)) - idle_stamp (rqs m c);
            limit = 2 * max_idle_balance_cost (rqs m c);
            avg = update_avg k (avg_idle (rqs m c)) delta
        in upd_rq c (\<lambda>r. r\<lparr>avg_idle := (if avg > limit then limit else avg), idle_stamp := 0\<rparr>) m
      else m)"

definition ttwu_do_wakeup :: "'q kernel \<Rightarrow> nat \<Rightarrow> nat \<Rightarrow> int \<Rightarrow> 'q machine \<Rightarrow> 'q machine" where
  "ttwu_do_wakeup k c t wake_flags m =
     idle_average k c (task_woken k c t (set_state t TASK_RUNNING (check_preempt_curr k c t wake_flags m)))"

definition ttwu_do_activate :: "'q kernel \<Rightarrow> nat \<Rightarrow> nat \<Rightarrow> int \<Rightarrow> 'q machine \<Rightarrow> 'q machine res" where
  "ttwu_do_activate k c t wake_flags m =
     (let en_flags = ENQUEUE_WAKEUP k OR ENQUEUE_NOCLOCK k;
          m1 = (if sched_contributes_to_load (tk m t)
                then upd_rq c (\<lambda>r. r\<lparr>nr_uninterruptible := nr_uninterruptible r - 1\<rparr>) m else m);
          migrated = (wake_flags AND WF_MIGRATED k \<noteq> 0);
          en_flags' = (if migrated then en_flags OR ENQUEUE_MIGRATED k else en_flags);
          m2 = (if \<not> migrated \<and> in_iowait (psi (tk m1 t))
                then upd_rq (task_cpu (tk m1 t)) (\<lambda>r. r\<lparr>nr_iowait := nr_iowait r - 1\<rparr>) m1 else m1)
      in bindR (activate_task k c t en_flags' m2) (\<lambda>m3. Inr (ttwu_do_wakeup k c t wake_flags m3)))"

definition ttwu_runnable :: "'q kernel \<Rightarrow> nat \<Rightarrow> int \<Rightarrow> 'q machine \<Rightarrow> bool \<times> 'q machine" where
  "ttwu_runnable k t wake_flags m =
     (let c = task_cpu (tk m t) in
      if on_rq (tk m t) = OnRqQueued then (True, ttwu_do_wakeup k c t wake_flags (update_rq_clock k c m))
      else (False, m))"

text \<open>\<open>__set_task_cpu\<close> and the callback of the class on the CPU the task leaves.\<close>

definition set_task_cpu :: "'q kernel \<Rightarrow> nat \<Rightarrow> nat \<Rightarrow> 'q machine \<Rightarrow> 'q machine" where
  "set_task_cpu k t new_cpu m =
     (let old = task_cpu (tk m t);
          m1 = (if old \<noteq> new_cpu then
                  upd_tk t (\<lambda>p. p\<lparr>nr_migrations := nr_migrations p + 1\<rparr>)
                    (upd_rq old (\<lambda>r. r\<lparr>classq := cl_migrate k (cls_of m t) (classq r) t new_cpu\<rparr>) m)
                else m)
      in upd_tk t (\<lambda>p. p\<lparr>task_cpu := new_cpu\<rparr>) m1)"

text \<open>The list of tasks that another CPU has to wake up, and the handler of the interrupt on that CPU.\<close>

definition queue_wakelist :: "'q kernel \<Rightarrow> nat \<Rightarrow> nat \<Rightarrow> int \<Rightarrow> 'q machine \<Rightarrow> 'q machine" where
  "queue_wakelist k t c wake_flags m =
     upd_rq c (\<lambda>r. r\<lparr>ttwu_pending := True, wake_list := wake_list r @ [t]\<rparr>)
       (upd_tk t (\<lambda>p. p\<lparr>sched_remote_wakeup := (wake_flags AND WF_MIGRATED k \<noteq> 0)\<rparr>) m)"

fun activate_all :: "'q kernel \<Rightarrow> nat \<Rightarrow> nat list \<Rightarrow> 'q machine \<Rightarrow> 'q machine res" where
  "activate_all k c [] m = Inr m"
| "activate_all k c (t # ts) m =
     (let m1 = (if task_cpu (tk m t) \<noteq> c then set_task_cpu k t c m else m) in
      bindR (ttwu_do_activate k c t (if sched_remote_wakeup (tk m1 t) then WF_MIGRATED k else 0) m1) (activate_all k c ts))"

definition sched_ttwu_pending :: "'q kernel \<Rightarrow> nat \<Rightarrow> 'q machine \<Rightarrow> 'q machine res" where
  "sched_ttwu_pending k c m =
     (let llist = wake_list (rqs m c) in
      if llist = [] then Inr m
      else activate_all k c llist
        (update_rq_clock k c (upd_rq c (\<lambda>r. r\<lparr>ttwu_pending := False, wake_list := []\<rparr>) m)))"

definition ttwu_queue_cond :: "'q kernel \<Rightarrow> nat \<Rightarrow> nat \<Rightarrow> int \<Rightarrow> 'q machine \<Rightarrow> bool" where
  "ttwu_queue_cond k this c wake_flags m =
     (if \<not> cpu_active k c then False
      else if sd_llc_id k this \<noteq> sd_llc_id k c then True
      else wake_flags AND WF_ON_CPU k \<noteq> 0 \<and> nr_running k (classq (rqs m c)) \<le> 1)"

definition ttwu_queue_wakelist :: "'q kernel \<Rightarrow> nat \<Rightarrow> nat \<Rightarrow> nat \<Rightarrow> int \<Rightarrow> 'q machine \<Rightarrow> bool \<times> 'q machine" where
  "ttwu_queue_wakelist k this t c wake_flags m =
     (if ttwu_queue_feat k \<and> ttwu_queue_cond k this c wake_flags m then
        if c = this then (False, m) else (True, queue_wakelist k t c wake_flags m)
      else (False, m))"

definition ttwu_queue :: "'q kernel \<Rightarrow> nat \<Rightarrow> nat \<Rightarrow> nat \<Rightarrow> int \<Rightarrow> 'q machine \<Rightarrow> 'q machine res" where
  "ttwu_queue k this t c wake_flags m =
     (case ttwu_queue_wakelist k this t c wake_flags m of (queued, m1) \<Rightarrow>
        if queued then Inr m1 else ttwu_do_activate k c t wake_flags (update_rq_clock k c m1))"

text \<open>
  \<open>try_to_wake_up\<close>, called on CPU \<open>this\<close>; \<open>dest\<close> is the CPU that \<open>select_task_rq\<close> chooses. \<open>__schedule\<close> is one
  step, so a task that is off its queue has left its CPU: \<open>on_cpu\<close> is not set here.
\<close>

definition try_to_wake_up ::
  "'q kernel \<Rightarrow> nat \<Rightarrow> nat \<Rightarrow> int \<Rightarrow> int \<Rightarrow> nat \<Rightarrow> 'q machine \<Rightarrow> (bool \<times> 'q machine) res" where
  "try_to_wake_up k this t states wake_flags dest m =
     (if t = rq_curr (rqs m this) then
        if state (sched (tk m t)) AND states = 0 then Inr (False, m) else Inr (True, set_state t TASK_RUNNING m)
      else if state (sched (tk m t)) AND states = 0 then Inr (False, m)
      else
        case (if on_rq (tk m t) \<noteq> NotQueued then ttwu_runnable k t wake_flags m else (False, m)) of
          (True, m1) \<Rightarrow> Inr (True, m1)
        | (False, m1) \<Rightarrow>
            let m2 = set_state t TASK_WAKING m1;
                moves = (task_cpu (tk m2 t) \<noteq> dest);
                m3 = (if moves then
                        let m' = (if in_iowait (psi (tk m2 t))
                                  then upd_rq (task_cpu (tk m2 t)) (\<lambda>r. r\<lparr>nr_iowait := nr_iowait r - 1\<rparr>) m2 else m2)
                        in set_task_cpu k t dest (upd_tk t (\<lambda>p. p\<lparr>psi := psi_ttwu_dequeue (psik k) (psi p)\<rparr>) m')
                      else m2);
                wf = (if moves then wake_flags OR WF_MIGRATED k else wake_flags)
            in bindR (ttwu_queue k this t dest wf m3) (\<lambda>m4. Inr (True, m4)))"

definition wake_up_process :: "'q kernel \<Rightarrow> nat \<Rightarrow> nat \<Rightarrow> nat \<Rightarrow> 'q machine \<Rightarrow> (bool \<times> 'q machine) res" where
  "wake_up_process k this t dest m = try_to_wake_up k this t TASK_NORMAL 0 dest m"

section \<open>Load weights\<close>

definition sched_prio_to_weight :: "int list" where
  "sched_prio_to_weight =
     [88761, 71755, 56483, 46273, 36291,
      29154, 23254, 18705, 14949, 11916,
      9548, 7620, 6100, 4904, 3906,
      3121, 2501, 1991, 1586, 1277,
      1024, 820, 655, 526, 423,
      335, 272, 215, 172, 137,
      110, 87, 70, 56, 45,
      36, 29, 23, 18, 15]"

definition sched_prio_to_wmult :: "int list" where
  "sched_prio_to_wmult =
     [48388, 59856, 76040, 92818, 118348,
      147320, 184698, 229616, 287308, 360437,
      449829, 563644, 704093, 875809, 1099582,
      1376151, 1717300, 2157191, 2708050, 3363326,
      4194304, 5237765, 6557202, 8165337, 10153587,
      12820798, 15790321, 19976592, 24970740, 31350126,
      39045157, 49367440, 61356676, 76695844, 95443717,
      119304647, 148102320, 186737708, 238609294, 286331153]"

text \<open>\<open>reweight_task\<close> is a function of the fair class.\<close>

definition set_load_weight :: "'q kernel \<Rightarrow> bool \<Rightarrow> ktask \<Rightarrow> ktask res" where
  "set_load_weight k update_load p =
     (let i = static_prio (sched p) - MAX_RT_PRIO (hdr k) in
      if idle_policy (hdr k) (policy (sched p)) then
        Inr (p\<lparr>load := \<lparr>weight = scale_load (hdr k) (WEIGHT_IDLEPRIO (hdr k)), inv_weight = WMULT_IDLEPRIO (hdr k)\<rparr>\<rparr>)
      else if update_load \<and> cls (sched p) = Fair then Inr (p\<lparr>load := reweight_task k (load p) i\<rparr>)
      else bindR (aget sched_prio_to_weight i) (\<lambda>w. bindR (aget sched_prio_to_wmult i) (\<lambda>v.
             Inr (p\<lparr>load := \<lparr>weight = scale_load (hdr k) w, inv_weight = v\<rparr>\<rparr>))))"

section \<open>New tasks and migration\<close>

text \<open>
  \<open>sched_fork\<close> and \<open>sched_post_fork\<close> for a child that is a copy of its parent, with the part of
  \<open>sched_fork\<close> that sets priority and class (of the CFS or the FIFO kernel) as an argument. The load weight is
  set when the child asks for a reset.
\<close>

definition fork_task ::
  "'q kernel \<Rightarrow> (headers \<Rightarrow> bool \<Rightarrow> task_struct \<Rightarrow> task_struct \<Rightarrow> int \<times> task_struct) \<Rightarrow> clamp_system \<Rightarrow> nat \<Rightarrow> ktask \<Rightarrow> ktask \<Rightarrow> (int \<times> ktask) res" where
  "fork_task k fork_sched sys this current p =
     (let p1 = p\<lparr>on_rq := NotQueued, clamp := uclamp_fork sys (sched_reset_on_fork (sched p)) (clamp_view k p)\<rparr>;
          (ret, s) = fork_sched (hdr k) (info_on k) (sched current) (sched p1)
      in bindR (if sched_reset_on_fork (sched p) then set_load_weight k False (p1\<lparr>sched := s\<rparr>) else Inr (p1\<lparr>sched := s\<rparr>)) (\<lambda>p2.
           if ret \<noteq> 0 then Inr (ret, p2)
           else let p3 = p2\<lparr>task_cpu := this\<rparr>
                in Inr (0, p3\<lparr>clamp := uclamp_post_fork sys (clamp_view k p3)\<rparr>)))"

definition wake_up_new_task :: "'q kernel \<Rightarrow> nat \<Rightarrow> nat \<Rightarrow> 'q machine \<Rightarrow> 'q machine res" where
  "wake_up_new_task k t dest m =
     (let m1 = upd_tk t (\<lambda>p. p\<lparr>task_cpu := dest\<rparr>) (set_state t TASK_RUNNING m)
      in bindR (activate_task k dest t (ENQUEUE_NOCLOCK k) (update_rq_clock k dest m1)) (\<lambda>m2.
           Inr (task_woken k dest t (check_preempt_curr k dest t (WF_FORK k) m2))))"

definition move_queued_task :: "'q kernel \<Rightarrow> nat \<Rightarrow> nat \<Rightarrow> nat \<Rightarrow> 'q machine \<Rightarrow> 'q machine res" where
  "move_queued_task k c t new_cpu m =
     bindR (deactivate_task k c t (DEQUEUE_NOCLOCK k) m) (\<lambda>m1.
       bindR (activate_task k new_cpu t 0 (set_task_cpu k t new_cpu m1)) (\<lambda>m2.
         Inr (check_preempt_curr k new_cpu t 0 m2)))"

section \<open>The context switch\<close>

definition mmgrab :: "nat option \<Rightarrow> 'q machine \<Rightarrow> 'q machine res" where
  "mmgrab a m = (case a of None \<Rightarrow> Inl NullPointer | Some i \<Rightarrow> Inr (m\<lparr>mm_count := (mm_count m)(i := mm_count m i + 1)\<rparr>))"

definition mmdrop :: "nat \<Rightarrow> 'q machine \<Rightarrow> 'q machine" where
  "mmdrop i m = m\<lparr>mm_count := (mm_count m)(i := mm_count m i - 1)\<rparr>"

definition prepare_task_switch :: "'q kernel \<Rightarrow> nat \<Rightarrow> nat \<Rightarrow> nat \<Rightarrow> 'q machine \<Rightarrow> 'q machine" where
  "prepare_task_switch k c prev next m =
     (case sched_info_switch (info_on k) (rq_idle (rqs m c)) prev next (acct (rqs m c)) (\<lambda>t. sched (tk m t)) of (a, ts) \<Rightarrow>
        upd_rq c (\<lambda>r. r\<lparr>acct := a\<rparr>) (m\<lparr>tk := \<lambda>t. (tk m t)\<lparr>sched := ts t\<rparr>\<rparr>))"

text \<open>The address spaces: a kernel thread borrows that of its predecessor and holds a reference to it.\<close>

definition switch_mm :: "nat \<Rightarrow> nat \<Rightarrow> nat \<Rightarrow> 'q machine \<Rightarrow> 'q machine res" where
  "switch_mm c prev next m =
     (if mm (tk m next) = None then
        let a = active_mm (tk m prev); m1 = upd_tk next (\<lambda>p. p\<lparr>active_mm := a\<rparr>) m
        in if mm (tk m1 prev) \<noteq> None then mmgrab (active_mm (tk m1 prev)) m1
           else Inr (upd_tk prev (\<lambda>p. p\<lparr>active_mm := None\<rparr>) m1)
      else if mm (tk m prev) = None then
        let a = active_mm (tk m prev)
        in Inr (upd_tk prev (\<lambda>p. p\<lparr>active_mm := None\<rparr>) (upd_rq c (\<lambda>r. r\<lparr>prev_mm := a\<rparr>) m))
      else Inr m)"

text \<open>\<open>report\<close> is the message of the CFS kernel (\<open>burst_report\<close>); the FIFO kernel has none.\<close>

definition finish_task_switch ::
  "'q kernel \<Rightarrow> (int \<Rightarrow> int \<Rightarrow> task_struct \<Rightarrow> string list) \<Rightarrow> nat \<Rightarrow> nat \<Rightarrow> 'q machine \<Rightarrow> 'q machine" where
  "finish_task_switch k report c prev m =
     (let a = prev_mm (rqs m c);
          m1 = upd_rq c (\<lambda>r. r\<lparr>prev_mm := None\<rparr>) m;
          prev_state = state (sched (tk m1 prev));
          m2 = (case a of None \<Rightarrow> m1 | Some i \<Rightarrow> mmdrop i m1)
      in if prev_state = TASK_DEAD then
           upd_rq c (\<lambda>r. r\<lparr>classq := cl_dead k (cls_of m2 prev) (classq r) prev\<rparr>)
             (m2\<lparr>printed := printed m2 @ report (int prev) prev_state (sched (tk m2 prev))\<rparr>)
         else m2)"

definition clear_skip :: "'q kernel \<Rightarrow> nat \<Rightarrow> 'q machine \<Rightarrow> 'q machine" where
  "clear_skip k c = upd_rq c (\<lambda>r. r\<lparr>clock_update_flags := clock_update_flags r AND NOT (RQCF_ACT_SKIP k OR RQCF_REQ_SKIP k)\<rparr>)"

definition context_switch ::
  "'q kernel \<Rightarrow> (int \<Rightarrow> int \<Rightarrow> task_struct \<Rightarrow> string list) \<Rightarrow> nat \<Rightarrow> nat \<Rightarrow> nat \<Rightarrow> 'q machine \<Rightarrow> 'q machine res" where
  "context_switch k report c prev next m =
     bindR (switch_mm c prev next (prepare_task_switch k c prev next m)) (\<lambda>m1.
       Inr (finish_task_switch k report c prev (clear_skip k c m1)))"

section \<open>Choosing the next task\<close>

text \<open>\<open>for_class_range\<close> from the class of the previous task down to the one above the idle class.\<close>

fun classes_below :: "sched_class \<Rightarrow> sched_class list" where
  "classes_below Idle = []"
| "classes_below Fair = [Fair]"
| "classes_below Rt = [Rt, Fair]"
| "classes_below Dl = [Dl, Rt, Fair]"
| "classes_below Stop = [Stop, Dl, Rt, Fair]"

fun balance :: "'q kernel \<Rightarrow> sched_class list \<Rightarrow> nat \<Rightarrow> 'q \<Rightarrow> 'q" where
  "balance k [] prev q = q"
| "balance k (x # xs) prev q = (case cl_balance k x q prev of (q1, b) \<Rightarrow> if b then q1 else balance k xs prev q1)"

definition put_prev_task_balance :: "'q kernel \<Rightarrow> sched_class \<Rightarrow> nat \<Rightarrow> 'q \<Rightarrow> 'q" where
  "put_prev_task_balance k cl prev q = cl_put_prev k cl (balance k (classes_below cl) prev q) prev"

fun pick_class :: "'q kernel \<Rightarrow> sched_class list \<Rightarrow> nat \<Rightarrow> 'q \<Rightarrow> ('q \<times> nat) res" where
  "pick_class k [] idle q = Inl KernelBug"
| "pick_class k (x # xs) idle q =
     (case cl_pick k x q idle of (q1, Some t) \<Rightarrow> Inr (q1, t) | (q1, None) \<Rightarrow> pick_class k xs idle q1)"

definition pick_slow :: "'q kernel \<Rightarrow> sched_class \<Rightarrow> nat \<Rightarrow> nat \<Rightarrow> 'q \<Rightarrow> ('q \<times> nat) res" where
  "pick_slow k cl prev idle q = pick_class k [Stop, Dl, Rt, Fair, Idle] idle (put_prev_task_balance k cl prev q)"

definition pick_next_task :: "'q kernel \<Rightarrow> sched_class \<Rightarrow> nat \<Rightarrow> nat \<Rightarrow> 'q \<Rightarrow> ('q \<times> nat) res" where
  "pick_next_task k cl prev idle q =
     (if cl \<le> Fair \<and> nr_running k q = h_nr_running k q then
        case cl_pick_fair k q prev of
          (q1, RetryTask) \<Rightarrow> pick_slow k cl prev idle q1
        | (q1, NoTask) \<Rightarrow>
            (case cl_pick k Idle (cl_put_prev k cl q1 prev) idle of
               (q2, Some t) \<Rightarrow> Inr (q2, t) | (q2, None) \<Rightarrow> Inl NullPointer)
        | (q1, Picked t) \<Rightarrow> Inr (q1, t)
      else pick_slow k cl prev idle q)"

section \<open>The main function\<close>

text \<open>
  The part of \<open>__schedule\<close> before the choice: the task that calls it sleeps, unless it is preempted or
  has a signal (\<open>sig\<close>: the value of \<open>signal_pending_state\<close>).
\<close>

definition contributes :: "ktask \<Rightarrow> bool" where
  "contributes p \<longleftrightarrow>
     state (sched p) AND TASK_UNINTERRUPTIBLE \<noteq> 0 \<and> state (sched p) AND TASK_NOLOAD = 0 \<and> \<not> frozen p"

definition schedule_block :: "'q kernel \<Rightarrow> nat \<Rightarrow> nat \<Rightarrow> bool \<Rightarrow> bool \<Rightarrow> 'q machine \<Rightarrow> 'q machine res" where
  "schedule_block k c prev preempt sig m =
     (if \<not> preempt \<and> state (sched (tk m prev)) \<noteq> 0 then
        if sig then Inr (set_state prev TASK_RUNNING m)
        else
          let b = contributes (tk m prev);
              m1 = upd_tk prev (\<lambda>p. p\<lparr>sched_contributes_to_load := b\<rparr>) m;
              m2 = (if b then upd_rq c (\<lambda>r. r\<lparr>nr_uninterruptible := nr_uninterruptible r + 1\<rparr>) m1 else m1)
          in bindR (deactivate_task k c prev (DEQUEUE_SLEEP k OR DEQUEUE_NOCLOCK k) m2) (\<lambda>m3.
               Inr (if in_iowait (psi (tk m3 prev)) then upd_rq c (\<lambda>r. r\<lparr>nr_iowait := nr_iowait r + 1\<rparr>) m3 else m3))
      else Inr m)"

text \<open>The switch: the counters, the pressure stall accounting and the context switch.\<close>

definition schedule_switch ::
  "'q kernel \<Rightarrow> (int \<Rightarrow> int \<Rightarrow> task_struct \<Rightarrow> string list) \<Rightarrow> nat \<Rightarrow> nat \<Rightarrow> nat \<Rightarrow> bool \<Rightarrow> 'q machine \<Rightarrow> 'q machine res" where
  "schedule_switch k report c prev next voluntary m =
     (let m1 = upd_rq c (\<lambda>r. r\<lparr>nr_switches := nr_switches r + 1, rq_curr := next\<rparr>) m;
          m2 = upd_tk prev (\<lambda>p. if voluntary then p\<lparr>nvcsw := nvcsw p + 1\<rparr> else p\<lparr>nivcsw := nivcsw p + 1\<rparr>) m1
      in case psi_sched_switch (psik k) (psi (tk m2 prev)) (psi (tk m2 next)) (on_rq (tk m2 prev) \<noteq> OnRqQueued) of (a, b) \<Rightarrow>
           context_switch k report c prev next (upd_tk next (\<lambda>p. p\<lparr>psi := b\<rparr>) (upd_tk prev (\<lambda>p. p\<lparr>psi := a\<rparr>) m2)))"

definition schedule_cpu ::
  "'q kernel \<Rightarrow> (int \<Rightarrow> int \<Rightarrow> task_struct \<Rightarrow> string list) \<Rightarrow> nat \<Rightarrow> bool \<Rightarrow> bool \<Rightarrow> 'q machine \<Rightarrow> 'q machine res" where
  "schedule_cpu k report c preempt sig m =
     (let prev = rq_curr (rqs m c);
          m1 = update_rq_clock k c (upd_rq c (\<lambda>r. r\<lparr>clock_update_flags := push_bit 1 (clock_update_flags r)\<rparr>) m);
          voluntary = (\<not> preempt \<and> state (sched (tk m1 prev)) \<noteq> 0)
      in bindR (schedule_block k c prev preempt sig m1) (\<lambda>m2.
         bindR (pick_next_task k (cls_of m2 prev) prev (rq_idle (rqs m2 c)) (classq (rqs m2 c))) (\<lambda>(q, next).
           let m3 = upd_tk prev (\<lambda>p. p\<lparr>need_resched := False\<rparr>) (upd_rq c (\<lambda>r. r\<lparr>classq := q\<rparr>) m2)
           in if prev \<noteq> next then schedule_switch k report c prev next voluntary m3
              else Inr (clear_skip k c m3))))"

text \<open>A task that ends never comes back from its last call.\<close>

definition do_task_dead ::
  "'q kernel \<Rightarrow> (int \<Rightarrow> int \<Rightarrow> task_struct \<Rightarrow> string list) \<Rightarrow> nat \<Rightarrow> 'q machine \<Rightarrow> 'q machine res" where
  "do_task_dead k report c m =
     (let t = rq_curr (rqs m c) in
      bindR (schedule_cpu k report c False False (upd_tk t (\<lambda>p. p\<lparr>nofreeze := True\<rparr>) (set_state t TASK_DEAD m))) (\<lambda>m1.
        if rq_curr (rqs m1 c) = t then Inl KernelBug else Inr m1))"

text \<open>The tick, and whether it reports a memory stall.\<close>

definition scheduler_tick :: "'q kernel \<Rightarrow> nat \<Rightarrow> 'q machine \<Rightarrow> bool \<times> 'q machine" where
  "scheduler_tick k c m =
     (let m1 = update_rq_clock k c m; cu = rq_curr (rqs m1 c) in
      case cl_tick k (cls_of m1 cu) (classq (rqs m1 c)) cu of (q, resched) \<Rightarrow>
        let m2 = upd_rq c (\<lambda>r. r\<lparr>classq := q\<rparr>) m1
        in (psi_task_tick (psik k) (psi (tk m2 cu)), if resched then resched_curr c m2 else m2))"

section \<open>The counters of the whole machine\<close>

definition nr_context_switches :: "nat \<Rightarrow> 'q machine \<Rightarrow> u64" where
  "nr_context_switches n m = (\<Sum>c < n. nr_switches (rqs m c))"

definition nr_iowait_all :: "nat \<Rightarrow> 'q machine \<Rightarrow> int" where
  "nr_iowait_all n m = (\<Sum>c < n. nr_iowait (rqs m c))"

end
