(* ===== verification/Sched_Core_Inv.thy ===== *)
theory Sched_Core_Inv
  imports Sched_Core Uclamp_Props Psi_Props
begin

unbundle bit_operations_syntax

text \<open>
  What holds of a machine between two steps of the scheduler, and what queueing and dequeueing a task
  does to it.
\<close>

section \<open>What the classes promise\<close>

text \<open>
  The constants of \<open>kernel/sched/sched.h\<close>, and the queue of a class: \<open>queued\<close> is the set of the tasks on
  the class part of a run queue. A task is picked only if it is queued, and the idle class always
  picks the idle task.
\<close>

definition flags_contract :: "'q kernel \<Rightarrow> bool" where
  "flags_contract k \<longleftrightarrow> DEQUEUE_SLEEP k = 1 \<and> DEQUEUE_SAVE k = 2 \<and> DEQUEUE_MOVE k = 4 \<and> DEQUEUE_NOCLOCK k = 8
     \<and> ENQUEUE_WAKEUP k = 1 \<and> ENQUEUE_RESTORE k = 2 \<and> ENQUEUE_NOCLOCK k = 8 \<and> ENQUEUE_HEAD k = 16
     \<and> ENQUEUE_REPLENISH k = 32 \<and> ENQUEUE_MIGRATED k = 64 \<and> WF_FORK k = 4 \<and> WF_MIGRATED k = 32"

definition class_contract :: "'q kernel \<Rightarrow> ('q \<Rightarrow> nat set) \<Rightarrow> bool" where
  "class_contract k queued \<longleftrightarrow>
     (\<forall>x q t p f. queued (cl_enqueue k x q t p f) = insert t (queued q)) \<and>
     (\<forall>x q t p f. queued (cl_dequeue k x q t p f) = queued q - {t}) \<and>
     (\<forall>x q t. queued (cl_put_prev k x q t) = queued q) \<and>
     (\<forall>x q t. queued (cl_set_next k x q t) = queued q) \<and>
     (\<forall>x q t. queued (fst (cl_balance k x q t)) = queued q) \<and>
     (\<forall>x q t. queued (cl_woken k x q t) = queued q) \<and>
     (\<forall>x q t c. queued (cl_migrate k x q t c) = queued q) \<and>
     (\<forall>x q t. queued (fst (cl_tick k x q t)) = queued q) \<and>
     (\<forall>x q t. queued (cl_dead k x q t) = queued q) \<and>
     (\<forall>x y q t pr. queued (fst (cl_changed k x y q t pr)) = queued q) \<and>
     (\<forall>x q i. queued (fst (cl_pick k x q i)) = queued q) \<and>
     (\<forall>q t. queued (fst (cl_pick_fair k q t)) = queued q) \<and>
     (\<forall>x q i t. x \<noteq> Idle \<and> snd (cl_pick k x q i) = Some t \<longrightarrow> t \<in> queued q) \<and>
     (\<forall>q i. snd (cl_pick k Idle q i) = Some i) \<and>
     (\<forall>q p t. snd (cl_pick_fair k q p) = Picked t \<longrightarrow> t \<in> queued q)"

text \<open>With these the next task is a queued one or the idle task, and choosing it keeps the queue.\<close>

lemma balance_queued: "class_contract k queued \<Longrightarrow> queued (balance k xs t q) = queued q"
proof (induction xs arbitrary: q)
  case (Cons x xs)
  have "queued (fst (cl_balance k x q t)) = queued q" using Cons.prems by (simp add: class_contract_def)
  with Cons show ?case by (auto split: prod.splits)
qed simp

lemma pick_class_queued:
  assumes "class_contract k queued" and "Idle \<in> set xs"
  shows "\<exists>q' t. pick_class k xs i q = Inr (q', t) \<and> queued q' = queued q \<and> (t = i \<or> t \<in> queued q)"
  using assms(2)
proof (induction xs arbitrary: q)
  case (Cons x xs)
  obtain q1 r where p: "cl_pick k x q i = (q1, r)" by (cases "cl_pick k x q i")
  have "queued (fst (cl_pick k x q i)) = queued q" using assms(1) by (simp add: class_contract_def)
  then have q: "queued q1 = queued q" by (simp add: p)
  show ?case
  proof (cases r)
    case (Some t)
    have "x \<noteq> Idle \<longrightarrow> t \<in> queued q" "x = Idle \<longrightarrow> t = i"
      using assms(1) Some p unfolding class_contract_def by (metis snd_conv, metis option.inject snd_conv)
    with Some p q show ?thesis by auto
  next
    case None
    have "x \<noteq> Idle" using assms(1) None p unfolding class_contract_def by (metis option.distinct(1) snd_conv)
    with Cons have "\<exists>q' t. pick_class k xs i q1 = Inr (q', t) \<and> queued q' = queued q1 \<and> (t = i \<or> t \<in> queued q1)" by auto
    with None p q show ?thesis by auto
  qed
qed simp

lemma pick_next_queued:
  assumes "class_contract k queued"
  shows "\<exists>q' t. pick_next_task k x prev i q = Inr (q', t) \<and> queued q' = queued q \<and> (t = i \<or> t \<in> queued q)"
proof -
  have slow: "\<exists>q' t. pick_slow k x prev i q = Inr (q', t) \<and> queued q' = queued q \<and> (t = i \<or> t \<in> queued q)" for q
  proof -
    have "queued (put_prev_task_balance k x prev q) = queued q"
      using assms balance_queued [OF assms] by (simp add: put_prev_task_balance_def class_contract_def)
    with pick_class_queued [OF assms, of "[Stop, Dl, Rt, Fair, Idle]" i "put_prev_task_balance k x prev q"]
    show ?thesis by (auto simp: pick_slow_def)
  qed
  obtain q1 r where p: "cl_pick_fair k q prev = (q1, r)" by (cases "cl_pick_fair k q prev")
  have "queued (fst (cl_pick_fair k q prev)) = queued q" using assms by (simp add: class_contract_def)
  then have q1: "queued q1 = queued q" by (simp add: p)
  show ?thesis
  proof (cases "x \<le> Fair \<and> nr_running k q = h_nr_running k q")
    case fast: True
    show ?thesis
    proof (cases r)
      case RetryTask
      with slow [of q1] fast p q1 show ?thesis by (simp add: pick_next_task_def)
    next
      case NoTask
      let ?c = "cl_pick k Idle (cl_put_prev k x q1 prev) i"
      have "queued (fst ?c) = queued q" "snd ?c = Some i" using assms q1 by (simp_all add: class_contract_def)
      with fast p NoTask show ?thesis by (cases ?c) (auto simp: pick_next_task_def)
    next
      case (Picked t)
      have "t \<in> queued q" using assms p Picked unfolding class_contract_def by (metis snd_conv)
      with fast p Picked q1 show ?thesis by (simp add: pick_next_task_def)
    qed
  next
    case False
    with slow [of q] show ?thesis unfolding pick_next_task_def by presburger
  qed
qed


section \<open>The queues and the clamps\<close>

text \<open>The clamps a task asks for are in their buckets.\<close>

definition ok_request :: "clamp_system \<Rightarrow> ktask \<Rightarrow> bool" where
  "ok_request sys p \<longleftrightarrow> ok_task (UCLAMP_BUCKETS sys) ((clamp p)\<lparr>uclamp_enabled := True\<rparr>)"

text \<open>\<open>Q\<close> gives the tasks on each run queue; the clamps count those whose class has clamps.\<close>

definition queue_inv :: "'q kernel \<Rightarrow> ('q \<Rightarrow> nat set) \<Rightarrow> nat \<Rightarrow> (nat \<Rightarrow> nat set) \<Rightarrow> 'q machine \<Rightarrow> bool" where
  "queue_inv k queued n Q m \<longleftrightarrow>
     (\<forall>c < n. queued (classq (rqs m c)) = Q c
       \<and> clamp_inv (clampsys m) {t \<in> Q c. uclamp_class k (cls_of m t)} (clamps (rqs m c)) (\<lambda>t. clamp_view k (tk m t)))"

lemma queue_inv_cong:
  assumes "queue_inv k queued n Q m" and "clampsys m' = clampsys m"
    and "\<And>c. c < n \<Longrightarrow> queued (classq (rqs m' c)) = queued (classq (rqs m c)) \<and> clamps (rqs m' c) = clamps (rqs m c)"
    and "\<And>c t. c < n \<Longrightarrow> t \<in> Q c \<Longrightarrow> cls_of m' t = cls_of m t \<and> clamp (tk m' t) = clamp (tk m t)"
  shows "queue_inv k queued n Q m'"
  unfolding queue_inv_def
proof (intro allI impI conjI)
  fix c assume c: "c < n"
  show "queued (classq (rqs m' c)) = Q c" using assms(1,3) c by (simp add: queue_inv_def)
  have "{t \<in> Q c. uclamp_class k (cls_of m' t)} = {t \<in> Q c. uclamp_class k (cls_of m t)}" using assms(4) c by auto
  moreover have "clamp_inv (clampsys m) {t \<in> Q c. uclamp_class k (cls_of m t)} (clamps (rqs m c)) (\<lambda>t. clamp_view k (tk m' t))"
    by (rule clamp_inv_cong [of _ _ _ "\<lambda>t. clamp_view k (tk m t)"])
      (use assms(1,4) c in \<open>auto simp: queue_inv_def clamp_view_def\<close>)
  ultimately show "clamp_inv (clampsys m') {t \<in> Q c. uclamp_class k (cls_of m' t)} (clamps (rqs m' c)) (\<lambda>t. clamp_view k (tk m' t))"
    using assms(2,3) c by simp
qed

text \<open>The clock: only that field changes.\<close>

definition acct_now :: "'q kernel \<Rightarrow> nat \<Rightarrow> 'q machine \<Rightarrow> rq" where
  "acct_now k c m = acct (rqs (update_rq_clock k c m) c)"

lemma update_rq_clock_eq: "update_rq_clock k c m = m\<lparr>rqs := (rqs m)(c := (rqs m c)\<lparr>acct := acct_now k c m\<rparr>)\<rparr>"
  by (auto simp: acct_now_def update_rq_clock_def upd_rq_def Let_def)

lemma acct_now_clock: "acct_now k c m = (acct (rqs m c))\<lparr>clock := clock (acct_now k c m)\<rparr>"
  by (auto simp: acct_now_def update_rq_clock_def upd_rq_def Let_def)

section \<open>Enqueue and dequeue\<close>

definition enq_acct :: "'q kernel \<Rightarrow> nat \<Rightarrow> int \<Rightarrow> 'q machine \<Rightarrow> rq" where
  "enq_acct k c flags m = (if flags AND ENQUEUE_NOCLOCK k = 0 then acct_now k c m else acct (rqs m c))"

definition enqueued :: "'q kernel \<Rightarrow> nat \<Rightarrow> nat \<Rightarrow> int \<Rightarrow> clamp_task \<Rightarrow> clamp_rq \<Rightarrow> 'q \<Rightarrow> 'q machine \<Rightarrow> 'q machine" where
  "enqueued k c t flags ct cr q m =
     m\<lparr>tk := (tk m)(t := (tk m t)\<lparr>
         sched := (if flags AND ENQUEUE_RESTORE k = 0 then sched_info_queued (info_on k) (enq_acct k c flags m) (sched (tk m t))
                   else sched (tk m t)),
         psi := (if flags AND ENQUEUE_RESTORE k = 0
                 then psi_enqueue (psik k) (psi (tk m t)) (flags AND ENQUEUE_WAKEUP k \<noteq> 0) else psi (tk m t)),
         clamp := ct\<rparr>),
       rqs := (rqs m)(c := (rqs m c)\<lparr>acct := enq_acct k c flags m, clamps := cr, classq := q\<rparr>)\<rparr>"

definition dequeued :: "'q kernel \<Rightarrow> nat \<Rightarrow> nat \<Rightarrow> int \<Rightarrow> clamp_task \<Rightarrow> clamp_rq \<Rightarrow> 'q \<Rightarrow> 'q machine \<Rightarrow> 'q machine" where
  "dequeued k c t flags ct cr q m =
     (let a = (if flags AND DEQUEUE_NOCLOCK k = 0 then acct_now k c m else acct (rqs m c));
          d = sched_info_dequeued (info_on k) a (sched (tk m t)) in
      m\<lparr>tk := (tk m)(t := (tk m t)\<lparr>
         sched := (if flags AND DEQUEUE_SAVE k = 0 then snd d else sched (tk m t)),
         psi := (if flags AND DEQUEUE_SAVE k = 0
                 then psi_dequeue (psik k) (psi (tk m t)) (flags AND DEQUEUE_SLEEP k \<noteq> 0) else psi (tk m t)),
         clamp := ct\<rparr>),
       rqs := (rqs m)(c := (rqs m c)\<lparr>acct := (if flags AND DEQUEUE_SAVE k = 0 then fst d else a), clamps := cr, classq := q\<rparr>)\<rparr>)"

lemma queued_cls [simp]: "cls (sched_info_queued b r s) = cls s" "prio (sched_info_queued b r s) = prio s"
    "state (sched_info_queued b r s) = state s"
  by (simp_all add: sched_info_queued_def)

lemma dequeued_cls [simp]: "cls (snd (sched_info_dequeued b r s)) = cls s" "prio (snd (sched_info_dequeued b r s)) = prio s"
    "state (snd (sched_info_dequeued b r s)) = state s"
  by (simp_all add: sched_info_dequeued_def sched_info_reset_dequeued_def Let_def)

lemma enqueue_task_eq:
  assumes "uclamp_rq_inc (clampsys m) (clamps (rqs m c)) (clamp_view k (tk m t)) = Inr (cr, ct)"
  shows "\<exists>p. enqueue_task k c t flags m = Inr (enqueued k c t flags ct cr (cl_enqueue k (cls_of m t) (classq (rqs m c)) t p flags) m)"
proof -
  let ?m = "\<lambda>q. enqueued k c t flags ct cr q m"
  let ?p = "tk (?m undefined) t"
  have v: "clamp_view k (p\<lparr>sched := sched_info_queued b r (sched p), psi := x\<rparr>) = clamp_view k p" for p b r x
    by (simp add: clamp_view_def)
  have "enqueue_task k c t flags m = Inr (?m (cl_enqueue k (cls_of m t) (classq (rqs m c)) t ?p flags))"
    using assms by (simp add: enqueue_task_def enqueued_def enq_acct_def update_rq_clock_eq upd_tk_def upd_rq_def Let_def v)
  then show ?thesis by blast
qed

lemma dequeue_task_eq:
  assumes "uclamp_rq_dec (clampsys m) (clamps (rqs m c)) (clamp_view k (tk m t)) = Inr (cr, ct)"
  shows "\<exists>p. dequeue_task k c t flags m = Inr (dequeued k c t flags ct cr (cl_dequeue k (cls_of m t) (classq (rqs m c)) t p flags) m)"
proof -
  let ?m = "\<lambda>q. dequeued k c t flags ct cr q m"
  let ?p = "tk (?m undefined) t"
  have v: "clamp_view k (p\<lparr>sched := snd (sched_info_dequeued b r (sched p)), psi := x\<rparr>) = clamp_view k p" for p b r x
    by (simp add: clamp_view_def)
  have "dequeue_task k c t flags m = Inr (?m (cl_dequeue k (cls_of m t) (classq (rqs m c)) t ?p flags))"
    using assms by (simp add: dequeue_task_def dequeued_def update_rq_clock_eq upd_tk_def upd_rq_def Let_def v case_prod_beta)
  then show ?thesis by blast
qed


lemmas machine_defs = enqueued_def dequeued_def Let_def

definition same_request :: "clamp_task \<Rightarrow> clamp_task \<Rightarrow> bool" where
  "same_request a b \<longleftrightarrow> uclamp_req a = uclamp_req b \<and> group_clamps a = group_clamps b"

text \<open>A run queue whose tasks and clamps change, with the clamps of one task: the others keep theirs.\<close>

lemma queue_inv_change:
  assumes "queue_inv k queued n Q m" and "c < n" and "clampsys m' = clampsys m"
    and "\<And>c'. c' \<noteq> c \<Longrightarrow> rqs m' c' = rqs m c'" and "\<And>s. s \<noteq> t \<Longrightarrow> tk m' s = tk m s"
    and "cls_of m' t = cls_of m t"
    and "queued (classq (rqs m' c)) = B" and "\<And>c'. c' < n \<Longrightarrow> c' \<noteq> c \<Longrightarrow> t \<notin> Q c'"
    and "clamp_inv (clampsys m) {s \<in> B. uclamp_class k (cls_of m s)} (clamps (rqs m' c)) (\<lambda>s. clamp_view k (tk m' s))"
  shows "queue_inv k queued n (Q(c := B)) m'"
  unfolding queue_inv_def
proof (intro allI impI)
  fix c' assume c': "c' < n"
  have cls: "cls_of m' s = cls_of m s" for s using assms(5,6) by (cases "s = t") simp_all
  show "queued (classq (rqs m' c')) = (Q(c := B)) c'
    \<and> clamp_inv (clampsys m') {s \<in> (Q(c := B)) c'. uclamp_class k (cls_of m' s)} (clamps (rqs m' c')) (\<lambda>s. clamp_view k (tk m' s))"
  proof (cases "c' = c")
    case True
    with assms(3,7,9) show ?thesis by (simp add: cls)
  next
    case False
    have "clamp_inv (clampsys m) {s \<in> Q c'. uclamp_class k (cls_of m s)} (clamps (rqs m c')) (\<lambda>s. clamp_view k (tk m' s))"
    proof (rule clamp_inv_cong)
      show "clamp_inv (clampsys m) {s \<in> Q c'. uclamp_class k (cls_of m s)} (clamps (rqs m c')) (\<lambda>s. clamp_view k (tk m s))"
        using assms(1) c' by (simp add: queue_inv_def)
      show "uclamp (clamp_view k (tk m' s)) = uclamp (clamp_view k (tk m s))
          \<and> uclamp_enabled (clamp_view k (tk m' s)) = uclamp_enabled (clamp_view k (tk m s))"
        if "s \<in> {s \<in> Q c'. uclamp_class k (cls_of m s)}" for s
        using that assms(5) assms(8) [OF c' False] by (cases "s = t") auto
    qed
    with False assms(1,3,4) c' show ?thesis by (simp add: queue_inv_def cls)
  qed
qed

text \<open>The clamps of a task that is queued or dequeued, whether its class has clamps or not.\<close>

lemma inc_view:
  assumes sys: "ok_system (clampsys m)" and q: "queue_inv k queued n Q m" and c: "c < n"
    and t: "t \<notin> Q c" and ok: "ok_request (clampsys m) (tk m t)"
  shows "\<exists>cr ct. uclamp_rq_inc (clampsys m) (clamps (rqs m c)) (clamp_view k (tk m t)) = Inr (cr, ct)
    \<and> clamp_inv (clampsys m) {s \<in> insert t (Q c). uclamp_class k (cls_of m s)} cr ((\<lambda>s. clamp_view k (tk m s))(t := ct))
    \<and> same_request ct (clamp (tk m t)) \<and> uclamp_enabled ct = uclamp_class k (cls_of m t)"
proof (cases "uclamp_class k (cls_of m t)")
  case True
  let ?A = "{s \<in> Q c. uclamp_class k (cls_of m s)}"
  have "ok_task (UCLAMP_BUCKETS (clampsys m)) (clamp_view k (tk m t))"
    using ok True by (simp add: ok_request_def ok_task_def clamp_view_def)
  then obtain cr where cr: "uclamp_rq_inc (clampsys m) (clamps (rqs m c)) (clamp_view k (tk m t)) = Inr (cr, clamp_on (clampsys m) (clamp_view k (tk m t)))"
      "clamp_inv (clampsys m) (insert t ?A) cr ((\<lambda>s. clamp_view k (tk m s))(t := clamp_on (clampsys m) (clamp_view k (tk m t))))"
    using inc_inv [OF sys, of ?A "clamps (rqs m c)" "\<lambda>s. clamp_view k (tk m s)" t] t c q by (auto simp: queue_inv_def)
  have e: "insert t ?A = {s \<in> insert t (Q c). uclamp_class k (cls_of m s)}" using True by auto
  have s: "same_request (clamp_on (clampsys m) (clamp_view k (tk m t))) (clamp (tk m t))"
    "uclamp_enabled (clamp_on (clampsys m) (clamp_view k (tk m t))) = uclamp_class k (cls_of m t)"
    by (simp_all add: same_request_def clamp_on_def clamp_view_def)
  show ?thesis by (intro exI conjI) (rule cr(1), rule cr(2) [unfolded e], rule s(1), rule s(2))
next
  case False
  then have e: "{s \<in> insert t (Q c). uclamp_class k (cls_of m s)} = {s \<in> Q c. uclamp_class k (cls_of m s)}" by auto
  have "uclamp_rq_inc (clampsys m) (clamps (rqs m c)) (clamp_view k (tk m t)) = Inr (clamps (rqs m c), clamp_view k (tk m t))"
    using False by (simp add: uclamp_rq_inc_def clamp_view_def)
  moreover have "clamp_inv (clampsys m) {s \<in> Q c. uclamp_class k (cls_of m s)} (clamps (rqs m c))
      ((\<lambda>s. clamp_view k (tk m s))(t := clamp_view k (tk m t)))"
    using q c by (simp add: queue_inv_def fun_upd_idem)
  ultimately show ?thesis unfolding e
    by (intro exI [of _ "clamps (rqs m c)"] exI [of _ "clamp_view k (tk m t)"]) (simp add: clamp_view_def same_request_def)
qed

lemma dec_view:
  assumes sys: "ok_system (clampsys m)" and q: "queue_inv k queued n Q m" and c: "c < n" and t: "t \<in> Q c"
  shows "\<exists>cr ct. uclamp_rq_dec (clampsys m) (clamps (rqs m c)) (clamp_view k (tk m t)) = Inr (cr, ct)
    \<and> clamp_inv (clampsys m) {s \<in> Q c - {t}. uclamp_class k (cls_of m s)} cr ((\<lambda>s. clamp_view k (tk m s))(t := ct))
    \<and> same_request ct (clamp (tk m t)) \<and> uclamp_enabled ct = uclamp_class k (cls_of m t)"
proof (cases "uclamp_class k (cls_of m t)")
  case True
  let ?A = "{s \<in> Q c. uclamp_class k (cls_of m s)}"
  obtain cr where cr: "uclamp_rq_dec (clampsys m) (clamps (rqs m c)) (clamp_view k (tk m t)) = Inr (cr, clamp_off (clamp_view k (tk m t)))"
      "clamp_inv (clampsys m) (?A - {t}) cr ((\<lambda>s. clamp_view k (tk m s))(t := clamp_off (clamp_view k (tk m t))))"
    using dec_inv [OF sys, of ?A "clamps (rqs m c)" "\<lambda>s. clamp_view k (tk m s)" t] t c q True by (auto simp: queue_inv_def)
  have e: "?A - {t} = {s \<in> Q c - {t}. uclamp_class k (cls_of m s)}" by auto
  have s: "same_request (clamp_off (clamp_view k (tk m t))) (clamp (tk m t))"
    "uclamp_enabled (clamp_off (clamp_view k (tk m t))) = uclamp_class k (cls_of m t)"
    by (simp_all add: same_request_def clamp_off_def clamp_view_def)
  show ?thesis by (intro exI conjI) (rule cr(1), rule cr(2) [unfolded e], rule s(1), rule s(2))
next
  case False
  then have e: "{s \<in> Q c - {t}. uclamp_class k (cls_of m s)} = {s \<in> Q c. uclamp_class k (cls_of m s)}" by auto
  have "uclamp_rq_dec (clampsys m) (clamps (rqs m c)) (clamp_view k (tk m t)) = Inr (clamps (rqs m c), clamp_view k (tk m t))"
    using False by (simp add: uclamp_rq_dec_def clamp_view_def)
  moreover have "clamp_inv (clampsys m) {s \<in> Q c. uclamp_class k (cls_of m s)} (clamps (rqs m c))
      ((\<lambda>s. clamp_view k (tk m s))(t := clamp_view k (tk m t)))"
    using q c by (simp add: queue_inv_def fun_upd_idem)
  ultimately show ?thesis unfolding e
    by (intro exI [of _ "clamps (rqs m c)"] exI [of _ "clamp_view k (tk m t)"]) (simp add: clamp_view_def same_request_def)
qed

lemma enqueue_inv:
  assumes con: "class_contract k queued" and sys: "ok_system (clampsys m)" and q: "queue_inv k queued n Q m" and c: "c < n"
    and t: "\<forall>c' < n. t \<notin> Q c'" and ok: "ok_request (clampsys m) (tk m t)"
  shows "\<exists>ct cr q. enqueue_task k c t flags m = Inr (enqueued k c t flags ct cr q m)
    \<and> queue_inv k queued n (Q(c := insert t (Q c))) (enqueued k c t flags ct cr q m) \<and> same_request ct (clamp (tk m t))"
proof -
  obtain cr ct where u: "uclamp_rq_inc (clampsys m) (clamps (rqs m c)) (clamp_view k (tk m t)) = Inr (cr, ct)"
    and i: "clamp_inv (clampsys m) {s \<in> insert t (Q c). uclamp_class k (cls_of m s)} cr ((\<lambda>s. clamp_view k (tk m s))(t := ct))"
    and r: "same_request ct (clamp (tk m t))" and e: "uclamp_enabled ct = uclamp_class k (cls_of m t)"
    using inc_view [OF sys q c _ ok] t c by blast
  obtain p where eq: "enqueue_task k c t flags m = Inr (enqueued k c t flags ct cr (cl_enqueue k (cls_of m t) (classq (rqs m c)) t p flags) m)"
    using enqueue_task_eq [OF u] by blast
  let ?m = "enqueued k c t flags ct cr (cl_enqueue k (cls_of m t) (classq (rqs m c)) t p flags) m"
  have cr: "clamps (rqs ?m c) = cr" by (simp add: machine_defs)
  have "queue_inv k queued n (Q(c := insert t (Q c))) ?m"
  proof (rule queue_inv_change [OF q c, where t = t])
    show "queued (classq (rqs ?m c)) = insert t (Q c)" using con q c by (simp add: machine_defs class_contract_def queue_inv_def)
    show "clamp_inv (clampsys m) {s \<in> insert t (Q c). uclamp_class k (cls_of m s)} (clamps (rqs ?m c)) (\<lambda>s. clamp_view k (tk ?m s))"
      unfolding cr by (rule clamp_inv_cong [OF i]) (auto simp: machine_defs clamp_view_def e)
  qed (use t in \<open>auto simp: machine_defs\<close>)
  with eq r show ?thesis by blast
qed

lemma dequeue_inv:
  assumes con: "class_contract k queued" and sys: "ok_system (clampsys m)" and q: "queue_inv k queued n Q m" and c: "c < n"
    and t: "t \<in> Q c" "\<forall>c' < n. c' \<noteq> c \<longrightarrow> t \<notin> Q c'"
  shows "\<exists>ct cr q. dequeue_task k c t flags m = Inr (dequeued k c t flags ct cr q m)
    \<and> queue_inv k queued n (Q(c := Q c - {t})) (dequeued k c t flags ct cr q m) \<and> same_request ct (clamp (tk m t))"
proof -
  obtain cr ct where u: "uclamp_rq_dec (clampsys m) (clamps (rqs m c)) (clamp_view k (tk m t)) = Inr (cr, ct)"
    and i: "clamp_inv (clampsys m) {s \<in> Q c - {t}. uclamp_class k (cls_of m s)} cr ((\<lambda>s. clamp_view k (tk m s))(t := ct))"
    and r: "same_request ct (clamp (tk m t))" and e: "uclamp_enabled ct = uclamp_class k (cls_of m t)"
    using dec_view [OF sys q c t(1)] by blast
  obtain p where eq: "dequeue_task k c t flags m = Inr (dequeued k c t flags ct cr (cl_dequeue k (cls_of m t) (classq (rqs m c)) t p flags) m)"
    using dequeue_task_eq [OF u] by blast
  let ?m = "dequeued k c t flags ct cr (cl_dequeue k (cls_of m t) (classq (rqs m c)) t p flags) m"
  have cr: "clamps (rqs ?m c) = cr" by (simp add: machine_defs)
  have "queue_inv k queued n (Q(c := Q c - {t})) ?m"
  proof (rule queue_inv_change [OF q c, where t = t])
    show "queued (classq (rqs ?m c)) = Q c - {t}" using con q c by (simp add: machine_defs class_contract_def queue_inv_def)
    show "clamp_inv (clampsys m) {s \<in> Q c - {t}. uclamp_class k (cls_of m s)} (clamps (rqs ?m c)) (\<lambda>s. clamp_view k (tk ?m s))"
      unfolding cr by (rule clamp_inv_cong [OF i]) (auto simp: machine_defs clamp_view_def e)
  qed (use t in \<open>auto simp: machine_defs\<close>)
  with eq r show ?thesis by blast
qed


section \<open>The machine\<close>

lemma state_consts [simp]:
  "TASK_WAKING \<noteq> TASK_NEW" "TASK_NEW \<noteq> TASK_WAKING" "TASK_RUNNING \<noteq> TASK_NEW" "TASK_RUNNING \<noteq> TASK_WAKING"
  "TASK_DEAD \<noteq> TASK_NEW" "TASK_DEAD \<noteq> TASK_WAKING" "TASK_DEAD \<noteq> TASK_RUNNING" "TASK_DEAD \<noteq> 0"
  by (simp_all add: TASK_WAKING_def TASK_NEW_def TASK_RUNNING_def TASK_DEAD_def)

definition idles :: "nat \<Rightarrow> 'q machine \<Rightarrow> nat set" where
  "idles n m = (\<lambda>c. rq_idle (rqs m c)) ` {..<n}"

definition currs :: "nat \<Rightarrow> 'q machine \<Rightarrow> nat set" where
  "currs n m = (\<lambda>c. rq_curr (rqs m c)) ` {..<n}"

definition queue_of :: "nat \<Rightarrow> 'q machine \<Rightarrow> nat \<Rightarrow> nat set" where
  "queue_of n m c = {t. t \<notin> idles n m \<and> on_rq (tk m t) = OnRqQueued \<and> task_cpu (tk m t) = c}"

definition waking :: "'q machine \<Rightarrow> nat \<Rightarrow> bool" where
  "waking m t \<longleftrightarrow> on_rq (tk m t) = NotQueued \<and> state (sched (tk m t)) = TASK_WAKING"

text \<open>The idle tasks, the current tasks, and the tasks on the wake lists (but for those in \<open>W\<close>, which are being woken up).\<close>

definition shape :: "nat \<Rightarrow> nat set \<Rightarrow> 'q machine \<Rightarrow> bool" where
  "shape n W m \<longleftrightarrow> inj_on (\<lambda>c. rq_idle (rqs m c)) {..<n}
     \<and> (\<forall>c < n. on_rq (tk m (rq_idle (rqs m c))) = OnRqQueued \<and> state (sched (tk m (rq_idle (rqs m c)))) = TASK_RUNNING)
     \<and> (\<forall>t. on_rq (tk m t) \<noteq> OnRqMigrating \<and> task_cpu (tk m t) < n)
     \<and> (\<forall>t. on_rq (tk m t) = OnRqQueued \<longrightarrow> state (sched (tk m t)) \<notin> {TASK_NEW, TASK_WAKING})
     \<and> (\<forall>c < n. rq_curr (rqs m c) = rq_idle (rqs m c) \<or> rq_curr (rqs m c) \<in> queue_of n m c)
     \<and> (\<forall>c < n. distinct (wake_list (rqs m c)) \<and> set (wake_list (rqs m c)) = {t. waking m t \<and> task_cpu (tk m t) = c} - W)"

definition phase :: "nat \<Rightarrow> 'q machine \<Rightarrow> nat \<Rightarrow> phase" where
  "phase n m t =
     (if on_rq (tk m t) = OnRqQueued then (if t \<in> currs n m then OnCpu else Queued)
      else if state (sched (tk m t)) = TASK_NEW then Born
      else if state (sched (tk m t)) = TASK_WAKING then Waking else Asleep)"

definition life_inv :: "'q kernel \<Rightarrow> nat \<Rightarrow> 'q machine \<Rightarrow> bool" where
  "life_inv k n m \<longleftrightarrow> (\<forall>t. t \<notin> idles n m \<longrightarrow> life (psik k) (phase n m t) (psi (tk m t)))"

text \<open>
  The sleeping tasks that count as load, and those that wait for I/O; a task that moves to another CPU has
  left the count of its old one (\<open>away\<close>).
\<close>

definition asleep :: "'q machine \<Rightarrow> nat \<Rightarrow> bool" where
  "asleep m t \<longleftrightarrow> on_rq (tk m t) = NotQueued \<and> state (sched (tk m t)) \<noteq> TASK_NEW"

definition loading :: "'q machine \<Rightarrow> nat set" where
  "loading m = {t. asleep m t \<and> sched_contributes_to_load (tk m t)}"

definition waiting :: "(nat \<Rightarrow> bool) \<Rightarrow> 'q machine \<Rightarrow> nat \<Rightarrow> nat set" where
  "waiting away m c = {t. asleep m t \<and> task_cpu (tk m t) = c \<and> in_iowait (psi (tk m t))
     \<and> \<not> (state (sched (tk m t)) = TASK_WAKING \<and> away t)}"

definition load_inv :: "nat \<Rightarrow> 'q machine \<Rightarrow> bool" where
  "load_inv n m \<longleftrightarrow> finite (loading m) \<and> (\<Sum>c < n. nr_uninterruptible (rqs m c)) = of_nat (card (loading m))"

definition io_inv :: "(nat \<Rightarrow> bool) \<Rightarrow> nat \<Rightarrow> 'q machine \<Rightarrow> bool" where
  "io_inv away n m \<longleftrightarrow> (\<forall>c < n. finite (waiting away m c) \<and> nr_iowait (rqs m c) = int (card (waiting away m c)))"

text \<open>The references to the address spaces: one for every CPU that runs a kernel thread in a borrowed one.\<close>

definition borrowers :: "nat \<Rightarrow> 'q machine \<Rightarrow> nat \<Rightarrow> nat set" where
  "borrowers n m i = {c. c < n \<and> mm (tk m (rq_curr (rqs m c))) = None \<and> active_mm (tk m (rq_curr (rqs m c))) = Some i}"

definition mm_inv :: "(nat \<Rightarrow> int) \<Rightarrow> nat \<Rightarrow> 'q machine \<Rightarrow> bool" where
  "mm_inv owned n m \<longleftrightarrow>
     (\<forall>c < n. active_mm (tk m (rq_curr (rqs m c))) \<noteq> None \<and> prev_mm (rqs m c) = None)
     \<and> (\<forall>t. mm (tk m t) \<noteq> None \<longrightarrow> active_mm (tk m t) = mm (tk m t))
     \<and> (\<forall>i. mm_count m i = owned i + int (card (borrowers n m i)))"

definition machine_inv ::
  "'q kernel \<Rightarrow> ('q \<Rightarrow> nat set) \<Rightarrow> (nat \<Rightarrow> int) \<Rightarrow> nat \<Rightarrow> nat set \<Rightarrow> (nat \<Rightarrow> bool) \<Rightarrow> 'q machine \<Rightarrow> bool" where
  "machine_inv k queued owned n W away m \<longleftrightarrow>
     shape n W m \<and> queue_inv k queued n (queue_of n m) m \<and> ok_system (clampsys m) \<and> (\<forall>t. ok_request (clampsys m) (tk m t))
     \<and> life_inv k n m \<and> load_inv n m \<and> io_inv away n m \<and> mm_inv owned n m"

section \<open>Changes that do not matter\<close>

definition tcore where
  "tcore p = (state (sched p), cls (sched p), psi p, clamp p, on_rq p, task_cpu p, sched_contributes_to_load p, sched_remote_wakeup p,
     mm p, active_mm p)"

definition rcore where
  "rcore queued r = (rq_curr r, rq_idle r, clamps r, nr_uninterruptible r, nr_iowait r, prev_mm r, wake_list r, queued (classq r))"

definition quiet :: "('q \<Rightarrow> nat set) \<Rightarrow> 'q machine \<Rightarrow> 'q machine \<Rightarrow> bool" where
  "quiet queued m m' \<longleftrightarrow> clampsys m' = clampsys m \<and> mm_count m' = mm_count m
     \<and> (\<forall>t. tcore (tk m' t) = tcore (tk m t)) \<and> (\<forall>c. rcore queued (rqs m' c) = rcore queued (rqs m c))"

lemma quiet_refl [simp]: "quiet queued m m"
  by (simp add: quiet_def)

lemma quiet_trans [trans]: "quiet queued m m1 \<Longrightarrow> quiet queued m1 m2 \<Longrightarrow> quiet queued m m2"
  by (simp add: quiet_def)

lemma quiet_inv:
  assumes "quiet queued m m'" and "machine_inv k queued owned n W away m"
  shows "machine_inv k queued owned n W away m'"
proof -
  have eqs: "clampsys m' = clampsys m" "mm_count m' = mm_count m" "\<And>t. state (sched (tk m' t)) = state (sched (tk m t))"
    "\<And>t. cls_of m' t = cls_of m t" "\<And>t. psi (tk m' t) = psi (tk m t)" "\<And>t. clamp (tk m' t) = clamp (tk m t)"
    "\<And>t. on_rq (tk m' t) = on_rq (tk m t)" "\<And>t. task_cpu (tk m' t) = task_cpu (tk m t)"
    "\<And>t. sched_contributes_to_load (tk m' t) = sched_contributes_to_load (tk m t)"
    "\<And>t. mm (tk m' t) = mm (tk m t)" "\<And>t. active_mm (tk m' t) = active_mm (tk m t)"
    "\<And>c. rq_curr (rqs m' c) = rq_curr (rqs m c)" "\<And>c. rq_idle (rqs m' c) = rq_idle (rqs m c)"
    "\<And>c. clamps (rqs m' c) = clamps (rqs m c)" "\<And>c. nr_uninterruptible (rqs m' c) = nr_uninterruptible (rqs m c)"
    "\<And>c. nr_iowait (rqs m' c) = nr_iowait (rqs m c)" "\<And>c. prev_mm (rqs m' c) = prev_mm (rqs m c)"
    "\<And>c. wake_list (rqs m' c) = wake_list (rqs m c)" "\<And>c. queued (classq (rqs m' c)) = queued (classq (rqs m c))"
    using assms(1) by (auto simp: quiet_def tcore_def rcore_def)
  have ic: "idles n m' = idles n m" "currs n m' = currs n m" by (simp_all add: idles_def currs_def eqs)
  then have q: "queue_of n m' = queue_of n m" "phase n m' = phase n m" by (simp_all add: queue_of_def phase_def eqs fun_eq_iff)
  have "queue_inv k queued n (queue_of n m) m'"
    by (rule queue_inv_cong [of _ _ _ _ m]) (use assms(2) in \<open>auto simp: eqs machine_inv_def\<close>)
  moreover have "life_inv k n m'" using assms(2) by (simp add: machine_inv_def life_inv_def q ic eqs)
  moreover have "load_inv n m'" using assms(2) by (simp add: machine_inv_def load_inv_def loading_def asleep_def eqs)
  moreover have "io_inv away n m'" using assms(2) by (simp add: machine_inv_def io_inv_def waiting_def asleep_def eqs)
  moreover have "mm_inv owned n m'" using assms(2) by (simp add: machine_inv_def mm_inv_def borrowers_def eqs)
  moreover have "shape n W m'" using assms(2) unfolding shape_def q by (simp add: machine_inv_def shape_def waking_def eqs)
  ultimately show ?thesis using assms(2) by (simp add: machine_inv_def q eqs ok_request_def)
qed

lemma quiet_clock: "quiet queued m (update_rq_clock k c m)"
  by (simp add: update_rq_clock_eq quiet_def tcore_def rcore_def)

lemma quiet_resched: "quiet queued m (resched_curr c m)"
  by (simp add: resched_curr_def quiet_def tcore_def rcore_def upd_tk_def)

lemma quiet_flags: "quiet queued m (upd_rq c (\<lambda>r. r\<lparr>clock_update_flags := f r\<rparr>) m)"
  by (simp add: quiet_def tcore_def rcore_def upd_rq_def)

lemma quiet_preempt: "quiet queued m (check_preempt_curr k c t flags m)"
proof -
  have "quiet queued m (upd_rq c (\<lambda>r. r\<lparr>clock_update_flags := f r\<rparr>) (resched_curr c m))" for f
    by (rule quiet_trans [OF quiet_resched quiet_flags])
  then show ?thesis by (auto simp: check_preempt_curr_def Let_def intro: quiet_resched quiet_flags)
qed

lemma quiet_woken: "class_contract k queued \<Longrightarrow> quiet queued m (task_woken k c t m)"
  by (simp add: task_woken_def upd_rq_def quiet_def tcore_def rcore_def class_contract_def)

lemma quiet_idle_average: "quiet queued m (idle_average k c m)"
  by (simp add: idle_average_def upd_rq_def quiet_def tcore_def rcore_def Let_def)

lemma quiet_classq: "queued q = queued (classq (rqs m c)) \<Longrightarrow> quiet queued m (upd_rq c (\<lambda>r. r\<lparr>classq := q\<rparr>) m)"
  by (simp add: quiet_def tcore_def rcore_def upd_rq_def)

lemma quiet_tick:
  assumes "class_contract k queued"
  shows "quiet queued m (snd (scheduler_tick k c m))"
proof -
  let ?m = "update_rq_clock k c m"
  obtain q b where q: "cl_tick k (cls_of ?m (rq_curr (rqs ?m c))) (classq (rqs ?m c)) (rq_curr (rqs ?m c)) = (q, b)"
    by fastforce
  have "queued (fst (cl_tick k x q t)) = queued q" for x q t using assms by (simp add: class_contract_def)
  then have "queued q = queued (classq (rqs ?m c))" using q by (metis fst_conv)
  then have a: "quiet queued m (upd_rq c (\<lambda>r. r\<lparr>classq := q\<rparr>) ?m)"
    by (rule quiet_trans [OF quiet_clock quiet_classq])
  have "quiet queued m (resched_curr c (upd_rq c (\<lambda>r. r\<lparr>classq := q\<rparr>) ?m))" by (rule quiet_trans [OF a quiet_resched])
  with a show ?thesis by (simp add: scheduler_tick_def Let_def q)
qed

end
