(* ===== verification/Sched_Core_Wake.thy ===== *)
theory Sched_Core_Wake
  imports Sched_Core_Inv
begin

unbundle bit_operations_syntax

text \<open>
  Waking up keeps the invariant of the machine: \<open>ttwu_do_activate\<close>, the wake lists, \<open>try_to_wake_up\<close>, new
  tasks and migration.
\<close>

section \<open>A task becomes runnable\<close>

lemma quiet_set_state: "quiet queued m m' \<Longrightarrow> quiet queued (set_state t s m) (set_state t s m')"
  by (simp add: quiet_def tcore_def set_state_def upd_tk_def)

text \<open>
  Task \<open>t\<close> joins the run queue of CPU \<open>c\<close> with its new pressure stall data \<open>ps\<close> and clamps; the counters of the
  run queue go down if they counted it.
\<close>

definition joined :: "nat \<Rightarrow> nat \<Rightarrow> task_struct \<Rightarrow> psi_task \<Rightarrow> clamp_task \<Rightarrow> 'q rqueue \<Rightarrow> 'q machine \<Rightarrow> 'q machine" where
  "joined c t s ps ct r m =
     m\<lparr>tk := (tk m)(t := (tk m t)\<lparr>sched := s, psi := ps, clamp := ct, on_rq := OnRqQueued\<rparr>), rqs := (rqs m)(c := r)\<rparr>"

lemma not_current:
  assumes "shape n W m" and "on_rq (tk m t) \<noteq> OnRqQueued"
  shows "t \<notin> currs n m" "t \<notin> idles n m"
  using assms by (auto simp: shape_def currs_def idles_def queue_of_def)

lemma sum_upd: "c < n \<Longrightarrow> (\<Sum>i < n. ((f :: nat \<Rightarrow> 'a :: ab_group_add)(c := v)) i) = (\<Sum>i < n. f i) - f c + v"
  by (simp add: sum.remove [of "{..<n}" c])

lemma card_without: "finite A \<Longrightarrow> (of_nat (card (A - {t})) :: 'a :: ring_1) = of_nat (card A) - (if t \<in> A then 1 else 0)"
  using card_Suc_Diff1 [of A t] by (auto simp flip: of_nat_Suc simp: algebra_simps)

lemma queue_of_joined:
  assumes "shape n W m" and "on_rq (tk m t) \<noteq> OnRqQueued" and "task_cpu (tk m t) = c" and "rq_idle r = rq_idle (rqs m c)"
  shows "queue_of n (joined c t s ps ct r m) = (queue_of n m)(c := insert t (queue_of n m c))"
proof -
  have "idles n (joined c t s ps ct r m) = idles n m" using assms(4) by (auto simp: idles_def joined_def intro!: image_cong)
  then show ?thesis using not_current(2) [OF assms(1,2)] assms(3) by (auto simp: queue_of_def joined_def fun_eq_iff)
qed


definition joins :: "nat \<Rightarrow> nat set \<Rightarrow> nat \<Rightarrow> nat \<Rightarrow> task_struct \<Rightarrow> 'q rqueue \<Rightarrow> 'q machine \<Rightarrow> bool" where
  "joins n W c t s r m \<longleftrightarrow> shape n W m \<and> on_rq (tk m t) = NotQueued \<and> task_cpu (tk m t) = c \<and> c < n
     \<and> (waking m t \<longrightarrow> t \<in> W) \<and> rq_curr r = rq_curr (rqs m c) \<and> rq_idle r = rq_idle (rqs m c)
     \<and> wake_list r = wake_list (rqs m c) \<and> prev_mm r = prev_mm (rqs m c) \<and> state s = TASK_RUNNING"

lemma joins_sets:
  assumes "joins n W c t s r m"
  shows "idles n (joined c t s ps ct r m) = idles n m" "currs n (joined c t s ps ct r m) = currs n m"
    "queue_of n (joined c t s ps ct r m) = (queue_of n m)(c := insert t (queue_of n m c))" "t \<notin> currs n m" "t \<notin> idles n m"
    "\<forall>c'. t \<notin> queue_of n m c'"
    "loading (joined c t s ps ct r m) = loading m - {t}" "waiting away (joined c t s ps ct r m) c' = waiting away m c' - {t}"
proof -
  have n: "on_rq (tk m t) \<noteq> OnRqQueued" "shape n W m" using assms by (auto simp: joins_def)
  show 1: "idles n (joined c t s ps ct r m) = idles n m" "currs n (joined c t s ps ct r m) = currs n m"
    using assms by (auto simp: idles_def currs_def joined_def joins_def intro!: image_cong)
  show "t \<notin> currs n m" "t \<notin> idles n m" by (rule not_current [OF n(2,1)])+
  show "queue_of n (joined c t s ps ct r m) = (queue_of n m)(c := insert t (queue_of n m c))"
    by (rule queue_of_joined [OF n(2,1)]) (use assms in \<open>simp_all add: joins_def\<close>)
  show "\<forall>c'. t \<notin> queue_of n m c'" using n(1) by (simp add: queue_of_def)
  show "loading (joined c t s ps ct r m) = loading m - {t}" "waiting away (joined c t s ps ct r m) c' = waiting away m c' - {t}"
    by (auto simp: loading_def waiting_def asleep_def joined_def)
qed

lemma shape_joined:
  assumes "joins n W c t s r m"
  shows "shape n (W - {t}) (joined c t s ps ct r m)"
proof -
  note S = joins_sets [OF assms]
  let ?J = "joined c t s ps ct r m"
  have sh: "shape n W m" and j: "rq_curr r = rq_curr (rqs m c)" "rq_idle r = rq_idle (rqs m c)" "wake_list r = wake_list (rqs m c)"
    using assms by (auto simp: joins_def)
  have idle: "rq_idle (rqs ?J c') = rq_idle (rqs m c')" "rq_curr (rqs ?J c') = rq_curr (rqs m c')"
      "wake_list (rqs ?J c') = wake_list (rqs m c')" for c'
    using j by (auto simp: joined_def)
  have w: "{x. waking ?J x \<and> task_cpu (tk ?J x) = c'} - (W - {t}) = {x. waking m x \<and> task_cpu (tk m x) = c'} - W" for c'
    using assms by (auto simp: waking_def joined_def joins_def)
  have "rq_idle (rqs m c') \<noteq> t" if "c' < n" for c' using S(5) that by (auto simp: idles_def)
  then have i: "on_rq (tk ?J (rq_idle (rqs m c'))) = OnRqQueued \<and> state (sched (tk ?J (rq_idle (rqs m c')))) = TASK_RUNNING"
    if "c' < n" for c' using sh that by (simp add: shape_def joined_def)
  have o: "on_rq (tk ?J x) \<noteq> OnRqMigrating \<and> task_cpu (tk ?J x) < n"
      "on_rq (tk ?J x) = OnRqQueued \<longrightarrow> state (sched (tk ?J x)) \<notin> {TASK_NEW, TASK_WAKING}" for x
    using assms sh by (auto simp: shape_def joined_def joins_def)
  show ?thesis unfolding shape_def idle w using sh S(3) i o by (auto simp: shape_def)
qed

lemma life_joined:
  assumes j: "joins n W c t s r m" and "life_inv k n m" and "life (psik k) Queued ps"
  shows "life_inv k n (joined c t s ps ct r m)"
  unfolding life_inv_def
proof (intro allI impI)
  let ?J = "joined c t s ps ct r m"
  fix x assume x: "x \<notin> idles n ?J"
  show "life (psik k) (phase n ?J x) (psi (tk ?J x))"
  proof (cases "x = t")
    case True
    then show ?thesis using assms(3) joins_sets(4) [OF j] by (simp add: phase_def joins_sets(2) [OF j]) (simp add: joined_def)
  next
    case False
    then have "phase n ?J x = phase n m x" "psi (tk ?J x) = psi (tk m x)"
      by (simp_all add: phase_def joins_sets(2) [OF j]) (simp_all add: joined_def)
    then show ?thesis using assms(2) x by (simp add: life_inv_def joins_sets(1) [OF j])
  qed
qed

lemma load_joined:
  assumes j: "joins n W c t s r m" and "load_inv n m"
    and r: "nr_uninterruptible r = nr_uninterruptible (rqs m c) - (if t \<in> loading m then 1 else 0)"
  shows "load_inv n (joined c t s ps ct r m)"
proof -
  let ?J = "joined c t s ps ct r m" and ?f = "\<lambda>c. nr_uninterruptible (rqs m c)"
  have c: "c < n" using j by (simp add: joins_def)
  have f: "finite (loading m)" and e: "sum ?f {..<n} = of_nat (card (loading m))" using assms(2) by (auto simp: load_inv_def)
  have "(\<Sum>i < n. nr_uninterruptible (rqs ?J i)) = (\<Sum>i < n. (?f(c := nr_uninterruptible r)) i)"
    by (rule sum.cong) (auto simp: joined_def)
  also have "\<dots> = of_nat (card (loading m)) - (if t \<in> loading m then 1 else 0)" unfolding sum_upd [OF c] e r by simp
  also have "\<dots> = of_nat (card (loading m - {t}))" by (simp only: card_without [OF f])
  finally show ?thesis using f by (simp add: load_inv_def joins_sets(7) [OF j])
qed

lemma io_joined:
  assumes j: "joins n W c t s r m" and io: "io_inv away n m"
    and r: "nr_iowait r = nr_iowait (rqs m c) - (if t \<in> waiting away m c then 1 else 0)"
  shows "io_inv away n (joined c t s ps ct r m)"
  unfolding io_inv_def
proof (intro allI impI)
  fix c' assume c': "c' < n"
  let ?J = "joined c t s ps ct r m"
  have f: "finite (waiting away m c')" and e: "nr_iowait (rqs m c') = int (card (waiting away m c'))"
    using io c' by (auto simp: io_inv_def)
  have t: "t \<in> waiting away m c' \<longleftrightarrow> c' = c \<and> t \<in> waiting away m c" using j by (auto simp: waiting_def joins_def)
  have "nr_iowait (rqs ?J c') = nr_iowait (rqs m c') - (if t \<in> waiting away m c' then 1 else 0)"
    using r t by (auto simp: joined_def)
  also have "\<dots> = int (card (waiting away m c' - {t}))" by (simp only: card_without [OF f] e)
  finally show "finite (waiting away ?J c') \<and> nr_iowait (rqs ?J c') = int (card (waiting away ?J c'))"
    using f by (simp add: joins_sets(8) [OF j])
qed

lemma mm_joined:
  assumes "joins n W c t s r m" and "mm_inv owned n m"
  shows "mm_inv owned n (joined c t s ps ct r m)"
proof -
  let ?J = "joined c t s ps ct r m"
  have "rq_curr (rqs ?J c') = rq_curr (rqs m c')" "prev_mm (rqs ?J c') = prev_mm (rqs m c')" for c'
    using assms(1) by (auto simp: joined_def joins_def)
  moreover have "mm (tk ?J x) = mm (tk m x)" "active_mm (tk ?J x) = active_mm (tk m x)" for x by (simp_all add: joined_def)
  moreover have "mm_count ?J = mm_count m" by (simp add: joined_def)
  ultimately show ?thesis using assms(2) by (simp add: mm_inv_def borrowers_def)
qed


lemma joined_inv:
  assumes inv: "machine_inv k queued owned n W away m" and j: "joins n W c t s r m"
    and q: "queue_inv k queued n ((queue_of n m)(c := insert t (queue_of n m c))) (joined c t s ps ct r m)"
    and req: "same_request ct (clamp (tk m t))" and ps: "life (psik k) Queued ps"
    and un: "nr_uninterruptible r = nr_uninterruptible (rqs m c) - (if t \<in> loading m then 1 else 0)"
    and io: "nr_iowait r = nr_iowait (rqs m c) - (if t \<in> waiting away m c then 1 else 0)"
  shows "machine_inv k queued owned n (W - {t}) away (joined c t s ps ct r m)"
proof -
  have "ok_request (clampsys m) (tk (joined c t s ps ct r m) x)" for x
    using inv req by (auto simp: machine_inv_def joined_def ok_request_def ok_task_def same_request_def)
  then show ?thesis
    using inv shape_joined [OF j] life_joined [OF j _ ps] load_joined [OF j _ un] io_joined [OF j _ io] mm_joined [OF j] q
    unfolding machine_inv_def joins_sets(3) [OF j] by (simp add: joined_def)
qed

section \<open>Activation\<close>

lemma wake_flags:
  assumes "flags_contract k"
  shows "(ENQUEUE_WAKEUP k OR ENQUEUE_NOCLOCK k) AND ENQUEUE_NOCLOCK k \<noteq> 0"
    "(ENQUEUE_WAKEUP k OR ENQUEUE_NOCLOCK k) AND ENQUEUE_RESTORE k = 0"
    "(ENQUEUE_WAKEUP k OR ENQUEUE_NOCLOCK k) AND ENQUEUE_WAKEUP k \<noteq> 0"
    "((ENQUEUE_WAKEUP k OR ENQUEUE_NOCLOCK k) OR ENQUEUE_MIGRATED k) AND ENQUEUE_NOCLOCK k \<noteq> 0"
    "((ENQUEUE_WAKEUP k OR ENQUEUE_NOCLOCK k) OR ENQUEUE_MIGRATED k) AND ENQUEUE_RESTORE k = 0"
    "((ENQUEUE_WAKEUP k OR ENQUEUE_NOCLOCK k) OR ENQUEUE_MIGRATED k) AND ENQUEUE_WAKEUP k \<noteq> 0"
    "ENQUEUE_NOCLOCK k AND ENQUEUE_NOCLOCK k \<noteq> 0" "ENQUEUE_NOCLOCK k AND ENQUEUE_RESTORE k = 0"
    "ENQUEUE_NOCLOCK k AND ENQUEUE_WAKEUP k = 0"
  using assms by (simp_all add: flags_contract_def)

text \<open>The counters before the activation do not matter to the queues.\<close>

lemma queue_inv_counters:
  assumes "queue_inv k queued n Q m"
  shows "queue_inv k queued n Q (m\<lparr>rqs := (rqs m)(c := (rqs m c)\<lparr>nr_uninterruptible := u, nr_iowait := i\<rparr>)\<rparr>)"
  by (rule queue_inv_cong [OF assms]) auto

lemma do_activate_inv:
  assumes con: "class_contract k queued" and fl: "flags_contract k"
    and inv: "machine_inv k queued owned n W away m" and t: "waking m t" "t \<in> W" "task_cpu (tk m t) = c" "c < n"
    and fg: "fg AND WF_MIGRATED k \<noteq> 0 \<longleftrightarrow> away t"
  shows "\<exists>m'. ttwu_do_activate k c t fg m = Inr m' \<and> machine_inv k queued owned n (W - {t}) away m'
    \<and> (\<forall>x. x \<noteq> t \<longrightarrow> tcore (tk m' x) = tcore (tk m x)) \<and> (\<forall>x. sched_remote_wakeup (tk m' x) = sched_remote_wakeup (tk m x))
    \<and> on_rq (tk m' t) = OnRqQueued"
proof -
  define m2 where "m2 = m\<lparr>rqs := (rqs m)(c := (rqs m c)\<lparr>
      nr_uninterruptible := nr_uninterruptible (rqs m c) - (if sched_contributes_to_load (tk m t) then 1 else 0),
      nr_iowait := nr_iowait (rqs m c) - (if \<not> away t \<and> in_iowait (psi (tk m t)) then 1 else 0)\<rparr>)\<rparr>"
  define f where "f = (if away t then (ENQUEUE_WAKEUP k OR ENQUEUE_NOCLOCK k) OR ENQUEUE_MIGRATED k
    else ENQUEUE_WAKEUP k OR ENQUEUE_NOCLOCK k)"
  have ff: "f AND ENQUEUE_NOCLOCK k \<noteq> 0" "f AND ENQUEUE_RESTORE k = 0" "f AND ENQUEUE_WAKEUP k \<noteq> 0"
    using wake_flags [OF fl] by (simp_all add: f_def)
  have q2: "queue_inv k queued n (queue_of n m) m2"
    unfolding m2_def by (rule queue_inv_counters) (use inv in \<open>simp add: machine_inv_def\<close>)
  have nq: "\<forall>c' < n. t \<notin> queue_of n m c'" using t(1) by (simp add: waking_def queue_of_def)
  obtain ct cr q where e: "enqueue_task k c t f m2 = Inr (enqueued k c t f ct cr q m2)"
      "queue_inv k queued n ((queue_of n m)(c := insert t (queue_of n m c))) (enqueued k c t f ct cr q m2)"
      "same_request ct (clamp (tk m t))"
    using enqueue_inv [OF con _ q2 t(4) nq, of f] inv by (auto simp: m2_def machine_inv_def)
  define m3 where "m3 = upd_tk t (\<lambda>p. p\<lparr>on_rq := OnRqQueued\<rparr>) (enqueued k c t f ct cr q m2)"
  define m' where "m' = ttwu_do_wakeup k c t fg m3"
  have run: "ttwu_do_activate k c t fg m = Inr m'"
    using fg t(3) e(1)
    by (simp add: ttwu_do_activate_def activate_task_def m'_def m3_def f_def m2_def upd_rq_def Let_def split: if_splits)
  let ?s = "(sched_info_queued (info_on k) (acct (rqs m c)) (sched (tk m t)))\<lparr>state := TASK_RUNNING\<rparr>"
  let ?ps = "psi_enqueue (psik k) (psi (tk m t)) True" and ?r = "(rqs m2 c)\<lparr>clamps := cr, classq := q\<rparr>"
  have J: "quiet queued (joined c t ?s ?ps ct ?r m) (set_state t TASK_RUNNING m3)"
    using ff by (simp add: m3_def m2_def set_state_def upd_tk_def enqueued_def enq_acct_def joined_def quiet_def tcore_def rcore_def)
  have quiet: "quiet queued (joined c t ?s ?ps ct ?r m) m'"
    unfolding m'_def ttwu_do_wakeup_def
    by (rule quiet_trans [OF J quiet_trans [OF quiet_trans [OF quiet_set_state [OF quiet_preempt] quiet_woken [OF con]] quiet_idle_average]])
  have "machine_inv k queued owned n (W - {t}) away (joined c t ?s ?ps ct ?r m)"
  proof (rule joined_inv [OF inv])
    show j: "joins n W c t ?s ?r m" using inv t by (simp add: joins_def machine_inv_def waking_def m2_def)
    show "queue_inv k queued n ((queue_of n m)(c := insert t (queue_of n m c))) (joined c t ?s ?ps ct ?r m)"
      by (rule queue_inv_cong [OF e(2)]) (use ff in \<open>auto simp: joined_def enqueued_def m2_def\<close>)
    show "life (psik k) Queued ?ps"
      using inv t(1) not_current [of n W m t] by (intro life.woken) (auto simp: machine_inv_def life_inv_def phase_def waking_def)
    have "t \<in> loading m \<longleftrightarrow> sched_contributes_to_load (tk m t)" "t \<in> waiting away m c \<longleftrightarrow> \<not> away t \<and> in_iowait (psi (tk m t))"
      using t by (auto simp: loading_def waiting_def asleep_def waking_def)
    then show "nr_uninterruptible ?r = nr_uninterruptible (rqs m c) - (if t \<in> loading m then 1 else 0)"
      "nr_iowait ?r = nr_iowait (rqs m c) - (if t \<in> waiting away m c then 1 else 0)" by (simp_all add: m2_def)
  qed (rule e(3))
  from quiet_inv [OF quiet this] have "machine_inv k queued owned n (W - {t}) away m'" .
  moreover have "\<forall>x. x \<noteq> t \<longrightarrow> tcore (tk m' x) = tcore (tk m x)" using quiet by (simp add: quiet_def joined_def)
  moreover have "\<forall>x. sched_remote_wakeup (tk m' x) = sched_remote_wakeup (tk m x)"
    using quiet by (auto simp: quiet_def tcore_def joined_def)
  moreover have "on_rq (tk m' t) = OnRqQueued" using quiet by (auto simp: quiet_def tcore_def joined_def)
  ultimately show ?thesis using run by blast
qed


section \<open>The wake lists\<close>

lemma away_cong:
  assumes "machine_inv k queued owned n W away m" and "\<And>t. waking m t \<Longrightarrow> away' t = away t"
  shows "machine_inv k queued owned n W away' m"
proof -
  have "waiting away' m c = waiting away m c" for c using assms(2) by (auto simp: waiting_def waking_def asleep_def)
  with assms(1) show ?thesis by (simp add: machine_inv_def io_inv_def)
qed

text \<open>Between two steps no task is being woken up, and the tasks themselves tell who has moved.\<close>

definition steady :: "'q kernel \<Rightarrow> ('q \<Rightarrow> nat set) \<Rightarrow> (nat \<Rightarrow> int) \<Rightarrow> nat \<Rightarrow> 'q machine \<Rightarrow> bool" where
  "steady k queued owned n m \<longleftrightarrow> machine_inv k queued owned n {} (\<lambda>t. sched_remote_wakeup (tk m t)) m"

lemma steady_quiet: "quiet queued m m' \<Longrightarrow> steady k queued owned n m \<Longrightarrow> steady k queued owned n m'"
  using quiet_inv [of queued m m' k owned n "{}" "\<lambda>t. sched_remote_wakeup (tk m t)"]
  by (auto simp: steady_def quiet_def tcore_def)

lemma activate_all_inv:
  assumes con: "class_contract k queued" and fl: "flags_contract k" and c: "c < n"
  shows "machine_inv k queued owned n W away m \<Longrightarrow> distinct ts \<Longrightarrow>
    \<forall>t \<in> set ts. waking m t \<and> t \<in> W \<and> task_cpu (tk m t) = c \<and> (away t \<longleftrightarrow> sched_remote_wakeup (tk m t)) \<Longrightarrow>
    \<exists>m'. activate_all k c ts m = Inr m' \<and> machine_inv k queued owned n (W - set ts) away m'
      \<and> (\<forall>x. sched_remote_wakeup (tk m' x) = sched_remote_wakeup (tk m x))"
proof (induction ts arbitrary: m W)
  case (Cons t ts)
  let ?f = "if sched_remote_wakeup (tk m t) then WF_MIGRATED k else 0"
  have t: "waking m t" "t \<in> W" "task_cpu (tk m t) = c" "away t \<longleftrightarrow> sched_remote_wakeup (tk m t)" using Cons.prems(3) by auto
  have "?f AND WF_MIGRATED k \<noteq> 0 \<longleftrightarrow> away t" using fl t(4) by (simp add: flags_contract_def)
  from do_activate_inv [OF con fl Cons.prems(1) t(1-3) c this]
  obtain m1 where m1: "ttwu_do_activate k c t ?f m = Inr m1" "machine_inv k queued owned n (W - {t}) away m1"
      "\<forall>x. x \<noteq> t \<longrightarrow> tcore (tk m1 x) = tcore (tk m x)" "\<forall>x. sched_remote_wakeup (tk m1 x) = sched_remote_wakeup (tk m x)"
    by blast
  have "\<forall>x \<in> set ts. waking m1 x \<and> x \<in> W - {t} \<and> task_cpu (tk m1 x) = c \<and> (away x \<longleftrightarrow> sched_remote_wakeup (tk m1 x))"
  proof
    fix x assume x: "x \<in> set ts"
    then have "tcore (tk m1 x) = tcore (tk m x)" "x \<noteq> t" using m1(3) Cons.prems(2) by auto
    then show "waking m1 x \<and> x \<in> W - {t} \<and> task_cpu (tk m1 x) = c \<and> (away x \<longleftrightarrow> sched_remote_wakeup (tk m1 x))"
      using Cons.prems(3) x by (simp add: tcore_def waking_def)
  qed
  from Cons.IH [OF m1(2) _ this] Cons.prems(2) obtain m' where m': "activate_all k c ts m1 = Inr m'"
      "machine_inv k queued owned n (W - {t} - set ts) away m'" "\<forall>x. sched_remote_wakeup (tk m' x) = sched_remote_wakeup (tk m1 x)" by auto
  have "W - {t} - set ts = W - set (t # ts)" by auto
  with m1 m' t(3) show ?case by (auto simp: Let_def)
qed simp

lemma ttwu_pending_inv:
  assumes con: "class_contract k queued" and fl: "flags_contract k" and c: "c < n" and inv: "steady k queued owned n m"
  shows "\<exists>m'. sched_ttwu_pending k c m = Inr m' \<and> steady k queued owned n m'"
proof (cases "wake_list (rqs m c) = []")
  case False
  let ?ts = "wake_list (rqs m c)" and ?away = "\<lambda>t. sched_remote_wakeup (tk m t)"
  let ?m = "upd_rq c (\<lambda>r. r\<lparr>ttwu_pending := False, wake_list := []\<rparr>) m"
  have sh: "shape n {} m" using inv by (simp add: steady_def machine_inv_def)
  then have ts: "distinct ?ts" "set ?ts = {t. waking m t \<and> task_cpu (tk m t) = c}" using c by (simp_all add: shape_def)
  have e: "rq_idle (rqs ?m x) = rq_idle (rqs m x)" "rq_curr (rqs ?m x) = rq_curr (rqs m x)" "prev_mm (rqs ?m x) = prev_mm (rqs m x)"
      "nr_uninterruptible (rqs ?m x) = nr_uninterruptible (rqs m x)" "nr_iowait (rqs ?m x) = nr_iowait (rqs m x)"
      "wake_list (rqs ?m x) = (if x = c then [] else wake_list (rqs m x))" "tk ?m = tk m" "mm_count ?m = mm_count m"
      "clampsys ?m = clampsys m" for x
    by (simp_all add: upd_rq_def)
  have q: "idles n ?m = idles n m" "currs n ?m = currs n m" "waking ?m = waking m" "asleep ?m = asleep m"
    by (simp_all add: idles_def currs_def waking_def asleep_def e fun_eq_iff)
  then have q2: "queue_of n ?m = queue_of n m" "phase n ?m = phase n m" by (simp_all add: queue_of_def phase_def e fun_eq_iff)
  have "\<forall>x < n. distinct (wake_list (rqs ?m x)) \<and> set (wake_list (rqs ?m x)) = {t. waking m t \<and> task_cpu (tk m t) = x} - set ?ts"
    using sh by (auto simp: shape_def e(6) ts(2))
  then have "shape n (set ?ts) ?m" using sh unfolding shape_def by (simp add: e(1-5,7-) q q2)
  moreover have "queue_inv k queued n (queue_of n m) ?m"
    by (rule queue_inv_cong [of _ _ _ _ m]) (use inv in \<open>auto simp: steady_def machine_inv_def upd_rq_def\<close>)
  moreover have "life_inv k n ?m" "load_inv n ?m" "io_inv ?away n ?m" "mm_inv owned n ?m"
    using inv by (simp_all add: steady_def machine_inv_def life_inv_def load_inv_def loading_def
      io_inv_def waiting_def mm_inv_def borrowers_def e q q2)
  ultimately have "machine_inv k queued owned n (set ?ts) ?away ?m"
    using inv by (simp add: steady_def machine_inv_def q2 e)
  then have 1: "machine_inv k queued owned n (set ?ts) ?away (update_rq_clock k c ?m)" by (rule quiet_inv [OF quiet_clock])
  have tk: "tk (update_rq_clock k c ?m) = tk m" by (simp add: update_rq_clock_eq upd_rq_def)
  have "\<forall>t \<in> set ?ts. waking (update_rq_clock k c ?m) t \<and> t \<in> set ?ts \<and> task_cpu (tk (update_rq_clock k c ?m) t) = c
      \<and> (?away t \<longleftrightarrow> sched_remote_wakeup (tk (update_rq_clock k c ?m) t))"
    unfolding waking_def tk using ts(2) by (auto simp: waking_def)
  from activate_all_inv [OF con fl c 1 ts(1) this] obtain m' where
    m': "activate_all k c ?ts (update_rq_clock k c ?m) = Inr m'" "machine_inv k queued owned n {} ?away m'"
      "\<forall>x. sched_remote_wakeup (tk m' x) = sched_remote_wakeup (tk m x)" unfolding tk by auto
  with False show ?thesis by (simp add: sched_ttwu_pending_def Let_def steady_def)
qed (use inv in \<open>simp add: sched_ttwu_pending_def\<close>)


section \<open>Waking up\<close>

text \<open>The state of a queued task matters to nobody.\<close>

lemma set_state_inv:
  assumes inv: "machine_inv k queued owned n W away m" and t: "on_rq (tk m t) = OnRqQueued" "t \<in> idles n m \<longrightarrow> s = TASK_RUNNING"
    and s: "s \<notin> {TASK_NEW, TASK_WAKING}"
  shows "machine_inv k queued owned n W away (set_state t s m)"
proof -
  let ?m = "set_state t s m"
  have e: "rqs ?m = rqs m" "mm_count ?m = mm_count m" "clampsys ?m = clampsys m" "on_rq (tk ?m x) = on_rq (tk m x)"
      "task_cpu (tk ?m x) = task_cpu (tk m x)" "psi (tk ?m x) = psi (tk m x)" "clamp (tk ?m x) = clamp (tk m x)"
      "sched_contributes_to_load (tk ?m x) = sched_contributes_to_load (tk m x)" "mm (tk ?m x) = mm (tk m x)"
      "active_mm (tk ?m x) = active_mm (tk m x)" "cls_of ?m x = cls_of m x" for x
    by (simp_all add: set_state_def upd_tk_def)
  have st: "state (sched (tk ?m x)) = (if x = t then s else state (sched (tk m x)))" for x by (simp add: set_state_def upd_tk_def)
  have q: "idles n ?m = idles n m" "currs n ?m = currs n m" "waking ?m = waking m" "asleep ?m = asleep m"
    using t(1) by (auto simp: idles_def currs_def waking_def asleep_def e st fun_eq_iff)
  have q2: "queue_of n ?m = queue_of n m" "phase n ?m = phase n m" "loading ?m = loading m" "waiting away ?m = waiting away m"
    using t(1) by (auto simp: queue_of_def phase_def loading_def waiting_def asleep_def e st q(1,2) fun_eq_iff)
  have "state (sched (tk ?m (rq_idle (rqs m c)))) = TASK_RUNNING" if "c < n" for c
    using inv t(2) that by (auto simp: st machine_inv_def shape_def idles_def)
  then have "shape n W ?m" using inv s unfolding shape_def by (simp add: machine_inv_def shape_def e q q2 st)
  moreover have "queue_inv k queued n (queue_of n m) ?m"
    by (rule queue_inv_cong [of _ _ _ _ m]) (use inv in \<open>auto simp: machine_inv_def e\<close>)
  moreover have "life_inv k n ?m" "load_inv n ?m" "io_inv away n ?m" "mm_inv owned n ?m"
    using inv by (simp_all add: machine_inv_def life_inv_def load_inv_def io_inv_def mm_inv_def borrowers_def e q q2)
  ultimately show ?thesis using inv by (simp add: machine_inv_def q2 e ok_request_def)
qed

lemma steady_set_state:
  assumes "steady k queued owned n m" and "on_rq (tk m t) = OnRqQueued" and "t \<in> idles n m \<longrightarrow> s = TASK_RUNNING"
    and "s \<notin> {TASK_NEW, TASK_WAKING}"
  shows "steady k queued owned n (set_state t s m)"
proof -
  have "sched_remote_wakeup (tk (set_state t s m) x) = sched_remote_wakeup (tk m x)" for x by (simp add: set_state_def upd_tk_def)
  then show ?thesis using set_state_inv assms by (simp add: steady_def)
qed

text \<open>Task \<open>t\<close> starts to wake up on CPU \<open>d\<close>; if it moves, its old CPU no longer counts it as waiting for I/O.\<close>

definition wakes :: "nat \<Rightarrow> nat \<Rightarrow> psi_task \<Rightarrow> 'q \<Rightarrow> 'q machine \<Rightarrow> 'q machine" where
  "wakes t d ps q m =
     (let c = task_cpu (tk m t) in
      m\<lparr>tk := (tk m)(t := (tk m t)\<lparr>sched := (sched (tk m t))\<lparr>state := TASK_WAKING\<rparr>, psi := ps, task_cpu := d\<rparr>),
        rqs := (rqs m)(c := (rqs m c)\<lparr>
          nr_iowait := nr_iowait (rqs m c) - (if c \<noteq> d \<and> in_iowait (psi (tk m t)) then 1 else 0), classq := q\<rparr>)\<rparr>)"

lemma wakes_inv:
  assumes inv: "machine_inv k queued owned n {} away m" and t: "asleep m t" "\<not> waking m t" and d: "d < n"
    and q: "queued q = queued (classq (rqs m (task_cpu (tk m t))))"
    and ps: "life (psik k) Waking ps" "in_iowait ps = in_iowait (psi (tk m t))"
  shows "machine_inv k queued owned n {t} (away(t := (task_cpu (tk m t) \<noteq> d))) (wakes t d ps q m)"
proof -
  let ?m = "wakes t d ps q m" and ?c = "task_cpu (tk m t)" and ?away = "away(t := (task_cpu (tk m t) \<noteq> d))"
  have sh: "shape n {} m" using inv by (simp add: machine_inv_def)
  have nt: "on_rq (tk m t) = NotQueued" using t(1) by (simp add: asleep_def)
  have nc: "t \<notin> currs n m" "t \<notin> idles n m" using not_current [OF sh, of t] nt by simp_all
  have e: "rq_idle (rqs ?m x) = rq_idle (rqs m x)" "rq_curr (rqs ?m x) = rq_curr (rqs m x)" "prev_mm (rqs ?m x) = prev_mm (rqs m x)"
      "nr_uninterruptible (rqs ?m x) = nr_uninterruptible (rqs m x)" "wake_list (rqs ?m x) = wake_list (rqs m x)"
      "mm_count ?m = mm_count m" "clampsys ?m = clampsys m" "on_rq (tk ?m x) = on_rq (tk m x)" "clamp (tk ?m x) = clamp (tk m x)"
      "sched_contributes_to_load (tk ?m x) = sched_contributes_to_load (tk m x)" "mm (tk ?m x) = mm (tk m x)"
      "active_mm (tk ?m x) = active_mm (tk m x)" "cls_of ?m x = cls_of m x" "clamps (rqs ?m x) = clamps (rqs m x)" for x
    by (simp_all add: wakes_def Let_def)
  have st: "state (sched (tk ?m x)) = (if x = t then TASK_WAKING else state (sched (tk m x)))"
      "task_cpu (tk ?m x) = (if x = t then d else task_cpu (tk m x))" "psi (tk ?m x) = (if x = t then ps else psi (tk m x))" for x
    by (simp_all add: wakes_def Let_def)
  have qs: "idles n ?m = idles n m" "currs n ?m = currs n m" "asleep ?m = asleep m" "\<And>x. waking ?m x \<longleftrightarrow> waking m x \<or> x = t"
    using t(1) nt by (auto simp: idles_def currs_def waking_def asleep_def e st fun_eq_iff)
  have q2: "queue_of n ?m = queue_of n m" "loading ?m = loading m"
    using nt by (auto simp: queue_of_def loading_def e st qs fun_eq_iff)
  have "\<forall>x < n. distinct (wake_list (rqs ?m x)) \<and> set (wake_list (rqs ?m x)) = {s. waking ?m s \<and> task_cpu (tk ?m s) = x} - {t}"
    using sh t(2) by (auto simp: shape_def e st qs)
  moreover have "rq_idle (rqs m x) \<noteq> t" if "x < n" for x using nc(2) that by (auto simp: idles_def)
  ultimately have "shape n {t} ?m" using sh d nt unfolding shape_def by (simp add: e st q2)
  moreover have "queue_inv k queued n (queue_of n m) ?m"
    by (rule queue_inv_cong [of _ _ _ _ m]) (use inv q in \<open>auto simp: machine_inv_def e wakes_def Let_def\<close>)
  moreover have "life_inv k n ?m"
    using inv ps(1) nc nt by (auto simp: machine_inv_def life_inv_def phase_def e st qs)
  moreover have "load_inv n ?m" "mm_inv owned n ?m"
    using inv by (simp_all add: machine_inv_def load_inv_def mm_inv_def borrowers_def e q2)
  moreover have "io_inv ?away n ?m"
    unfolding io_inv_def
  proof (intro allI impI)
    fix x assume x: "x < n"
    have w: "waiting ?away ?m x = (if ?c \<noteq> d then waiting away m x - {t} else waiting away m x)"
      using t ps(2) by (auto simp: waiting_def st qs waking_def asleep_def)
    have i: "t \<in> waiting away m x \<longleftrightarrow> x = ?c \<and> in_iowait (psi (tk m t))"
      using t by (auto simp: waiting_def waking_def asleep_def)
    have f: "finite (waiting away m x)" "nr_iowait (rqs m x) = int (card (waiting away m x))"
      using inv x by (auto simp: machine_inv_def io_inv_def)
    have "nr_iowait (rqs ?m x) = nr_iowait (rqs m x) - (if ?c \<noteq> d \<and> t \<in> waiting away m x then 1 else 0)"
      using i by (auto simp: wakes_def Let_def)
    then show "finite (waiting ?away ?m x) \<and> nr_iowait (rqs ?m x) = int (card (waiting ?away ?m x))"
      unfolding w using f card_without [OF f(1), of t, where 'a = int] by auto
  qed
  ultimately show ?thesis using inv by (simp add: machine_inv_def q2 e ok_request_def)
qed


lemma wakelist_inv:
  assumes inv: "machine_inv k queued owned n {t} away m" and t: "waking m t" "task_cpu (tk m t) = d"
  shows "machine_inv k queued owned n {} away (queue_wakelist k t d fg m)"
proof -
  let ?m = "queue_wakelist k t d fg m"
  have e: "rq_idle (rqs ?m x) = rq_idle (rqs m x)" "rq_curr (rqs ?m x) = rq_curr (rqs m x)" "prev_mm (rqs ?m x) = prev_mm (rqs m x)"
      "nr_uninterruptible (rqs ?m x) = nr_uninterruptible (rqs m x)" "nr_iowait (rqs ?m x) = nr_iowait (rqs m x)"
      "mm_count ?m = mm_count m" "clampsys ?m = clampsys m" "on_rq (tk ?m x) = on_rq (tk m x)" "clamp (tk ?m x) = clamp (tk m x)"
      "sched_contributes_to_load (tk ?m x) = sched_contributes_to_load (tk m x)" "mm (tk ?m x) = mm (tk m x)"
      "active_mm (tk ?m x) = active_mm (tk m x)" "sched (tk ?m x) = sched (tk m x)" "psi (tk ?m x) = psi (tk m x)"
      "task_cpu (tk ?m x) = task_cpu (tk m x)" "clamps (rqs ?m x) = clamps (rqs m x)" "classq (rqs ?m x) = classq (rqs m x)" for x
    by (simp_all add: queue_wakelist_def upd_rq_def upd_tk_def)
  have w: "wake_list (rqs ?m x) = (if x = d then wake_list (rqs m d) @ [t] else wake_list (rqs m x))" for x
    by (simp add: queue_wakelist_def upd_rq_def upd_tk_def)
  have q: "idles n ?m = idles n m" "currs n ?m = currs n m" "waking ?m = waking m" "asleep ?m = asleep m"
    by (simp_all add: idles_def currs_def waking_def asleep_def e fun_eq_iff)
  then have q2: "queue_of n ?m = queue_of n m" "phase n ?m = phase n m" by (simp_all add: queue_of_def phase_def e fun_eq_iff)
  have "\<forall>x < n. distinct (wake_list (rqs ?m x)) \<and> set (wake_list (rqs ?m x)) = {s. waking m s \<and> task_cpu (tk m s) = x} - {}"
    using inv t by (auto simp: machine_inv_def shape_def w)
  then have "shape n {} ?m" using inv unfolding shape_def by (simp add: machine_inv_def shape_def e q q2)
  moreover have "queue_inv k queued n (queue_of n m) ?m"
    by (rule queue_inv_cong [of _ _ _ _ m]) (use inv in \<open>auto simp: machine_inv_def e\<close>)
  moreover have "life_inv k n ?m" "load_inv n ?m" "io_inv away n ?m" "mm_inv owned n ?m"
    using inv by (simp_all add: machine_inv_def life_inv_def load_inv_def loading_def io_inv_def waiting_def mm_inv_def borrowers_def e q q2)
  ultimately show ?thesis using inv by (simp add: machine_inv_def q2 e ok_request_def)
qed

lemma in_iowait_changed [simp]: "in_iowait (changed p x y) = in_iowait p"
  by (simp add: changed_def)

lemma in_iowait_psi:
  assumes "psi_contract k"
  shows "in_iowait (psi_ttwu_dequeue k p) = in_iowait p" "in_iowait (psi_dequeue k p b) = in_iowait p"
  using assms by (simp_all add: psi_ttwu_dequeue_def psi_dequeue_def psi_contract_def Let_def)

text \<open>The second half of a wake-up: on the run queue or on the wake list.\<close>

lemma ttwu_queue_inv:
  assumes con: "class_contract k queued" and fl: "flags_contract k"
    and inv: "machine_inv k queued owned n {t} away m" and t: "waking m t" "task_cpu (tk m t) = d" "d < n"
    and fg: "fg AND WF_MIGRATED k \<noteq> 0 \<longleftrightarrow> away t" and away: "\<And>x. x \<noteq> t \<Longrightarrow> away x = sched_remote_wakeup (tk m x)"
  shows "\<exists>m'. ttwu_queue k this t d fg m = Inr m' \<and> steady k queued owned n m'"
proof (cases "fst (ttwu_queue_wakelist k this t d fg m)")
  case True
  then have r: "ttwu_queue k this t d fg m = Inr (queue_wakelist k t d fg m)"
    by (auto simp: ttwu_queue_def ttwu_queue_wakelist_def split: if_splits)
  have "sched_remote_wakeup (tk (queue_wakelist k t d fg m) x) = away x" for x
    using fg away by (simp add: queue_wakelist_def upd_rq_def upd_tk_def)
  with wakelist_inv [OF inv t(1,2)] r show ?thesis by (simp add: steady_def)
next
  case False
  let ?m = "update_rq_clock k d m"
  have r: "ttwu_queue k this t d fg m = ttwu_do_activate k d t fg ?m"
    using False by (auto simp: ttwu_queue_def ttwu_queue_wakelist_def split: if_splits)
  have tk: "tk ?m = tk m" by (simp add: update_rq_clock_eq)
  have "waking ?m t" "task_cpu (tk ?m t) = d" using t by (simp_all add: waking_def tk)
  from do_activate_inv [OF con fl quiet_inv [OF quiet_clock inv] this(1) _ this(2) t(3) fg]
  obtain m' where m': "ttwu_do_activate k d t fg ?m = Inr m'" "machine_inv k queued owned n {} away m'"
      "\<forall>x. x \<noteq> t \<longrightarrow> tcore (tk m' x) = tcore (tk m x)" "\<forall>x. sched_remote_wakeup (tk m' x) = sched_remote_wakeup (tk m x)"
      "on_rq (tk m' t) = OnRqQueued"
    unfolding tk by auto
  have "sched_remote_wakeup (tk m' x) = away x" if "waking m' x" for x
    using that m'(4,5) away by (cases "x = t") (simp_all add: waking_def)
  with m'(1,2) r show ?thesis by (auto simp: steady_def intro: away_cong)
qed

lemma wake_sleeper_inv:
  assumes con: "class_contract k queued" and fl: "flags_contract k" and pc: "psi_contract (psik k)"
    and inv: "steady k queued owned n m" and d: "d < n"
    and states: "TASK_NEW AND states = 0" "TASK_WAKING AND states = 0" and fg: "fg AND WF_MIGRATED k = 0"
    and sleeps: "state (sched (tk m t)) AND states \<noteq> 0" "t \<noteq> rq_curr (rqs m this)" "on_rq (tk m t) = NotQueued"
  shows "\<exists>b m'. try_to_wake_up k this t states fg d m = Inr (b, m') \<and> steady k queued owned n m'"
proof -
  let ?away = "\<lambda>t. sched_remote_wakeup (tk m t)"
  have minv: "machine_inv k queued owned n {} ?away m" and sh: "shape n {} m" using inv by (auto simp: steady_def machine_inv_def)
  let ?c = "task_cpu (tk m t)" and ?moves = "task_cpu (tk m t) \<noteq> d"
  let ?ps = "if ?moves then psi_ttwu_dequeue (psik k) (psi (tk m t)) else psi (tk m t)"
  let ?q = "if ?moves then cl_migrate k (cls_of m t) (classq (rqs m ?c)) t d else classq (rqs m ?c)"
  let ?fg = "if ?moves then fg OR WF_MIGRATED k else fg"
  have a: "asleep m t" "\<not> waking m t" using sleeps states by (auto simp: asleep_def waking_def)
  have "life (psik k) Asleep (psi (tk m t))"
    using minv a not_current [OF sh, of t] sleeps(3) by (auto simp: machine_inv_def life_inv_def phase_def asleep_def waking_def)
  then have ps: "life (psik k) Waking ?ps" by (simp add: life.wake_here life.wake_elsewhere)
  have io: "in_iowait ?ps = in_iowait (psi (tk m t))" by (simp add: in_iowait_psi [OF pc])
  have q: "queued ?q = queued (classq (rqs m ?c))" using con by (simp add: class_contract_def)
  note wk = wakes_inv [OF minv a d q ps io]
  obtain m3 where m3: "quiet queued (wakes t d ?ps ?q m) m3"
    "try_to_wake_up k this t states fg d m = bindR (ttwu_queue k this t d ?fg m3) (\<lambda>m4. Inr (True, m4))"
  proof (rule that)
    let ?m2 = "set_state t TASK_WAKING m"
    let ?m' = "if in_iowait (psi (tk m t)) then upd_rq ?c (\<lambda>r. r\<lparr>nr_iowait := nr_iowait r - 1\<rparr>) ?m2 else ?m2"
    let ?m3 = "if ?moves then set_task_cpu k t d (upd_tk t (\<lambda>p. p\<lparr>psi := psi_ttwu_dequeue (psik k) (psi p)\<rparr>) ?m') else ?m2"
    show "quiet queued (wakes t d ?ps ?q m) ?m3"
      by (auto simp: quiet_def tcore_def rcore_def wakes_def set_task_cpu_def set_state_def upd_tk_def upd_rq_def Let_def)
    show "try_to_wake_up k this t states fg d m = bindR (ttwu_queue k this t d ?fg ?m3) (\<lambda>m4. Inr (True, m4))"
      using sleeps by (simp add: try_to_wake_up_def set_state_def upd_tk_def Let_def)
  qed
  have c3: "tcore (tk m3 x) = tcore (tk (wakes t d ?ps ?q m) x)" for x using m3(1) by (simp add: quiet_def)
  have w3: "waking m3 t" "task_cpu (tk m3 t) = d" "\<And>x. sched_remote_wakeup (tk m3 x) = ?away x"
    using c3 sleeps(3) by (auto simp: tcore_def wakes_def waking_def Let_def)
  have "?fg AND WF_MIGRATED k \<noteq> 0 \<longleftrightarrow> (?away(t := ?moves)) t"
    using fg fl by (auto simp: flags_contract_def bit.conj_disj_distrib2)
  from ttwu_queue_inv [OF con fl quiet_inv [OF m3(1) wk] w3(1,2) d this, of this]
  obtain m4 where "ttwu_queue k this t d ?fg m3 = Inr m4" "steady k queued owned n m4" using w3(3) by auto
  with m3(2) show ?thesis by (intro exI [of _ True] exI [of _ m4]) simp
qed

lemma try_to_wake_up_inv:
  assumes con: "class_contract k queued" and fl: "flags_contract k" and pc: "psi_contract (psik k)"
    and inv: "steady k queued owned n m" and d: "d < n" "this < n"
    and states: "TASK_NEW AND states = 0" "TASK_WAKING AND states = 0" and fg: "fg AND WF_MIGRATED k = 0"
  shows "\<exists>b m'. try_to_wake_up k this t states fg d m = Inr (b, m') \<and> steady k queued owned n m'"
proof -
  have sh: "shape n {} m" using inv by (simp add: steady_def machine_inv_def)
  have run: "steady k queued owned n (set_state t TASK_RUNNING m)" if "on_rq (tk m t) = OnRqQueued"
    by (rule steady_set_state [OF inv that]) simp_all
  consider (none) "state (sched (tk m t)) AND states = 0" | (self) "t = rq_curr (rqs m this)"
    | (queued) "state (sched (tk m t)) AND states \<noteq> 0" "t \<noteq> rq_curr (rqs m this)" "on_rq (tk m t) = OnRqQueued"
    | (sleeps) "state (sched (tk m t)) AND states \<noteq> 0" "t \<noteq> rq_curr (rqs m this)" "on_rq (tk m t) = NotQueued"
    using sh by (cases "on_rq (tk m t)") (auto simp: shape_def)
  then show ?thesis
  proof cases
    case none
    then have "try_to_wake_up k this t states fg d m = Inr (False, m)" by (auto simp: try_to_wake_up_def)
    with inv show ?thesis by blast
  next
    case self
    have "on_rq (tk m t) = OnRqQueued" using sh d(2) self unfolding shape_def queue_of_def by auto
    with run inv self show ?thesis by (auto simp: try_to_wake_up_def)
  next
    case queued
    let ?c = "task_cpu (tk m t)"
    have "quiet queued (set_state t TASK_RUNNING m) (ttwu_do_wakeup k ?c t fg (update_rq_clock k ?c m))"
      unfolding ttwu_do_wakeup_def
      by (rule quiet_trans [OF quiet_trans [OF quiet_set_state [OF quiet_trans [OF quiet_clock quiet_preempt]] quiet_woken [OF con]] quiet_idle_average])
    from steady_quiet [OF this run [OF queued(3)]] queued show ?thesis
      by (intro exI [of _ True]) (simp add: try_to_wake_up_def ttwu_runnable_def Let_def)
  next
    case sleeps
    from wake_sleeper_inv [OF con fl pc inv d(1) states fg this] show ?thesis .
  qed
qed


section \<open>New tasks\<close>

text \<open>The CPU of a task that has never run does not matter.\<close>

lemma new_cpu_inv:
  assumes inv: "machine_inv k queued owned n {} away m" and t: "on_rq (tk m t) = NotQueued" "state (sched (tk m t)) = TASK_NEW" and d: "d < n"
  shows "machine_inv k queued owned n {} away (upd_tk t (\<lambda>p. p\<lparr>task_cpu := d\<rparr>) m)"
proof -
  let ?m = "upd_tk t (\<lambda>p. p\<lparr>task_cpu := d\<rparr>) m"
  have e: "rqs ?m = rqs m" "mm_count ?m = mm_count m" "clampsys ?m = clampsys m" "on_rq (tk ?m x) = on_rq (tk m x)"
      "sched (tk ?m x) = sched (tk m x)" "psi (tk ?m x) = psi (tk m x)" "clamp (tk ?m x) = clamp (tk m x)"
      "sched_contributes_to_load (tk ?m x) = sched_contributes_to_load (tk m x)" "mm (tk ?m x) = mm (tk m x)"
      "active_mm (tk ?m x) = active_mm (tk m x)" "task_cpu (tk ?m x) = (if x = t then d else task_cpu (tk m x))" for x
    by (simp_all add: upd_tk_def)
  have q: "idles n ?m = idles n m" "currs n ?m = currs n m" "waking ?m = waking m" "asleep ?m = asleep m" "loading ?m = loading m"
    by (auto simp: idles_def currs_def waking_def asleep_def loading_def e fun_eq_iff)
  have q2: "queue_of n ?m = queue_of n m" "phase n ?m = phase n m" "waiting away ?m = waiting away m"
    using t by (auto simp: queue_of_def phase_def waiting_def asleep_def e q(1,2) fun_eq_iff)
  have w: "{x. waking m x \<and> task_cpu (tk ?m x) = c} = {x. waking m x \<and> task_cpu (tk m x) = c}" for c
    using t by (auto simp: waking_def e)
  have "shape n {} ?m" using inv d unfolding shape_def q q2 w by (auto simp: machine_inv_def shape_def e)
  moreover have "queue_inv k queued n (queue_of n m) ?m"
    by (rule queue_inv_cong [of _ _ _ _ m]) (use inv in \<open>auto simp: machine_inv_def e\<close>)
  moreover have "life_inv k n ?m" "load_inv n ?m" "io_inv away n ?m" "mm_inv owned n ?m"
    using inv by (simp_all add: machine_inv_def life_inv_def load_inv_def io_inv_def mm_inv_def borrowers_def e q q2)
  ultimately show ?thesis using inv by (simp add: machine_inv_def q2 e ok_request_def)
qed

lemma wake_up_new_task_inv:
  assumes con: "class_contract k queued" and fl: "flags_contract k" and inv: "steady k queued owned n m" and d: "d < n"
    and t: "on_rq (tk m t) = NotQueued" "state (sched (tk m t)) = TASK_NEW"
  shows "\<exists>m'. wake_up_new_task k t d m = Inr m' \<and> steady k queued owned n m'"
proof -
  let ?away = "\<lambda>t. sched_remote_wakeup (tk m t)" and ?f = "ENQUEUE_NOCLOCK k"
  define m0 where "m0 = upd_tk t (\<lambda>p. p\<lparr>task_cpu := d\<rparr>) m"
  define m1 where "m1 = update_rq_clock k d (upd_tk t (\<lambda>p. p\<lparr>task_cpu := d\<rparr>) (set_state t TASK_RUNNING m))"
  have i0: "machine_inv k queued owned n {} ?away m0"
    unfolding m0_def by (rule new_cpu_inv [OF _ t d]) (use inv in \<open>simp add: steady_def\<close>)
  have nq: "\<forall>c' < n. t \<notin> queue_of n m0 c'" using t(1) by (simp add: queue_of_def m0_def upd_tk_def)
  have q1: "queue_inv k queued n (queue_of n m0) m1"
    by (rule queue_inv_cong [of _ _ _ _ m0])
      (use i0 in \<open>auto simp: machine_inv_def m0_def m1_def set_state_def upd_tk_def update_rq_clock_eq\<close>)
  have r1: "clampsys m1 = clampsys m0" "clamp (tk m1 t) = clamp (tk m0 t)"
    by (simp_all add: m0_def m1_def set_state_def upd_tk_def update_rq_clock_eq)
  obtain ct cr q where e: "enqueue_task k d t ?f m1 = Inr (enqueued k d t ?f ct cr q m1)"
      "queue_inv k queued n ((queue_of n m0)(d := insert t (queue_of n m0 d))) (enqueued k d t ?f ct cr q m1)"
      "same_request ct (clamp (tk m0 t))"
    using enqueue_inv [OF con _ q1 d nq, of ?f] i0 unfolding r1 by (auto simp: machine_inv_def ok_request_def r1)
  define m3 where "m3 = upd_tk t (\<lambda>p. p\<lparr>on_rq := OnRqQueued\<rparr>) (enqueued k d t ?f ct cr q m1)"
  define m' where "m' = task_woken k d t (check_preempt_curr k d t (WF_FORK k) m3)"
  have run: "wake_up_new_task k t d m = Inr m'"
    using e(1) by (simp add: wake_up_new_task_def activate_task_def m'_def m3_def m1_def Let_def)
  let ?s = "sched (tk m3 t)" and ?ps = "psi_enqueue (psik k) (psi (tk m t)) False" and ?r = "(rqs m0 d)\<lparr>clamps := cr, classq := q\<rparr>"
  have J: "quiet queued (joined d t ?s ?ps ct ?r m0) m3"
    using wake_flags [OF fl] by (simp add: m3_def m1_def m0_def set_state_def upd_tk_def enqueued_def enq_acct_def joined_def
      update_rq_clock_eq quiet_def tcore_def rcore_def)
  then have quiet: "quiet queued (joined d t ?s ?ps ct ?r m0) m'"
    unfolding m'_def by (rule quiet_trans [OF _ quiet_trans [OF quiet_preempt quiet_woken [OF con]]])
  have "machine_inv k queued owned n ({} - {t}) ?away (joined d t ?s ?ps ct ?r m0)"
  proof (rule joined_inv [OF i0])
    show "joins n {} d t ?s ?r m0"
      using i0 t d by (simp add: joins_def machine_inv_def waking_def m0_def m1_def m3_def upd_tk_def set_state_def enqueued_def update_rq_clock_eq)
    show "queue_inv k queued n ((queue_of n m0)(d := insert t (queue_of n m0 d))) (joined d t ?s ?ps ct ?r m0)"
      by (rule queue_inv_cong [OF e(2)]) (auto simp: joined_def enqueued_def m0_def m1_def m3_def upd_tk_def set_state_def update_rq_clock_eq)
    show "life (psik k) Queued ?ps"
      using inv t not_current [of n "{}" m t] by (intro life.new_task) (auto simp: steady_def machine_inv_def life_inv_def phase_def)
    show "nr_uninterruptible ?r = nr_uninterruptible (rqs m0 d) - (if t \<in> loading m0 then 1 else 0)"
      "nr_iowait ?r = nr_iowait (rqs m0 d) - (if t \<in> waiting ?away m0 d then 1 else 0)"
      using t by (simp_all add: loading_def waiting_def asleep_def m0_def upd_tk_def)
  qed (rule e(3))
  with quiet_inv [OF quiet] have "machine_inv k queued owned n {} ?away m'" by simp
  moreover have "sched_remote_wakeup (tk m' x) = ?away x" for x
    using quiet by (auto simp: quiet_def tcore_def joined_def m0_def upd_tk_def)
  ultimately show ?thesis using run by (simp add: steady_def)
qed

end
