(* ===== verification/Sched_Core_Switch.thy ===== *)
theory Sched_Core_Switch
  imports Sched_Core_Wake
begin

unbundle bit_operations_syntax

text \<open>
  Migration, the main scheduling function and the context switch keep the invariant of the machine.
\<close>

section \<open>Migration\<close>

text \<open>A queued task with other pressure stall data, other clamps and another CPU.\<close>

definition requeued :: "nat \<Rightarrow> nat \<Rightarrow> psi_task \<Rightarrow> clamp_task \<Rightarrow> (nat \<Rightarrow> 'q rqueue) \<Rightarrow> 'q machine \<Rightarrow> 'q machine" where
  "requeued t d ps ct rs m = m\<lparr>tk := (tk m)(t := (tk m t)\<lparr>psi := ps, clamp := ct, task_cpu := d\<rparr>), rqs := rs\<rparr>"

lemma requeued_inv:
  assumes inv: "machine_inv k queued owned n W away m" and t: "t \<notin> idles n m" "on_rq (tk m t) = OnRqQueued" and d: "d < n"
    and cur: "t \<in> currs n m \<longrightarrow> d = task_cpu (tk m t)"
    and rs: "\<And>x. rq_idle (rs x) = rq_idle (rqs m x) \<and> rq_curr (rs x) = rq_curr (rqs m x) \<and> prev_mm (rs x) = prev_mm (rqs m x)
      \<and> nr_uninterruptible (rs x) = nr_uninterruptible (rqs m x) \<and> nr_iowait (rs x) = nr_iowait (rqs m x) \<and> wake_list (rs x) = wake_list (rqs m x)"
    and q: "queue_inv k queued n ((queue_of n m)(task_cpu (tk m t) := queue_of n m (task_cpu (tk m t)) - {t}, d := insert t (queue_of n m d)))
      (requeued t d ps ct rs m)"
    and req: "same_request ct (clamp (tk m t))" and ps: "life (psik k) (phase n m t) ps"
  shows "machine_inv k queued owned n W away (requeued t d ps ct rs m)"
proof -
  let ?m = "requeued t d ps ct rs m" and ?c = "task_cpu (tk m t)"
  have sh: "shape n W m" using inv by (simp add: machine_inv_def)
  have e: "rq_idle (rqs ?m x) = rq_idle (rqs m x)" "rq_curr (rqs ?m x) = rq_curr (rqs m x)" "prev_mm (rqs ?m x) = prev_mm (rqs m x)"
      "nr_uninterruptible (rqs ?m x) = nr_uninterruptible (rqs m x)" "nr_iowait (rqs ?m x) = nr_iowait (rqs m x)"
      "wake_list (rqs ?m x) = wake_list (rqs m x)" "mm_count ?m = mm_count m" "clampsys ?m = clampsys m"
      "on_rq (tk ?m x) = on_rq (tk m x)" "sched (tk ?m x) = sched (tk m x)" "mm (tk ?m x) = mm (tk m x)"
      "sched_contributes_to_load (tk ?m x) = sched_contributes_to_load (tk m x)" "active_mm (tk ?m x) = active_mm (tk m x)"
      "psi (tk ?m x) = (if x = t then ps else psi (tk m x))" "task_cpu (tk ?m x) = (if x = t then d else task_cpu (tk m x))" for x
    using rs by (simp_all add: requeued_def)
  have qs: "idles n ?m = idles n m" "currs n ?m = currs n m" "waking ?m = waking m" "asleep ?m = asleep m" "loading ?m = loading m"
    by (auto simp: idles_def currs_def waking_def asleep_def loading_def e fun_eq_iff)
  have q2: "phase n ?m = phase n m" "waiting away ?m = waiting away m"
      "queue_of n ?m = (queue_of n m)(?c := queue_of n m ?c - {t}, d := insert t (queue_of n m d))"
    using t by (auto simp: queue_of_def phase_def waiting_def asleep_def e qs(1,2) fun_eq_iff)
  have w: "{x. waking m x \<and> task_cpu (tk ?m x) = c} = {x. waking m x \<and> task_cpu (tk m x) = c}" for c
    using t by (auto simp: waking_def e)
  have cu: "rq_curr (rqs m x) = rq_idle (rqs m x) \<or> rq_curr (rqs m x) \<in> queue_of n ?m x" if x: "x < n" for x
  proof -
    have "rq_curr (rqs m x) = t \<longrightarrow> d = ?c" using cur x by (auto simp: currs_def)
    moreover have "rq_curr (rqs m x) = rq_idle (rqs m x) \<or> rq_curr (rqs m x) \<in> queue_of n m x" using sh x by (auto simp: shape_def)
    ultimately show ?thesis unfolding q2(3) by (auto simp: queue_of_def)
  qed
  have "shape n W ?m" using sh d cu unfolding shape_def qs w e(1-14) by (auto simp: e(15))
  moreover have "life_inv k n ?m" using inv ps by (auto simp: machine_inv_def life_inv_def e qs q2)
  moreover have "load_inv n ?m" "io_inv away n ?m" "mm_inv owned n ?m"
    using inv by (simp_all add: machine_inv_def load_inv_def io_inv_def mm_inv_def borrowers_def e qs q2)
  moreover have "ok_request (clampsys m) (tk ?m x)" for x
    using inv req by (auto simp: machine_inv_def requeued_def ok_request_def ok_task_def same_request_def)
  ultimately show ?thesis using inv q by (simp add: machine_inv_def q2 e)
qed

lemma move_queued_task_inv:
  assumes con: "class_contract k queued" and fl: "flags_contract k" and inv: "steady k queued owned n m" and d: "d < n" "c < n"
    and t: "t \<in> queue_of n m c" "t \<notin> currs n m"
  shows "\<exists>m'. move_queued_task k c t d m = Inr m' \<and> steady k queued owned n m'"
proof -
  let ?away = "\<lambda>t. sched_remote_wakeup (tk m t)" and ?f = "DEQUEUE_NOCLOCK k" and ?Q = "queue_of n m"
  have ff: "?f AND DEQUEUE_NOCLOCK k \<noteq> 0" "?f AND DEQUEUE_SAVE k = 0" "?f AND DEQUEUE_SLEEP k = 0" using fl by (simp_all add: flags_contract_def)
  have minv: "machine_inv k queued owned n {} ?away m" using inv by (simp add: steady_def)
  have tc: "t \<notin> idles n m" "on_rq (tk m t) = OnRqQueued" "task_cpu (tk m t) = c" using t(1) by (auto simp: queue_of_def)
  define m1 where "m1 = upd_tk t (\<lambda>p. p\<lparr>on_rq := OnRqMigrating\<rparr>) m"
  have q1: "queue_inv k queued n ?Q m1"
    by (rule queue_inv_cong [of _ _ _ _ m]) (use minv in \<open>auto simp: machine_inv_def m1_def upd_tk_def\<close>)
  have o: "\<forall>c' < n. c' \<noteq> c \<longrightarrow> t \<notin> ?Q c'" using tc by (auto simp: queue_of_def)
  obtain ct cr q where 1: "dequeue_task k c t ?f m1 = Inr (dequeued k c t ?f ct cr q m1)"
      "queue_inv k queued n (?Q(c := ?Q c - {t})) (dequeued k c t ?f ct cr q m1)" "same_request ct (clamp (tk m t))"
    using dequeue_inv [OF con _ q1 d(2) t(1) o, of ?f] minv by (auto simp: machine_inv_def m1_def upd_tk_def)
  define m2 where "m2 = set_task_cpu k t d (dequeued k c t ?f ct cr q m1)"
  have q2: "queue_inv k queued n (?Q(c := ?Q c - {t})) m2"
    by (rule queue_inv_cong [OF 1(2)])
      (use con in \<open>auto simp: m2_def set_task_cpu_def upd_tk_def upd_rq_def Let_def class_contract_def\<close>)
  have "\<forall>c' < n. t \<notin> (?Q(c := ?Q c - {t})) c'" using o by auto
  moreover have "ok_system (clampsys m2)" "clamp (tk m2 t) = ct" "clampsys m2 = clampsys m"
    using minv by (auto simp: machine_inv_def m2_def m1_def set_task_cpu_def upd_tk_def upd_rq_def dequeued_def Let_def)
  moreover have "ok_request (clampsys m2) (tk m2 t)"
    using minv 1(3) calculation(3,4) by (auto simp: machine_inv_def ok_request_def ok_task_def same_request_def)
  ultimately obtain ct2 cr2 q3 where 2: "enqueue_task k d t 0 m2 = Inr (enqueued k d t 0 ct2 cr2 q3 m2)"
      "queue_inv k queued n ((?Q(c := ?Q c - {t}))(d := insert t ((?Q(c := ?Q c - {t})) d))) (enqueued k d t 0 ct2 cr2 q3 m2)"
      "same_request ct2 ct"
    using enqueue_inv [OF con _ q2 d(1), of t 0] by auto
  define m3 where "m3 = upd_tk t (\<lambda>p. p\<lparr>on_rq := OnRqQueued\<rparr>) (enqueued k d t 0 ct2 cr2 q3 m2)"
  define m' where "m' = check_preempt_curr k d t 0 m3"
  have run: "move_queued_task k c t d m = Inr m'"
    using 1(1) 2(1) ff by (simp add: move_queued_task_def deactivate_task_def activate_task_def m'_def m3_def m2_def m1_def)
  let ?ps = "psi_enqueue (psik k) (psi_dequeue (psik k) (psi (tk m t)) False) False"
  let ?X = "requeued t d ?ps ct2 (rqs m3) m"
  have J: "quiet queued ?X m3"
    using ff fl tc by (auto simp: m3_def m2_def m1_def set_task_cpu_def upd_tk_def upd_rq_def enqueued_def dequeued_def
      enq_acct_def requeued_def quiet_def tcore_def Let_def flags_contract_def)
  have quiet: "quiet queued ?X m'" unfolding m'_def by (rule quiet_trans [OF J quiet_preempt])
  have "machine_inv k queued owned n {} ?away ?X"
  proof (rule requeued_inv [OF minv tc(1,2) d(1)])
    show "t \<in> currs n m \<longrightarrow> d = task_cpu (tk m t)" using t(2) by simp
    show "rq_idle (rqs m3 x) = rq_idle (rqs m x) \<and> rq_curr (rqs m3 x) = rq_curr (rqs m x) \<and> prev_mm (rqs m3 x) = prev_mm (rqs m x)
      \<and> nr_uninterruptible (rqs m3 x) = nr_uninterruptible (rqs m x) \<and> nr_iowait (rqs m3 x) = nr_iowait (rqs m x) \<and> wake_list (rqs m3 x) = wake_list (rqs m x)" for x
      by (auto simp: m3_def m2_def m1_def set_task_cpu_def upd_tk_def upd_rq_def enqueued_def dequeued_def Let_def)
    have Q: "(?Q(c := ?Q c - {t}))(d := insert t ((?Q(c := ?Q c - {t})) d)) = ?Q(c := ?Q c - {t}, d := insert t (?Q d))" using t(1) by auto
    let ?E = "enqueued k d t 0 ct2 cr2 q3 m2"
    have E: "clampsys ?X = clampsys ?E" "rqs ?X = rqs ?E" "clamp (tk ?X x) = clamp (tk ?E x)" "cls_of ?X x = cls_of ?E x" for x
      by (simp_all add: requeued_def m3_def m2_def m1_def set_task_cpu_def upd_tk_def upd_rq_def enqueued_def dequeued_def Let_def)
    show "queue_inv k queued n (?Q(task_cpu (tk m t) := ?Q (task_cpu (tk m t)) - {t}, d := insert t (?Q d))) ?X"
      unfolding tc(3) Q [symmetric] by (rule queue_inv_cong [OF 2(2)]) (simp_all only: E simp_thms)
    show "same_request ct2 (clamp (tk m t))" using 1(3) 2(3) by (simp add: same_request_def)
    have "life (psik k) Queued (psi (tk m t))"
      using minv tc t(2) by (auto simp: machine_inv_def life_inv_def phase_def)
    then show "life (psik k) (phase n m t) ?ps" using life.requeue [of "psik k" Queued "psi (tk m t)"] tc t(2) by (simp add: phase_def)
  qed
  with quiet_inv [OF quiet] have "machine_inv k queued owned n {} ?away m'" by simp
  moreover have "sched_remote_wakeup (tk m' x) = ?away x" for x using quiet by (auto simp: quiet_def tcore_def requeued_def)
  ultimately show ?thesis using run by (simp add: steady_def)
qed


section \<open>The switch\<close>

lemma currs_inj:
  assumes "shape n W m" and "c < n" and "c' < n" and "rq_curr (rqs m c) = rq_curr (rqs m c')"
  shows "c = c'"
proof -
  have a: "rq_curr (rqs m x) = rq_idle (rqs m x) \<or> rq_curr (rqs m x) \<in> queue_of n m x" if "x < n" for x
    using assms(1) that by (auto simp: shape_def)
  have i: "rq_idle (rqs m x) \<in> idles n m" if "x < n" for x using that by (auto simp: idles_def)
  show ?thesis
  proof (cases "rq_curr (rqs m c) \<in> idles n m")
    case True
    then have "rq_curr (rqs m c) = rq_idle (rqs m c)" "rq_curr (rqs m c') = rq_idle (rqs m c')"
      using a [OF assms(2)] a [OF assms(3)] assms(4) by (auto simp: queue_of_def)
    then show ?thesis using assms by (auto simp: shape_def dest!: inj_onD)
  next
    case False
    then show ?thesis using a [OF assms(2)] a [OF assms(3)] i [OF assms(2)] i [OF assms(3)] assms(4) by (auto simp: queue_of_def)
  qed
qed

text \<open>
  CPU \<open>c\<close> switches from its current task to \<open>next\<close>, with new pressure stall data and address spaces for both;
  if it sleeps (\<open>slp\<close>), the old task leaves the run queue.
\<close>

record switch_data =
  sd_slp :: bool
  sd_load :: bool
  sd_clamp :: clamp_task
  sd_prev_psi :: psi_task
  sd_next_psi :: psi_task
  sd_prev_mm :: "nat option"
  sd_next_mm :: "nat option"
  sd_count :: "nat \<Rightarrow> int"

definition switched :: "nat \<Rightarrow> nat \<Rightarrow> switch_data \<Rightarrow> 'q rqueue \<Rightarrow> 'q machine \<Rightarrow> 'q machine" where
  "switched c nx d r m =
     (let prev = rq_curr (rqs m c) in
      m\<lparr>tk := (tk m)(
          prev := (tk m prev)\<lparr>psi := sd_prev_psi d, on_rq := (if sd_slp d then NotQueued else on_rq (tk m prev)),
            clamp := sd_clamp d, sched_contributes_to_load := sd_load d, active_mm := sd_prev_mm d\<rparr>,
          nx := (tk m nx)\<lparr>psi := sd_next_psi d, active_mm := sd_next_mm d\<rparr>),
        rqs := (rqs m)(c := r), mm_count := sd_count d\<rparr>)"

definition switches :: "nat \<Rightarrow> nat \<Rightarrow> nat \<Rightarrow> switch_data \<Rightarrow> 'q rqueue \<Rightarrow> 'q machine \<Rightarrow> bool" where
  "switches n c nx d r m \<longleftrightarrow>
     (let prev = rq_curr (rqs m c) in
      shape n {} m \<and> c < n \<and> nx \<noteq> prev \<and> (nx = rq_idle (rqs m c) \<or> nx \<in> queue_of n m c)
      \<and> (sd_slp d \<longrightarrow> prev \<noteq> rq_idle (rqs m c)) \<and> rq_curr r = nx \<and> rq_idle r = rq_idle (rqs m c)
      \<and> wake_list r = wake_list (rqs m c) \<and> prev_mm r = None \<and> in_iowait (sd_prev_psi d) = in_iowait (psi (tk m prev))
      \<and> nr_uninterruptible r = nr_uninterruptible (rqs m c) + (if sd_slp d \<and> sd_load d then 1 else 0)
      \<and> nr_iowait r = nr_iowait (rqs m c) + (if sd_slp d \<and> in_iowait (psi (tk m prev)) then 1 else 0))"

lemma switches_facts:
  assumes "switches n c nx d r m"
  shows "on_rq (tk m (rq_curr (rqs m c))) = OnRqQueued" "task_cpu (tk m (rq_curr (rqs m c))) = c \<or> rq_curr (rqs m c) \<in> idles n m"
    "on_rq (tk m nx) = OnRqQueued" "nx \<notin> currs n m" "state (sched (tk m (rq_curr (rqs m c)))) \<notin> {TASK_NEW, TASK_WAKING}"
    "\<And>x. x < n \<Longrightarrow> x \<noteq> c \<Longrightarrow> rq_curr (rqs m x) \<noteq> rq_curr (rqs m c)" "sd_slp d \<longrightarrow> rq_curr (rqs m c) \<notin> idles n m"
proof -
  let ?p = "rq_curr (rqs m c)"
  have sh: "shape n {} m" and c: "c < n" and nx: "nx = rq_idle (rqs m c) \<or> nx \<in> queue_of n m c" "nx \<noteq> ?p"
    using assms by (auto simp: switches_def Let_def)
  have p: "?p = rq_idle (rqs m c) \<or> ?p \<in> queue_of n m c" using sh c by (auto simp: shape_def)
  show 1: "on_rq (tk m ?p) = OnRqQueued" using p sh c by (auto simp: shape_def queue_of_def)
  show "task_cpu (tk m ?p) = c \<or> ?p \<in> idles n m" using p c by (auto simp: queue_of_def idles_def)
  show "on_rq (tk m nx) = OnRqQueued" using nx sh c by (auto simp: shape_def queue_of_def)
  show "state (sched (tk m ?p)) \<notin> {TASK_NEW, TASK_WAKING}" using 1 sh by (auto simp: shape_def)
  show "rq_curr (rqs m x) \<noteq> ?p" if "x < n" "x \<noteq> c" for x using currs_inj [OF sh that(1) c] that(2) by blast
  show "sd_slp d \<longrightarrow> ?p \<notin> idles n m" using assms p c by (auto simp: switches_def Let_def queue_of_def)
  have i: "inj_on (\<lambda>c. rq_idle (rqs m c)) {..<n}" using sh by (simp add: shape_def)
  have "rq_curr (rqs m x) \<noteq> nx" if x: "x < n" for x
  proof (cases "x = c")
    case False
    have "rq_curr (rqs m x) = rq_idle (rqs m x) \<or> rq_curr (rqs m x) \<in> queue_of n m x" using sh x by (auto simp: shape_def)
    with False nx x c i show ?thesis by (auto simp: queue_of_def idles_def dest: inj_onD)
  qed (use nx in simp)
  then show "nx \<notin> currs n m" by (auto simp: currs_def)
qed


lemma switched_fields:
  assumes "switches n c nx d r m"
  shows "rq_idle (rqs (switched c nx d r m) x) = rq_idle (rqs m x)" "wake_list (rqs (switched c nx d r m) x) = wake_list (rqs m x)"
    "rq_curr (rqs (switched c nx d r m) x) = (if x = c then nx else rq_curr (rqs m x))"
    "clampsys (switched c nx d r m) = clampsys m" "sched (tk (switched c nx d r m) x) = sched (tk m x)"
    "task_cpu (tk (switched c nx d r m) x) = task_cpu (tk m x)" "mm (tk (switched c nx d r m) x) = mm (tk m x)"
    "on_rq (tk (switched c nx d r m) x) = (if x = rq_curr (rqs m c) \<and> sd_slp d then NotQueued else on_rq (tk m x))"
    "x \<noteq> rq_curr (rqs m c) \<Longrightarrow> sched_contributes_to_load (tk (switched c nx d r m) x) = sched_contributes_to_load (tk m x)"
    "sched_contributes_to_load (tk (switched c nx d r m) (rq_curr (rqs m c))) = sd_load d"
    "in_iowait (psi (tk (switched c nx d r m) (rq_curr (rqs m c)))) = in_iowait (psi (tk m (rq_curr (rqs m c))))"
    "x \<noteq> rq_curr (rqs m c) \<Longrightarrow> x \<noteq> nx \<Longrightarrow> tk (switched c nx d r m) x = tk m x"
  using assms by (auto simp: switched_def switches_def Let_def)

lemma switched_sets:
  assumes "switches n c nx d r m"
  shows "idles n (switched c nx d r m) = idles n m" "currs n (switched c nx d r m) = insert nx (currs n m - {rq_curr (rqs m c)})"
    "waking (switched c nx d r m) = waking m"
    "queue_of n (switched c nx d r m) = (if sd_slp d then (queue_of n m)(c := queue_of n m c - {rq_curr (rqs m c)}) else queue_of n m)"
proof -
  let ?m = "switched c nx d r m" and ?p = "rq_curr (rqs m c)"
  note f = switched_fields [OF assms] and s = switches_facts [OF assms]
  have c: "c < n" using assms by (simp add: switches_def Let_def)
  show i: "idles n ?m = idles n m" by (simp add: idles_def f)
  show "currs n ?m = insert nx (currs n m - {?p})" using c s(6) by (force simp: currs_def f(3))
  show "waking ?m = waking m" using s(1,5) by (auto simp: waking_def f fun_eq_iff)
  show "queue_of n ?m = (if sd_slp d then (queue_of n m)(c := queue_of n m c - {?p}) else queue_of n m)"
    using s(1,2,7) by (auto simp: queue_of_def f i fun_eq_iff)
qed

lemma switched_shape:
  assumes "switches n c nx d r m"
  shows "shape n {} (switched c nx d r m)"
proof -
  let ?m = "switched c nx d r m" and ?p = "rq_curr (rqs m c)"
  note f = switched_fields [OF assms] and s = switches_facts [OF assms] and q = switched_sets [OF assms]
  have sh: "shape n {} m" and c: "c < n" and nx: "nx = rq_idle (rqs m c) \<or> nx \<in> queue_of n m c" "nx \<noteq> ?p"
    using assms by (auto simp: switches_def Let_def)
  have "\<not> (rq_idle (rqs m x) = ?p \<and> sd_slp d)" if "x < n" for x using s(7) that by (metis idles_def imageI lessThan_iff)
  then have "on_rq (tk ?m (rq_idle (rqs m x))) = OnRqQueued" if "x < n" for x
    using sh that by (simp add: shape_def f)
  moreover have "rq_curr (rqs ?m x) = rq_idle (rqs m x) \<or> rq_curr (rqs ?m x) \<in> queue_of n ?m x" if x: "x < n" for x
    using sh nx s(6) x unfolding f q(4) shape_def by auto
  moreover have "on_rq (tk ?m x) \<noteq> OnRqMigrating" "on_rq (tk ?m x) = OnRqQueued \<longrightarrow> on_rq (tk m x) = OnRqQueued" for x
    using sh by (auto simp: shape_def f)
  ultimately show ?thesis using sh unfolding shape_def q(3) f(1,2,4-7) by blast
qed

lemma switched_life:
  assumes "switches n c nx d r m" and "life_inv k n m"
    and "rq_curr (rqs m c) \<notin> idles n m \<Longrightarrow> life (psik k) (if sd_slp d then Asleep else Queued) (sd_prev_psi d)"
    and "nx \<notin> idles n m \<Longrightarrow> life (psik k) OnCpu (sd_next_psi d)"
  shows "life_inv k n (switched c nx d r m)"
  unfolding life_inv_def
proof (intro allI impI)
  let ?m = "switched c nx d r m" and ?p = "rq_curr (rqs m c)"
  note f = switched_fields [OF assms(1)] and s = switches_facts [OF assms(1)] and q = switched_sets [OF assms(1)]
  have nx: "nx \<noteq> ?p" using assms(1) by (simp add: switches_def Let_def)
  fix x assume x: "x \<notin> idles n ?m"
  consider "x = ?p" | "x = nx" | "x \<noteq> ?p" "x \<noteq> nx" by blast
  then show "life (psik k) (phase n ?m x) (psi (tk ?m x))"
  proof cases
    case 1
    then have "phase n ?m x = (if sd_slp d then Asleep else Queued)" using s(1,5) nx by (simp add: phase_def f q)
    moreover have "psi (tk ?m x) = sd_prev_psi d" using 1 nx by (simp add: switched_def Let_def)
    ultimately show ?thesis using assms(3) x 1 by (simp add: q)
  next
    case 2
    then have "phase n ?m x = OnCpu" using s(3) nx by (simp add: phase_def f q)
    moreover have "psi (tk ?m x) = sd_next_psi d" using 2 by (simp add: switched_def Let_def)
    ultimately show ?thesis using assms(4) x 2 by (simp add: q)
  next
    case 3
    then have "phase n ?m x = phase n m x" "psi (tk ?m x) = psi (tk m x)" by (simp_all add: phase_def f q)
    then show ?thesis using assms(2) x by (simp add: life_inv_def q)
  qed
qed

lemma card_with: "finite A \<Longrightarrow> t \<notin> A \<Longrightarrow> (of_nat (card (insert t A)) :: 'a :: ring_1) = of_nat (card A) + 1"
  by simp

lemma switched_counters:
  assumes sw: "switches n c nx d r m"
  shows "load_inv n m \<Longrightarrow> load_inv n (switched c nx d r m)" "io_inv away n m \<Longrightarrow> io_inv away n (switched c nx d r m)"
proof -
  let ?m = "switched c nx d r m" and ?p = "rq_curr (rqs m c)"
  note f = switched_fields [OF sw] and s = switches_facts [OF sw]
  have c: "c < n" and nx: "nx \<noteq> ?p" and r: "nr_uninterruptible r = nr_uninterruptible (rqs m c) + (if sd_slp d \<and> sd_load d then 1 else 0)"
      "nr_iowait r = nr_iowait (rqs m c) + (if sd_slp d \<and> in_iowait (psi (tk m ?p)) then 1 else 0)"
    using sw by (auto simp: switches_def Let_def)
  have as: "asleep ?m x \<longleftrightarrow> (if x = ?p then sd_slp d else asleep m x)" for x using s(1,5) by (auto simp: asleep_def f)
  have l: "loading ?m = (if sd_slp d \<and> sd_load d then insert ?p (loading m) else loading m)" "?p \<notin> loading m"
    using s(1) f(9,10) by (auto simp: loading_def as) (auto simp: asleep_def)
  have psi: "in_iowait (psi (tk ?m x)) = in_iowait (psi (tk m x))" if "asleep m x \<or> x = ?p" for x
    using that f(11,12) s(3) by (cases "x = nx"; cases "x = ?p") (auto simp: asleep_def)
  have w: "waiting away ?m x = (if x = c \<and> sd_slp d \<and> in_iowait (psi (tk m ?p)) then insert ?p (waiting away m x) else waiting away m x)"
      "?p \<notin> waiting away m x" for x
    using s psi by (auto simp: waiting_def as f(5,6)) (auto simp: asleep_def)
  show "load_inv n ?m" if "load_inv n m"
  proof -
    have fin: "finite (loading m)" and e: "(\<Sum>i < n. nr_uninterruptible (rqs m i)) = of_nat (card (loading m))"
      using that by (auto simp: load_inv_def)
    have "(\<Sum>i < n. nr_uninterruptible (rqs ?m i)) = (\<Sum>i < n. ((\<lambda>i. nr_uninterruptible (rqs m i))(c := nr_uninterruptible r)) i)"
      by (rule sum.cong) (auto simp: switched_def Let_def)
    also have "\<dots> = of_nat (card (loading m)) + (if sd_slp d \<and> sd_load d then 1 else 0)" unfolding sum_upd [OF c] e r by simp
    finally show ?thesis using fin l by (simp add: load_inv_def)
  qed
  show "io_inv away n ?m" if "io_inv away n m"
    using that r(2) w by (auto simp: io_inv_def switched_def Let_def)
qed


text \<open>What \<open>switch_mm\<close> and the end of the switch do to the address spaces and their references.\<close>

definition mm_switch :: "'q machine \<Rightarrow> nat \<Rightarrow> nat \<Rightarrow> switch_data \<Rightarrow> bool" where
  "mm_switch m prev nx d \<longleftrightarrow>
     (let a = active_mm (tk m prev); i = the a in
      (sd_next_mm d = (if mm (tk m nx) = None then a else active_mm (tk m nx)))
      \<and> (sd_prev_mm d = (if mm (tk m prev) = None then None else a))
      \<and> sd_count d = (mm_count m)(i := mm_count m i + (if mm (tk m nx) = None then 1 else 0) - (if mm (tk m prev) = None then 1 else 0)))"

lemma switched_mm:
  assumes sw: "switches n c nx d r m" and inv: "mm_inv owned n m" and d: "mm_switch m (rq_curr (rqs m c)) nx d"
  shows "mm_inv owned n (switched c nx d r m)"
proof -
  let ?m = "switched c nx d r m" and ?p = "rq_curr (rqs m c)"
  note f = switched_fields [OF sw] and s = switches_facts [OF sw]
  have c: "c < n" and nx: "nx \<noteq> ?p" and r: "prev_mm r = None" using sw by (auto simp: switches_def Let_def)
  obtain a where a: "active_mm (tk m ?p) = Some a" using inv c by (auto simp: mm_inv_def)
  have other: "tk ?m (rq_curr (rqs m x)) = tk m (rq_curr (rqs m x))" if "x < n" "x \<noteq> c" for x
    using s(4,6) that by (intro f(12)) (auto simp: currs_def)
  have n_mm: "active_mm (tk ?m nx) = (if mm (tk m nx) = None then Some a else active_mm (tk m nx))"
    and p_mm: "active_mm (tk ?m ?p) = (if mm (tk m ?p) = None then None else Some a)"
    and cnt: "mm_count ?m = (mm_count m)(a := mm_count m a + (if mm (tk m nx) = None then 1 else 0) - (if mm (tk m ?p) = None then 1 else 0))"
    using d nx by (simp_all add: mm_switch_def switched_def Let_def a)
  have cur: "active_mm (tk ?m (rq_curr (rqs ?m x))) \<noteq> None \<and> prev_mm (rqs ?m x) = None" if "x < n" for x
    using inv that other n_mm r by (cases "x = c") (auto simp: mm_inv_def f(3), auto simp: switched_def Let_def)
  have own: "mm (tk ?m t) \<noteq> None \<longrightarrow> active_mm (tk ?m t) = mm (tk ?m t)" for t
  proof -
    consider "t = ?p" | "t = nx" | "t \<noteq> ?p" "t \<noteq> nx" by blast
    then show ?thesis
      using inv a unfolding f(7) mm_inv_def by cases (auto simp: n_mm p_mm f(12))
  qed
  have b: "borrowers n ?m i = (if mm (tk m nx) = None \<and> i = a then insert c (borrowers n m i - {c}) else borrowers n m i - {c})" for i
    using c inv other n_mm by (auto simp: borrowers_def f(3,7) mm_inv_def split: if_splits)
  have bc: "c \<in> borrowers n m i \<longleftrightarrow> mm (tk m ?p) = None \<and> i = a" for i using c a by (auto simp: borrowers_def)
  have fin: "finite (borrowers n m i)" for i by (simp add: borrowers_def)
  have "mm_count ?m i = owned i + int (card (borrowers n ?m i))" for i
    unfolding b using inv card_without [OF fin, of i c, where 'a = int] fin bc by (auto simp: cnt mm_inv_def insert_absorb)
  with cur own show ?thesis by (simp add: mm_inv_def)
qed

lemma switched_inv:
  assumes inv: "machine_inv k queued owned n {} away m" and sw: "switches n c nx d r m"
    and q: "queue_inv k queued n (if sd_slp d then (queue_of n m)(c := queue_of n m c - {rq_curr (rqs m c)}) else queue_of n m) (switched c nx d r m)"
    and req: "same_request (sd_clamp d) (clamp (tk m (rq_curr (rqs m c))))"
    and "rq_curr (rqs m c) \<notin> idles n m \<Longrightarrow> life (psik k) (if sd_slp d then Asleep else Queued) (sd_prev_psi d)"
    and "nx \<notin> idles n m \<Longrightarrow> life (psik k) OnCpu (sd_next_psi d)"
    and "mm_switch m (rq_curr (rqs m c)) nx d"
  shows "machine_inv k queued owned n {} away (switched c nx d r m)"
proof -
  have "ok_request (clampsys m) (tk (switched c nx d r m) x)" for x
    using inv req by (auto simp: machine_inv_def switched_def Let_def ok_request_def ok_task_def same_request_def)
  then show ?thesis
    using inv switched_shape [OF sw] q switched_life [OF sw _ assms(5,6)] switched_counters [OF sw] switched_mm [OF sw _ assms(7)]
    unfolding machine_inv_def switched_sets(4) [OF sw] switched_fields(4) [OF sw] by blast
qed


section \<open>The main function\<close>

lemma switch_info_cls [simp]: "cls (snd (sched_info_switch b i p nx r ts) x) = cls (ts x)"
    "state (snd (sched_info_switch b i p nx r ts) x) = state (ts x)" "prio (snd (sched_info_switch b i p nx r ts) x) = prio (ts x)"
  by (auto simp: sched_info_switch_def sched_info_switch_on_def sched_info_depart_def sched_info_arrive_def sched_info_queued_def
    sched_info_reset_dequeued_def Let_def split: prod.splits)

lemma quiet_prepare: "quiet queued m (prepare_task_switch k c prev nx m)"
  by (simp add: prepare_task_switch_def upd_rq_def quiet_def tcore_def rcore_def case_prod_beta)

lemma finish_switch:
  assumes "class_contract k queued"
  shows "quiet queued (upd_rq c (\<lambda>r. r\<lparr>prev_mm := None\<rparr>) (case prev_mm (rqs m c) of None \<Rightarrow> m | Some i \<Rightarrow> mmdrop i m))
    (finish_task_switch k report c prev m)"
  using assms by (auto simp: finish_task_switch_def mmdrop_def upd_rq_def quiet_def tcore_def rcore_def class_contract_def Let_def
    split: option.splits)

lemma quiet_clear: "quiet queued m (clear_skip k c m)"
  unfolding clear_skip_def by (rule quiet_flags)

text \<open>The address spaces, from before to after the switch.\<close>

definition mm_moved :: "nat \<Rightarrow> nat \<Rightarrow> nat \<Rightarrow> 'q machine \<Rightarrow> 'q machine" where
  "mm_moved prev nx a m =
     m\<lparr>tk := (tk m)(prev := (tk m prev)\<lparr>active_mm := (if mm (tk m prev) = None then None else Some a)\<rparr>,
         nx := (tk m nx)\<lparr>active_mm := (if mm (tk m nx) = None then Some a else active_mm (tk m nx))\<rparr>),
       mm_count := (mm_count m)(a := mm_count m a + (if mm (tk m nx) = None then 1 else 0) - (if mm (tk m prev) = None then 1 else 0))\<rparr>"

abbreviation mm_dropped :: "nat \<Rightarrow> 'q machine \<Rightarrow> 'q machine" where
  "mm_dropped c m \<equiv> upd_rq c (\<lambda>r. r\<lparr>prev_mm := None\<rparr>) (case prev_mm (rqs m c) of None \<Rightarrow> m | Some i \<Rightarrow> mmdrop i m)"

lemma switch_mm_moved:
  assumes a: "active_mm (tk m prev) = Some a" and p: "prev \<noteq> nx" and pm: "prev_mm (rqs m c) = None"
  shows "\<exists>m1. switch_mm c prev nx m = Inr m1 \<and> quiet queued (mm_moved prev nx a m) (mm_dropped c m1)"
proof (cases "mm (tk m nx)")
  case None
  let ?m1 = "upd_tk nx (\<lambda>p. p\<lparr>active_mm := Some a\<rparr>) m"
  show ?thesis
  proof (cases "mm (tk m prev)")
    case N: None
    have "switch_mm c prev nx m = Inr (upd_tk prev (\<lambda>p. p\<lparr>active_mm := None\<rparr>) ?m1)"
      using None N a p by (simp add: switch_mm_def Let_def upd_tk_def)
    with None N a p pm show ?thesis by (simp add: mm_moved_def upd_tk_def upd_rq_def quiet_def tcore_def rcore_def)
  next
    case (Some b)
    have "switch_mm c prev nx m = Inr (?m1\<lparr>mm_count := (mm_count m)(a := mm_count m a + 1)\<rparr>)"
      using None Some a p by (simp add: switch_mm_def mmgrab_def Let_def upd_tk_def)
    with None Some a p pm show ?thesis by (simp add: mm_moved_def upd_tk_def upd_rq_def quiet_def tcore_def rcore_def)
  qed
next
  case S: (Some i)
  show ?thesis
  proof (cases "mm (tk m prev)")
    case N: None
    have "switch_mm c prev nx m = Inr (upd_tk prev (\<lambda>p. p\<lparr>active_mm := None\<rparr>) (upd_rq c (\<lambda>r. r\<lparr>prev_mm := Some a\<rparr>) m))"
      using S N a by (simp add: switch_mm_def Let_def)
    with S N a p pm show ?thesis by (simp add: mm_moved_def mmdrop_def upd_tk_def upd_rq_def quiet_def tcore_def rcore_def)
  next
    case (Some b)
    have "switch_mm c prev nx m = Inr m" using S Some by (simp add: switch_mm_def)
    with S Some a p pm show ?thesis by (simp add: mm_moved_def upd_rq_def quiet_def tcore_def rcore_def)
  qed
qed

lemma context_switch_quiet:
  assumes con: "class_contract k queued" and a: "active_mm (tk m prev) = Some a" and "prev \<noteq> nx" and pm: "prev_mm (rqs m c) = None"
  shows "\<exists>m'. context_switch k report c prev nx m = Inr m' \<and> quiet queued (mm_moved prev nx a m) m'"
proof -
  let ?m = "prepare_task_switch k c prev nx m"
  have p: "quiet queued m ?m" by (rule quiet_prepare)
  have pt: "tcore (tk ?m x) = tcore (tk m x)" "rcore queued (rqs ?m y) = rcore queued (rqs m y)" "mm_count ?m = mm_count m" for x y
    using p by (simp_all add: quiet_def)
  have pf: "mm (tk ?m x) = mm (tk m x)" "active_mm (tk ?m x) = active_mm (tk m x)" "prev_mm (rqs ?m y) = prev_mm (rqs m y)" for x y
    using pt(1) [of x] pt(2) [of y] by (simp_all add: tcore_def rcore_def)
  obtain m1 where m1: "switch_mm c prev nx ?m = Inr m1" and "quiet queued (mm_moved prev nx a ?m) (mm_dropped c m1)"
    using switch_mm_moved [of ?m prev a nx c queued] a pm assms(3) by (auto simp: pf)
  note this(2)
  moreover have "quiet queued (mm_dropped c m1) (mm_dropped c (clear_skip k c m1))"
    by (auto simp: clear_skip_def upd_rq_def mmdrop_def quiet_def tcore_def rcore_def split: option.splits)
  moreover have "quiet queued (mm_moved prev nx a m) (mm_moved prev nx a ?m)"
    using p pf by (auto simp: mm_moved_def quiet_def tcore_def)
  moreover note finish_switch [OF con, of c "clear_skip k c m1" report prev]
  ultimately have "quiet queued (mm_moved prev nx a m) (finish_task_switch k report c prev (clear_skip k c m1))"
    by (blast intro: quiet_trans)
  with m1 show ?thesis by (simp add: context_switch_def)
qed


definition told :: "'q kernel \<Rightarrow> nat \<Rightarrow> nat \<Rightarrow> nat \<Rightarrow> 'q machine \<Rightarrow> 'q machine" where
  "told k c prev nx m =
     (let S = psi_sched_switch (psik k) (psi (tk m prev)) (psi (tk m nx)) (on_rq (tk m prev) \<noteq> OnRqQueued) in
      m\<lparr>tk := (tk m)(prev := (tk m prev)\<lparr>psi := fst S\<rparr>, nx := (tk m nx)\<lparr>psi := snd S\<rparr>),
        rqs := (rqs m)(c := (rqs m c)\<lparr>rq_curr := nx\<rparr>)\<rparr>)"

lemma quiet_moved: "quiet queued m m' \<Longrightarrow> quiet queued (mm_moved prev nx a m) (mm_moved prev nx a m')"
  by (auto simp: mm_moved_def quiet_def tcore_def)

lemma schedule_switch_quiet:
  assumes con: "class_contract k queued" and a: "active_mm (tk m prev) = Some a" and p: "prev \<noteq> nx" and pm: "prev_mm (rqs m c) = None"
  shows "\<exists>m'. schedule_switch k report c prev nx vol m = Inr m' \<and> quiet queued (mm_moved prev nx a (told k c prev nx m)) m'"
proof -
  obtain x y where S: "psi_sched_switch (psik k) (psi (tk m prev)) (psi (tk m nx)) (on_rq (tk m prev) \<noteq> OnRqQueued) = (x, y)" by fastforce
  define m3 where "m3 = upd_tk nx (\<lambda>p. p\<lparr>psi := y\<rparr>) (upd_tk prev (\<lambda>p. p\<lparr>psi := x\<rparr>)
    (upd_tk prev (\<lambda>p. if vol then p\<lparr>nvcsw := nvcsw p + 1\<rparr> else p\<lparr>nivcsw := nivcsw p + 1\<rparr>)
      (upd_rq c (\<lambda>r. r\<lparr>nr_switches := nr_switches r + 1, rq_curr := nx\<rparr>) m)))"
  have run: "schedule_switch k report c prev nx vol m = context_switch k report c prev nx m3"
    using S p by (simp add: schedule_switch_def m3_def upd_tk_def upd_rq_def)
  have "active_mm (tk m3 prev) = Some a" "prev_mm (rqs m3 c) = None" using a p pm by (simp_all add: m3_def upd_tk_def upd_rq_def)
  then obtain m' where m': "context_switch k report c prev nx m3 = Inr m'" "quiet queued (mm_moved prev nx a m3) m'"
    using context_switch_quiet [OF con _ p] by blast
  have "quiet queued (told k c prev nx m) m3"
    using S p by (simp add: told_def m3_def upd_tk_def upd_rq_def quiet_def tcore_def rcore_def)
  from quiet_trans [OF quiet_moved [OF this] m'(2)] m'(1) run show ?thesis by auto
qed

text \<open>A task that goes on: it is preempted, or a signal keeps it from sleeping.\<close>

lemma told_mm: "mm (tk (told k c prev nx m) x) = mm (tk m x)" "active_mm (tk (told k c prev nx m) x) = active_mm (tk m x)"
    "mm_count (told k c prev nx m) = mm_count m"
  by (simp_all add: told_def Let_def)

lemma in_iowait_switch: "psi_contract k \<Longrightarrow> in_iowait (fst (psi_sched_switch k p q b)) = in_iowait p"
  by (simp add: psi_sched_switch_def psi_contract_def)

lemma schedule_awake:
  assumes con: "class_contract k queued" and pc: "psi_contract (psik k)" and inv: "machine_inv k queued owned n {} away m" and c: "c < n"
    and nx: "nx = rq_idle (rqs m c) \<or> nx \<in> queue_of n m c" "nx \<noteq> rq_curr (rqs m c)"
  shows "\<exists>m'. schedule_switch k report c (rq_curr (rqs m c)) nx vol m = Inr m' \<and> machine_inv k queued owned n {} away m'
    \<and> (\<forall>x. sched_remote_wakeup (tk m' x) = sched_remote_wakeup (tk m x)) \<and> rq_curr (rqs m' c) = nx"
proof -
  let ?p = "rq_curr (rqs m c)"
  let ?S = "psi_sched_switch (psik k) (psi (tk m ?p)) (psi (tk m nx)) False"
  have sh: "shape n {} m" and mmi: "mm_inv owned n m" using inv by (auto simp: machine_inv_def)
  have on: "on_rq (tk m ?p) = OnRqQueued" using sh c by (auto simp: shape_def queue_of_def)
  obtain a where a: "active_mm (tk m ?p) = Some a" "prev_mm (rqs m c) = None" using mmi c by (auto simp: mm_inv_def)
  obtain m' where m': "schedule_switch k report c ?p nx vol m = Inr m'" "quiet queued (mm_moved ?p nx a (told k c ?p nx m)) m'"
    using schedule_switch_quiet [OF con a(1) nx(2) [symmetric] a(2)] by blast
  define d where "d = \<lparr>sd_slp = False, sd_load = sched_contributes_to_load (tk m ?p), sd_clamp = clamp (tk m ?p),
    sd_prev_psi = fst ?S, sd_next_psi = snd ?S, sd_prev_mm = (if mm (tk m ?p) = None then None else Some a),
    sd_next_mm = (if mm (tk m nx) = None then Some a else active_mm (tk m nx)),
    sd_count = (mm_count m)(a := mm_count m a + (if mm (tk m nx) = None then 1 else 0) - (if mm (tk m ?p) = None then 1 else 0))\<rparr>"
  let ?r = "(rqs m c)\<lparr>rq_curr := nx\<rparr>"
  let ?Y = "switched c nx d ?r m"
  have quiet: "quiet queued ?Y m'"
    by (rule quiet_trans [OF _ m'(2)]) (use on nx(2) in \<open>auto simp: mm_moved_def told_def switched_def d_def Let_def quiet_def tcore_def rcore_def\<close>)
  have sw: "switches n c nx d ?r m"
    using sh c nx a(2) in_iowait_switch [OF pc] by (simp add: switches_def d_def Let_def)
  note f = switches_facts [OF sw]
  have slp: "sd_slp d = False" by (simp add: d_def)
  have "machine_inv k queued owned n {} away ?Y"
  proof (rule switched_inv [OF inv sw])
    show "queue_inv k queued n (if sd_slp d then (queue_of n m)(c := queue_of n m c - {?p}) else queue_of n m) ?Y"
      unfolding slp if_False by (rule queue_inv_cong [of _ _ _ _ m]) (use inv in \<open>auto simp: machine_inv_def switched_def d_def Let_def\<close>)
    show "same_request (sd_clamp d) (clamp (tk m ?p))" by (simp add: d_def same_request_def)
    show "life (psik k) (if sd_slp d then Asleep else Queued) (sd_prev_psi d)" if "?p \<notin> idles n m"
    proof -
      have "life (psik k) OnCpu (psi (tk m ?p))" using inv that f(1) c by (auto simp: machine_inv_def life_inv_def phase_def currs_def split: if_splits)
      then show ?thesis by (simp add: d_def life.preempt)
    qed
    show "life (psik k) OnCpu (sd_next_psi d)" if "nx \<notin> idles n m"
    proof -
      have "life (psik k) Queued (psi (tk m nx))" using inv that f(3,4) by (auto simp: machine_inv_def life_inv_def phase_def split: if_splits)
      then show ?thesis by (simp add: d_def life.switch_in)
    qed
    show "mm_switch m ?p nx d" by (simp add: mm_switch_def d_def a Let_def)
  qed
  from quiet_inv [OF quiet this] have "machine_inv k queued owned n {} away m'" .
  moreover have "\<forall>x. sched_remote_wakeup (tk m' x) = sched_remote_wakeup (tk m x)" "rq_curr (rqs m' c) = nx"
    using quiet by (auto simp: quiet_def tcore_def rcore_def switched_def Let_def)
  ultimately show ?thesis using m'(1) by blast
qed


text \<open>A task that goes to sleep: it leaves the run queue before the next one is chosen.\<close>

definition blocked :: "'q kernel \<Rightarrow> nat \<Rightarrow> clamp_task \<Rightarrow> clamp_rq \<Rightarrow> 'q \<Rightarrow> 'q machine \<Rightarrow> 'q machine" where
  "blocked k c ct cr q m =
     (let p = rq_curr (rqs m c) in
      m\<lparr>tk := (tk m)(p := (tk m p)\<lparr>sched_contributes_to_load := contributes (tk m p), on_rq := NotQueued,
          psi := psi_dequeue (psik k) (psi (tk m p)) True, clamp := ct\<rparr>),
        rqs := (rqs m)(c := (rqs m c)\<lparr>
          nr_uninterruptible := nr_uninterruptible (rqs m c) + (if contributes (tk m p) then 1 else 0),
          nr_iowait := nr_iowait (rqs m c) + (if in_iowait (psi (tk m p)) then 1 else 0), clamps := cr, classq := q\<rparr>)\<rparr>)"

lemma schedule_block_sleep:
  assumes con: "class_contract k queued" and fl: "flags_contract k" and pc: "psi_contract (psik k)"
    and inv: "machine_inv k queued owned n {} away m" and c: "c < n" and p: "p = rq_curr (rqs m c)" "p \<in> queue_of n m c" and st: "state (sched (tk m p)) \<noteq> 0"
  shows "\<exists>m2 ct cr q. schedule_block k c p False False m = Inr m2 \<and> quiet queued (blocked k c ct cr q m) m2
    \<and> queue_inv k queued n ((queue_of n m)(c := queue_of n m c - {p})) (blocked k c ct cr q m) \<and> same_request ct (clamp (tk m p))"
proof -
  let ?f = "DEQUEUE_SLEEP k OR DEQUEUE_NOCLOCK k" and ?b = "contributes (tk m p)"
  have ff: "?f AND DEQUEUE_NOCLOCK k \<noteq> 0" "?f AND DEQUEUE_SAVE k = 0" "?f AND DEQUEUE_SLEEP k \<noteq> 0" using fl by (simp_all add: flags_contract_def)
  define m1 where "m1 = upd_tk p (\<lambda>p. p\<lparr>on_rq := NotQueued\<rparr>)
    (let m' = upd_tk p (\<lambda>p. p\<lparr>sched_contributes_to_load := ?b\<rparr>) m in
     if ?b then upd_rq c (\<lambda>r. r\<lparr>nr_uninterruptible := nr_uninterruptible r + 1\<rparr>) m' else m')"
  have q1: "queue_inv k queued n (queue_of n m) m1"
    by (rule queue_inv_cong [of _ _ _ _ m]) (use inv in \<open>auto simp: machine_inv_def m1_def upd_tk_def upd_rq_def Let_def\<close>)
  have s1: "clampsys m1 = clampsys m" "clamp (tk m1 p) = clamp (tk m p)" by (simp_all add: m1_def upd_tk_def upd_rq_def Let_def)
  have o: "\<forall>c' < n. c' \<noteq> c \<longrightarrow> p \<notin> queue_of n m c'" using p(2) by (auto simp: queue_of_def)
  obtain ct cr q where d: "dequeue_task k c p ?f m1 = Inr (dequeued k c p ?f ct cr q m1)"
      "queue_inv k queued n ((queue_of n m)(c := queue_of n m c - {p})) (dequeued k c p ?f ct cr q m1)" "same_request ct (clamp (tk m p))"
    using dequeue_inv [OF con _ q1 c p(2) o, of ?f] inv s1 by (auto simp: machine_inv_def)
  let ?m3 = "dequeued k c p ?f ct cr q m1"
  define m2 where "m2 = (if in_iowait (psi (tk ?m3 p)) then upd_rq c (\<lambda>r. r\<lparr>nr_iowait := nr_iowait r + 1\<rparr>) ?m3 else ?m3)"
  have run: "schedule_block k c p False False m = Inr m2"
    using d(1) ff st by (simp add: schedule_block_def deactivate_task_def m2_def m1_def Let_def)
  have io: "in_iowait (psi (tk ?m3 p)) = in_iowait (psi (tk m p))"
    using ff in_iowait_psi [OF pc] by (simp add: dequeued_def m1_def upd_tk_def upd_rq_def Let_def)
  have "quiet queued (blocked k c ct cr q m) m2"
    using ff p(1) unfolding m2_def io by (simp add: blocked_def dequeued_def m1_def upd_tk_def upd_rq_def Let_def quiet_def tcore_def rcore_def)
  moreover have "queue_inv k queued n ((queue_of n m)(c := queue_of n m c - {p})) (blocked k c ct cr q m)"
    by (rule queue_inv_cong [OF d(2)]) (use p(1) in \<open>auto simp: blocked_def dequeued_def m1_def upd_tk_def upd_rq_def Let_def\<close>)
  ultimately show ?thesis using run d(3) by blast
qed

lemma schedule_asleep:
  assumes con: "class_contract k queued" and pc: "psi_contract (psik k)"
    and inv: "machine_inv k queued owned n {} away m" and c: "c < n" and p: "rq_curr (rqs m c) \<in> queue_of n m c"
    and q: "queue_inv k queued n ((queue_of n m)(c := queue_of n m c - {rq_curr (rqs m c)})) (blocked k c ct cr q m)"
    and req: "same_request ct (clamp (tk m (rq_curr (rqs m c))))"
    and m3: "quiet queued (blocked k c ct cr q m) m3" and nx: "nx = rq_idle (rqs m c) \<or> nx \<in> queue_of n m c - {rq_curr (rqs m c)}"
  shows "\<exists>m'. schedule_switch k report c (rq_curr (rqs m c)) nx vol m3 = Inr m' \<and> machine_inv k queued owned n {} away m'
    \<and> (\<forall>x. sched_remote_wakeup (tk m' x) = sched_remote_wakeup (tk m x)) \<and> rq_curr (rqs m' c) = nx"
proof -
  let ?p = "rq_curr (rqs m c)" and ?B = "blocked k c ct cr q m"
  let ?S = "psi_sched_switch (psik k) (psi_dequeue (psik k) (psi (tk m ?p)) True) (psi (tk m nx)) True"
  have sh: "shape n {} m" and mmi: "mm_inv owned n m" using inv by (auto simp: machine_inv_def)
  have ni: "?p \<noteq> rq_idle (rqs m c)" using p c by (auto simp: queue_of_def idles_def)
  then have np: "?p \<noteq> nx" using nx by auto
  obtain a where a: "active_mm (tk m ?p) = Some a" "prev_mm (rqs m c) = None" using mmi c by (auto simp: mm_inv_def)
  have eq3: "tcore (tk m3 x) = tcore (tk ?B x)" "rcore queued (rqs m3 y) = rcore queued (rqs ?B y)" for x y using m3 by (simp_all add: quiet_def)
  have a3: "active_mm (tk m3 ?p) = Some a" "prev_mm (rqs m3 c) = None"
    using eq3(1) [of ?p] eq3(2) [of c] a by (simp_all add: tcore_def rcore_def blocked_def Let_def)
  obtain m' where m': "schedule_switch k report c ?p nx vol m3 = Inr m'" "quiet queued (mm_moved ?p nx a (told k c ?p nx m3)) m'"
    using schedule_switch_quiet [OF con a3(1) np a3(2)] by blast
  define d where "d = \<lparr>sd_slp = True, sd_load = contributes (tk m ?p), sd_clamp = ct,
    sd_prev_psi = fst ?S, sd_next_psi = snd ?S, sd_prev_mm = (if mm (tk m ?p) = None then None else Some a),
    sd_next_mm = (if mm (tk m nx) = None then Some a else active_mm (tk m nx)),
    sd_count = (mm_count m)(a := mm_count m a + (if mm (tk m nx) = None then 1 else 0) - (if mm (tk m ?p) = None then 1 else 0))\<rparr>"
  let ?r = "(rqs ?B c)\<lparr>rq_curr := nx\<rparr>"
  let ?Y = "switched c nx d ?r m"
  have "quiet queued (told k c ?p nx ?B) (told k c ?p nx m3)"
    using m3 by (auto simp: told_def quiet_def tcore_def rcore_def Let_def)
  moreover have "quiet queued ?Y (mm_moved ?p nx a (told k c ?p nx ?B))"
    using np by (auto simp: mm_moved_def told_def switched_def blocked_def d_def Let_def quiet_def tcore_def rcore_def)
  ultimately have quiet: "quiet queued ?Y m'" using m'(2) by (blast intro: quiet_trans quiet_moved)
  have sw: "switches n c nx d ?r m"
    using sh c nx ni np a(2) in_iowait_switch [OF pc] in_iowait_psi [OF pc] by (auto simp: switches_def d_def blocked_def Let_def)
  note f = switches_facts [OF sw]
  have slp: "sd_slp d = True" by (simp add: d_def)
  have "machine_inv k queued owned n {} away ?Y"
  proof (rule switched_inv [OF inv sw])
    show "queue_inv k queued n (if sd_slp d then (queue_of n m)(c := queue_of n m c - {?p}) else queue_of n m) ?Y"
      unfolding slp if_True by (rule queue_inv_cong [OF q]) (use np in \<open>auto simp: switched_def blocked_def d_def Let_def\<close>)
    show "same_request (sd_clamp d) (clamp (tk m ?p))" using req by (simp add: d_def)
    show "life (psik k) (if sd_slp d then Asleep else Queued) (sd_prev_psi d)" if "?p \<notin> idles n m"
    proof -
      have "life (psik k) OnCpu (psi (tk m ?p))" using inv that f(1) c by (auto simp: machine_inv_def life_inv_def phase_def currs_def split: if_splits)
      then show ?thesis by (simp add: d_def life.sleep)
    qed
    show "life (psik k) OnCpu (sd_next_psi d)" if "nx \<notin> idles n m"
    proof -
      have "life (psik k) Queued (psi (tk m nx))" using inv that f(3,4) by (auto simp: machine_inv_def life_inv_def phase_def split: if_splits)
      then show ?thesis by (simp add: d_def life.switch_in)
    qed
    show "mm_switch m ?p nx d" by (simp add: mm_switch_def d_def a Let_def)
  qed
  from quiet_inv [OF quiet this] have "machine_inv k queued owned n {} away m'" .
  moreover have "\<forall>x. sched_remote_wakeup (tk m' x) = sched_remote_wakeup (tk m x)" "rq_curr (rqs m' c) = nx"
    using quiet by (auto simp: quiet_def tcore_def rcore_def switched_def Let_def)
  ultimately show ?thesis using m'(1) by blast
qed


lemma pick_steady:
  assumes "class_contract k queued" and "queued (classq (rqs m c)) = B"
  shows "\<exists>q nx. pick_next_task k x prev (rq_idle (rqs m c)) (classq (rqs m c)) = Inr (q, nx)
    \<and> queued q = B \<and> (nx = rq_idle (rqs m c) \<or> nx \<in> B)"
  using pick_next_queued [OF assms(1), of x prev "rq_idle (rqs m c)" "classq (rqs m c)"] assms(2) by auto

lemma quiet_pick: "queued q = queued (classq (rqs m c)) \<Longrightarrow> quiet queued m (upd_tk t (\<lambda>p. p\<lparr>need_resched := False\<rparr>) (upd_rq c (\<lambda>r. r\<lparr>classq := q\<rparr>) m))"
  by (simp add: upd_tk_def upd_rq_def quiet_def tcore_def rcore_def)

lemma quiet_queue_of: "quiet queued m m' \<Longrightarrow> queue_of n m' = queue_of n m"
  by (simp add: queue_of_def idles_def quiet_def tcore_def rcore_def fun_eq_iff)

text \<open>The clock on entry; then the two ways on.\<close>

definition entered :: "'q kernel \<Rightarrow> nat \<Rightarrow> 'q machine \<Rightarrow> 'q machine" where
  "entered k c m = update_rq_clock k c (upd_rq c (\<lambda>r. r\<lparr>clock_update_flags := push_bit 1 (clock_update_flags r)\<rparr>) m)"

lemma entered_simps [simp]: "tk (entered k c m) = tk m" "rq_curr (rqs (entered k c m) x) = rq_curr (rqs m x)"
  by (simp_all add: entered_def update_rq_clock_eq upd_rq_def)

lemma quiet_entered: "quiet queued m (entered k c m)"
  unfolding entered_def by (rule quiet_trans [OF quiet_flags quiet_clock])

definition goes_on ::
  "'q kernel \<Rightarrow> (int \<Rightarrow> int \<Rightarrow> task_struct \<Rightarrow> string list) \<Rightarrow> nat \<Rightarrow> nat \<Rightarrow> bool \<Rightarrow> 'q machine \<Rightarrow> 'q machine res" where
  "goes_on k report c p vol m2 =
     bindR (pick_next_task k (cls_of m2 p) p (rq_idle (rqs m2 c)) (classq (rqs m2 c))) (\<lambda>(q, nx).
       let m3 = upd_tk p (\<lambda>p. p\<lparr>need_resched := False\<rparr>) (upd_rq c (\<lambda>r. r\<lparr>classq := q\<rparr>) m2)
       in if p \<noteq> nx then schedule_switch k report c p nx vol m3 else Inr (clear_skip k c m3))"

lemma schedule_cpu_eq:
  "schedule_cpu k report c preempt sig m =
     bindR (schedule_block k c (rq_curr (rqs m c)) preempt sig (entered k c m))
       (goes_on k report c (rq_curr (rqs m c)) (\<not> preempt \<and> state (sched (tk m (rq_curr (rqs m c)))) \<noteq> 0))"
  unfolding schedule_cpu_def goes_on_def Let_def entered_def [symmetric] entered_simps by (rule refl)

lemma goes_on_asleep:
  assumes con: "class_contract k queued" and fl: "flags_contract k" and pc: "psi_contract (psik k)"
    and inv: "machine_inv k queued owned n {} away m" and c: "c < n" and st: "state (sched (tk m (rq_curr (rqs m c)))) \<noteq> 0"
  shows "\<exists>m'. bindR (schedule_block k c (rq_curr (rqs m c)) False False m) (goes_on k report c (rq_curr (rqs m c)) vol) = Inr m'
    \<and> machine_inv k queued owned n {} away m' \<and> (\<forall>x. sched_remote_wakeup (tk m' x) = sched_remote_wakeup (tk m x))
    \<and> rq_curr (rqs m' c) \<noteq> rq_curr (rqs m c)"
proof -
  let ?p = "rq_curr (rqs m c)"
  have sh: "shape n {} m" using inv by (simp add: machine_inv_def)
  have "?p = rq_idle (rqs m c) \<or> ?p \<in> queue_of n m c" "state (sched (tk m (rq_idle (rqs m c)))) = 0"
    using sh c by (auto simp: shape_def TASK_RUNNING_def)
  then have pq: "?p \<in> queue_of n m c" using st by metis
  obtain m2 ct cr q0 where b: "schedule_block k c ?p False False m = Inr m2" "quiet queued (blocked k c ct cr q0 m) m2"
      "queue_inv k queued n ((queue_of n m)(c := queue_of n m c - {?p})) (blocked k c ct cr q0 m)" "same_request ct (clamp (tk m ?p))"
    using schedule_block_sleep [OF con fl pc inv c refl pq st] by blast
  have idle: "rq_idle (rqs m2 c) = rq_idle (rqs m c)" "queued (classq (rqs m2 c)) = queue_of n m c - {?p}"
    using b(2,3) c by (auto simp: quiet_def rcore_def blocked_def queue_inv_def Let_def)
  obtain q nx where pick: "pick_next_task k (cls_of m2 ?p) ?p (rq_idle (rqs m2 c)) (classq (rqs m2 c)) = Inr (q, nx)"
      "queued q = queue_of n m c - {?p}" "nx = rq_idle (rqs m c) \<or> nx \<in> queue_of n m c - {?p}"
    using pick_steady [OF con idle(2)] idle(1) by metis
  let ?m3 = "upd_tk ?p (\<lambda>p. p\<lparr>need_resched := False\<rparr>) (upd_rq c (\<lambda>r. r\<lparr>classq := q\<rparr>) m2)"
  have q3: "quiet queued (blocked k c ct cr q0 m) ?m3"
    by (rule quiet_trans [OF b(2) quiet_pick]) (simp add: pick(2) idle(2))
  have np: "?p \<noteq> nx" using pick(3) pq c by (auto simp: queue_of_def idles_def)
  from schedule_asleep [OF con pc inv c pq b(3,4) q3 pick(3), of report vol]
  obtain m' where m': "schedule_switch k report c ?p nx vol ?m3 = Inr m'" "machine_inv k queued owned n {} away m'"
      "\<forall>x. sched_remote_wakeup (tk m' x) = sched_remote_wakeup (tk m x)" "rq_curr (rqs m' c) = nx" by blast
  have "bindR (schedule_block k c ?p False False m) (goes_on k report c ?p vol) = Inr m'"
    using b(1) pick(1) np m'(1) by (simp add: goes_on_def Let_def)
  with m'(2-4) np show ?thesis by auto
qed

lemma goes_on_awake:
  assumes con: "class_contract k queued" and pc: "psi_contract (psik k)"
    and inv: "machine_inv k queued owned n {} away m" and c: "c < n" and p: "rq_curr (rqs m c) = p"
  shows "\<exists>m'. goes_on k report c p vol m = Inr m' \<and> machine_inv k queued owned n {} away m'
    \<and> (\<forall>x. sched_remote_wakeup (tk m' x) = sched_remote_wakeup (tk m x))"
proof -
  have Q: "queued (classq (rqs m c)) = queue_of n m c" using inv c by (simp add: machine_inv_def queue_inv_def)
  from pick_steady [OF con this, of "cls_of m p" p] obtain q nx where
    pick: "pick_next_task k (cls_of m p) p (rq_idle (rqs m c)) (classq (rqs m c)) = Inr (q, nx)"
      "queued q = queued (classq (rqs m c))" "nx = rq_idle (rqs m c) \<or> nx \<in> queue_of n m c"
    using Q by auto
  let ?m3 = "upd_tk p (\<lambda>p. p\<lparr>need_resched := False\<rparr>) (upd_rq c (\<lambda>r. r\<lparr>classq := q\<rparr>) m)"
  have i3: "machine_inv k queued owned n {} away ?m3" by (rule quiet_inv [OF quiet_pick [OF pick(2)] inv])
  have f3: "rq_curr (rqs ?m3 c) = p" "rq_idle (rqs ?m3 c) = rq_idle (rqs m c)" "queue_of n ?m3 = queue_of n m"
      "sched_remote_wakeup (tk ?m3 x) = sched_remote_wakeup (tk m x)" for x
    using p quiet_queue_of [OF quiet_pick [OF pick(2)], of n p] by (simp_all add: upd_tk_def upd_rq_def)
  show ?thesis
  proof (cases "p = nx")
    case True
    have "machine_inv k queued owned n {} away (clear_skip k c ?m3)" by (rule quiet_inv [OF quiet_clear i3])
    with pick(1) True show ?thesis by (simp add: goes_on_def Let_def) (simp add: clear_skip_def upd_tk_def upd_rq_def)
  next
    case np: False
    from schedule_awake [OF con pc i3 c, unfolded f3(1-3), OF pick(3) np [symmetric], of report vol]
    obtain m' where m': "schedule_switch k report c p nx vol ?m3 = Inr m'" "machine_inv k queued owned n {} away m'"
        "\<forall>x. sched_remote_wakeup (tk m' x) = sched_remote_wakeup (tk m x)" unfolding f3(4) by blast
    have "goes_on k report c p vol m = Inr m'" using pick(1) np m'(1) by (simp add: goes_on_def Let_def)
    with m'(2,3) show ?thesis by blast
  qed
qed

lemma schedule_cpu_inv:
  assumes con: "class_contract k queued" and fl: "flags_contract k" and pc: "psi_contract (psik k)"
    and inv: "steady k queued owned n m" and c: "c < n"
  shows "\<exists>m'. schedule_cpu k report c preempt sig m = Inr m' \<and> steady k queued owned n m'
    \<and> (\<not> preempt \<and> \<not> sig \<and> state (sched (tk m (rq_curr (rqs m c)))) \<noteq> 0 \<longrightarrow> rq_curr (rqs m' c) \<noteq> rq_curr (rqs m c))"
proof -
  let ?p = "rq_curr (rqs m c)" and ?away = "\<lambda>t. sched_remote_wakeup (tk m t)" and ?m = "entered k c m"
  let ?vol = "\<not> preempt \<and> state (sched (tk m ?p)) \<noteq> 0"
  have i1: "machine_inv k queued owned n {} ?away ?m" using quiet_inv [OF quiet_entered] inv by (simp add: steady_def)
  show ?thesis
  proof (cases "?vol \<and> \<not> sig")
    case True
    then have b: "schedule_block k c ?p preempt sig ?m = schedule_block k c ?p False False ?m" by simp
    from goes_on_asleep [OF con fl pc i1 c, of report ?vol] True
    obtain m' where "bindR (schedule_block k c ?p False False ?m) (goes_on k report c ?p ?vol) = Inr m'"
        "machine_inv k queued owned n {} ?away m'" "\<forall>x. sched_remote_wakeup (tk m' x) = ?away x" "rq_curr (rqs m' c) \<noteq> ?p"
      unfolding entered_simps by blast
    then show ?thesis unfolding schedule_cpu_eq b by (intro exI [of _ m']) (simp add: steady_def)
  next
    case False
    let ?m2 = "if ?vol then set_state ?p TASK_RUNNING ?m else ?m"
    have b: "schedule_block k c ?p preempt sig ?m = Inr ?m2" using False by (auto simp: schedule_block_def)
    have "on_rq (tk ?m ?p) = OnRqQueued" using i1 c by (auto simp: machine_inv_def shape_def queue_of_def)
    then have i2: "machine_inv k queued owned n {} ?away ?m2" using set_state_inv [OF i1] i1 by simp
    have f2: "rq_curr (rqs ?m2 c) = ?p" "sched_remote_wakeup (tk ?m2 x) = ?away x" for x by (simp_all add: set_state_def upd_tk_def)
    from goes_on_awake [OF con pc i2 c f2(1), of report ?vol] obtain m' where
      "goes_on k report c ?p ?vol ?m2 = Inr m'" "machine_inv k queued owned n {} ?away m'" "\<forall>x. sched_remote_wakeup (tk m' x) = ?away x"
      unfolding f2(2) by blast
    with False show ?thesis unfolding schedule_cpu_eq b bindR_simps by (intro exI [of _ m']) (auto simp: steady_def)
  qed
qed

lemma do_task_dead_inv:
  assumes con: "class_contract k queued" and fl: "flags_contract k" and pc: "psi_contract (psik k)"
    and inv: "steady k queued owned n m" and c: "c < n" and ni: "rq_curr (rqs m c) \<notin> idles n m"
  shows "\<exists>m'. do_task_dead k report c m = Inr m' \<and> steady k queued owned n m'"
proof -
  let ?t = "rq_curr (rqs m c)" and ?dead = "set_state (rq_curr (rqs m c)) TASK_DEAD m"
  let ?m = "upd_tk ?t (\<lambda>p. p\<lparr>nofreeze := True\<rparr>) ?dead"
  have "on_rq (tk m ?t) = OnRqQueued" using inv c by (auto simp: steady_def machine_inv_def shape_def queue_of_def)
  then have s: "steady k queued owned n ?dead" using ni by (intro steady_set_state [OF inv]) simp_all
  have "quiet queued ?dead ?m" by (simp add: upd_tk_def quiet_def tcore_def)
  from steady_quiet [OF this s] have "steady k queued owned n ?m" .
  from schedule_cpu_inv [OF con fl pc this c, of report False False]
  obtain m' where "schedule_cpu k report c False False ?m = Inr m'" "steady k queued owned n m'" "rq_curr (rqs m' c) \<noteq> ?t"
    by (auto simp: set_state_def upd_tk_def)
  then show ?thesis by (simp add: do_task_dead_def Let_def)
qed

end
