(* ===== verification/Sched_Policy.thy ===== *)
theory Sched_Policy
  imports Sched_Core
begin

unbundle bit_operations_syntax

text \<open>
  Policies and priorities of \<open>src/Assignment_4/cfs/core.c\<close> (and \<open>fifo/core.c\<close>): nice values, priority
  inheritance, \<open>__sched_setscheduler\<close> with its checks, and the system calls on top of it.

  The caller and the parts of the kernel that are not in the repository are the record \<open>policy_env\<close>: the
  capability, the limits and owners of the tasks, the security module, and the deadline class.
  \<open>__sched_setscheduler\<close> takes its locks once: the policy it read does not change before it is locked, so that
  its loop ends at once. \<open>rt_mutex_adjust_pi\<close>, which passes a changed priority on to the owners of
  locks, is a call of \<open>rt_mutex_setprio\<close> of its own. The messages of \<open>WARN_ON\<close> are left out.
\<close>

record policy_env =
  capable_nice :: bool
  rlimit_nice :: "nat \<Rightarrow> int"
  rlimit_rtprio :: "nat \<Rightarrow> int"
  current_euid :: int
  task_euid :: "nat \<Rightarrow> int"
  task_uid :: "nat \<Rightarrow> int"
  security_setscheduler :: "nat \<Rightarrow> int"
  security_setnice :: "nat \<Rightarrow> int \<Rightarrow> int"
  security_getscheduler :: "nat \<Rightarrow> int"
  checkparam_dl :: "sched_attr \<Rightarrow> bool"
  dl_param_changed :: "nat \<Rightarrow> sched_attr \<Rightarrow> bool"
  dl_overflow :: "nat \<Rightarrow> int \<Rightarrow> sched_attr \<Rightarrow> bool"
  dl_entity_preempt :: "nat \<Rightarrow> nat \<Rightarrow> bool"
  rt_group_refuses :: "nat \<Rightarrow> bool"
  dl_span_refuses :: "nat \<Rightarrow> bool"
  find_process_by_pid :: "int \<Rightarrow> nat option"

section \<open>Off the queue and back\<close>

text \<open>
  The steps around a change of priority: a queued task is dequeued and a running one put back to its class;
  afterwards it is queued again and set as the next one.
\<close>

definition take_off :: "'q kernel \<Rightarrow> nat \<Rightarrow> nat \<Rightarrow> int \<Rightarrow> 'q machine \<Rightarrow> 'q machine res" where
  "take_off k c t flags m =
     bindR (if on_rq (tk m t) = OnRqQueued then dequeue_task k c t flags m else Inr m) (\<lambda>m1.
       Inr (if rq_curr (rqs m1 c) = t then upd_rq c (\<lambda>r. r\<lparr>classq := cl_put_prev k (cls_of m1 t) (classq r) t\<rparr>) m1 else m1))"

definition put_back :: "'q kernel \<Rightarrow> nat \<Rightarrow> nat \<Rightarrow> int \<Rightarrow> 'q machine \<Rightarrow> 'q machine res" where
  "put_back k c t flags m =
     bindR (if on_rq (tk m t) = OnRqQueued then enqueue_task k c t flags m else Inr m) (\<lambda>m1.
       Inr (if rq_curr (rqs m1 c) = t then upd_rq c (\<lambda>r. r\<lparr>classq := cl_set_next k (cls_of m1 t) (classq r) t\<rparr>) m1 else m1))"

text \<open>The callbacks of the classes may ask for a reschedule.\<close>

definition class_callback :: "'q kernel \<Rightarrow> nat \<Rightarrow> nat \<Rightarrow> sched_class \<Rightarrow> int \<Rightarrow> 'q machine \<Rightarrow> 'q machine" where
  "class_callback k c t prev_class oldprio m =
     (case cl_changed k prev_class (cls_of m t) (classq (rqs m c)) t oldprio of (q, resched) \<Rightarrow>
        let m1 = upd_rq c (\<lambda>r. r\<lparr>classq := q\<rparr>) m in if resched then resched_curr c m1 else m1)"

definition check_class_changed :: "'q kernel \<Rightarrow> nat \<Rightarrow> nat \<Rightarrow> sched_class \<Rightarrow> int \<Rightarrow> 'q machine \<Rightarrow> 'q machine" where
  "check_class_changed k c t prev_class oldprio m =
     (if prev_class \<noteq> cls_of m t then class_callback k c t prev_class oldprio m
      else if oldprio \<noteq> prio (sched (tk m t)) \<or> dl_prio (hdr k) (prio (sched (tk m t)))
      then class_callback k c t prev_class oldprio m
      else m)"

section \<open>Priority inheritance\<close>

definition min_prio :: "'q machine \<Rightarrow> nat option \<Rightarrow> int \<Rightarrow> int" where
  "min_prio m pi_task pr = (case pi_task of None \<Rightarrow> pr | Some u \<Rightarrow> min pr (prio (sched (tk m u))))"

definition rt_effective_prio :: "'q machine \<Rightarrow> nat \<Rightarrow> int \<Rightarrow> int" where
  "rt_effective_prio m t pr = min_prio m (pi_top_task (tk m t)) pr"

definition class_of_prio :: "headers \<Rightarrow> int \<Rightarrow> sched_class" where
  "class_of_prio h pr = (if dl_prio h pr then Dl else if rt_prio h pr then Rt else Fair)"

text \<open>The flags for the queue, and that a deadline task must have a donor to be boosted by.\<close>

definition boost_flags :: "'q kernel \<Rightarrow> policy_env \<Rightarrow> nat \<Rightarrow> nat option \<Rightarrow> int \<Rightarrow> int \<Rightarrow> 'q machine \<Rightarrow> int res" where
  "boost_flags k env t pi_task pr flags m =
     (let h = hdr k; oldprio = prio (sched (tk m t)) in
      if dl_prio h pr then
        if \<not> dl_prio h (normal_prio (sched (tk m t)))
           \<or> (case pi_task of None \<Rightarrow> False | Some u \<Rightarrow> dl_prio h (prio (sched (tk m u))) \<and> dl_entity_preempt env u t)
        then (case pi_task of None \<Rightarrow> Inl NullPointer | Some u \<Rightarrow> Inr (flags OR ENQUEUE_REPLENISH k))
        else Inr flags
      else if rt_prio h pr \<and> oldprio < pr then Inr (flags OR ENQUEUE_HEAD k)
      else Inr flags)"

definition rt_mutex_setprio :: "'q kernel \<Rightarrow> policy_env \<Rightarrow> nat \<Rightarrow> nat option \<Rightarrow> 'q machine \<Rightarrow> 'q machine res" where
  "rt_mutex_setprio k env t pi_task m =
     (let h = hdr k; pr = min_prio m pi_task (normal_prio (sched (tk m t))); c = task_cpu (tk m t) in
      if pi_top_task (tk m t) = pi_task \<and> pr = prio (sched (tk m t)) \<and> \<not> dl_prio h pr then Inr m
      else
        let m1 = upd_tk t (\<lambda>p. p\<lparr>pi_top_task := pi_task\<rparr>) (update_rq_clock k c m) in
        if pr = prio (sched (tk m1 t)) \<and> \<not> dl_prio h pr then Inr m1
        else if t = rq_idle (rqs m1 c) then Inr m1
        else
          let oldprio = prio (sched (tk m1 t)); prev_class = cls_of m1 t;
              flags = DEQUEUE_SAVE k OR DEQUEUE_MOVE k OR DEQUEUE_NOCLOCK k;
              flags1 = (if oldprio = pr then flags AND NOT (DEQUEUE_MOVE k) else flags)
          in bindR (take_off k c t flags1 m1) (\<lambda>m2.
             bindR (boost_flags k env t pi_task pr flags1 m2) (\<lambda>flags2.
             bindR (put_back k c t flags2 (upd_tk t (\<lambda>p. p\<lparr>sched := (sched p)\<lparr>cls := class_of_prio h pr, prio := pr\<rparr>\<rparr>) m2)) (\<lambda>m3.
               Inr (check_class_changed k c t prev_class oldprio m3)))))"

section \<open>Nice values\<close>

definition task_nice :: "headers \<Rightarrow> task_struct \<Rightarrow> int" where
  "task_nice h p = PRIO_TO_NICE h (static_prio p)"

text \<open>The new static priority, load weight and priority of a task that is not queued.\<close>

definition nice_params :: "'q kernel \<Rightarrow> int \<Rightarrow> ktask \<Rightarrow> ktask res" where
  "nice_params k nice p =
     bindR (set_load_weight k True (p\<lparr>sched := (sched p)\<lparr>static_prio := NICE_TO_PRIO (hdr k) nice\<rparr>\<rparr>)) (\<lambda>p1.
       case effective_prio (hdr k) (sched p1) of (s, pr) \<Rightarrow> Inr (p1\<lparr>sched := s\<lparr>prio := pr\<rparr>\<rparr>))"

definition set_user_nice :: "'q kernel \<Rightarrow> nat \<Rightarrow> int \<Rightarrow> 'q machine \<Rightarrow> 'q machine res" where
  "set_user_nice k t nice m =
     (let h = hdr k; c = task_cpu (tk m t) in
      if task_nice h (sched (tk m t)) = nice \<or> nice < MIN_NICE h \<or> nice > MAX_NICE h then Inr m
      else
        let m1 = update_rq_clock k c m in
        if dl_policy h (policy (sched (tk m1 t))) \<or> rt_policy h (policy (sched (tk m1 t)))
        then Inr (upd_tk t (\<lambda>p. p\<lparr>sched := (sched p)\<lparr>static_prio := NICE_TO_PRIO h nice\<rparr>\<rparr>) m1)
        else
          bindR (take_off k c t (DEQUEUE_SAVE k OR DEQUEUE_NOCLOCK k) m1) (\<lambda>m2.
          bindR (nice_params k nice (tk m2 t)) (\<lambda>p1.
          bindR (put_back k c t (ENQUEUE_RESTORE k OR ENQUEUE_NOCLOCK k) (upd_tk t (\<lambda>p. p1) m2)) (\<lambda>m3.
            Inr (class_callback k c t (cls_of m3 t) (prio (sched (tk m2 t))) m3)))))"

definition can_nice :: "headers \<Rightarrow> policy_env \<Rightarrow> nat \<Rightarrow> int \<Rightarrow> bool" where
  "can_nice h env t nice \<longleftrightarrow> nice_to_rlimit h nice \<le> rlimit_nice env t \<or> capable_nice env"

definition sys_nice :: "'q kernel \<Rightarrow> policy_env \<Rightarrow> nat \<Rightarrow> int \<Rightarrow> 'q machine \<Rightarrow> (int \<times> 'q machine) res" where
  "sys_nice k env current increment m =
     (let h = hdr k;
          inc = max (- NICE_WIDTH h) (min (NICE_WIDTH h) increment);
          nice = max (MIN_NICE h) (min (MAX_NICE h) (task_nice h (sched (tk m current)) + inc))
      in if inc < 0 \<and> \<not> can_nice h env current nice then Inr (- EPERM h, m)
         else if security_setnice env current nice \<noteq> 0 then Inr (security_setnice env current nice, m)
         else bindR (set_user_nice k current nice m) (\<lambda>m1. Inr (0, m1)))"

definition task_prio :: "headers \<Rightarrow> task_struct \<Rightarrow> int" where
  "task_prio h p = prio p - MAX_RT_PRIO h"


section \<open>sched_setscheduler\<close>

text \<open>The parameters of the deadline class (\<open>__setparam_dl\<close>) are its own.\<close>

definition setscheduler_params :: "'q kernel \<Rightarrow> sched_attr \<Rightarrow> ktask \<Rightarrow> ktask res" where
  "setscheduler_params k attr p =
     (let h = hdr k;
          pol = (if sched_policy attr = SETPARAM_POLICY then policy (sched p) else sched_policy attr);
          s1 = (sched p)\<lparr>policy := pol\<rparr>;
          s2 = (if dl_policy h pol then s1
                else if fair_policy h pol then s1\<lparr>static_prio := NICE_TO_PRIO h (sched_nice attr)\<rparr>
                else s1);
          s3 = s2\<lparr>rt_priority := sched_priority attr\<rparr>;
          s4 = s3\<lparr>normal_prio := calc_normal_prio h s3\<rparr>
      in set_load_weight k True (p\<lparr>sched := s4\<rparr>))"

definition setscheduler :: "'q kernel \<Rightarrow> nat \<Rightarrow> sched_attr \<Rightarrow> bool \<Rightarrow> 'q machine \<Rightarrow> 'q machine res" where
  "setscheduler k t attr keep_boost m =
     (let h = hdr k in
      if sched_flags attr AND SCHED_FLAG_KEEP_PARAMS h \<noteq> 0 then Inr m
      else bindR (setscheduler_params k attr (tk m t)) (\<lambda>p1.
        let m1 = upd_tk t (\<lambda>p. p1) m;
            pr = calc_normal_prio h (sched p1);
            pr1 = (if keep_boost then rt_effective_prio m1 t pr else pr)
        in Inr (upd_tk t (\<lambda>p. p\<lparr>sched := (sched p)\<lparr>prio := pr1, cls := class_of_prio h pr1\<rparr>\<rparr>) m1)))"

definition check_same_owner :: "policy_env \<Rightarrow> nat \<Rightarrow> bool" where
  "check_same_owner env t \<longleftrightarrow> current_euid env = task_euid env t \<or> current_euid env = task_uid env t"

text \<open>The checks before the locks: invalid arguments, and what a caller without the capability may not do.\<close>

definition invalid_attr :: "headers \<Rightarrow> policy_env \<Rightarrow> ktask \<Rightarrow> sched_attr \<Rightarrow> int \<Rightarrow> bool" where
  "invalid_attr h env p attr pol \<longleftrightarrow>
     0 \<le> sched_policy attr \<and> \<not> valid_policy h pol
     \<or> sched_flags attr AND NOT (SCHED_FLAG_ALL h OR SCHED_FLAG_SUGOV h) \<noteq> 0
     \<or> mm p \<noteq> None \<and> sched_priority attr > MAX_USER_RT_PRIO h - 1
     \<or> mm p = None \<and> sched_priority attr > MAX_RT_PRIO h - 1
     \<or> dl_policy h pol \<and> \<not> checkparam_dl env attr
     \<or> rt_policy h pol \<noteq> (sched_priority attr \<noteq> 0)"

definition not_permitted :: "headers \<Rightarrow> policy_env \<Rightarrow> nat \<Rightarrow> task_struct \<Rightarrow> sched_attr \<Rightarrow> int \<Rightarrow> bool \<Rightarrow> bool" where
  "not_permitted h env t p attr pol reset_on_fork \<longleftrightarrow>
     fair_policy h pol \<and> sched_nice attr < task_nice h p \<and> \<not> can_nice h env t (sched_nice attr)
     \<or> rt_policy h pol \<and> pol \<noteq> policy p \<and> rlimit_rtprio env t = 0
     \<or> rt_policy h pol \<and> sched_priority attr > rt_priority p \<and> sched_priority attr > rlimit_rtprio env t
     \<or> dl_policy h pol
     \<or> idle_policy h (policy p) \<and> \<not> idle_policy h pol \<and> \<not> can_nice h env t (task_nice h p)
     \<or> \<not> check_same_owner env t
     \<or> sched_reset_on_fork p \<and> \<not> reset_on_fork"

text \<open>A policy that stays the same may still have other parameters.\<close>

definition params_change :: "headers \<Rightarrow> policy_env \<Rightarrow> nat \<Rightarrow> task_struct \<Rightarrow> sched_attr \<Rightarrow> int \<Rightarrow> bool" where
  "params_change h env t p attr pol \<longleftrightarrow>
     fair_policy h pol \<and> sched_nice attr \<noteq> task_nice h p
     \<or> rt_policy h pol \<and> sched_priority attr \<noteq> rt_priority p
     \<or> dl_policy h pol \<and> dl_param_changed env t attr
     \<or> sched_flags attr AND SCHED_FLAG_UTIL_CLAMP h \<noteq> 0"

definition setscheduler_change :: "'q kernel \<Rightarrow> nat \<Rightarrow> sched_attr \<Rightarrow> bool \<Rightarrow> bool \<Rightarrow> 'q machine \<Rightarrow> 'q machine res" where
  "setscheduler_change k t attr inherit reset_on_fork m =
     (let h = hdr k; c = task_cpu (tk m t);
          newprio = (if dl_policy h (sched_policy attr) then MAX_DL_PRIO h - 1 else MAX_RT_PRIO h - 1 - sched_priority attr);
          m0 = upd_tk t (\<lambda>p. p\<lparr>sched := (sched p)\<lparr>sched_reset_on_fork := reset_on_fork\<rparr>\<rparr>) m;
          oldprio = prio (sched (tk m0 t));
          flags = DEQUEUE_SAVE k OR DEQUEUE_MOVE k OR DEQUEUE_NOCLOCK k;
          flags1 = (if inherit \<and> rt_effective_prio m0 t newprio = oldprio then flags AND NOT (DEQUEUE_MOVE k) else flags);
          prev_class = cls_of m0 t
      in bindR (take_off k c t flags1 m0) (\<lambda>m1.
         bindR (setscheduler k t attr inherit m1) (\<lambda>m2.
           let m3 = upd_tk t (\<lambda>p. p\<lparr>clamp := setscheduler_uclamp h (clampsys m2) attr (clamp_view k p)\<rparr>) m2;
               flags2 = (if oldprio < prio (sched (tk m3 t)) then flags1 OR ENQUEUE_HEAD k else flags1)
           in bindR (put_back k c t flags2 m3) (\<lambda>m4.
                Inr (check_class_changed k c t prev_class oldprio m4)))))"

definition setscheduler_task ::
  "'q kernel \<Rightarrow> policy_env \<Rightarrow> nat \<Rightarrow> sched_attr \<Rightarrow> bool \<Rightarrow> bool \<Rightarrow> 'q machine \<Rightarrow> (int \<times> 'q machine) res" where
  "setscheduler_task k env t attr user inherit m =
     (let h = hdr k; p = sched (tk m t);
          keeps = sched_policy attr < 0;
          pol = (if keeps then policy p else sched_policy attr);
          reset_on_fork = (if keeps then sched_reset_on_fork p else sched_flags attr AND SCHED_FLAG_RESET_ON_FORK h \<noteq> 0)
      in if invalid_attr h env (tk m t) attr pol then Inr (- EINVAL h, m)
         else if user \<and> \<not> capable_nice env \<and> not_permitted h env t p attr pol reset_on_fork then Inr (- EPERM h, m)
         else if user \<and> sched_flags attr AND SCHED_FLAG_SUGOV h \<noteq> 0 then Inr (- EINVAL h, m)
         else if user \<and> security_setscheduler env t \<noteq> 0 then Inr (security_setscheduler env t, m)
         else
           case (if sched_flags attr AND SCHED_FLAG_UTIL_CLAMP h \<noteq> 0
                 then uclamp_validate h (clampsys m) (clamp_view k (tk m t)) attr else (0, clampsys m)) of (ret, sys) \<Rightarrow>
           let m1 = m\<lparr>clampsys := sys\<rparr> in
           if ret \<noteq> 0 then Inr (ret, m1)
           else
             let c = task_cpu (tk m1 t); m2 = update_rq_clock k c m1 in
             if rq_stop (rqs m2 c) = Some t then Inr (- EINVAL h, m2)
             else if pol = policy p \<and> \<not> params_change h env t p attr pol then
               Inr (0, upd_tk t (\<lambda>p. p\<lparr>sched := (sched p)\<lparr>sched_reset_on_fork := reset_on_fork\<rparr>\<rparr>) m2)
             else if user \<and> rt_policy h pol \<and> rt_group_refuses env t then Inr (- EPERM h, m2)
             else if user \<and> dl_policy h pol \<and> sched_flags attr AND SCHED_FLAG_SUGOV h = 0 \<and> dl_span_refuses env t
             then Inr (- EPERM h, m2)
             else if (dl_policy h pol \<or> dl_prio h (prio p)) \<and> dl_overflow env t pol attr then Inr (- EBUSY h, m2)
             else bindR (setscheduler_change k t attr inherit reset_on_fork m2) (\<lambda>m3. Inr (0, m3)))"

section \<open>The callers\<close>

text \<open>\<open>_sched_setscheduler\<close>, with the attributes of the CFS or of the FIFO kernel.\<close>

type_synonym mk_attr = "headers \<Rightarrow> task_struct \<Rightarrow> int \<Rightarrow> int \<Rightarrow> sched_attr"

definition setscheduler_param ::
  "'q kernel \<Rightarrow> mk_attr \<Rightarrow> policy_env \<Rightarrow> nat \<Rightarrow> int \<Rightarrow> int \<Rightarrow> bool \<Rightarrow> 'q machine \<Rightarrow> (int \<times> 'q machine) res" where
  "setscheduler_param k attr_of env t pol param check m =
     setscheduler_task k env t (attr_of (hdr k) (sched (tk m t)) pol param) check True m"

definition plain_attr :: "int \<Rightarrow> int \<Rightarrow> sched_attr" where
  "plain_attr pol nice = \<lparr>sched_policy = pol, sched_priority = 0, sched_nice = nice, sched_flags = 0, sched_util_min = 0, sched_util_max = 0\<rparr>"

definition sched_set_fifo :: "'q kernel \<Rightarrow> mk_attr \<Rightarrow> policy_env \<Rightarrow> nat \<Rightarrow> 'q machine \<Rightarrow> (int \<times> 'q machine) res" where
  "sched_set_fifo k attr_of env t m = setscheduler_param k attr_of env t (SCHED_FIFO (hdr k)) (MAX_RT_PRIO (hdr k) div 2) False m"

definition sched_set_fifo_low :: "'q kernel \<Rightarrow> mk_attr \<Rightarrow> policy_env \<Rightarrow> nat \<Rightarrow> 'q machine \<Rightarrow> (int \<times> 'q machine) res" where
  "sched_set_fifo_low k attr_of env t m = setscheduler_param k attr_of env t (SCHED_FIFO (hdr k)) 1 False m"

definition sched_set_normal :: "'q kernel \<Rightarrow> policy_env \<Rightarrow> nat \<Rightarrow> int \<Rightarrow> 'q machine \<Rightarrow> (int \<times> 'q machine) res" where
  "sched_set_normal k env t nice m = setscheduler_task k env t (plain_attr (SCHED_NORMAL (hdr k)) nice) False True m"

text \<open>A pointer into user space: null, one that cannot be read, or one to a value.\<close>

datatype 'a user_ptr = Null | Fault | At 'a

definition do_sched_setscheduler ::
  "'q kernel \<Rightarrow> mk_attr \<Rightarrow> policy_env \<Rightarrow> int \<Rightarrow> int \<Rightarrow> int user_ptr \<Rightarrow> 'q machine \<Rightarrow> (int \<times> 'q machine) res" where
  "do_sched_setscheduler k attr_of env pid pol param m =
     (let h = hdr k in
      if param = Null \<or> pid < 0 then Inr (- EINVAL h, m)
      else case param of
        At lparam \<Rightarrow> (case find_process_by_pid env pid of None \<Rightarrow> Inr (- ESRCH h, m) | Some t \<Rightarrow> setscheduler_param k attr_of env t pol lparam True m)
      | _ \<Rightarrow> Inr (- EFAULT h, m))"

definition sys_sched_setscheduler ::
  "'q kernel \<Rightarrow> mk_attr \<Rightarrow> policy_env \<Rightarrow> int \<Rightarrow> int \<Rightarrow> int user_ptr \<Rightarrow> 'q machine \<Rightarrow> (int \<times> 'q machine) res" where
  "sys_sched_setscheduler k attr_of env pid pol param m =
     (if pol < 0 then Inr (- EINVAL (hdr k), m) else do_sched_setscheduler k attr_of env pid pol param m)"

definition sys_sched_setparam ::
  "'q kernel \<Rightarrow> mk_attr \<Rightarrow> policy_env \<Rightarrow> int \<Rightarrow> int user_ptr \<Rightarrow> 'q machine \<Rightarrow> (int \<times> 'q machine) res" where
  "sys_sched_setparam k attr_of env pid param m = do_sched_setscheduler k attr_of env pid SETPARAM_POLICY param m"

text \<open>
  The attributes in user space: their size as the user states it and what \<open>copy_struct_from_user\<close> makes of them,
  an error or the structure.
\<close>

definition sched_copy_attr :: "headers \<Rightarrow> int \<times> (int + sched_attr) \<Rightarrow> int + sched_attr" where
  "sched_copy_attr h u =
     (let size = (if fst u = 0 then SCHED_ATTR_SIZE_VER0 h else fst u) in
      if size < SCHED_ATTR_SIZE_VER0 h \<or> size > PAGE_SIZE h then Inl (- E2BIG h)
      else case snd u of
        Inl e \<Rightarrow> Inl e
      | Inr a \<Rightarrow>
          if sched_flags a AND SCHED_FLAG_UTIL_CLAMP h \<noteq> 0 \<and> size < SCHED_ATTR_SIZE_VER1 h then Inl (- EINVAL h)
          else Inr (a\<lparr>sched_nice := max (MIN_NICE h) (min (MAX_NICE h) (sched_nice a))\<rparr>))"

definition sys_sched_setattr ::
  "'q kernel \<Rightarrow> policy_env \<Rightarrow> int \<Rightarrow> (int \<times> (int + sched_attr)) user_ptr \<Rightarrow> int \<Rightarrow> 'q machine \<Rightarrow> (int \<times> 'q machine) res" where
  "sys_sched_setattr k env pid uattr flags m =
     (let h = hdr k in
      if uattr = Null \<or> pid < 0 \<or> flags \<noteq> 0 then Inr (- EINVAL h, m)
      else case (case uattr of At u \<Rightarrow> sched_copy_attr h u | _ \<Rightarrow> Inl (- EFAULT h)) of
        Inl e \<Rightarrow> Inr (e, m)
      | Inr a \<Rightarrow>
          if sched_policy a < 0 then Inr (- EINVAL h, m)
          else
            let a1 = (if sched_flags a AND SCHED_FLAG_KEEP_POLICY h \<noteq> 0 then a\<lparr>sched_policy := SETPARAM_POLICY\<rparr> else a)
            in case find_process_by_pid env pid of None \<Rightarrow> Inr (- ESRCH h, m) | Some t \<Rightarrow> setscheduler_task k env t a1 True True m)"

definition sys_sched_getscheduler :: "'q kernel \<Rightarrow> policy_env \<Rightarrow> int \<Rightarrow> 'q machine \<Rightarrow> int" where
  "sys_sched_getscheduler k env pid m =
     (let h = hdr k in
      if pid < 0 then - EINVAL h
      else case find_process_by_pid env pid of
        None \<Rightarrow> - ESRCH h
      | Some t \<Rightarrow>
          if security_getscheduler env t \<noteq> 0 then security_getscheduler env t
          else policy (sched (tk m t)) OR (if sched_reset_on_fork (sched (tk m t)) then SCHED_RESET_ON_FORK h else 0))"

text \<open>The value stored for the user, with the return value.\<close>

definition sys_sched_getparam :: "'q kernel \<Rightarrow> policy_env \<Rightarrow> int \<Rightarrow> unit user_ptr \<Rightarrow> 'q machine \<Rightarrow> int \<times> int option" where
  "sys_sched_getparam k env pid param m =
     (let h = hdr k in
      if param = Null \<or> pid < 0 then (- EINVAL h, None)
      else case find_process_by_pid env pid of
        None \<Rightarrow> (- ESRCH h, None)
      | Some t \<Rightarrow>
          if security_getscheduler env t \<noteq> 0 then (security_getscheduler env t, None)
          else
            let lp = (if rt_policy h (policy (sched (tk m t))) then rt_priority (sched (tk m t)) else 0)
            in if param = Fault then (- EFAULT h, None) else (0, Some lp))"

definition sys_sched_get_priority_max :: "headers \<Rightarrow> int \<Rightarrow> int" where
  "sys_sched_get_priority_max h pol =
     (if pol = SCHED_FIFO h \<or> pol = SCHED_RR h then MAX_USER_RT_PRIO h - 1
      else if pol = SCHED_DEADLINE h \<or> pol = SCHED_NORMAL h \<or> pol = SCHED_BATCH h \<or> pol = SCHED_IDLE h then 0
      else - EINVAL h)"

definition sys_sched_get_priority_min :: "headers \<Rightarrow> int \<Rightarrow> int" where
  "sys_sched_get_priority_min h pol =
     (if pol = SCHED_FIFO h \<or> pol = SCHED_RR h then 1
      else if pol = SCHED_DEADLINE h \<or> pol = SCHED_NORMAL h \<or> pol = SCHED_BATCH h \<or> pol = SCHED_IDLE h then 0
      else - EINVAL h)"

end
