(* ===== verification/Sched_Types.thy ===== *)
theory Sched_Types
  imports Sched_Policy Sched_Props
begin

unbundle bit_operations_syntax

text \<open>
  What the priority fields of a task say together, and that forks, nice values, policy changes and boosts
  keep it.
\<close>

section \<open>Well-typed tasks\<close>

text \<open>
  The real-time priority belongs to a real-time policy, the normal priority is the one of the policy, and the
  effective priority is never worse. Tasks that the FIFO kernel forced at their fork (\<open>forced\<close>) have the normal
  priority 50 with the real-time priority 50.
\<close>

definition well_typed :: "bool \<Rightarrow> headers \<Rightarrow> task_struct \<Rightarrow> bool" where
  "well_typed forced h p \<longleftrightarrow>
     valid_policy h (policy p) \<and> static_prio p \<in> {100..139}
     \<and> (if rt_policy h (policy p) then rt_priority p \<in> {1..99} else rt_priority p = 0)
     \<and> (normal_prio p = calc_normal_prio h p \<or> forced \<and> policy p = SCHED_FIFO h \<and> rt_priority p = 50 \<and> normal_prio p = 50)
     \<and> prio p \<in> {-1..normal_prio p}"

text \<open>The class of a task is that of its priority; the idle tasks are in a class of their own.\<close>

definition classed :: "headers \<Rightarrow> task_struct \<Rightarrow> bool" where
  "classed h p \<longleftrightarrow> cls p = class_of_prio h (prio p)"

lemma linux_eqs:
  assumes "linux_headers h"
  shows "MAX_RT_PRIO h = 100" "MAX_USER_RT_PRIO h = 100" "MAX_DL_PRIO h = 0" "MIN_NICE h = - 20" "MAX_NICE h = 19" "NICE_TO_PRIO h n = n + 120" "PRIO_TO_NICE h n = n - 120"
    "rt_prio h n \<longleftrightarrow> n < 100" "dl_prio h n \<longleftrightarrow> n < 0" "rt_policy h n \<longleftrightarrow> n = 1 \<or> n = 2" "dl_policy h n \<longleftrightarrow> n = 6"
    "fair_policy h n \<longleftrightarrow> n = 0 \<or> n = 3" "idle_policy h n \<longleftrightarrow> n = 5" "valid_policy h n \<longleftrightarrow> n \<in> {0, 1, 2, 3, 5, 6}" "SCHED_NORMAL h = 0" "SCHED_FIFO h = 1"
  using assms by (simp_all add: linux_headers_def)

lemma normal_prio_eq:
  assumes "linux_headers h"
  shows "calc_normal_prio h p = (if policy p = 6 then -1 else if policy p = 1 \<or> policy p = 2 then 99 - rt_priority p else static_prio p)"
  by (simp add: calc_normal_prio_def static_normal_prio_def linux_eqs [OF assms])

lemma class_of_prio_eq: "linux_headers h \<Longrightarrow> class_of_prio h pr = (if pr < 0 then Dl else if pr < 100 then Rt else Fair)"
  by (simp add: class_of_prio_def linux_eqs)

lemma well_typed_iff:
  assumes "linux_headers h"
  shows "well_typed b h p \<longleftrightarrow> static_prio p \<in> {100..139} \<and> prio p \<in> {-1..normal_prio p} \<and>
    (policy p = 6 \<and> rt_priority p = 0 \<and> normal_prio p = -1
     \<or> (policy p = 1 \<or> policy p = 2) \<and> rt_priority p \<in> {1..99} \<and> (normal_prio p = 99 - rt_priority p \<or> b \<and> policy p = 1 \<and> rt_priority p = 50 \<and> normal_prio p = 50)
     \<or> (policy p = 0 \<or> policy p = 3 \<or> policy p = 5) \<and> rt_priority p = 0 \<and> normal_prio p = static_prio p)"
  unfolding well_typed_def normal_prio_eq [OF assms] linux_eqs [OF assms] by auto

lemma typed_static: "well_typed b h p \<Longrightarrow> static_prio p \<in> {100..139}"
  by (simp add: well_typed_def)

text \<open>The class of the normal priority is that of the policy.\<close>

lemma typed_normal:
  assumes "linux_headers h" and "well_typed b h p"
  shows "dl_policy h (policy p) \<Longrightarrow> normal_prio p = -1"
    "rt_policy h (policy p) \<Longrightarrow> normal_prio p \<in> {0..98}"
    "\<not> dl_policy h (policy p) \<Longrightarrow> \<not> rt_policy h (policy p) \<Longrightarrow> normal_prio p = static_prio p"
  using assms(2) unfolding well_typed_iff [OF assms(1)] linux_eqs [OF assms(1)] by auto

section \<open>The changes\<close>

lemma typed_reset:
  assumes h: "linux_headers h" and p: "well_typed b h p"
  shows "well_typed b h (fork_reset h p)" "\<not> sched_reset_on_fork p \<Longrightarrow> fork_reset h p = p" "sched_reset_on_fork p \<Longrightarrow> 0 \<le> prio (fork_reset h p)"
  using p unfolding well_typed_iff [OF h] fork_reset_def linux_eqs [OF h] static_normal_prio_def Let_def by auto

lemma typed_force:
  assumes h: "linux_headers h" and p: "well_typed True h p"
  shows "well_typed True h (fifo_force h p)" "0 \<le> prio p \<Longrightarrow> 0 \<le> prio (fifo_force h p)" "cls (fifo_force h p) = cls p"
  using p unfolding well_typed_iff [OF h] fifo_force_def linux_eqs [OF h] Let_def by auto

lemma typed_class:
  assumes h: "linux_headers h" and p: "well_typed b h p" and c: "prio p < 0 \<Longrightarrow> classed h p"
  shows "well_typed b h (snd (fork_class h on p))" "classed h (snd (fork_class h on p))"
  using p c unfolding well_typed_iff [OF h] fork_class_def linux_eqs [OF h] Let_def classed_def class_of_prio_eq [OF h] by auto

lemma typed_cong: "policy p = policy q \<Longrightarrow> static_prio p = static_prio q \<Longrightarrow> rt_priority p = rt_priority q \<Longrightarrow> normal_prio p = normal_prio q
    \<Longrightarrow> prio p = prio q \<Longrightarrow> well_typed b h p = well_typed b h q"
  by (simp add: well_typed_def calc_normal_prio_def static_normal_prio_def)

lemma typed_boost:
  assumes "well_typed b h p" and "pr \<in> {-1..normal_prio p}"
  shows "well_typed b h (p\<lparr>cls := class_of_prio h pr, prio := pr\<rparr>)" "classed h (p\<lparr>cls := class_of_prio h pr, prio := pr\<rparr>)"
  using assms by (auto simp: well_typed_def calc_normal_prio_def static_normal_prio_def classed_def)

lemma typed_prio: "well_typed b h p \<Longrightarrow> pr \<in> {-1..normal_prio p} \<Longrightarrow> well_typed b h (p\<lparr>prio := pr\<rparr>)"
  by (auto simp: well_typed_def calc_normal_prio_def static_normal_prio_def)

text \<open>A child is well typed when its parent is; an idle task, whose class is its own, must not have a deadline.\<close>

lemma typed_fork:
  assumes h: "linux_headers h" and p: "well_typed b h p" and c: "prio p < 0 \<Longrightarrow> classed h p"
    and fs: "fs = cfs_sched_fork \<or> b \<and> fs = fifo_sched_fork"
  shows "well_typed b h (snd (fs h on p p)) \<and> classed h (snd (fs h on p p))"
proof -
  let ?p = "p\<lparr>state := TASK_NEW, accumulated_cputime := 0, prio := normal_prio p\<rparr>" and ?q = "p\<lparr>state := TASK_NEW\<rparr>"
  have t: "well_typed b h ?q" using p by (simp cong: typed_cong)
  then have "well_typed b h (?q\<lparr>prio := normal_prio p\<rparr>)" by (rule typed_prio) (use p in \<open>auto simp: well_typed_def\<close>)
  then have tp: "well_typed b h ?p" by (rule typed_cong [THEN iffD1, rotated -1]) simp_all
  have "normal_prio p < 0 \<Longrightarrow> classed h ?p" using p c by (auto simp: well_typed_def classed_def class_of_prio_eq [OF h])
  with typed_reset [OF h tp] have 1: "prio (fork_reset h ?p) < 0 \<Longrightarrow> classed h (fork_reset h ?p)" by (cases "sched_reset_on_fork ?p") auto
  show ?thesis
  proof (cases "fs = cfs_sched_fork")
    case True
    then show ?thesis using typed_class [OF h typed_reset(1) [OF h tp] 1] by (simp add: cfs_sched_fork_def)
  next
    case False
    with fs have b: "fs = fifo_sched_fork" "b = True" by auto
    let ?f = "fifo_force h ?q"
    have tf: "well_typed b h ?f" using typed_force(1) [OF h] t b by simp
    have "prio ?f < 0 \<Longrightarrow> classed h ?f" using c typed_force(2,3) [OF h, of ?q] t b by (fastforce simp: classed_def fifo_force_def Let_def linux_eqs [OF h])
    with typed_reset [OF h tf] have "prio (fork_reset h ?f) < 0 \<Longrightarrow> classed h (fork_reset h ?f)" by (cases "sched_reset_on_fork ?f") auto
    then show ?thesis using typed_class [OF h typed_reset(1) [OF h tf]] by (simp add: fifo_sched_fork_def b)
  qed
qed

lemma typed_static_prio:
  assumes "linux_headers h" and "well_typed b h p" and "nice \<in> {-20..19}" and "dl_policy h (policy p) \<or> rt_policy h (policy p)"
  shows "well_typed b h (p\<lparr>static_prio := nice + 120\<rparr>)"
  using assms(2-) unfolding well_typed_iff [OF assms(1)] linux_eqs [OF assms(1)] by auto

text \<open>The fields after \<open>set_user_nice\<close>.\<close>

definition niced :: "int \<Rightarrow> task_struct \<Rightarrow> task_struct" where
  "niced nice p = p\<lparr>static_prio := nice + 120, normal_prio := nice + 120, prio := (if prio p < 100 then prio p else nice + 120)\<rparr>"

lemma typed_nice:
  assumes "linux_headers h" and "well_typed b h p" and "nice \<in> {-20..19}" and "\<not> (dl_policy h (policy p) \<or> rt_policy h (policy p))"
  shows "well_typed b h (niced nice p)" "classed h p \<Longrightarrow> classed h (niced nice p)"
  using assms(2-) unfolding well_typed_iff [OF assms(1)] linux_eqs [OF assms(1)] niced_def classed_def class_of_prio_eq [OF assms(1)] by auto

text \<open>Attributes in their ranges; the utilisations are those of the documentation, with -1 for a reset.\<close>

definition fit_attr :: "sched_attr \<Rightarrow> bool" where
  "fit_attr a \<longleftrightarrow> -1 \<le> sched_policy a \<and> 0 \<le> sched_priority a \<and> sched_nice a \<in> {-20..19}
     \<and> (sched_util_min a \<in> {0..1024} \<or> sched_util_min a = 2 ^ 32 - 1) \<and> (sched_util_max a \<in> {0..1024} \<or> sched_util_max a = 2 ^ 32 - 1)"

text \<open>The fields after \<open>__setscheduler_params\<close> and the rest of \<open>__setscheduler\<close>.\<close>

definition attr_params :: "headers \<Rightarrow> sched_attr \<Rightarrow> task_struct \<Rightarrow> task_struct" where
  "attr_params h a p =
     (let pol = (if sched_policy a = SETPARAM_POLICY then policy p else sched_policy a);
          s = p\<lparr>policy := pol, static_prio := (if fair_policy h pol then sched_nice a + 120 else static_prio p), rt_priority := sched_priority a\<rparr>
      in s\<lparr>normal_prio := calc_normal_prio h s\<rparr>)"

text \<open>What a task is set to, if its parameters are not to be kept.\<close>

definition asked :: "headers \<Rightarrow> sched_attr \<Rightarrow> task_struct \<Rightarrow> task_struct" where
  "asked h a p = (if sched_flags a AND SCHED_FLAG_KEEP_PARAMS h \<noteq> 0 then p else attr_params h a p)"

abbreviation settings :: "task_struct \<Rightarrow> int \<times> int \<times> int \<times> bool" where
  "settings s \<equiv> (policy s, static_prio s, rt_priority s, sched_reset_on_fork s)"

lemma typed_params:
  assumes h: "linux_headers h" and p: "well_typed b h (sched p)" and a: "fit_attr a"
    and i: "\<not> invalid_attr h env p a (if sched_policy a < 0 then policy (sched p) else sched_policy a)"
    and pr: "pr \<in> {-1..normal_prio (attr_params h a (sched p))}"
  shows "well_typed b h ((attr_params h a (sched p))\<lparr>prio := pr\<rparr>)"
proof -
  let ?s = "attr_params h a (sched p)"
  have pol: "policy ?s = (if sched_policy a < 0 then policy (sched p) else sched_policy a)" "rt_priority ?s = sched_priority a"
      "normal_prio ?s = calc_normal_prio h ?s"
    using a by (auto simp: attr_params_def fit_attr_def SETPARAM_POLICY_def Let_def calc_normal_prio_def static_normal_prio_def)
  have "valid_policy h (policy ?s)" using i p unfolding pol by (auto simp: invalid_attr_def well_typed_def)
  moreover have "static_prio ?s \<in> {100..139}" using a typed_static [OF p] by (auto simp: attr_params_def fit_attr_def Let_def)
  moreover have "if rt_policy h (policy ?s) then rt_priority ?s \<in> {1..99} else rt_priority ?s = 0"
    using i a unfolding pol(1) [symmetric] pol(2) by (auto simp: invalid_attr_def fit_attr_def linux_eqs [OF h])
  ultimately have "well_typed b h (?s\<lparr>prio := normal_prio ?s\<rparr>)"
    using pol(3) by (auto simp: well_typed_def normal_prio_eq [OF h])
  from typed_prio [OF this, of pr] pr show ?thesis by simp
qed

end
