(* ===== verification/Sched_Policy_Inv.thy ===== *)
theory Sched_Policy_Inv
  imports Sched_Core_Switch Sched_Types
begin

unbundle bit_operations_syntax

text \<open>
  Changes of nice values, policies and priorities keep the invariant of the machine: whatever class a task
  moves to, it stays on its queue and in its clamp buckets exactly when it is runnable.
\<close>

section \<open>Around a change\<close>

text \<open>The fields of a task that a change of its priority leaves alone.\<close>

definition same_core :: "ktask \<Rightarrow> ktask \<Rightarrow> bool" where
  "same_core p q \<longleftrightarrow> state (sched p) = state (sched q) \<and> psi p = psi q \<and> on_rq p = on_rq q \<and> task_cpu p = task_cpu q
     \<and> sched_contributes_to_load p = sched_contributes_to_load q \<and> sched_remote_wakeup p = sched_remote_wakeup q
     \<and> mm p = mm q \<and> active_mm p = active_mm q"

lemma same_core_refl [simp]: "same_core p p"
  by (simp add: same_core_def)

lemma same_core_trans [trans]: "same_core p q \<Longrightarrow> same_core q r \<Longrightarrow> same_core p r"
  by (simp add: same_core_def)

definition retuned :: "nat \<Rightarrow> 'q machine \<Rightarrow> 'q machine \<Rightarrow> bool" where
  "retuned t m m' \<longleftrightarrow> mm_count m' = mm_count m \<and> clampsys m' = clampsys m \<and> (\<forall>x. x \<noteq> t \<longrightarrow> tk m' x = tk m x) \<and> same_core (tk m' t) (tk m t)
     \<and> (\<forall>c. rq_curr (rqs m' c) = rq_curr (rqs m c) \<and> rq_idle (rqs m' c) = rq_idle (rqs m c) \<and> prev_mm (rqs m' c) = prev_mm (rqs m c)
       \<and> nr_uninterruptible (rqs m' c) = nr_uninterruptible (rqs m c) \<and> nr_iowait (rqs m' c) = nr_iowait (rqs m c)
       \<and> wake_list (rqs m' c) = wake_list (rqs m c))"

lemma retuned_trans: "retuned t m m1 \<Longrightarrow> retuned t m1 m2 \<Longrightarrow> retuned t m m2"
  unfolding retuned_def using same_core_trans by (metis (no_types, lifting))

lemma retuned_core: "retuned t m m' \<Longrightarrow> same_core (tk m' x) (tk m x)"
  by (cases "x = t") (simp_all add: retuned_def)

lemma retuned_inv:
  assumes inv: "machine_inv k queued owned n W away m" and r: "retuned t m m'" and req: "ok_request (clampsys m) (tk m' t)"
    and q: "queue_inv k queued n (queue_of n m) m'"
  shows "machine_inv k queued owned n W away m'"
proof -
  have core: "state (sched (tk m' x)) = state (sched (tk m x))" "psi (tk m' x) = psi (tk m x)" "on_rq (tk m' x) = on_rq (tk m x)"
      "task_cpu (tk m' x) = task_cpu (tk m x)" "sched_contributes_to_load (tk m' x) = sched_contributes_to_load (tk m x)"
      "mm (tk m' x) = mm (tk m x)" "active_mm (tk m' x) = active_mm (tk m x)" for x
    using retuned_core [OF r, of x] by (simp_all add: same_core_def)
  have eqs: "clampsys m' = clampsys m" "mm_count m' = mm_count m" "\<And>c. rq_curr (rqs m' c) = rq_curr (rqs m c)"
      "\<And>c. rq_idle (rqs m' c) = rq_idle (rqs m c)" "\<And>c. prev_mm (rqs m' c) = prev_mm (rqs m c)"
      "\<And>c. nr_uninterruptible (rqs m' c) = nr_uninterruptible (rqs m c)" "\<And>c. nr_iowait (rqs m' c) = nr_iowait (rqs m c)"
      "\<And>c. wake_list (rqs m' c) = wake_list (rqs m c)" using r by (auto simp: retuned_def)
  have ic: "idles n m' = idles n m" "currs n m' = currs n m" by (simp_all add: idles_def currs_def eqs)
  then have qq: "queue_of n m' = queue_of n m" "phase n m' = phase n m" by (simp_all add: queue_of_def phase_def core fun_eq_iff)
  have "ok_request (clampsys m') (tk m' x)" for x using inv r req by (cases "x = t") (auto simp: machine_inv_def retuned_def)
  moreover have "life_inv k n m'" using inv by (simp add: machine_inv_def life_inv_def qq ic core)
  moreover have "load_inv n m'" using inv by (simp add: machine_inv_def load_inv_def loading_def asleep_def core eqs)
  moreover have "io_inv away n m'" using inv by (simp add: machine_inv_def io_inv_def waiting_def asleep_def core eqs)
  moreover have "mm_inv owned n m'" using inv by (simp add: machine_inv_def mm_inv_def borrowers_def core eqs)
  moreover have "shape n W m'" using inv unfolding shape_def qq by (simp add: machine_inv_def shape_def waking_def core eqs)
  ultimately show ?thesis using inv q by (simp add: machine_inv_def qq eqs)
qed

text \<open>The queue of the task, without it and with it.\<close>

lemma take_off_inv:
  assumes con: "class_contract k queued" and sys: "ok_system (clampsys m)" and q: "queue_inv k queued n (queue_of n m) m"
    and c: "task_cpu (tk m t) < n" and t: "t \<notin> idles n m" and f: "flags AND DEQUEUE_SAVE k \<noteq> 0"
  shows "\<exists>m1. take_off k (task_cpu (tk m t)) t flags m = Inr m1 \<and> retuned t m m1
    \<and> queue_inv k queued n (\<lambda>c. queue_of n m c - {t}) m1
    \<and> tk m1 t = (tk m t)\<lparr>clamp := clamp (tk m1 t)\<rparr> \<and> same_request (clamp (tk m1 t)) (clamp (tk m t))"
proof -
  let ?c = "task_cpu (tk m t)" and ?Q = "queue_of n m"
  have o: "\<forall>c' < n. c' \<noteq> ?c \<longrightarrow> t \<notin> ?Q c'" by (auto simp: queue_of_def)
  have "\<exists>m1. (if on_rq (tk m t) = OnRqQueued then dequeue_task k ?c t flags m else Inr m) = Inr m1 \<and> retuned t m m1
      \<and> queue_inv k queued n (\<lambda>c. ?Q c - {t}) m1 \<and> tk m1 t = (tk m t)\<lparr>clamp := clamp (tk m1 t)\<rparr> \<and> same_request (clamp (tk m1 t)) (clamp (tk m t))"
  proof (cases "on_rq (tk m t) = OnRqQueued")
    case True
    then have tq: "t \<in> ?Q ?c" using t by (simp add: queue_of_def)
    obtain ct cr q1 where d: "dequeue_task k ?c t flags m = Inr (dequeued k ?c t flags ct cr q1 m)"
        "queue_inv k queued n (?Q(?c := ?Q ?c - {t})) (dequeued k ?c t flags ct cr q1 m)" "same_request ct (clamp (tk m t))"
      using dequeue_inv [OF con sys q c tq o, of flags] by auto
    have Q: "?Q(?c := ?Q ?c - {t}) = (\<lambda>c. ?Q c - {t})" by (auto simp: fun_eq_iff queue_of_def)
    have e: "tk (dequeued k ?c t flags ct cr q1 m) t = (tk m t)\<lparr>clamp := ct\<rparr>" using f by (cases "tk m t") (simp add: dequeued_def Let_def)
    have "retuned t m (dequeued k ?c t flags ct cr q1 m)"
      using e by (auto simp: retuned_def same_core_def) (auto simp: dequeued_def Let_def)
    with True d e Q show ?thesis by simp
  next
    case False
    then have "(\<lambda>c. ?Q c - {t}) = ?Q" by (auto simp: fun_eq_iff queue_of_def)
    with False q show ?thesis by (intro exI [of _ m]) (simp add: retuned_def same_request_def)
  qed
  then obtain m1 where m1: "(if on_rq (tk m t) = OnRqQueued then dequeue_task k ?c t flags m else Inr m) = Inr m1" "retuned t m m1"
      "queue_inv k queued n (\<lambda>c. ?Q c - {t}) m1" "tk m1 t = (tk m t)\<lparr>clamp := clamp (tk m1 t)\<rparr>" "same_request (clamp (tk m1 t)) (clamp (tk m t))"
    by blast
  let ?m = "if rq_curr (rqs m1 ?c) = t then upd_rq ?c (\<lambda>r. r\<lparr>classq := cl_put_prev k (cls_of m1 t) (classq r) t\<rparr>) m1 else m1"
  have tk: "tk ?m = tk m1" by (simp add: upd_rq_def)
  have "queue_inv k queued n (\<lambda>c. ?Q c - {t}) ?m"
    by (rule queue_inv_cong [OF m1(3)]) (use con in \<open>auto simp: upd_rq_def class_contract_def\<close>)
  moreover have "retuned t m ?m" by (rule retuned_trans [OF m1(2)]) (auto simp: retuned_def upd_rq_def)
  ultimately show ?thesis unfolding take_off_def m1(1) by (intro exI [of _ ?m]) (simp add: tk m1(5), use m1(4) in simp)
qed

lemma put_back_inv:
  assumes con: "class_contract k queued" and sys: "ok_system (clampsys m)" and q: "queue_inv k queued n Q m"
    and c: "task_cpu (tk m t) < n" and t: "\<forall>c' < n. t \<notin> Q c'" and f: "flags AND ENQUEUE_RESTORE k \<noteq> 0"
    and ok: "ok_request (clampsys m) (tk m t)"
  shows "\<exists>m1. put_back k (task_cpu (tk m t)) t flags m = Inr m1 \<and> retuned t m m1
    \<and> queue_inv k queued n (if on_rq (tk m t) = OnRqQueued then Q(task_cpu (tk m t) := insert t (Q (task_cpu (tk m t)))) else Q) m1
    \<and> tk m1 t = (tk m t)\<lparr>clamp := clamp (tk m1 t)\<rparr> \<and> same_request (clamp (tk m1 t)) (clamp (tk m t))"
proof -
  let ?c = "task_cpu (tk m t)"
  let ?Q = "if on_rq (tk m t) = OnRqQueued then Q(?c := insert t (Q ?c)) else Q"
  have "\<exists>m1. (if on_rq (tk m t) = OnRqQueued then enqueue_task k ?c t flags m else Inr m) = Inr m1 \<and> retuned t m m1
      \<and> queue_inv k queued n ?Q m1 \<and> tk m1 t = (tk m t)\<lparr>clamp := clamp (tk m1 t)\<rparr> \<and> same_request (clamp (tk m1 t)) (clamp (tk m t))"
  proof (cases "on_rq (tk m t) = OnRqQueued")
    case True
    obtain ct cr q1 where d: "enqueue_task k ?c t flags m = Inr (enqueued k ?c t flags ct cr q1 m)"
        "queue_inv k queued n (Q(?c := insert t (Q ?c))) (enqueued k ?c t flags ct cr q1 m)" "same_request ct (clamp (tk m t))"
      using enqueue_inv [OF con sys q c t ok, of flags] by auto
    have e: "tk (enqueued k ?c t flags ct cr q1 m) t = (tk m t)\<lparr>clamp := ct\<rparr>" using f by (cases "tk m t") (simp add: enqueued_def)
    have "retuned t m (enqueued k ?c t flags ct cr q1 m)"
      using e by (auto simp: retuned_def same_core_def) (auto simp: enqueued_def)
    with True d e show ?thesis by simp
  next
    case False
    with q show ?thesis by (intro exI [of _ m]) (simp add: retuned_def same_request_def)
  qed
  then obtain m1 where m1: "(if on_rq (tk m t) = OnRqQueued then enqueue_task k ?c t flags m else Inr m) = Inr m1" "retuned t m m1"
      "queue_inv k queued n ?Q m1" "tk m1 t = (tk m t)\<lparr>clamp := clamp (tk m1 t)\<rparr>" "same_request (clamp (tk m1 t)) (clamp (tk m t))"
    by blast
  let ?m = "if rq_curr (rqs m1 ?c) = t then upd_rq ?c (\<lambda>r. r\<lparr>classq := cl_set_next k (cls_of m1 t) (classq r) t\<rparr>) m1 else m1"
  have tk: "tk ?m = tk m1" by (simp add: upd_rq_def)
  have "queue_inv k queued n ?Q ?m"
    by (rule queue_inv_cong [OF m1(3)]) (use con in \<open>auto simp: upd_rq_def class_contract_def\<close>)
  moreover have "retuned t m ?m" by (rule retuned_trans [OF m1(2)]) (auto simp: retuned_def upd_rq_def)
  ultimately show ?thesis unfolding put_back_def m1(1) by (intro exI [of _ ?m]) (simp add: tk m1(5), use m1(4) in simp)
qed


text \<open>A task is taken off, changed and put back.\<close>

lemma retune:
  assumes con: "class_contract k queued" and inv: "steady k queued owned n m" and t: "t \<notin> idles n m" and f: "flags AND DEQUEUE_SAVE k \<noteq> 0"
  shows "\<exists>m1. take_off k (task_cpu (tk m t)) t flags m = Inr m1 \<and> retuned t m m1 \<and> tk m1 t = (tk m t)\<lparr>clamp := clamp (tk m1 t)\<rparr>
    \<and> same_request (clamp (tk m1 t)) (clamp (tk m t))
    \<and> (\<forall>p flags'. same_core p (tk m t) \<and> ok_request (clampsys m) p \<and> flags' AND ENQUEUE_RESTORE k \<noteq> 0 \<longrightarrow>
        (\<exists>m2. put_back k (task_cpu (tk m t)) t flags' (upd_tk t (\<lambda>_. p) m1) = Inr m2 \<and> steady k queued owned n m2 \<and> retuned t m m2
          \<and> tk m2 t = p\<lparr>clamp := clamp (tk m2 t)\<rparr>))"
proof -
  let ?c = "task_cpu (tk m t)" and ?Q = "queue_of n m" and ?away = "\<lambda>t. sched_remote_wakeup (tk m t)"
  have i: "machine_inv k queued owned n {} ?away m" and sys: "ok_system (clampsys m)" and q: "queue_inv k queued n ?Q m" and c: "?c < n"
    using inv by (auto simp: steady_def machine_inv_def shape_def)
  obtain m1 where m1: "take_off k ?c t flags m = Inr m1" "retuned t m m1" "queue_inv k queued n (\<lambda>c. ?Q c - {t}) m1"
      "tk m1 t = (tk m t)\<lparr>clamp := clamp (tk m1 t)\<rparr>" "same_request (clamp (tk m1 t)) (clamp (tk m t))"
    using take_off_inv [OF con sys q c t f] by blast
  have "\<exists>m2. put_back k ?c t flags' (upd_tk t (\<lambda>_. p) m1) = Inr m2 \<and> steady k queued owned n m2 \<and> retuned t m m2 \<and> tk m2 t = p\<lparr>clamp := clamp (tk m2 t)\<rparr>"
    if p: "same_core p (tk m t)" "ok_request (clampsys m) p" "flags' AND ENQUEUE_RESTORE k \<noteq> 0" for p flags'
  proof -
    let ?m = "upd_tk t (\<lambda>_. p) m1"
    have e: "tk ?m t = p" "clampsys ?m = clampsys m" using m1(2) by (simp_all add: upd_tk_def retuned_def)
    have pc: "task_cpu p = ?c" "on_rq p = on_rq (tk m t)" using p(1) by (simp_all add: same_core_def)
    have q2: "queue_inv k queued n (\<lambda>c. ?Q c - {t}) ?m" by (rule queue_inv_cong [OF m1(3)]) (auto simp: upd_tk_def)
    obtain m2 where m2: "put_back k ?c t flags' ?m = Inr m2" "retuned t ?m m2"
        "queue_inv k queued n (if on_rq (tk m t) = OnRqQueued then (\<lambda>c. ?Q c - {t})(?c := insert t (?Q ?c - {t})) else (\<lambda>c. ?Q c - {t})) m2"
        "tk m2 t = p\<lparr>clamp := clamp (tk m2 t)\<rparr>" "same_request (clamp (tk m2 t)) (clamp p)"
      using put_back_inv [OF con _ q2, of t flags', unfolded e pc] sys c p by auto
    have "(if on_rq (tk m t) = OnRqQueued then (\<lambda>c. ?Q c - {t})(?c := insert t (?Q ?c - {t})) else (\<lambda>c. ?Q c - {t})) = ?Q"
      using t by (auto simp: fun_eq_iff queue_of_def)
    with m2(3) have q3: "queue_inv k queued n ?Q m2" by simp
    have "retuned t m ?m" using m1(2) p(1) by (simp add: retuned_def upd_tk_def)
    then have r: "retuned t m m2" by (rule retuned_trans [OF _ m2(2)])
    have "ok_request (clampsys m) (tk m2 t)" using p(2) m2(5) by (auto simp: ok_request_def ok_task_def same_request_def)
    from retuned_inv [OF i r this q3] have "machine_inv k queued owned n {} ?away m2" .
    moreover have "sched_remote_wakeup (tk m2 x) = ?away x" for x using retuned_core [OF r, of x] by (simp add: same_core_def)
    ultimately show ?thesis using m2(1,4) r by (simp add: steady_def)
  qed
  with m1 show ?thesis by blast
qed

lemma same_core_mod:
  "same_core (p\<lparr>clamp := x\<rparr>) q = same_core p q" "same_core (p\<lparr>load := l\<rparr>) q = same_core p q" "same_core (p\<lparr>pi_top_task := u\<rparr>) q = same_core p q"
  "state s = state (sched p) \<Longrightarrow> same_core (p\<lparr>sched := s\<rparr>) q = same_core p q"
  by (simp_all add: same_core_def)

lemma same_core_params: "p = q\<lparr>clamp := x\<rparr> \<Longrightarrow> state s = state (sched p) \<Longrightarrow> same_core (p\<lparr>sched := s, load := l\<rparr>) q"
  by (simp add: same_core_def)

text \<open>The callbacks of the classes, the clock and the fields of a task that no queue depends on.\<close>

lemma quiet_callback: "class_contract k queued \<Longrightarrow> quiet queued m (class_callback k c t x oldprio m)"
proof -
  assume con: "class_contract k queued"
  obtain q b where q: "cl_changed k x (cls_of m t) (classq (rqs m c)) t oldprio = (q, b)" by fastforce
  have "queued (fst (cl_changed k x y r t pr)) = queued r" for y r pr using con by (simp add: class_contract_def)
  then have "queued q = queued (classq (rqs m c))" using q by (metis fst_conv)
  then have a: "quiet queued m (upd_rq c (\<lambda>r. r\<lparr>classq := q\<rparr>) m)" by (rule quiet_classq)
  with quiet_trans [OF a quiet_resched] show ?thesis by (simp add: class_callback_def q Let_def)
qed

lemma quiet_class_changed: "class_contract k queued \<Longrightarrow> quiet queued m (check_class_changed k c t x oldprio m)"
  by (auto simp: check_class_changed_def intro: quiet_callback)

lemma quiet_field: "\<forall>p. tcore (f p) = tcore p \<Longrightarrow> quiet queued m (upd_tk t f m)"
  by (simp add: upd_tk_def quiet_def)

lemma clock_tk [simp]: "tk (update_rq_clock k c m) = tk m" "clampsys (update_rq_clock k c m) = clampsys m"
    "rq_idle (rqs (update_rq_clock k c m) d) = rq_idle (rqs m d)"
  by (simp_all add: update_rq_clock_eq)

lemma clock_idles [simp]: "idles n (update_rq_clock k c m) = idles n m"
  by (simp add: idles_def)

lemma retuned_clock: "retuned t m (update_rq_clock k c m)"
  by (simp add: update_rq_clock_eq retuned_def)

text \<open>All tasks are well typed.\<close>

definition typed_tasks :: "bool \<Rightarrow> headers \<Rightarrow> nat \<Rightarrow> 'q machine \<Rightarrow> bool" where
  "typed_tasks b h n m \<longleftrightarrow> (\<forall>t. well_typed b h (sched (tk m t))
     \<and> (if t \<in> idles n m then 0 \<le> prio (sched (tk m t)) else classed h (sched (tk m t))))"

text \<open>The result of a change: the machine keeps its invariant, and only the priority fields of one task differ.\<close>

definition tuned :: "'q machine \<Rightarrow> 'q machine \<Rightarrow> bool" where
  "tuned m m' \<longleftrightarrow> (\<forall>c. rq_curr (rqs m' c) = rq_curr (rqs m c) \<and> rq_idle (rqs m' c) = rq_idle (rqs m c))
     \<and> (\<forall>x. accumulated_cputime (sched (tk m' x)) = accumulated_cputime (sched (tk m x)) \<and> info (sched (tk m' x)) = info (sched (tk m x)))"

lemma tuned_refl [simp]: "tuned m m"
  by (simp add: tuned_def)

lemma tuned_trans [trans]: "tuned m m1 \<Longrightarrow> tuned m1 m2 \<Longrightarrow> tuned m m2"
  by (simp add: tuned_def)

definition changed :: "bool \<Rightarrow> 'q kernel \<Rightarrow> ('q \<Rightarrow> nat set) \<Rightarrow> (nat \<Rightarrow> int) \<Rightarrow> nat \<Rightarrow> 'q machine \<Rightarrow> 'q machine \<Rightarrow> bool" where
  "changed b k queued owned n m m' \<longleftrightarrow> steady k queued owned n m' \<and> typed_tasks b (hdr k) n m' \<and> tuned m m'"

lemma changedI:
  assumes "typed_tasks b (hdr k) n m" and "retuned t m m'" and "steady k queued owned n m'"
    and "well_typed b (hdr k) (sched (tk m' t))" and "classed (hdr k) (sched (tk m' t))"
    and "accumulated_cputime (sched (tk m' t)) = accumulated_cputime (sched (tk m t))" and "info (sched (tk m' t)) = info (sched (tk m t))"
    and "t \<notin> idles n m"
  shows "changed b k queued owned n m m'"
proof -
  have e: "tk m' x = tk m x" if "x \<noteq> t" for x using assms(2) that by (simp add: retuned_def)
  have i: "rq_idle (rqs m' c) = rq_idle (rqs m c)" "rq_curr (rqs m' c) = rq_curr (rqs m c)" for c using assms(2) by (simp_all add: retuned_def)
  have "typed_tasks b (hdr k) n m'" unfolding typed_tasks_def
  proof
    fix x show "well_typed b (hdr k) (sched (tk m' x)) \<and> (if x \<in> idles n m' then 0 \<le> prio (sched (tk m' x)) else classed (hdr k) (sched (tk m' x)))"
      using assms e [of x] by (cases "x = t") (simp_all add: typed_tasks_def idles_def i)
  qed
  moreover have "tuned m m'" unfolding tuned_def using assms(6,7) e i by metis
  ultimately show ?thesis using assms(3) by (simp add: changed_def)
qed

lemma changed_quiet:
  assumes "changed b k queued owned n m m1" and "quiet queued m1 m2" and "\<forall>x. sched (tk m2 x) = sched (tk m1 x)"
    and "\<forall>c. rq_curr (rqs m2 c) = rq_curr (rqs m1 c) \<and> rq_idle (rqs m2 c) = rq_idle (rqs m1 c)"
  shows "changed b k queued owned n m m2"
  using assms steady_quiet [OF assms(2), of k owned n] by (auto simp: changed_def typed_tasks_def tuned_def idles_def)

lemma callback_fields:
  "sched (tk (class_callback k c t x oldprio m) y) = sched (tk m y)" "rq_curr (rqs (class_callback k c t x oldprio m) d) = rq_curr (rqs m d)"
  "rq_idle (rqs (class_callback k c t x oldprio m) d) = rq_idle (rqs m d)"
  by (auto simp: class_callback_def resched_curr_def upd_rq_def upd_tk_def Let_def split: prod.splits)

lemma check_fields: "sched (tk (check_class_changed k c t x oldprio m) y) = sched (tk m y)"
  by (simp add: check_class_changed_def callback_fields)

lemma changed_callback: "class_contract k queued \<Longrightarrow> changed b k queued owned n m m1 \<Longrightarrow> changed b k queued owned n m (class_callback k c t x oldprio m1)"
  by (rule changed_quiet [OF _ quiet_callback]) (simp_all add: callback_fields)

lemma changed_check: "class_contract k queued \<Longrightarrow> changed b k queued owned n m m1 \<Longrightarrow> changed b k queued owned n m (check_class_changed k c t x oldprio m1)"
  by (auto simp: check_class_changed_def intro: changed_callback)

lemma unchanged: "steady k queued owned n m \<Longrightarrow> typed_tasks b (hdr k) n m \<Longrightarrow> changed b k queued owned n m m"
  by (simp add: changed_def)

lemma clock_changed:
  assumes "steady k queued owned n m" and "typed_tasks b (hdr k) n m"
  shows "changed b k queued owned n m (update_rq_clock k c m)"
  by (rule changed_quiet [OF unchanged [OF assms] quiet_clock]) (simp_all add: update_rq_clock_eq)

lemma changed_trans [trans]: "changed b k queued owned n m m1 \<Longrightarrow> changed b k queued owned n m1 m2 \<Longrightarrow> changed b k queued owned n m m2"
  by (auto simp: changed_def intro: tuned_trans)

lemma changed_mid: "changed b k queued owned n m m1 \<Longrightarrow> steady k queued owned n m1 \<and> typed_tasks b (hdr k) n m1"
  by (simp add: changed_def)

text \<open>What may be put back for a task that was taken off.\<close>

definition fits :: "bool \<Rightarrow> headers \<Rightarrow> ktask \<Rightarrow> ktask \<Rightarrow> bool" where
  "fits b h p q \<longleftrightarrow> same_core p q \<and> well_typed b h (sched p) \<and> classed h (sched p)
     \<and> accumulated_cputime (sched p) = accumulated_cputime (sched q) \<and> info (sched p) = info (sched q)"

lemma retype:
  assumes con: "class_contract k queued" and inv: "steady k queued owned n m" and ty: "typed_tasks b (hdr k) n m"
    and t: "t \<notin> idles n m" and f: "flags AND DEQUEUE_SAVE k \<noteq> 0"
  shows "\<exists>m1. take_off k (task_cpu (tk m t)) t flags m = Inr m1 \<and> retuned t m m1 \<and> tk m1 t = (tk m t)\<lparr>clamp := clamp (tk m1 t)\<rparr>
    \<and> ok_request (clampsys m) (tk m1 t)
    \<and> (\<forall>p flags'. fits b (hdr k) p (tk m t) \<and> ok_request (clampsys m) p \<and> flags' AND ENQUEUE_RESTORE k \<noteq> 0 \<longrightarrow>
        (\<exists>m2. put_back k (task_cpu (tk m t)) t flags' (upd_tk t (\<lambda>_. p) m1) = Inr m2 \<and> changed b k queued owned n m m2 \<and> sched (tk m2 t) = sched p))"
proof -
  obtain m1 where m1: "take_off k (task_cpu (tk m t)) t flags m = Inr m1" "retuned t m m1" "tk m1 t = (tk m t)\<lparr>clamp := clamp (tk m1 t)\<rparr>"
      "same_request (clamp (tk m1 t)) (clamp (tk m t))"
    and put: "\<forall>p flags'. same_core p (tk m t) \<and> ok_request (clampsys m) p \<and> flags' AND ENQUEUE_RESTORE k \<noteq> 0 \<longrightarrow>
        (\<exists>m2. put_back k (task_cpu (tk m t)) t flags' (upd_tk t (\<lambda>_. p) m1) = Inr m2 \<and> steady k queued owned n m2 \<and> retuned t m m2
          \<and> tk m2 t = p\<lparr>clamp := clamp (tk m2 t)\<rparr>)"
    using retune [OF con inv t f] by blast
  have "ok_request (clampsys m) (tk m t)" using inv by (simp add: steady_def machine_inv_def)
  then have "ok_request (clampsys m) (tk m1 t)" using m1(4) by (simp add: ok_request_def ok_task_def same_request_def)
  moreover have "\<exists>m2. put_back k (task_cpu (tk m t)) t flags' (upd_tk t (\<lambda>_. p) m1) = Inr m2 \<and> changed b k queued owned n m m2 \<and> sched (tk m2 t) = sched p"
    if p: "fits b (hdr k) p (tk m t)" "ok_request (clampsys m) p" "flags' AND ENQUEUE_RESTORE k \<noteq> 0" for p flags'
  proof -
    obtain m2 where m2: "put_back k (task_cpu (tk m t)) t flags' (upd_tk t (\<lambda>_. p) m1) = Inr m2" "steady k queued owned n m2"
        "retuned t m m2" "tk m2 t = p\<lparr>clamp := clamp (tk m2 t)\<rparr>" using put p by (auto simp: fits_def)
    have e: "sched (tk m2 t) = sched p" by (subst m2(4)) simp
    show ?thesis using m2(1) changedI [OF ty m2(3,2)] p(1) t by (simp add: e fits_def)
  qed
  ultimately show ?thesis using m1 by blast
qed

section \<open>Nice values\<close>

lemma load_weight_ok:
  assumes "linux_headers (hdr k)" and "static_prio (sched p) \<in> {100..139}"
  shows "\<exists>l. set_load_weight k u p = Inr (p\<lparr>load := l\<rparr>)"
  using assms by (auto simp: set_load_weight_def linux_headers_def aget_def sched_prio_to_weight_def sched_prio_to_wmult_def Let_def)

lemma nice_params_ok:
  assumes h: "linux_headers (hdr k)" and "nice \<in> {-20..19}" and "\<not> (dl_policy (hdr k) (policy (sched p)) \<or> rt_policy (hdr k) (policy (sched p)))"
  shows "\<exists>l. nice_params k nice p = Inr (p\<lparr>sched := niced nice (sched p), load := l\<rparr>)"
proof -
  obtain l where "set_load_weight k True (p\<lparr>sched := (sched p)\<lparr>static_prio := nice + 120\<rparr>\<rparr>) = Inr (p\<lparr>sched := (sched p)\<lparr>static_prio := nice + 120\<rparr>, load := l\<rparr>)"
    using load_weight_ok [OF assms(1), of "p\<lparr>sched := (sched p)\<lparr>static_prio := nice + 120\<rparr>\<rparr>" True] assms(2) by auto
  moreover have "calc_normal_prio (hdr k) ((sched p)\<lparr>static_prio := nice + 120\<rparr>) = nice + 120"
    using assms(3) by (simp add: normal_prio_eq [OF h] linux_eqs [OF h])
  ultimately show ?thesis
    by (intro exI [of _ l]) (cases p, simp add: nice_params_def linux_eqs [OF h] effective_prio_def niced_def Let_def)
qed

lemma set_user_nice_inv:
  assumes con: "class_contract k queued" and fl: "flags_contract k" and h: "linux_headers (hdr k)"
    and inv: "steady k queued owned n m" and ty: "typed_tasks b (hdr k) n m" and t: "t \<notin> idles n m"
  shows "\<exists>m'. set_user_nice k t nice m = Inr m' \<and> changed b k queued owned n m m'
    \<and> static_prio (sched (tk m' t)) = (if nice \<in> {-20..19} then nice + 120 else static_prio (sched (tk m t)))"
proof (cases "task_nice (hdr k) (sched (tk m t)) = nice \<or> nice < -20 \<or> nice > 19")
  case True
  with inv ty h show ?thesis by (auto simp: set_user_nice_def task_nice_def linux_eqs intro: unchanged)
next
  case False
  let ?c = "task_cpu (tk m t)"
  let ?m1 = "update_rq_clock k ?c m" and ?pol = "policy (sched (tk m t))"
  have N: "\<not> (task_nice (hdr k) (sched (tk m t)) = nice \<or> nice < MIN_NICE (hdr k) \<or> nice > MAX_NICE (hdr k))" and nice: "nice \<in> {-20..19}"
    using False h by (auto simp: linux_eqs)
  have wt: "well_typed b (hdr k) (sched (tk m t))" "classed (hdr k) (sched (tk m t))" using ty t by (auto simp: typed_tasks_def)
  have c1: "changed b k queued owned n m ?m1" by (rule clock_changed [OF inv ty])
  then have s1: "steady k queued owned n ?m1" "typed_tasks b (hdr k) n ?m1" using changed_mid by blast+
  show ?thesis
  proof (cases "dl_policy (hdr k) ?pol \<or> rt_policy (hdr k) ?pol")
    case True
    let ?m' = "upd_tk t (\<lambda>p. p\<lparr>sched := (sched p)\<lparr>static_prio := NICE_TO_PRIO (hdr k) nice\<rparr>\<rparr>) ?m1"
    have "steady k queued owned n ?m'" by (rule steady_quiet [OF quiet_field s1(1)]) (simp add: tcore_def)
    moreover have "retuned t ?m1 ?m'" by (simp add: retuned_def upd_tk_def same_core_def)
    ultimately have "changed b k queued owned n ?m1 ?m'"
      using changedI [OF s1(2)] typed_static_prio [OF h wt(1) nice True] wt(2) t by (simp add: upd_tk_def classed_def linux_eqs [OF h])
    from changed_trans [OF c1 this] True N nice show ?thesis by (simp add: set_user_nice_def) (simp add: upd_tk_def linux_eqs [OF h])
  next
    case other: False
    have f: "(DEQUEUE_SAVE k OR DEQUEUE_NOCLOCK k) AND DEQUEUE_SAVE k \<noteq> 0" "(ENQUEUE_RESTORE k OR ENQUEUE_NOCLOCK k) AND ENQUEUE_RESTORE k \<noteq> 0"
      using fl by (simp_all add: flags_contract_def)
    obtain m2 where m2: "take_off k ?c t (DEQUEUE_SAVE k OR DEQUEUE_NOCLOCK k) ?m1 = Inr m2"
        "tk m2 t = (tk m t)\<lparr>clamp := clamp (tk m2 t)\<rparr>" "ok_request (clampsys m) (tk m2 t)"
      and put: "\<forall>p flags'. fits b (hdr k) p (tk m t) \<and> ok_request (clampsys m) p \<and> flags' AND ENQUEUE_RESTORE k \<noteq> 0 \<longrightarrow>
          (\<exists>m3. put_back k ?c t flags' (upd_tk t (\<lambda>_. p) m2) = Inr m3 \<and> changed b k queued owned n ?m1 m3 \<and> sched (tk m3 t) = sched p)"
      using retype [OF con s1 _ f(1), of t] t unfolding clock_tk clock_idles by blast
    have e: "sched (tk m2 t) = sched (tk m t)" by (subst m2(2)) simp
    obtain l where p: "nice_params k nice (tk m2 t) = Inr ((tk m2 t)\<lparr>sched := niced nice (sched (tk m t)), load := l\<rparr>)"
      using nice_params_ok [OF h nice, of "tk m2 t"] other e by auto
    let ?p = "(tk m2 t)\<lparr>sched := niced nice (sched (tk m t)), load := l\<rparr>"
    have "ok_request (clampsys m) ?p" using m2(3) by (simp add: ok_request_def)
    moreover have "same_core ?p (tk m t)" by (rule same_core_params [OF m2(2)]) (simp add: e niced_def)
    then have "fits b (hdr k) ?p (tk m t)" using typed_nice [OF h wt(1) nice other] wt(2) by (simp add: fits_def) (simp add: niced_def)
    ultimately obtain m3 where m3: "put_back k ?c t (ENQUEUE_RESTORE k OR ENQUEUE_NOCLOCK k) (upd_tk t (\<lambda>_. ?p) m2) = Inr m3" "changed b k queued owned n ?m1 m3"
        "sched (tk m3 t) = niced nice (sched (tk m t))"
      using put f(2) by fastforce
    from changed_callback [OF con changed_trans [OF c1 m3(2)]] N nice other m2(1) p m3(1) show ?thesis
      by (simp add: set_user_nice_def callback_fields m3(3)) (simp add: niced_def)
  qed
qed

section \<open>Priority inheritance\<close>

lemma upd_tk_at: "upd_tk t f m = upd_tk t (\<lambda>_. f (tk m t)) m"
  by (simp add: upd_tk_def)

lemma boost_flags_ok:
  assumes "pr = min_prio m pi_task (normal_prio (sched (tk m t)))" and fl: "flags_contract k" and "flags AND ENQUEUE_RESTORE k \<noteq> 0"
  shows "\<exists>f. boost_flags k env t pi_task pr flags m = Inr f \<and> f AND ENQUEUE_RESTORE k \<noteq> 0"
proof (cases pi_task)
  case None
  with assms show ?thesis by (auto simp: boost_flags_def min_prio_def flags_contract_def bit.conj_disj_distrib2 Let_def)
next
  case (Some u)
  with assms show ?thesis by (auto simp: boost_flags_def flags_contract_def bit.conj_disj_distrib2 Let_def)
qed

lemma rt_mutex_setprio_inv:
  assumes con: "class_contract k queued" and fl: "flags_contract k" and h: "linux_headers (hdr k)"
    and inv: "steady k queued owned n m" and ty: "typed_tasks b (hdr k) n m" and t: "t \<notin> idles n m"
  shows "\<exists>m'. rt_mutex_setprio k env t pi_task m = Inr m' \<and> changed b k queued owned n m m'"
proof -
  let ?c = "task_cpu (tk m t)" and ?pr = "min_prio m pi_task (normal_prio (sched (tk m t)))"
  let ?m1 = "upd_tk t (\<lambda>p. p\<lparr>pi_top_task := pi_task\<rparr>) (update_rq_clock k ?c m)"
  let ?flags = "DEQUEUE_SAVE k OR DEQUEUE_MOVE k OR DEQUEUE_NOCLOCK k"
  let ?flags1 = "if prio (sched (tk m t)) = ?pr then ?flags AND NOT (DEQUEUE_MOVE k) else ?flags"
  have wt: "well_typed b (hdr k) (sched (tk m x))" for x using ty by (simp add: typed_tasks_def)
  have pr: "?pr \<in> {-1..normal_prio (sched (tk m t))}"
    using wt [of t] wt [of "the pi_task"] by (cases pi_task) (auto simp: min_prio_def well_typed_def)
  have c1: "changed b k queued owned n m ?m1"
    by (rule changed_quiet [OF clock_changed [OF inv ty] quiet_field]) (simp_all add: upd_tk_def tcore_def)
  then have s1: "steady k queued owned n ?m1" "typed_tasks b (hdr k) n ?m1" using changed_mid by blast+
  have e: "tk ?m1 t = (tk m t)\<lparr>pi_top_task := pi_task\<rparr>" "clampsys ?m1 = clampsys m" "idles n ?m1 = idles n m" "sched (tk ?m1 x) = sched (tk m x)" for x
    by (simp_all add: upd_tk_def idles_def)
  have f: "?flags1 AND DEQUEUE_SAVE k \<noteq> 0" "?flags1 AND ENQUEUE_RESTORE k \<noteq> 0" using fl by (auto simp: flags_contract_def)
  have tc: "task_cpu (tk ?m1 t) = ?c" by (simp add: e)
  obtain m2 where m2: "take_off k ?c t ?flags1 ?m1 = Inr m2" "retuned t ?m1 m2" "tk m2 t = (tk ?m1 t)\<lparr>clamp := clamp (tk m2 t)\<rparr>" "ok_request (clampsys m) (tk m2 t)"
    and put: "\<forall>p flags'. fits b (hdr k) p (tk ?m1 t) \<and> ok_request (clampsys m) p \<and> flags' AND ENQUEUE_RESTORE k \<noteq> 0 \<longrightarrow>
          (\<exists>m3. put_back k ?c t flags' (upd_tk t (\<lambda>_. p) m2) = Inr m3 \<and> changed b k queued owned n ?m1 m3)"
    using retype [OF con s1 _ f(1), of t] t unfolding e(2,3) tc by blast
  have "sched (tk m2 t) = sched (tk m t)" by (subst m2(3)) (simp add: e)
  moreover have "sched (tk m2 x) = sched (tk m x)" if "x \<noteq> t" for x using m2(2) e(4) [of x] that by (simp add: retuned_def)
  ultimately have e2: "sched (tk m2 x) = sched (tk m x)" for x by (cases "x = t") simp_all
  then have pr2: "?pr = min_prio m2 pi_task (normal_prio (sched (tk m2 t)))" by (simp add: min_prio_def cong: option.case_cong)
  obtain flags2 where b2: "boost_flags k env t pi_task ?pr ?flags1 m2 = Inr flags2" "flags2 AND ENQUEUE_RESTORE k \<noteq> 0"
    using boost_flags_ok [OF pr2 fl f(2)] by blast
  let ?s = "(sched (tk m t))\<lparr>cls := class_of_prio (hdr k) ?pr, prio := ?pr\<rparr>"
  let ?p = "(tk m2 t)\<lparr>sched := ?s\<rparr>"
  have "same_core ?p (tk ?m1 t)" by (subst m2(3)) (simp add: same_core_def e)
  then have "fits b (hdr k) ?p (tk ?m1 t)" using typed_boost [OF wt pr] by (simp add: fits_def e)
  moreover have "ok_request (clampsys m) ?p" using m2(4) by (simp add: ok_request_def)
  ultimately obtain m3 where m3: "put_back k ?c t flags2 (upd_tk t (\<lambda>_. ?p) m2) = Inr m3" "changed b k queued owned n ?m1 m3"
    using put b2(2) by blast
  have u: "upd_tk t (\<lambda>p. p\<lparr>sched := (sched p)\<lparr>cls := class_of_prio (hdr k) ?pr, prio := ?pr\<rparr>\<rparr>) m2 = upd_tk t (\<lambda>_. ?p) m2"
    by (subst upd_tk_at) (simp add: e2)
  have fin: "changed b k queued owned n m (check_class_changed k ?c t x y m3)" for x y
    by (rule changed_check [OF con changed_trans [OF c1 m3(2)]])
  show ?thesis
    unfolding rt_mutex_setprio_def Let_def e(4) m2(1) bindR_simps b2(1) u m3(1) using c1 fin unchanged [OF inv ty] by auto
qed

section \<open>sched_setscheduler\<close>

lemma setscheduler_params_ok:
  assumes h: "linux_headers (hdr k)" and "static_prio (attr_params (hdr k) a (sched p)) \<in> {100..139}"
  shows "\<exists>l. setscheduler_params k a p = Inr (p\<lparr>sched := attr_params (hdr k) a (sched p), load := l\<rparr>)"
proof -
  have e: "setscheduler_params k a p = set_load_weight k True (p\<lparr>sched := attr_params (hdr k) a (sched p)\<rparr>)"
    by (cases "sched p") (simp add: setscheduler_params_def attr_params_def Let_def linux_eqs [OF h])
  show ?thesis unfolding e using load_weight_ok [OF h, of "p\<lparr>sched := attr_params (hdr k) a (sched p)\<rparr>" True] assms(2) by auto
qed

lemma setscheduler_ok:
  assumes h: "linux_headers (hdr k)" and wt: "\<And>x. well_typed b (hdr k) (sched (tk m x))" and cl: "classed (hdr k) (sched (tk m t))"
    and a: "fit_attr a" and i: "\<not> invalid_attr (hdr k) env (tk m t) a (if sched_policy a < 0 then policy (sched (tk m t)) else sched_policy a)"
  shows "\<exists>s l. setscheduler k t a keep m = Inr (upd_tk t (\<lambda>_. (tk m t)\<lparr>sched := s, load := l\<rparr>) m)
    \<and> fits b (hdr k) ((tk m t)\<lparr>sched := s, load := l\<rparr>) (tk m t) \<and> settings s = settings (asked (hdr k) a (sched (tk m t)))"
proof (cases "sched_flags a AND SCHED_FLAG_KEEP_PARAMS (hdr k) \<noteq> 0")
  case True
  with wt cl show ?thesis
    by (intro exI [of _ "sched (tk m t)"] exI [of _ "load (tk m t)"]) (simp add: setscheduler_def upd_tk_def fits_def asked_def)
next
  case False
  let ?A = "attr_params (hdr k) a (sched (tk m t))"
  let ?p1 = "\<lambda>l. (tk m t)\<lparr>sched := ?A, load := l\<rparr>"
  let ?pr = "\<lambda>l. if keep then rt_effective_prio (upd_tk t (\<lambda>_. ?p1 l) m) t (calc_normal_prio (hdr k) ?A) else calc_normal_prio (hdr k) ?A"
  have n: "normal_prio ?A = calc_normal_prio (hdr k) ?A" "prio ?A = prio (sched (tk m t))" "state ?A = state (sched (tk m t))"
      "accumulated_cputime ?A = accumulated_cputime (sched (tk m t))" "info ?A = info (sched (tk m t))"
    by (simp_all add: attr_params_def Let_def calc_normal_prio_def static_normal_prio_def)
  have sp: "static_prio ?A \<in> {100..139}" using a typed_static [OF wt [of t]] by (auto simp: attr_params_def fit_attr_def Let_def)
  then obtain l where l: "setscheduler_params k a (tk m t) = Inr (?p1 l)" using setscheduler_params_ok [OF h] by blast
  have "sched_priority a \<le> 99" using i by (cases "mm (tk m t)") (auto simp: invalid_attr_def linux_eqs [OF h])
  then have "- 1 \<le> normal_prio ?A" using sp unfolding n(1) normal_prio_eq [OF h] by (simp add: attr_params_def Let_def)
  moreover have "- 1 \<le> prio (sched (tk (upd_tk t (\<lambda>_. ?p1 l) m) x))" for x using wt [of x] wt [of t] by (simp add: upd_tk_def n well_typed_def)
  ultimately have pr: "?pr l \<in> {-1..normal_prio ?A}" unfolding n(1) by (auto simp: rt_effective_prio_def min_prio_def split: option.splits)
  let ?s = "?A\<lparr>prio := ?pr l, cls := class_of_prio (hdr k) (?pr l)\<rparr>"
  have "well_typed b (hdr k) (?A\<lparr>prio := ?pr l\<rparr>)" by (rule typed_params [OF h wt a i pr])
  then have "well_typed b (hdr k) ?s" by (rule typed_cong [THEN iffD1, rotated -1]) simp_all
  then have "fits b (hdr k) ((tk m t)\<lparr>sched := ?s, load := l\<rparr>) (tk m t)" by (simp add: fits_def classed_def same_core_def n)
  moreover have "setscheduler k t a keep m = Inr (upd_tk t (\<lambda>_. (tk m t)\<lparr>sched := ?s, load := l\<rparr>) m)"
    using False unfolding setscheduler_def Let_def l bindR_simps by (cases "tk m t") (simp add: upd_tk_def)
  moreover have "settings ?s = settings (asked (hdr k) a (sched (tk m t)))" using False by (simp add: asked_def)
  ultimately show ?thesis by blast
qed

lemma attr_request:
  assumes h: "linux_headers h" and sys: "ok_system sys" and p: "ok_request sys p" and a: "fit_attr a"
  shows "ok_request sys (q\<lparr>clamp := setscheduler_uclamp h sys a (clamp_view k p)\<rparr>)"
proof -
  have w: "well_formed (UCLAMP_BUCKETS sys) (uclamp_se_set (UCLAMP_BUCKETS sys) se v u)" if "v \<le> 1024" for se v u using that by (rule well_formed_set)
  define fine where "fine x \<longleftrightarrow> (\<forall>i. well_formed (UCLAMP_BUCKETS sys) (uclamp_req x i)) \<and> group_clamps x = group_clamps (clamp p)" for x :: clamp_task
  have "fine (clamp_view k p)" using p by (simp add: fine_def ok_request_def ok_task_def clamp_view_def)
  moreover have r: "fine x \<Longrightarrow> fine (reset_request h sys a i x)" for x i
    using sys w by (auto simp: fine_def reset_request_def ok_system_def uclamp_none_def SCHED_CAPACITY_SCALE_def Let_def)
  moreover have u: "fine x \<Longrightarrow> v \<in> {0..1024} \<Longrightarrow> fine (user_request sys i v x)" for x i v
    using w by (auto simp: fine_def user_request_def)
  ultimately have "fine (setscheduler_uclamp h sys a (clamp_view k p))" using a unfolding setscheduler_uclamp_def fit_attr_def Let_def by auto
  with p show ?thesis by (auto simp: fine_def ok_request_def ok_task_def)
qed

lemma reset_flag_changed:
  assumes "steady k queued owned n m" and "typed_tasks b (hdr k) n m"
  shows "changed b k queued owned n m (upd_tk t (\<lambda>p. p\<lparr>sched := (sched p)\<lparr>sched_reset_on_fork := r\<rparr>\<rparr>) m)" (is "changed _ _ _ _ _ _ ?m")
proof -
  have "steady k queued owned n ?m" by (rule steady_quiet [OF quiet_field assms(1)]) (simp add: tcore_def)
  moreover have "well_typed b (hdr k) (p\<lparr>sched_reset_on_fork := r\<rparr>) = well_typed b (hdr k) p" "classed (hdr k) (p\<lparr>sched_reset_on_fork := r\<rparr>) = classed (hdr k) p" for p
    by (rule typed_cong) (simp_all add: classed_def)
  then have "typed_tasks b (hdr k) n ?m" using assms(2) by (auto simp: typed_tasks_def idles_def upd_tk_def)
  ultimately show ?thesis by (simp add: changed_def) (simp add: tuned_def upd_tk_def)
qed

lemma setscheduler_change_inv:
  assumes con: "class_contract k queued" and fl: "flags_contract k" and h: "linux_headers (hdr k)"
    and inv: "steady k queued owned n m" and ty: "typed_tasks b (hdr k) n m" and t: "t \<notin> idles n m" and a: "fit_attr a"
    and i: "\<not> invalid_attr (hdr k) env (tk m t) a (if sched_policy a < 0 then policy (sched (tk m t)) else sched_policy a)"
  shows "\<exists>m'. setscheduler_change k t a inherit r m = Inr m' \<and> changed b k queued owned n m m'
    \<and> settings (sched (tk m' t)) = settings (asked (hdr k) a ((sched (tk m t))\<lparr>sched_reset_on_fork := r\<rparr>))"
proof -
  let ?c = "task_cpu (tk m t)" and ?m = "upd_tk t (\<lambda>p. p\<lparr>sched := (sched p)\<lparr>sched_reset_on_fork := r\<rparr>\<rparr>) m"
  let ?flags = "DEQUEUE_SAVE k OR DEQUEUE_MOVE k OR DEQUEUE_NOCLOCK k"
  have c1: "changed b k queued owned n m ?m" by (rule reset_flag_changed [OF inv ty])
  then have s1: "steady k queued owned n ?m" "typed_tasks b (hdr k) n ?m" using changed_mid by blast+
  have e: "clampsys ?m = clampsys m" "idles n ?m = idles n m" "task_cpu (tk ?m t) = ?c" "mm (tk ?m t) = mm (tk m t)"
      "policy (sched (tk ?m t)) = policy (sched (tk m t))" by (simp_all add: upd_tk_def idles_def)
  define flags1 where "flags1 = (if inherit \<and> rt_effective_prio ?m t
      (if dl_policy (hdr k) (sched_policy a) then MAX_DL_PRIO (hdr k) - 1 else MAX_RT_PRIO (hdr k) - 1 - sched_priority a) = prio (sched (tk ?m t))
    then ?flags AND NOT (DEQUEUE_MOVE k) else ?flags)"
  have f: "flags1 AND DEQUEUE_SAVE k \<noteq> 0" "flags1 AND ENQUEUE_RESTORE k \<noteq> 0" "(flags1 OR ENQUEUE_HEAD k) AND ENQUEUE_RESTORE k \<noteq> 0"
    using fl by (auto simp: flags_contract_def flags1_def)
  obtain m1 where m1: "take_off k ?c t flags1 ?m = Inr m1" "retuned t ?m m1" "tk m1 t = (tk ?m t)\<lparr>clamp := clamp (tk m1 t)\<rparr>" "ok_request (clampsys m) (tk m1 t)"
    and put: "\<forall>p flags'. fits b (hdr k) p (tk ?m t) \<and> ok_request (clampsys m) p \<and> flags' AND ENQUEUE_RESTORE k \<noteq> 0 \<longrightarrow>
          (\<exists>m3. put_back k ?c t flags' (upd_tk t (\<lambda>_. p) m1) = Inr m3 \<and> changed b k queued owned n ?m m3 \<and> sched (tk m3 t) = sched p)"
    using retype [OF con s1 _ f(1), of t] t unfolding e(1-3) by blast
  have et: "sched (tk m1 t) = sched (tk ?m t)" "mm (tk m1 t) = mm (tk m t)" by (subst m1(3), simp add: e)+
  have "sched (tk m1 x) = sched (tk ?m x)" for x using m1(2) et(1) by (cases "x = t") (auto simp: retuned_def)
  then have "\<And>x. well_typed b (hdr k) (sched (tk m1 x))" "classed (hdr k) (sched (tk m1 t))"
    using s1(2) t by (auto simp: typed_tasks_def e)
  moreover have "\<not> invalid_attr (hdr k) env (tk m1 t) a (if sched_policy a < 0 then policy (sched (tk m1 t)) else sched_policy a)"
    using i unfolding invalid_attr_def et e .
  ultimately obtain s l where s: "setscheduler k t a inherit m1 = Inr (upd_tk t (\<lambda>_. (tk m1 t)\<lparr>sched := s, load := l\<rparr>) m1)"
      "fits b (hdr k) ((tk m1 t)\<lparr>sched := s, load := l\<rparr>) (tk m1 t)" "settings s = settings (asked (hdr k) a (sched (tk m1 t)))"
    using setscheduler_ok [OF h _ _ a, of b m1 t env inherit] by blast
  let ?p = "(tk m1 t)\<lparr>sched := s, load := l\<rparr>"
  let ?q = "?p\<lparr>clamp := setscheduler_uclamp (hdr k) (clampsys m) a (clamp_view k ?p)\<rparr>"
  have sys: "ok_system (clampsys m)" "clampsys m1 = clampsys m" using inv m1(2) by (auto simp: steady_def machine_inv_def retuned_def e)
  have "ok_request (clampsys m) ?p" using m1(4) by (simp add: ok_request_def)
  then have q: "ok_request (clampsys m) ?q" by (rule attr_request [OF h sys(1) _ a])
  have "same_core (tk m1 t) (tk ?m t)" by (subst m1(3)) (simp add: same_core_def)
  with s(2) have "fits b (hdr k) ?q (tk ?m t)" by (simp add: fits_def et same_core_def)
  moreover define flags2 where "flags2 = (if prio (sched (tk ?m t)) < prio s then flags1 OR ENQUEUE_HEAD k else flags1)"
  then have "flags2 AND ENQUEUE_RESTORE k \<noteq> 0" using f by simp
  ultimately obtain m3 where m3: "put_back k ?c t flags2 (upd_tk t (\<lambda>_. ?q) m1) = Inr m3" "changed b k queued owned n ?m m3" "sched (tk m3 t) = s"
    using put q by fastforce
  have u: "upd_tk t (\<lambda>p. p\<lparr>clamp := setscheduler_uclamp (hdr k) (clampsys (upd_tk t (\<lambda>_. ?p) m1)) a (clamp_view k p)\<rparr>) (upd_tk t (\<lambda>_. ?p) m1) = upd_tk t (\<lambda>_. ?q) m1"
    by (simp add: upd_tk_def sys)
  have v: "prio (sched (tk (upd_tk t (\<lambda>_. ?q) m1) t)) = prio s" by (simp add: upd_tk_def)
  show ?thesis
    unfolding setscheduler_change_def Let_def flags1_def [symmetric] m1(1) bindR_simps s(1) u v flags2_def [symmetric] m3(1)
    using changed_check [OF con changed_trans [OF c1 m3(2)]] s(3) by (simp add: check_fields m3(3) et upd_tk_def)
qed

lemma validate_used: "ok_system sys \<Longrightarrow> snd (uclamp_validate h sys p a) = sys"
  by (cases sys) (simp add: uclamp_validate_def ok_system_def Let_def)

text \<open>
  The outcome of \<open>__sched_setscheduler\<close> for the task: nothing changes with an error; without one the checks
  were passed and the settings are those asked for.
\<close>

definition settled :: "headers \<Rightarrow> policy_env \<Rightarrow> nat \<Rightarrow> sched_attr \<Rightarrow> bool \<Rightarrow> ktask \<Rightarrow> int \<Rightarrow> task_struct \<Rightarrow> bool" where
  "settled h env t a user p r s \<longleftrightarrow>
     (let pol = (if sched_policy a < 0 then policy (sched p) else sched_policy a);
          reset = (if sched_policy a < 0 then sched_reset_on_fork (sched p) else sched_flags a AND SCHED_FLAG_RESET_ON_FORK h \<noteq> 0)
      in if r \<noteq> 0 then s = sched p
         else \<not> invalid_attr h env p a pol \<and> (user \<and> \<not> capable_nice env \<longrightarrow> \<not> not_permitted h env t (sched p) a pol reset)
           \<and> (settings s = settings (asked h a ((sched p)\<lparr>sched_reset_on_fork := reset\<rparr>))
             \<or> pol = policy (sched p) \<and> \<not> params_change h env t (sched p) a pol \<and> s = (sched p)\<lparr>sched_reset_on_fork := reset\<rparr>))"

lemma setscheduler_task_inv:
  assumes con: "class_contract k queued" and fl: "flags_contract k" and h: "linux_headers (hdr k)"
    and inv: "steady k queued owned n m" and ty: "typed_tasks b (hdr k) n m" and t: "t \<notin> idles n m" and a: "fit_attr a"
  shows "\<exists>r m'. setscheduler_task k env t a user inherit m = Inr (r, m') \<and> changed b k queued owned n m m'
    \<and> settled (hdr k) env t a user (tk m t) r (sched (tk m' t))"
proof (cases "invalid_attr (hdr k) env (tk m t) a (if sched_policy a < 0 then policy (sched (tk m t)) else sched_policy a)")
  case True
  moreover have "EINVAL (hdr k) = 22" using h by (simp add: linux_headers_def)
  ultimately show ?thesis using unchanged [OF inv ty] by (simp add: setscheduler_task_def settled_def Let_def)
next
  case False
  let ?m1 = "update_rq_clock k (task_cpu (tk m t)) m"
  define pol where "pol = (if sched_policy a < 0 then policy (sched (tk m t)) else sched_policy a)"
  define r where "r = (if sched_policy a < 0 then sched_reset_on_fork (sched (tk m t)) else sched_flags a AND SCHED_FLAG_RESET_ON_FORK (hdr k) \<noteq> 0)"
  note fold = pol_def [symmetric] r_def [symmetric]
  have inval: "\<not> invalid_attr (hdr k) env (tk m t) a pol" using False unfolding pol_def .
  have c1: "changed b k queued owned n m ?m1" by (rule clock_changed [OF inv ty])
  then have s1: "steady k queued owned n ?m1" "typed_tasks b (hdr k) n ?m1" using changed_mid by blast+
  obtain m3 where m3: "setscheduler_change k t a inherit r ?m1 = Inr m3" "changed b k queued owned n ?m1 m3"
      "settings (sched (tk m3 t)) = settings (asked (hdr k) a ((sched (tk m t))\<lparr>sched_reset_on_fork := r\<rparr>))"
    using setscheduler_change_inv [OF con fl h s1 _ a, of t env inherit r] t False unfolding clock_tk clock_idles by blast
  have c3: "changed b k queued owned n m m3" by (rule changed_trans [OF c1 m3(2)])
  have c2: "changed b k queued owned n m (upd_tk t (\<lambda>p. p\<lparr>sched := (sched p)\<lparr>sched_reset_on_fork := r\<rparr>\<rparr>) ?m1)"
    by (rule changed_trans [OF c1 reset_flag_changed [OF s1]])
  have sys: "ok_system (clampsys m)" using inv by (simp add: steady_def machine_inv_def)
  obtain v where v: "(if sched_flags a AND SCHED_FLAG_UTIL_CLAMP (hdr k) \<noteq> 0
      then uclamp_validate (hdr k) (clampsys m) (clamp_view k (tk m t)) a else (0, clampsys m)) = (v, clampsys m)"
    using validate_used [OF sys] by (metis (no_types, lifting) prod.collapse)
  have id: "m\<lparr>clampsys := clampsys m\<rparr> = m" by simp
  let ?no = "user \<and> \<not> capable_nice env \<and> not_permitted (hdr k) env t (sched (tk m t)) a pol r"
  let ?m2 = "upd_tk t (\<lambda>p. p\<lparr>sched := (sched p)\<lparr>sched_reset_on_fork := r\<rparr>\<rparr>) ?m1"
  define good where "good x \<longleftrightarrow> (\<exists>r m'. x = Inr (r, m') \<and> changed b k queued owned n m m'
      \<and> settled (hdr k) env t a user (tk m t) r (sched (tk m' t)))" for x :: "(int \<times> 'a machine) res"
  have err: "good (Inr (r, m))" "good (Inr (r, ?m1))" if "r \<noteq> 0" for r
    using unchanged [OF inv ty] c1 that by (simp_all add: good_def settled_def)
  have same: "good (Inr (0, ?m2))" if "\<not> ?no" "pol = policy (sched (tk m t)) \<and> \<not> params_change (hdr k) env t (sched (tk m t)) a pol"
    using c2 that inval unfolding good_def settled_def Let_def fold by (auto simp: upd_tk_def)
  have new: "good (Inr (0, m3))" if "\<not> ?no"
    using c3 m3(3) that inval unfolding good_def settled_def Let_def fold by auto
  have i: "(c \<Longrightarrow> good x) \<Longrightarrow> (\<not> c \<Longrightarrow> good y) \<Longrightarrow> good (if c then x else y)" for x y c by simp
  have n: "- EINVAL (hdr k) \<noteq> 0" "- EPERM (hdr k) \<noteq> 0" "- EBUSY (hdr k) \<noteq> 0" using h by (simp_all add: linux_headers_def)
  have "good (setscheduler_task k env t a user inherit m)"
    unfolding setscheduler_task_def Let_def fold v prod.case id m3(1) bindR_simps clock_tk
    by (intro i; (rule err, rule n | rule err, elim conjE, assumption | rule err, assumption | rule same, assumption, assumption | rule new, assumption))
  then show ?thesis by (simp add: good_def)
qed

end
