(* ===== verification/Sched_Machine.thy ===== *)
theory Sched_Machine
  imports Sched_Policy_Inv
begin

unbundle bit_operations_syntax

text \<open>
  The steps of a machine with its scheduler: what the running tasks, the clock and the other CPUs may do,
  and that every such step is carried out without an error and keeps the invariant.
\<close>

section \<open>Steps\<close>

text \<open>
  The running task of a CPU sets its state, starts or ends waiting for I/O, enters or leaves a memory stall
  (\<open>psi_memstall_enter\<close> and \<open>psi_memstall_leave\<close> of \<open>psi.c\<close>), forks, and ends. A fork fills a free task; the
  pressure stall data and the address space of the child are set up by \<open>fork.c\<close>. Nice values, policies and
  inherited priorities of any task may change.
\<close>

datatype mop =
    Elapse nat u64
  | SetState nat int
  | IoWait nat bool
  | StallEnter nat
  | StallLeave nat
  | Schedule nat bool bool
  | WakeUp nat nat int int nat
  | Pending nat
  | TimerTick nat
  | Fork nat nat "nat option"
  | WakeNew nat nat
  | Move nat nat nat
  | Dead nat
  | Renice nat int
  | SetSched policy_env nat sched_attr bool bool
  | Boost policy_env nat "nat option"

record 'q system =
  kern :: "'q kernel"
  report :: "int \<Rightarrow> int \<Rightarrow> task_struct \<Rightarrow> string list"
  fork_sched :: "headers \<Rightarrow> bool \<Rightarrow> task_struct \<Rightarrow> task_struct \<Rightarrow> int \<times> task_struct"
  ncpus :: nat

definition fresh_psi :: psi_task where
  "fresh_psi = \<lparr>in_iowait = False, in_memstall = False, sched_psi_wake_requeue = False, psi_flags = 0, psi_bug = False\<rparr>"

definition fork_child :: "'q system \<Rightarrow> nat \<Rightarrow> nat option \<Rightarrow> 'q machine \<Rightarrow> ktask res" where
  "fork_child S c a m =
     (let p = tk m (rq_curr (rqs m c)) in
      bindR (fork_task (kern S) (fork_sched S) (clampsys m) c p (p\<lparr>psi := fresh_psi, mm := a, active_mm := a\<rparr>)) (\<lambda>(ret, ch). Inr ch))"

definition upd_psi :: "nat \<Rightarrow> (psi_task \<Rightarrow> psi_task) \<Rightarrow> 'q machine \<Rightarrow> 'q machine" where
  "upd_psi c f m = upd_tk (rq_curr (rqs m c)) (\<lambda>p. p\<lparr>psi := f (psi p)\<rparr>) m"

fun mstep :: "'q system \<Rightarrow> mop \<Rightarrow> 'q machine \<Rightarrow> 'q machine res" where
  "mstep S (Elapse c d) m = Inr (m\<lparr>sched_clock := (sched_clock m)(c := sched_clock m c + d)\<rparr>)"
| "mstep S (SetState c s) m = Inr (set_state (rq_curr (rqs m c)) s m)"
| "mstep S (IoWait c b) m = Inr (upd_psi c (\<lambda>p. p\<lparr>in_iowait := b\<rparr>) m)"
| "mstep S (StallEnter c) m = Inr (upd_psi c (\<lambda>p. (psi_task_change (psik (kern S)) p 0 (TSK_MEMSTALL (psik (kern S))))\<lparr>in_memstall := True\<rparr>) m)"
| "mstep S (StallLeave c) m = Inr (upd_psi c (\<lambda>p. (psi_task_change (psik (kern S)) p (TSK_MEMSTALL (psik (kern S))) 0)\<lparr>in_memstall := False\<rparr>) m)"
| "mstep S (Schedule c preempt sig) m = schedule_cpu (kern S) (report S) c preempt sig m"
| "mstep S (WakeUp this t states fg d) m = bindR (try_to_wake_up (kern S) this t states fg d m) (\<lambda>(b, m1). Inr m1)"
| "mstep S (Pending c) m = sched_ttwu_pending (kern S) c m"
| "mstep S (TimerTick c) m = Inr (snd (scheduler_tick (kern S) c m))"
| "mstep S (Fork c t a) m = bindR (fork_child S c a m) (\<lambda>ch. Inr (upd_tk t (\<lambda>p. ch) m))"
| "mstep S (WakeNew t d) m = wake_up_new_task (kern S) t d m"
| "mstep S (Move c t d) m = move_queued_task (kern S) c t d m"
| "mstep S (Dead c) m = do_task_dead (kern S) (report S) c m"
| "mstep S (Renice t nice) m = set_user_nice (kern S) t nice m"
| "mstep S (SetSched env t a user inherit) m = bindR (setscheduler_task (kern S) env t a user inherit m) (\<lambda>(ret, m1). Inr m1)"
| "mstep S (Boost env t pi_task) m = rt_mutex_setprio (kern S) env t pi_task m"

text \<open>A task that has not run yet, or a free one.\<close>

definition unborn :: "'q machine \<Rightarrow> nat \<Rightarrow> bool" where
  "unborn m t \<longleftrightarrow> on_rq (tk m t) = NotQueued \<and> state (sched (tk m t)) = TASK_NEW"

definition busy :: "nat \<Rightarrow> 'q machine \<Rightarrow> nat \<Rightarrow> bool" where
  "busy n m c \<longleftrightarrow> c < n \<and> rq_curr (rqs m c) \<notin> idles n m"

text \<open>
  When a step may happen. States with the bits of new and waking tasks are set by the scheduler only, and
  nobody waits for them. The idle tasks keep their priorities.
\<close>

fun allowed :: "nat \<Rightarrow> mop \<Rightarrow> 'q machine \<Rightarrow> bool" where
  "allowed n (Elapse c d) m \<longleftrightarrow> c < n"
| "allowed n (SetState c s) m \<longleftrightarrow> busy n m c \<and> s \<notin> {TASK_NEW, TASK_WAKING}"
| "allowed n (IoWait c b) m \<longleftrightarrow> busy n m c"
| "allowed n (StallEnter c) m \<longleftrightarrow> busy n m c \<and> \<not> in_memstall (psi (tk m (rq_curr (rqs m c))))"
| "allowed n (StallLeave c) m \<longleftrightarrow> busy n m c \<and> in_memstall (psi (tk m (rq_curr (rqs m c))))"
| "allowed n (Schedule c preempt sig) m \<longleftrightarrow> c < n"
| "allowed n (WakeUp this t states fg d) m \<longleftrightarrow> this < n \<and> d < n \<and> TASK_NEW AND states = 0 \<and> TASK_WAKING AND states = 0 \<and> fg AND 32 = 0"
| "allowed n (Pending c) m \<longleftrightarrow> c < n"
| "allowed n (TimerTick c) m \<longleftrightarrow> c < n"
| "allowed n (Fork c t a) m \<longleftrightarrow> c < n \<and> unborn m t"
| "allowed n (WakeNew t d) m \<longleftrightarrow> d < n \<and> unborn m t"
| "allowed n (Move c t d) m \<longleftrightarrow> c < n \<and> d < n \<and> t \<notin> idles n m \<and> t \<notin> currs n m \<and> on_rq (tk m t) = OnRqQueued \<and> task_cpu (tk m t) = c"
| "allowed n (Dead c) m \<longleftrightarrow> busy n m c"
| "allowed n (Renice t nice) m \<longleftrightarrow> t \<notin> idles n m"
| "allowed n (SetSched env t a user inherit) m \<longleftrightarrow> t \<notin> idles n m \<and> fit_attr a"
| "allowed n (Boost env t pi_task) m \<longleftrightarrow> t \<notin> idles n m"

section \<open>Every step keeps the invariant\<close>

lemma upd_psi_inv:
  assumes inv: "steady k queued owned n m" and b: "busy n m c"
    and ps: "life (psik k) OnCpu (psi (tk m (rq_curr (rqs m c)))) \<Longrightarrow> life (psik k) OnCpu (f (psi (tk m (rq_curr (rqs m c)))))"
  shows "steady k queued owned n (upd_psi c f m)"
proof -
  let ?t = "rq_curr (rqs m c)"
  let ?p = "tk m ?t" and ?away = "\<lambda>t. sched_remote_wakeup (tk m t)"
  let ?X = "requeued ?t (task_cpu ?p) (f (psi ?p)) (clamp ?p) (rqs m) m"
  have i: "machine_inv k queued owned n {} ?away m" and sh: "shape n {} m" using inv by (auto simp: steady_def machine_inv_def)
  have t: "?t \<notin> idles n m" "c < n" using b by (auto simp: busy_def)
  then have q: "?t \<in> queue_of n m c" using sh by (auto simp: shape_def idles_def)
  then have tq: "on_rq ?p = OnRqQueued" "task_cpu ?p = c" by (auto simp: queue_of_def)
  have ph: "phase n m ?t = OnCpu" using tq t by (auto simp: phase_def currs_def)
  have "machine_inv k queued owned n {} ?away ?X"
  proof (rule requeued_inv [OF i t(1) tq(1)])
    show "queue_inv k queued n ((queue_of n m)(task_cpu ?p := queue_of n m (task_cpu ?p) - {?t}, task_cpu ?p := insert ?t (queue_of n m (task_cpu ?p)))) ?X"
    proof (rule queue_inv_cong [of _ _ _ _ m])
      have "(queue_of n m)(task_cpu ?p := queue_of n m (task_cpu ?p) - {?t}, task_cpu ?p := insert ?t (queue_of n m (task_cpu ?p))) = queue_of n m"
        using q tq(2) by (auto simp: fun_eq_iff)
      then show "queue_inv k queued n ((queue_of n m)(task_cpu ?p := queue_of n m (task_cpu ?p) - {?t}, task_cpu ?p := insert ?t (queue_of n m (task_cpu ?p)))) m"
        using i by (simp add: machine_inv_def)
    qed (auto simp: requeued_def)
    show "life (psik k) (phase n m ?t) (f (psi ?p))" using i t(1) ps ph by (auto simp: machine_inv_def life_inv_def)
  qed (use sh in \<open>auto simp: shape_def same_request_def\<close>)
  moreover have "?X = upd_psi c f m" by (simp add: requeued_def upd_psi_def upd_tk_def)
  moreover have "sched_remote_wakeup (tk (upd_psi c f m) x) = ?away x" for x by (simp add: upd_psi_def upd_tk_def)
  ultimately show ?thesis by (simp add: steady_def)
qed


definition system_ok :: "'q system \<Rightarrow> ('q \<Rightarrow> nat set) \<Rightarrow> bool" where
  "system_ok S queued \<longleftrightarrow> class_contract (kern S) queued \<and> flags_contract (kern S) \<and> psi_contract (psik (kern S)) \<and> linux_headers (hdr (kern S))
     \<and> (fork_sched S = cfs_sched_fork \<or> fork_sched S = fifo_sched_fork)"

text \<open>The kernel that forces tasks to be FIFO tasks.\<close>

definition forcing :: "'q system \<Rightarrow> bool" where
  "forcing S \<longleftrightarrow> fork_sched S = fifo_sched_fork"

abbreviation typed_machine :: "'q system \<Rightarrow> 'q machine \<Rightarrow> bool" where
  "typed_machine S \<equiv> typed_tasks (forcing S) (hdr (kern S)) (ncpus S)"

lemma typed_at:
  assumes "typed_tasks b h n m"
  shows "well_typed b h (sched (tk m t))" "prio (sched (tk m t)) < 0 \<Longrightarrow> classed h (sched (tk m t))"
proof -
  have "well_typed b h (sched (tk m t)) \<and> (if t \<in> idles n m then 0 \<le> prio (sched (tk m t)) else classed h (sched (tk m t)))"
    using assms by (simp add: typed_tasks_def)
  then show "well_typed b h (sched (tk m t))" "prio (sched (tk m t)) < 0 \<Longrightarrow> classed h (sched (tk m t))" by (auto split: if_splits)
qed

lemma fork_state:
  "state (snd (cfs_sched_fork h b cu p)) = TASK_NEW" "state (snd (fifo_sched_fork h b cu p)) = TASK_NEW"
  by (simp_all add: cfs_sched_fork_def fifo_sched_fork_def fork_class_def fork_reset_def fifo_force_def Let_def)

text \<open>The clamps a child asks for.\<close>

lemma fork_clamp_ok:
  assumes "ok_system sys" and "ok_request sys p"
  shows "ok_request sys (q\<lparr>clamp := uclamp_fork sys b (clamp_view k p)\<rparr>)"
    "ok_request sys (q\<lparr>clamp := uclamp_post_fork sys (clamp_view k p)\<rparr>)"
proof -
  have none: "well_formed (UCLAMP_BUCKETS sys) (uclamp_se_set (UCLAMP_BUCKETS sys) se (uclamp_none i) v)" for se i v
    by (rule well_formed_set) (simp add: uclamp_none_def SCHED_CAPACITY_SCALE_def)
  have rt: "well_formed (UCLAMP_BUCKETS sys) (uclamp_se_set (UCLAMP_BUCKETS sys) se (sysctl_util_min_rt_default sys) v)" for se v
    by (rule well_formed_set) (use assms(1) in \<open>simp add: ok_system_def SCHED_CAPACITY_SCALE_def\<close>)
  show "ok_request sys (q\<lparr>clamp := uclamp_fork sys b (clamp_view k p)\<rparr>)"
    using assms(2) none by (simp add: ok_request_def ok_task_def uclamp_fork_def clamp_view_def Let_def)
  show "ok_request sys (q\<lparr>clamp := uclamp_post_fork sys (clamp_view k p)\<rparr>)"
    using assms(2) rt by (simp add: ok_request_def ok_task_def uclamp_post_fork_def uclamp_update_util_min_rt_default_def clamp_view_def)
qed

lemma ok_request_cong: "clamp p = clamp q \<Longrightarrow> ok_request sys p = ok_request sys q"
  by (simp add: ok_request_def)

lemma fork_child_facts:
  assumes S: "system_ok S queued" and "ok_system (clampsys m)" and "\<forall>t. ok_request (clampsys m) (tk m t)"
    and ty: "typed_machine S m"
  shows "\<exists>ch. fork_child S c a m = Inr ch \<and> well_typed (forcing S) (hdr (kern S)) (sched ch) \<and> classed (hdr (kern S)) (sched ch) \<and> on_rq ch = NotQueued \<and> state (sched ch) = TASK_NEW \<and> psi ch = fresh_psi
    \<and> mm ch = a \<and> active_mm ch = a \<and> (task_cpu ch = c \<or> task_cpu ch = task_cpu (tk m (rq_curr (rqs m c)))) \<and> ok_request (clampsys m) ch"
proof -
  let ?p = "(tk m (rq_curr (rqs m c)))\<lparr>psi := fresh_psi, mm := a, active_mm := a\<rparr>" and ?k = "kern S" and ?sys = "clampsys m"
  let ?p1 = "?p\<lparr>on_rq := NotQueued, clamp := uclamp_fork ?sys (sched_reset_on_fork (sched ?p)) (clamp_view ?k ?p)\<rparr>"
  obtain ret s where r: "fork_sched S (hdr ?k) (info_on ?k) (sched (tk m (rq_curr (rqs m c)))) (sched ?p1) = (ret, s)" by fastforce
  have h: "linux_headers (hdr ?k)" "fork_sched S = cfs_sched_fork \<or> fork_sched S = fifo_sched_fork" using S by (simp_all add: system_ok_def)
  have st: "state s = TASK_NEW" using h(2) r fork_state by (metis snd_conv)
  from typed_fork [OF h(1) typed_at [OF ty], of "rq_curr (rqs m c)" "fork_sched S" "info_on ?k"] have wt: "well_typed (forcing S) (hdr ?k) s" "classed (hdr ?k) s"
    using h(2) r by (auto simp: forcing_def)
  then obtain l where "set_load_weight ?k False (?p1\<lparr>sched := s\<rparr>) = Inr (?p1\<lparr>sched := s, load := l\<rparr>)"
    using load_weight_ok [OF h(1), of "?p1\<lparr>sched := s\<rparr>" False] typed_static [OF wt(1)] by auto
  then obtain l where l: "(if sched_reset_on_fork (sched ?p) then set_load_weight ?k False (?p1\<lparr>sched := s\<rparr>) else Inr (?p1\<lparr>sched := s\<rparr>))
      = Inr (?p1\<lparr>sched := s, load := l\<rparr>)" by (cases "sched_reset_on_fork (sched ?p)") (auto intro: that [of "load ?p1"])
  let ?p2 = "?p1\<lparr>sched := s, load := l\<rparr>"
  have c1: "fork_child S c a m = Inr (if ret \<noteq> 0 then ?p2
      else ?p2\<lparr>task_cpu := c, clamp := uclamp_post_fork ?sys (clamp_view ?k (?p2\<lparr>task_cpu := c\<rparr>))\<rparr>)" (is "_ = Inr ?ch")
    unfolding fork_child_def fork_task_def Let_def r prod.case l by simp
  have "ok_request ?sys ?p" using assms(3) ok_request_cong [of ?p "tk m (rq_curr (rqs m c))"] by simp
  from fork_clamp_ok(1) [OF assms(2) this] have p2: "ok_request ?sys ?p2"
    by (rule ok_request_cong [THEN iffD1, rotated]) simp
  then have "ok_request ?sys (?p2\<lparr>task_cpu := c\<rparr>)" by (rule ok_request_cong [THEN iffD1, rotated]) simp
  from fork_clamp_ok(2) [OF assms(2) this] p2 have "ok_request ?sys ?ch"
    by (cases "ret = 0") (auto elim: ok_request_cong [THEN iffD1, rotated])
  with c1 st wt show ?thesis by (intro exI [of _ ?ch]) simp
qed

lemma fork_inv:
  assumes S: "system_ok S queued" and inv: "steady (kern S) queued owned n m" and c: "c < n" and t: "unborn m t"
    and ty: "typed_machine S m"
  shows "\<exists>ch. fork_child S c a m = Inr ch \<and> steady (kern S) queued owned n (upd_tk t (\<lambda>p. ch) m)"
proof -
  let ?k = "kern S" and ?away = "\<lambda>t. sched_remote_wakeup (tk m t)"
  have i: "machine_inv ?k queued owned n {} ?away m" and sh: "shape n {} m" using inv by (auto simp: steady_def machine_inv_def)
  obtain ch where run: "fork_child S c a m = Inr ch"
    and C: "on_rq ch = NotQueued" "state (sched ch) = TASK_NEW" "psi ch = fresh_psi" "mm ch = a" "active_mm ch = a" "ok_request (clampsys m) ch"
    and at: "task_cpu ch = c \<or> task_cpu ch = task_cpu (tk m (rq_curr (rqs m c)))"
    using fork_child_facts [OF S _ _ ty, of c a] i by (auto simp: machine_inv_def)
  let ?m = "upd_tk t (\<lambda>p. ch) m"
  have cpu: "task_cpu ch < n" using at i c sh by (auto simp: machine_inv_def shape_def)
  have ut: "on_rq (tk m t) = NotQueued" "state (sched (tk m t)) = TASK_NEW" using t by (auto simp: unborn_def)
  have nc: "t \<notin> currs n m" "t \<notin> idles n m" using not_current [OF sh, of t] ut by simp_all
  have e: "rqs ?m = rqs m" "mm_count ?m = mm_count m" "clampsys ?m = clampsys m" "tk ?m x = (if x = t then ch else tk m x)" for x
    by (simp_all add: upd_tk_def)
  have q: "idles n ?m = idles n m" "currs n ?m = currs n m" by (simp_all add: idles_def currs_def e)
  have q2: "waking ?m = waking m" "asleep ?m = asleep m" "queue_of n ?m = queue_of n m" "phase n ?m = phase n m" "loading ?m = loading m"
      "waiting ?away ?m = waiting ?away m" "waiting (\<lambda>t. sched_remote_wakeup (tk ?m t)) ?m = waiting ?away m"
    using ut C by (auto simp: waking_def asleep_def queue_of_def phase_def loading_def waiting_def e q fun_eq_iff)
  have w: "{x. waking m x \<and> task_cpu (tk ?m x) = d} = {x. waking m x \<and> task_cpu (tk m x) = d}" for d using ut by (auto simp: waking_def e)
  have cur: "tk ?m (rq_curr (rqs m x)) = tk m (rq_curr (rqs m x))" "tk ?m (rq_idle (rqs m x)) = tk m (rq_idle (rqs m x))" if "x < n" for x
    using nc that by (auto simp: e currs_def idles_def)
  have "shape n {} ?m" using sh cpu C(1) unfolding shape_def q2 w e(1) by (simp add: e(4)) (use nc in \<open>auto simp: idles_def\<close>)
  moreover have "queue_inv ?k queued n (queue_of n m) ?m"
    by (rule queue_inv_cong [of _ _ _ _ m]) (use i ut in \<open>auto simp: machine_inv_def e queue_of_def\<close>)
  moreover have "life_inv ?k n ?m"
  proof -
    have "phase n m t = Born" using ut by (simp add: phase_def)
    then show ?thesis using i C(3) life.born by (auto simp: machine_inv_def life_inv_def q q2 e fresh_psi_def)
  qed
  moreover have "load_inv n ?m" "io_inv (\<lambda>t. sched_remote_wakeup (tk ?m t)) n ?m"
    using i by (simp_all add: machine_inv_def load_inv_def io_inv_def q2 e(1))
  moreover have "mm_inv owned n ?m"
  proof -
    have "borrowers n ?m i = borrowers n m i" for i unfolding borrowers_def e(1) using cur(1) by auto
    then show ?thesis using i C(4,5) cur(1) by (simp add: machine_inv_def mm_inv_def e)
  qed
  ultimately show ?thesis using i C(6) run by (simp add: steady_def machine_inv_def q2 e)
qed

lemma mstep_inv:
  assumes S: "system_ok S queued" and inv: "steady (kern S) queued owned (ncpus S) m" and ty: "typed_machine S m" and a: "allowed (ncpus S) x m"
  shows "\<exists>m'. mstep S x m = Inr m' \<and> steady (kern S) queued owned (ncpus S) m'"
proof -
  have con: "class_contract (kern S) queued" and fl: "flags_contract (kern S)" and pc: "psi_contract (psik (kern S))" and h: "linux_headers (hdr (kern S))"
    using S by (auto simp: system_ok_def)
  have mig: "WF_MIGRATED (kern S) = 32" using fl by (simp add: flags_contract_def)
  have q: "on_rq (tk m (rq_curr (rqs m c))) = OnRqQueued" if "c < ncpus S" for c
    using inv that by (auto simp: steady_def machine_inv_def shape_def queue_of_def)
  show ?thesis
  proof (cases x)
    case (Elapse c d)
    have "quiet queued m (m\<lparr>sched_clock := (sched_clock m)(c := sched_clock m c + d)\<rparr>)" by (simp add: quiet_def)
    from steady_quiet [OF this inv] Elapse show ?thesis by simp
  next
    case (SetState c s)
    with a steady_set_state [OF inv q] show ?thesis by (auto simp: busy_def)
  next
    case (WakeUp this t states fg d)
    with a mig try_to_wake_up_inv [OF con fl pc inv, of d this states fg t] show ?thesis by auto
  next
    case (TimerTick c)
    with steady_quiet [OF quiet_tick [OF con] inv] show ?thesis by simp
  next
    case (StallEnter c)
    with a upd_psi_inv [OF inv] life.stall show ?thesis by auto
  next
    case (StallLeave c)
    with a upd_psi_inv [OF inv] life.unstall show ?thesis by auto
  next
    case (IoWait c b)
    with a upd_psi_inv [OF inv] life.iowait show ?thesis by auto
  next
    case (Schedule c preempt sig)
    from a Schedule obtain m' where "schedule_cpu (kern S) (report S) c preempt sig m = Inr m'" "steady (kern S) queued owned (ncpus S) m'"
      using schedule_cpu_inv [OF con fl pc inv, of c "report S" preempt sig] by auto
    with Schedule show ?thesis by simp
  next
    case (Pending c)
    with a ttwu_pending_inv [OF con fl _ inv] show ?thesis by simp
  next
    case (Fork c t b)
    with a fork_inv [OF S inv _ _ ty, of c t b] show ?thesis by auto
  next
    case (WakeNew t d)
    with a wake_up_new_task_inv [OF con fl inv, of d t] show ?thesis by (simp add: unborn_def)
  next
    case (Move c t d)
    with a move_queued_task_inv [OF con fl inv, of d c t] show ?thesis by (simp add: queue_of_def)
  next
    case (Dead c)
    with a do_task_dead_inv [OF con fl pc inv, of c] show ?thesis by (simp add: busy_def)
  next
    case (Renice t nice)
    with a set_user_nice_inv [OF con fl h inv ty, of t nice] show ?thesis by (auto simp: changed_def)
  next
    case (SetSched env t x user inherit)
    with a setscheduler_task_inv [OF con fl h inv ty, of t x env user inherit] show ?thesis by (auto simp: changed_def)
  next
    case (Boost env t pi_task)
    with a rt_mutex_setprio_inv [OF con fl h inv ty, of t env pi_task] show ?thesis by (auto simp: changed_def)
  qed
qed

end
