(* ===== verification/Sched_Views.thy ===== *)
theory Sched_Views
  imports Sched_Machine
begin

unbundle bit_operations_syntax

text \<open>
  What the scheduler leaves alone: a view of the fields of a task that does not depend on its state and on
  its waiting time is kept by all operations that do not switch to another task, and one that does not depend
  on the accounting at all is kept by the switch too.
\<close>

definition same_view :: "(task_struct \<Rightarrow> 'v) \<Rightarrow> 'q machine \<Rightarrow> 'q machine \<Rightarrow> bool" where
  "same_view view m m' \<longleftrightarrow> (\<forall>c. rq_curr (rqs m' c) = rq_curr (rqs m c) \<and> rq_idle (rqs m' c) = rq_idle (rqs m c))
     \<and> (\<forall>t. view (sched (tk m' t)) = view (sched (tk m t)))"

lemma same_view_refl [simp]: "same_view view m m"
  by (simp add: same_view_def)

lemma same_view_trans [trans]: "same_view view m m1 \<Longrightarrow> same_view view m1 m2 \<Longrightarrow> same_view view m m2"
  by (simp add: same_view_def)

lemma same_view_rq: "\<forall>r. rq_curr (f r) = rq_curr r \<and> rq_idle (f r) = rq_idle r \<Longrightarrow> same_view view m (upd_rq c f m)"
  by (simp add: same_view_def upd_rq_def)

lemma kept_tk: "\<forall>p. view (sched (f p)) = view (sched p) \<Longrightarrow> same_view view m (upd_tk t f m)"
  by (simp add: same_view_def upd_tk_def)

lemma same_idle: "same_view view m m' \<Longrightarrow> rq_idle (rqs m' x) = rq_idle (rqs m x)"
  by (simp add: same_view_def)

section \<open>Steps that do not switch\<close>

text \<open>Steps that neither switch to another task nor write the priorities of one.\<close>

fun plain_step :: "mop \<Rightarrow> bool" where
  "plain_step (Schedule c preempt sig) \<longleftrightarrow> False"
| "plain_step (Dead c) \<longleftrightarrow> False"
| "plain_step (Fork c t a) \<longleftrightarrow> False"
| "plain_step (Renice t nice) \<longleftrightarrow> False"
| "plain_step (SetSched env t a user inherit) \<longleftrightarrow> False"
| "plain_step (Boost env t pi_task) \<longleftrightarrow> False"
| "plain_step x \<longleftrightarrow> True"

locale task_view =
  fixes view :: "task_struct \<Rightarrow> 'v"
  assumes view_state [simp]: "view (s\<lparr>state := x\<rparr>) = view s"
    and view_queued [simp]: "view (sched_info_queued b r s) = view s"
    and view_dequeued [simp]: "view (snd (sched_info_dequeued b r s)) = view s"
begin

lemma kept_state: "same_view view m (set_state t s m)"
  unfolding set_state_def by (rule kept_tk) simp

lemma kept_clock: "same_view view m (update_rq_clock k c m)"
  by (simp add: update_rq_clock_eq same_view_def)

lemma kept_enqueue: "enqueue_task k c t f m = Inr m' \<Longrightarrow> same_view view m m'"
  by (auto simp: enqueue_task_def update_rq_clock_eq clamp_view_def upd_tk_def upd_rq_def Let_def same_view_def bindR_Inr_iff
      split: if_splits)


lemma kept_dequeue: "dequeue_task k c t f m = Inr m' \<Longrightarrow> same_view view m m'"
  by (auto simp: dequeue_task_def update_rq_clock_eq clamp_view_def upd_tk_def upd_rq_def Let_def same_view_def bindR_Inr_iff
      case_prod_beta split: if_splits)

lemma kept_activate: "activate_task k c t f m = Inr m' \<Longrightarrow> same_view view m m'"
  by (auto simp: activate_task_def bindR_Inr_iff intro!: same_view_trans [OF kept_enqueue kept_tk])

lemma kept_deactivate: "deactivate_task k c t f m = Inr m' \<Longrightarrow> same_view view m m'"
  unfolding deactivate_task_def by (drule kept_dequeue, rule same_view_trans [OF kept_tk]) simp_all

lemma kept_preempt: "same_view view m (check_preempt_curr k c t f m)"
  by (auto simp: check_preempt_curr_def resched_curr_def Let_def upd_rq_def upd_tk_def same_view_def)

lemma kept_woken: "same_view view m (task_woken k c t m)"
  unfolding task_woken_def by (rule same_view_rq) simp

lemma kept_idle_average: "same_view view m (idle_average k c m)"
  by (simp add: idle_average_def Let_def same_view_rq)

lemma kept_do_wakeup: "same_view view m (ttwu_do_wakeup k c t f m)"
  unfolding ttwu_do_wakeup_def
  by (rule same_view_trans [OF same_view_trans [OF same_view_trans [OF kept_preempt kept_state] kept_woken] kept_idle_average])

lemma kept_do_activate: "ttwu_do_activate k c t f m = Inr m' \<Longrightarrow> same_view view m m'"
proof -
  assume a: "ttwu_do_activate k c t f m = Inr m'"
  define m1 where "m1 = (if sched_contributes_to_load (tk m t) then upd_rq c (\<lambda>r. r\<lparr>nr_uninterruptible := nr_uninterruptible r - 1\<rparr>) m else m)"
  define m2 where "m2 = (if \<not> f AND WF_MIGRATED k \<noteq> 0 \<and> in_iowait (psi (tk m1 t))
    then upd_rq (task_cpu (tk m1 t)) (\<lambda>r. r\<lparr>nr_iowait := nr_iowait r - 1\<rparr>) m1 else m1)"
  have "same_view view m m1" "same_view view m1 m2" by (simp_all add: m1_def m2_def same_view_rq)
  moreover obtain g m3 where "activate_task k c t g m2 = Inr m3" "m' = ttwu_do_wakeup k c t f m3"
    using a unfolding ttwu_do_activate_def Let_def m1_def [symmetric] m2_def [symmetric] by (auto simp: bindR_Inr_iff)
  ultimately show ?thesis using kept_activate kept_do_wakeup by (blast intro: same_view_trans)
qed

lemma kept_set_cpu: "same_view view m (set_task_cpu k t d m)"
  by (auto simp: set_task_cpu_def upd_rq_def upd_tk_def same_view_def Let_def)

lemma kept_activate_all: "activate_all k c ts m = Inr m' \<Longrightarrow> same_view view m m'"
proof (induction ts arbitrary: m)
  case (Cons t ts)
  let ?m = "if task_cpu (tk m t) \<noteq> c then set_task_cpu k t c m else m"
  have 1: "same_view view m ?m" by (simp add: kept_set_cpu)
  obtain g m2 where "ttwu_do_activate k c t g ?m = Inr m2" "activate_all k c ts m2 = Inr m'"
    using Cons.prems by (simp only: activate_all.simps Let_def bindR_Inr_iff) blast
  with 1 Cons.IH kept_do_activate show ?case by (blast intro: same_view_trans)
qed simp

lemma kept_pending: "sched_ttwu_pending k c m = Inr m' \<Longrightarrow> same_view view m m'"
proof -
  assume a: "sched_ttwu_pending k c m = Inr m'"
  have "same_view view m (update_rq_clock k c (upd_rq c (\<lambda>r. r\<lparr>ttwu_pending := False, wake_list := []\<rparr>) m))"
    by (rule same_view_trans [OF same_view_rq kept_clock]) simp
  with a show ?thesis
    by (auto simp: sched_ttwu_pending_def Let_def split: if_splits dest!: kept_activate_all elim: same_view_trans)
qed

lemma kept_ttwu_queue: "ttwu_queue k this t d f m = Inr m' \<Longrightarrow> same_view view m m'"
proof -
  assume a: "ttwu_queue k this t d f m = Inr m'"
  have w: "same_view view m (queue_wakelist k t d f m)" by (simp add: queue_wakelist_def upd_rq_def upd_tk_def same_view_def)
  show ?thesis
  proof (cases "fst (ttwu_queue_wakelist k this t d f m)")
    case True
    with a w show ?thesis by (auto simp: ttwu_queue_def ttwu_queue_wakelist_def split: if_splits)
  next
    case False
    with a have "ttwu_do_activate k d t f (update_rq_clock k d m) = Inr m'"
      by (auto simp: ttwu_queue_def ttwu_queue_wakelist_def split: if_splits)
    then show ?thesis using kept_clock kept_do_activate by (blast intro: same_view_trans)
  qed
qed

lemma kept_wake_up: "try_to_wake_up k this t states f d m = Inr (b, m') \<Longrightarrow> same_view view m m'"
proof -
  assume a: "try_to_wake_up k this t states f d m = Inr (b, m')"
  let ?r = "if on_rq (tk m t) \<noteq> NotQueued then ttwu_runnable k t f m else (False, m)"
  let ?m2 = "set_state t TASK_WAKING m"
  let ?m' = "if in_iowait (psi (tk ?m2 t)) then upd_rq (task_cpu (tk ?m2 t)) (\<lambda>r. r\<lparr>nr_iowait := nr_iowait r - 1\<rparr>) ?m2 else ?m2"
  let ?m3 = "if task_cpu (tk ?m2 t) \<noteq> d then set_task_cpu k t d (upd_tk t (\<lambda>p. p\<lparr>psi := psi_ttwu_dequeue (psik k) (psi p)\<rparr>) ?m') else ?m2"
  have awake: "same_view view m (snd ?r)"
    by (simp add: ttwu_runnable_def Let_def same_view_trans [OF kept_clock kept_do_wakeup])
  have 2: "same_view view m ?m'" by (rule same_view_trans [OF kept_state [of _ t TASK_WAKING]]) (simp add: same_view_rq)
  have "same_view view ?m' (upd_tk t (\<lambda>p. p\<lparr>psi := psi_ttwu_dequeue (psik k) (psi p)\<rparr>) ?m')" by (rule kept_tk) simp
  then have "same_view view m (set_task_cpu k t d (upd_tk t (\<lambda>p. p\<lparr>psi := psi_ttwu_dequeue (psik k) (psi p)\<rparr>) ?m'))"
    by (rule same_view_trans [OF same_view_trans [OF 2] kept_set_cpu])
  then have moved: "same_view view m ?m3" by (simp add: kept_state)
  consider "m' = m" | "m' = set_state t TASK_RUNNING m" | "m' = snd ?r" | g where "ttwu_queue k this t d g ?m3 = Inr m'"
    using a unfolding try_to_wake_up_def ttwu_runnable_def Let_def
    by (auto simp: bindR_Inr_iff split: if_splits)
  then show ?thesis
  proof cases
    case 1 then show ?thesis by simp
  next
    case 2 then show ?thesis by (simp add: kept_state)
  next
    case 3 with awake show ?thesis by simp
  next
    case 4 show ?thesis by (rule same_view_trans [OF moved kept_ttwu_queue [OF 4]])
  qed
qed


lemma kept_new: "wake_up_new_task k t d m = Inr m' \<Longrightarrow> same_view view m m'"
proof -
  assume a: "wake_up_new_task k t d m = Inr m'"
  let ?m1 = "update_rq_clock k d (upd_tk t (\<lambda>p. p\<lparr>task_cpu := d\<rparr>) (set_state t TASK_RUNNING m))"
  have 1: "same_view view m ?m1" by (rule same_view_trans [OF same_view_trans [OF kept_state kept_tk] kept_clock]) simp
  from a obtain f m2 where "activate_task k d t f ?m1 = Inr m2" "m' = task_woken k d t (check_preempt_curr k d t (WF_FORK k) m2)"
    by (auto simp: wake_up_new_task_def bindR_Inr_iff Let_def)
  with 1 kept_activate same_view_trans [OF kept_preempt kept_woken] show ?thesis by (metis same_view_trans)
qed

lemma kept_move: "move_queued_task k c t d m = Inr m' \<Longrightarrow> same_view view m m'"
proof -
  assume a: "move_queued_task k c t d m = Inr m'"
  then obtain m1 m2 where "deactivate_task k c t (DEQUEUE_NOCLOCK k) m = Inr m1"
      "activate_task k d t 0 (set_task_cpu k t d m1) = Inr m2" "m' = check_preempt_curr k d t 0 m2"
    by (auto simp: move_queued_task_def bindR_Inr_iff)
  then show ?thesis using kept_deactivate kept_set_cpu kept_activate kept_preempt by (metis same_view_trans)
qed

lemma kept_tick: "same_view view m (snd (scheduler_tick k c m))"
  by (auto simp: scheduler_tick_def resched_curr_def update_rq_clock_eq Let_def upd_rq_def upd_tk_def same_view_def split: prod.splits)

lemma kept_block: "schedule_block k c p pre sig m = Inr m' \<Longrightarrow> same_view view m m'"
proof -
  assume a: "schedule_block k c p pre sig m = Inr m'"
  let ?m1 = "upd_tk p (\<lambda>x. x\<lparr>sched_contributes_to_load := contributes (tk m p)\<rparr>) m"
  let ?m2 = "if contributes (tk m p) then upd_rq c (\<lambda>r. r\<lparr>nr_uninterruptible := nr_uninterruptible r + 1\<rparr>) ?m1 else ?m1"
  have 1: "same_view view m ?m1" by (rule kept_tk) simp
  have 2: "same_view view m ?m2" by (rule same_view_trans [OF 1]) (simp add: same_view_rq)
  consider "m' = m" | "m' = set_state p TASK_RUNNING m"
    | f m3 where "deactivate_task k c p f ?m2 = Inr m3"
      "m' = (if in_iowait (psi (tk m3 p)) then upd_rq c (\<lambda>r. r\<lparr>nr_iowait := nr_iowait r + 1\<rparr>) m3 else m3)"
    using a unfolding schedule_block_def Let_def by (auto simp: bindR_Inr_iff simp del: if_split split: if_splits)
  then show ?thesis
  proof cases
    case 3
    have "same_view view m3 m'" unfolding 3(2) by (simp add: same_view_rq)
    then show ?thesis using 2 kept_deactivate [OF 3(1)] by (blast intro: same_view_trans)
  qed (simp_all add: kept_state)
qed

lemma kept_psi: "same_view view m (upd_psi c f m)"
  unfolding upd_psi_def by (rule kept_tk) simp

lemma kept_step:
  assumes "mstep S x m = Inr m'" and "plain_step x"
  shows "same_view view m m'"
proof (cases x)
  case (Elapse c d)
  with assms show ?thesis by (auto simp: same_view_def)
next
  case (WakeUp this t states fg d)
  with assms obtain b where "try_to_wake_up (kern S) this t states fg d m = Inr (b, m')" by (auto simp: bindR_Inr_iff)
  then show ?thesis by (rule kept_wake_up)
qed (use assms kept_state kept_pending kept_tick kept_new kept_move kept_psi in auto)

lemma kept_schedule:
  assumes "schedule_cpu k rp c pre sig m = Inr m'"
  shows "same_view view m m' \<or> (\<exists>m1 nx vol. same_view view m m1 \<and> rq_curr (rqs m c) \<noteq> nx
    \<and> schedule_switch k rp c (rq_curr (rqs m c)) nx vol m1 = Inr m')"
proof -
  let ?p = "rq_curr (rqs m c)"
  let ?m1 = "update_rq_clock k c (upd_rq c (\<lambda>r. r\<lparr>clock_update_flags := push_bit 1 (clock_update_flags r)\<rparr>) m)"
  obtain m2 q nx where m2: "schedule_block k c ?p pre sig ?m1 = Inr m2"
      "(let m3 = upd_tk ?p (\<lambda>p. p\<lparr>need_resched := False\<rparr>) (upd_rq c (\<lambda>r. r\<lparr>classq := q\<rparr>) m2)
        in if ?p \<noteq> nx then schedule_switch k rp c ?p nx (\<not> pre \<and> state (sched (tk ?m1 ?p)) \<noteq> 0) m3 else Inr (clear_skip k c m3)) = Inr m'"
    using assms unfolding schedule_cpu_def Let_def by (auto simp: bindR_Inr_iff)
  define m3 where "m3 = upd_tk ?p (\<lambda>p. p\<lparr>need_resched := False\<rparr>) (upd_rq c (\<lambda>r. r\<lparr>classq := q\<rparr>) m2)"
  have "same_view view m ?m1" by (rule same_view_trans [OF same_view_rq kept_clock]) simp
  moreover have "same_view view m2 m3" unfolding m3_def by (rule same_view_trans [OF same_view_rq kept_tk]) simp_all
  ultimately have s: "same_view view m m3" using kept_block [OF m2(1)] by (blast intro: same_view_trans)
  show ?thesis
  proof (cases "?p = nx")
    case True
    then have "m' = clear_skip k c m3" using m2(2) by (simp add: m3_def)
    then have "same_view view m3 m'" unfolding clear_skip_def by (simp add: same_view_rq)
    then show ?thesis using s by (blast intro: same_view_trans)
  next
    case False
    with m2(2) have "schedule_switch k rp c ?p nx (\<not> pre \<and> state (sched (tk ?m1 ?p)) \<noteq> 0) m3 = Inr m'" by (auto simp: m3_def Let_def)
    with s False show ?thesis by blast
  qed
qed

end

section \<open>The switch\<close>

lemma same_fields:
  assumes "switch_mm c prev nx m = Inr m'"
  shows "rq_curr (rqs m' x) = rq_curr (rqs m x)" "rq_idle (rqs m' x) = rq_idle (rqs m x)" "acct (rqs m' x) = acct (rqs m x)" "sched (tk m' t) = sched (tk m t)"
  using assms by (auto simp: switch_mm_def mmgrab_def upd_tk_def upd_rq_def Let_def split: if_splits option.splits)

lemma finish_fields:
  "rq_curr (rqs (finish_task_switch k rp c prev m) x) = rq_curr (rqs m x)"
  "rq_idle (rqs (finish_task_switch k rp c prev m) x) = rq_idle (rqs m x)"
  "acct (rqs (finish_task_switch k rp c prev m) x) = acct (rqs m x)"
  "sched (tk (finish_task_switch k rp c prev m) t) = sched (tk m t)"
  by (auto simp: finish_task_switch_def mmdrop_def upd_rq_def Let_def split: option.splits)

text \<open>The accounting of a switch is that of \<open>sched_info_switch\<close>.\<close>

lemma switch_fields:
  assumes "schedule_switch k rp c prev nx vol m = Inr m'"
  shows "sched (tk m' t) = snd (sched_info_switch (info_on k) (rq_idle (rqs m c)) prev nx (acct (rqs m c)) (\<lambda>t. sched (tk m t))) t"
    "acct (rqs m' x) = (if x = c then fst (sched_info_switch (info_on k) (rq_idle (rqs m c)) prev nx (acct (rqs m c)) (\<lambda>t. sched (tk m t))) else acct (rqs m x))"
    "rq_curr (rqs m' x) = (if x = c then nx else rq_curr (rqs m x))" "rq_idle (rqs m' x) = rq_idle (rqs m x)"
proof -
  let ?m1 = "upd_rq c (\<lambda>r. r\<lparr>nr_switches := nr_switches r + 1, rq_curr := nx\<rparr>) m"
  let ?m2 = "upd_tk prev (\<lambda>p. if vol then p\<lparr>nvcsw := nvcsw p + 1\<rparr> else p\<lparr>nivcsw := nivcsw p + 1\<rparr>) ?m1"
  obtain a b where "context_switch k rp c prev nx (upd_tk nx (\<lambda>p. p\<lparr>psi := b\<rparr>) (upd_tk prev (\<lambda>p. p\<lparr>psi := a\<rparr>) ?m2)) = Inr m'"
    using assms(1) unfolding schedule_switch_def Let_def by (auto split: prod.splits)
  moreover define X where "X = upd_tk nx (\<lambda>p. p\<lparr>psi := b\<rparr>) (upd_tk prev (\<lambda>p. p\<lparr>psi := a\<rparr>) ?m2)"
  ultimately obtain m3 where m3: "switch_mm c prev nx (prepare_task_switch k c prev nx X) = Inr m3"
      "m' = finish_task_switch k rp c prev (clear_skip k c m3)"
    by (auto simp: context_switch_def bindR_Inr_iff)
  have X: "sched (tk X t) = sched (tk m t)" "acct (rqs X x) = acct (rqs m x)" "rq_idle (rqs X x) = rq_idle (rqs m x)"
      "rq_curr (rqs X x) = (if x = c then nx else rq_curr (rqs m x))" for t x
    by (auto simp: X_def upd_tk_def upd_rq_def)
  note simps = m3(2) finish_fields clear_skip_def upd_rq_def same_fields [OF m3(1)] prepare_task_switch_def case_prod_beta X
  show "sched (tk m' t) = snd (sched_info_switch (info_on k) (rq_idle (rqs m c)) prev nx (acct (rqs m c)) (\<lambda>t. sched (tk m t))) t"
    "acct (rqs m' x) = (if x = c then fst (sched_info_switch (info_on k) (rq_idle (rqs m c)) prev nx (acct (rqs m c)) (\<lambda>t. sched (tk m t))) else acct (rqs m x))"
    "rq_curr (rqs m' x) = (if x = c then nx else rq_curr (rqs m x))" "rq_idle (rqs m' x) = rq_idle (rqs m x)"
    by (simp_all add: simps)
qed

lemma schedule_idle: "schedule_cpu k rp c pre sig m = Inr m' \<Longrightarrow> rq_idle (rqs m' x) = rq_idle (rqs m x)"
  using task_view.kept_schedule [of "\<lambda>s. ()" k rp c pre sig m m'] switch_fields(4) [of k rp c _ _ _ _ m' x]
  by (fastforce simp: task_view_def same_view_def)

text \<open>Views that the accounting does not touch.\<close>

locale settled_view = task_view view for view :: "task_struct \<Rightarrow> 'v" +
  assumes view_info [simp]: "view (s\<lparr>info := i\<rparr>) = view s"
    and view_cputime [simp]: "view (s\<lparr>accumulated_cputime := a\<rparr>) = view s"
begin

lemma kept_switch_info: "view (snd (sched_info_switch b i prev nx r ts) t) = view (ts t)"
  by (simp add: sched_info_switch_def sched_info_switch_on_def sched_info_depart_def sched_info_arrive_def
      sched_info_reset_dequeued_def rq_sched_info_arrive_def rq_sched_info_depart_def Let_def case_prod_beta)

lemma kept_by_schedule:
  assumes "schedule_cpu k rp c pre sig m = Inr m'"
  shows "view (sched (tk m' t)) = view (sched (tk m t))"
  using kept_schedule [OF assms] switch_fields(1) [of k rp c _ _ _ _ m' t]
  by (fastforce simp: same_view_def kept_switch_info)

text \<open>Every step but those that change priorities, and the fork, which fills its own task.\<close>

lemma kept_by_step:
  assumes r: "mstep S x m = Inr m'" and x: "plain_step x \<or> (\<exists>c pre sig. x = Schedule c pre sig) \<or> (\<exists>c. x = Dead c) \<or> (\<exists>c u a. x = Fork c u a \<and> u \<noteq> t)"
  shows "view (sched (tk m' t)) = view (sched (tk m t))"
  using x
proof (elim disjE exE conjE)
  assume "plain_step x"
  from kept_step [OF r this] show ?thesis by (simp add: same_view_def)
next
  fix c pre sig assume "x = Schedule c pre sig"
  with r show ?thesis by (simp add: kept_by_schedule)
next
  fix c assume Dead: "x = Dead c"
  let ?m = "upd_tk (rq_curr (rqs m c)) (\<lambda>p. p\<lparr>nofreeze := True\<rparr>) (set_state (rq_curr (rqs m c)) TASK_DEAD m)"
  have s: "schedule_cpu (kern S) (report S) c False False ?m = Inr m'"
    using Dead r by (auto simp: do_task_dead_def bindR_Inr_iff Let_def split: if_splits)
  have "same_view view m ?m" by (rule same_view_trans [OF kept_state kept_tk]) simp
  then show ?thesis using kept_by_schedule [OF s, of t] by (simp add: same_view_def)
next
  fix c u a assume "x = Fork c u a" "u \<noteq> t"
  then show ?thesis using r by (auto simp: upd_tk_def bindR_Inr_iff)
qed

end

end
