(* ===== verification/Sched_Time.thy ===== *)
theory Sched_Time
  imports Sched_Views
begin

unbundle bit_operations_syntax

text \<open>
  The accounting of CPU time through all steps of the machine: whatever happens, on whatever CPU, the time
  of a task grows by what the clock of its CPU advances while it is the current task there. The priorities
  of the tasks stay well typed.
\<close>

section \<open>Two views\<close>

abbreviation timing :: "task_struct \<Rightarrow> u64 \<times> u64" where
  "timing s \<equiv> (accumulated_cputime s, last_arrival (info s))"

abbreviation same_time :: "'q machine \<Rightarrow> 'q machine \<Rightarrow> bool" where
  "same_time \<equiv> same_view timing"

interpretation time: task_view timing
  by unfold_locales (simp_all add: sched_info_queued_def sched_info_dequeued_def sched_info_reset_dequeued_def Let_def)

abbreviation ranking :: "task_struct \<Rightarrow> int \<times> int \<times> int \<times> int \<times> int \<times> sched_class" where
  "ranking s \<equiv> (policy s, static_prio s, rt_priority s, normal_prio s, prio s, cls s)"

interpretation ranks: settled_view ranking
  by unfold_locales (simp_all add: sched_info_queued_def sched_info_dequeued_def sched_info_reset_dequeued_def Let_def)

lemma tuned_time: "tuned m m' \<Longrightarrow> same_time m m'"
  by (simp add: tuned_def same_view_def)

section \<open>The time of a task\<close>

definition cpu_time :: "nat \<Rightarrow> 'q machine \<Rightarrow> nat \<Rightarrow> u64" where
  "cpu_time n m t = accumulated_cputime (sched (tk m t)) +
     (\<Sum>c < n. if rq_curr (rqs m c) = t then clock (acct (rqs m c)) - last_arrival (info (sched (tk m t))) else 0)"

text \<open>What the clocks of the CPUs that run \<open>t\<close> advance in a step.\<close>

definition passed :: "nat \<Rightarrow> 'q machine \<Rightarrow> 'q machine \<Rightarrow> nat \<Rightarrow> u64" where
  "passed n m m' t = (\<Sum>c < n. if rq_curr (rqs m c) = t then clock (acct (rqs m' c)) - clock (acct (rqs m c)) else 0)"

lemma cpu_time_same:
  assumes "same_time m m'"
  shows "cpu_time n m' t = cpu_time n m t + passed n m m' t"
proof -
  have e: "rq_curr (rqs m' c) = rq_curr (rqs m c)" "accumulated_cputime (sched (tk m' t)) = accumulated_cputime (sched (tk m t))"
      "last_arrival (info (sched (tk m' t))) = last_arrival (info (sched (tk m t)))" for c
    using assms by (simp_all add: same_view_def)
  have "(\<Sum>c < n. if rq_curr (rqs m c) = t then clock (acct (rqs m' c)) - last_arrival (info (sched (tk m t))) else 0) =
      (\<Sum>c < n. (if rq_curr (rqs m c) = t then clock (acct (rqs m c)) - last_arrival (info (sched (tk m t))) else 0)
        + (if rq_curr (rqs m c) = t then clock (acct (rqs m' c)) - clock (acct (rqs m c)) else 0))"
    by (rule sum.cong) auto
  then show ?thesis unfolding cpu_time_def passed_def e by (simp add: sum.distrib)
qed

section \<open>The switch\<close>

lemma switch_info:
  assumes "prev \<noteq> nx"
  shows "clock (fst (sched_info_switch True i prev nx r ts)) = clock r"
    "accumulated_cputime (snd (sched_info_switch True i prev nx r ts) t) =
       accumulated_cputime (ts t) + (if t = prev \<and> t \<noteq> i then clock r - last_arrival (info (ts t)) else 0)"
    "last_arrival (info (snd (sched_info_switch True i prev nx r ts) t)) = (if t = nx \<and> t \<noteq> i then clock r else last_arrival (info (ts t)))"
  using assms by (auto simp: sched_info_switch_def sched_info_switch_on_def sched_info_depart_def sched_info_arrive_def sched_info_queued_def
      sched_info_reset_dequeued_def rq_sched_info_arrive_def rq_sched_info_depart_def Let_def)

text \<open>What the context switch does to the accounting.\<close>

definition switched_time :: "nat \<Rightarrow> nat \<Rightarrow> nat \<Rightarrow> 'q machine \<Rightarrow> 'q machine \<Rightarrow> bool" where
  "switched_time c prev nx m m' \<longleftrightarrow>
     (\<forall>x. rq_curr (rqs m' x) = (if x = c then nx else rq_curr (rqs m x)) \<and> rq_idle (rqs m' x) = rq_idle (rqs m x)
         \<and> clock (acct (rqs m' x)) = clock (acct (rqs m x)))
     \<and> (\<forall>t. accumulated_cputime (sched (tk m' t)) = accumulated_cputime (sched (tk m t))
           + (if t = prev \<and> t \<noteq> rq_idle (rqs m c) then clock (acct (rqs m c)) - last_arrival (info (sched (tk m t))) else 0)
         \<and> last_arrival (info (sched (tk m' t))) =
           (if t = nx \<and> t \<noteq> rq_idle (rqs m c) then clock (acct (rqs m c)) else last_arrival (info (sched (tk m t)))))"

lemma switch_time:
  assumes "schedule_switch k rp c prev nx vol m = Inr m'" and "info_on k" and "prev \<noteq> nx"
  shows "switched_time c prev nx m m'"
  unfolding switched_time_def using assms(3)
  by (simp add: switch_fields [OF assms(1)] assms(2) switch_info)

text \<open>The tasks that leave and take a CPU are current on no other: the time of a task is kept.\<close>

lemma cpu_time_switched:
  assumes sw: "switched_time c prev nx m m'" and c: "c < n" and t: "t \<noteq> rq_idle (rqs m c)" and p: "prev = rq_curr (rqs m c)" "prev \<noteq> nx"
    and others: "\<And>x. x < n \<Longrightarrow> x \<noteq> c \<Longrightarrow> rq_curr (rqs m x) \<notin> {prev, nx}"
  shows "cpu_time n m' t = cpu_time n m t"
proof -
  let ?part = "\<lambda>m x. if rq_curr (rqs m x) = t then clock (acct (rqs m x)) - last_arrival (info (sched (tk m t))) else (0 :: u64)"
  have e: "rq_curr (rqs m' x) = (if x = c then nx else rq_curr (rqs m x))" "clock (acct (rqs m' x)) = clock (acct (rqs m x))"
      "accumulated_cputime (sched (tk m' t)) = accumulated_cputime (sched (tk m t))
        + (if t = prev then clock (acct (rqs m c)) - last_arrival (info (sched (tk m t))) else 0)"
      "last_arrival (info (sched (tk m' t))) = (if t = nx then clock (acct (rqs m c)) else last_arrival (info (sched (tk m t))))" for x
    using sw t by (auto simp: switched_time_def)
  have split: "(\<Sum>x < n. f x) = f c + (\<Sum>x \<in> {..<n} - {c}. f x)" for f :: "nat \<Rightarrow> u64"
    using c by (simp add: sum.remove)
  have rest: "(\<Sum>x \<in> {..<n} - {c}. ?part m' x) = (\<Sum>x \<in> {..<n} - {c}. ?part m x)"
    by (rule sum.cong) (use others in \<open>auto simp: e\<close>)
  have "?part m' c = 0" by (simp add: e)
  moreover have "accumulated_cputime (sched (tk m' t)) = accumulated_cputime (sched (tk m t)) + ?part m c" by (auto simp: e p)
  ultimately show ?thesis unfolding cpu_time_def split [of "?part m"] split [of "?part m'"] rest by simp
qed

lemma passed_cong: "(\<And>x. clock (acct (rqs m2 x)) = clock (acct (rqs m1 x))) \<Longrightarrow> passed n m m2 t = passed n m m1 t"
  unfolding passed_def by (rule sum.cong) auto

lemma schedule_time:
  assumes on: "info_on k" and r: "schedule_cpu k rp c pre sig m = Inr m'"
  shows "same_time m m' \<or> (\<exists>m3 nx. same_time m m3 \<and> rq_curr (rqs m c) \<noteq> nx \<and> switched_time c (rq_curr (rqs m c)) nx m3 m')"
  using time.kept_schedule [OF r] switch_time [OF _ on] by blast

lemma cpu_time_schedule:
  assumes alone: "\<And>x. x < n \<Longrightarrow> x \<noteq> c \<Longrightarrow> rq_curr (rqs m x) \<noteq> rq_curr (rqs m c) \<and> rq_curr (rqs m' x) \<noteq> rq_curr (rqs m' c)"
    and c: "c < n" and t: "t \<notin> idles n m" and on: "info_on k"
    and r: "schedule_cpu k rp c pre sig m = Inr m'"
  shows "cpu_time n m' t = cpu_time n m t + passed n m m' t"
  using schedule_time [OF on r]
proof (elim disjE exE conjE)
  assume "same_time m m'"
  then show ?thesis by (rule cpu_time_same)
next
  fix m3 nx
  let ?p = "rq_curr (rqs m c)"
  assume s: "same_time m m3" and d: "?p \<noteq> nx" and sw: "switched_time c ?p nx m3 m'"
  have cu: "rq_curr (rqs m3 x) = rq_curr (rqs m x)" "rq_idle (rqs m3 x) = rq_idle (rqs m x)" for x using s by (simp_all add: same_view_def)
  have "rq_curr (rqs m3 x) \<notin> {?p, nx}" if "x < n" "x \<noteq> c" for x
    using alone [OF that] sw that cu by (auto simp: switched_time_def)
  then have "cpu_time n m' t = cpu_time n m3 t" using cpu_time_switched [OF sw c] d t c cu by (auto simp: idles_def)
  also have "\<dots> = cpu_time n m t + passed n m m3 t" by (rule cpu_time_same [OF s])
  also have "passed n m m3 t = passed n m m' t" by (rule passed_cong) (use sw in \<open>simp add: switched_time_def\<close>)
  finally show ?thesis .
qed

lemma schedule_others:
  "info_on k \<Longrightarrow> schedule_cpu k rp c pre sig m = Inr m' \<Longrightarrow> x \<noteq> c \<Longrightarrow> rq_curr (rqs m' x) = rq_curr (rqs m x)"
  using schedule_time [of k rp c pre sig m m'] by (auto simp: same_view_def switched_time_def)

section \<open>Policies\<close>

lemma policy_step:
  assumes S: "system_ok S queued" and inv: "steady (kern S) queued owned (ncpus S) m" and ty: "typed_machine S m" and a: "allowed (ncpus S) x m"
    and r: "mstep S x m = Inr m'" and x: "(\<exists>t nice. x = Renice t nice) \<or> (\<exists>env t y user inherit. x = SetSched env t y user inherit) \<or> (\<exists>env t u. x = Boost env t u)"
  shows "changed (forcing S) (kern S) queued owned (ncpus S) m m'"
proof -
  have con: "class_contract (kern S) queued" and fl: "flags_contract (kern S)" and h: "linux_headers (hdr (kern S))"
    using S by (auto simp: system_ok_def)
  from x show ?thesis
  proof (elim disjE exE)
    fix t nice assume "x = Renice t nice"
    with a r set_user_nice_inv [OF con fl h inv ty, of t nice] show ?thesis by auto
  next
    fix env t y user inherit assume "x = SetSched env t y user inherit"
    with a r setscheduler_task_inv [OF con fl h inv ty, of t y env user inherit] show ?thesis by auto
  next
    fix env t u assume "x = Boost env t u"
    with a r rt_mutex_setprio_inv [OF con fl h inv ty, of t env u] show ?thesis by auto
  qed
qed

lemma step_cases:
  obtains "plain_step x" | c pre sig where "x = Schedule c pre sig" | c where "x = Dead c" | c t a where "x = Fork c t a"
    | "(\<exists>t nice. x = Renice t nice) \<or> (\<exists>env t y user inherit. x = SetSched env t y user inherit) \<or> (\<exists>env t u. x = Boost env t u)"
  by (cases x) auto

lemma dead_schedules:
  assumes "do_task_dead k rp c m = Inr m'"
  shows "schedule_cpu k rp c False False (upd_tk (rq_curr (rqs m c)) (\<lambda>p. p\<lparr>nofreeze := True\<rparr>) (set_state (rq_curr (rqs m c)) TASK_DEAD m)) = Inr m'"
  using assms by (auto simp: do_task_dead_def bindR_Inr_iff Let_def split: if_splits)

lemma mstep_idle:
  assumes S: "system_ok S queued" and inv: "steady (kern S) queued owned (ncpus S) m" and ty: "typed_machine S m" and a: "allowed (ncpus S) x m"
    and r: "mstep S x m = Inr m'"
  shows "rq_idle (rqs m' y) = rq_idle (rqs m y)"
proof (cases x rule: step_cases)
  case 1
  from same_idle [OF time.kept_step [OF r this]] show ?thesis .
next
  case (2 c pre sig)
  with r schedule_idle show ?thesis by auto
next
  case (3 c)
  with r have "do_task_dead (kern S) (report S) c m = Inr m'" by simp
  from schedule_idle [OF dead_schedules [OF this], of y] show ?thesis by (simp add: set_state_def upd_tk_def)
next
  case (4 c t b)
  with r show ?thesis by (auto simp: upd_tk_def bindR_Inr_iff)
next
  case 5
  from policy_step [OF S inv ty a r this] show ?thesis by (simp add: changed_def tuned_def)
qed

lemma ranking_typed: "ranking s = ranking s' \<Longrightarrow> well_typed b h s = well_typed b h s' \<and> classed h s = classed h s' \<and> prio s = prio s'"
  using typed_cong [of s s' b h] by (simp add: classed_def)

lemma mstep_typed:
  assumes S: "system_ok S queued" and inv: "steady (kern S) queued owned (ncpus S) m" and ty: "typed_machine S m" and a: "allowed (ncpus S) x m"
    and r: "mstep S x m = Inr m'"
  shows "typed_machine S m'"
proof (cases "(\<exists>t nice. x = Renice t nice) \<or> (\<exists>env t y user inherit. x = SetSched env t y user inherit) \<or> (\<exists>env t u. x = Boost env t u)")
  case True
  from policy_step [OF S inv ty a r this] show ?thesis by (simp add: changed_def)
next
  case False
  have i: "idles (ncpus S) m' = idles (ncpus S) m" by (simp add: idles_def mstep_idle [OF S inv ty a r])
  show ?thesis unfolding typed_tasks_def i
  proof
    fix t
    show "well_typed (forcing S) (hdr (kern S)) (sched (tk m' t)) \<and>
      (if t \<in> idles (ncpus S) m then 0 \<le> prio (sched (tk m' t)) else classed (hdr (kern S)) (sched (tk m' t)))"
    proof (cases "\<exists>c b. x = Fork c t b")
      case True
      then obtain c b where x: "x = Fork c t b" by blast
      obtain ch where ch: "fork_child S c b m = Inr ch" "well_typed (forcing S) (hdr (kern S)) (sched ch)" "classed (hdr (kern S)) (sched ch)"
        using fork_child_facts [OF S _ _ ty, of c b] inv by (auto simp: steady_def machine_inv_def)
      have "t \<notin> idles (ncpus S) m" using a x not_current [of "ncpus S" "{}" m t] inv by (auto simp: unborn_def steady_def machine_inv_def)
      with ch x r show ?thesis by (auto simp: upd_tk_def)
    next
      case nofork: False
      have "ranking (sched (tk m' t)) = ranking (sched (tk m t))"
        by (rule ranks.kept_by_step [OF r]) (cases x rule: step_cases; use False nofork in auto)
      from ranking_typed [OF this, of "forcing S" "hdr (kern S)"] ty show ?thesis by (simp add: typed_tasks_def)
    qed
  qed
qed

section \<open>The time in a step\<close>

text \<open>Every step, but the fork that overwrites the task.\<close>

lemma cpu_time_step:
  assumes S: "system_ok S queued" and inv: "steady (kern S) queued owned (ncpus S) m" "steady (kern S) queued owned (ncpus S) m'"
    and ty: "typed_machine S m" and a: "allowed (ncpus S) x m" and r: "mstep S x m = Inr m'" and on: "info_on (kern S)"
    and t: "t \<notin> idles (ncpus S) m" "\<And>c b. x \<noteq> Fork c t b"
  shows "cpu_time (ncpus S) m' t = cpu_time (ncpus S) m t + passed (ncpus S) m m' t"
proof -
  let ?n = "ncpus S"
  have sh: "shape ?n {} m" "shape ?n {} m'" using inv by (simp_all add: steady_def machine_inv_def)
  have alone: "rq_curr (rqs m y) \<noteq> rq_curr (rqs m c) \<and> rq_curr (rqs m' y) \<noteq> rq_curr (rqs m' c)" if "y < ?n" "y \<noteq> c" "c < ?n" for y c
    using currs_inj [OF sh(1) that(1,3)] currs_inj [OF sh(2) that(1,3)] that(2) by auto
  show ?thesis
  proof (cases x rule: step_cases)
    case 1
    from cpu_time_same [OF time.kept_step [OF r this]] show ?thesis .
  next
    case (2 c pre sig)
    with a r show ?thesis using cpu_time_schedule [OF alone _ t(1) on] by auto
  next
    case (3 c)
    let ?m = "upd_tk (rq_curr (rqs m c)) (\<lambda>p. p\<lparr>nofreeze := True\<rparr>) (set_state (rq_curr (rqs m c)) TASK_DEAD m)"
    have s: "schedule_cpu (kern S) (report S) c False False ?m = Inr m'" "c < ?n" using 3 a r dead_schedules by (auto simp: busy_def)
    have same: "same_time m ?m" by (rule same_view_trans [OF time.kept_state kept_tk]) simp
    have e: "rqs ?m = rqs m" by (simp add: set_state_def upd_tk_def)
    have "cpu_time ?n m' t = cpu_time ?n ?m t + passed ?n ?m m' t"
      by (rule cpu_time_schedule [OF _ s(2) _ on s(1)]) (use t(1) alone s(2) in \<open>simp_all add: idles_def e\<close>)
    moreover have "cpu_time ?n ?m t = cpu_time ?n m t" "passed ?n ?m m' t = passed ?n m m' t"
      unfolding cpu_time_same [OF same, of ?n t] passed_def e by (simp_all cong: if_cong)
    ultimately show ?thesis by simp
  next
    case (4 c u b)
    with t(2) have "u \<noteq> t" by blast
    then have e: "rqs m' = rqs m" "tk m' t = tk m t" using 4 r by (auto simp: upd_tk_def bindR_Inr_iff)
    have "cpu_time ?n m' t = cpu_time ?n m t" "passed ?n m m' t = 0" unfolding cpu_time_def passed_def e by (simp_all cong: if_cong)
    then show ?thesis by simp
  next
    case 5
    from policy_step [OF S inv(1) ty a r this] show ?thesis by (intro cpu_time_same tuned_time) (simp add: changed_def)
  qed
qed

end
