(* ===== verification/Sched_Core_Props.thy ===== *)
theory Sched_Core_Props
  imports Sched_Time
begin

unbundle bit_operations_syntax

text \<open>
  The properties of the scheduler's core on a whole machine: what holds after any run of the steps of
  \<open>Sched_Machine\<close> that starts with all CPUs idle.
\<close>

section \<open>Runs\<close>

fun run_ops :: "('o \<Rightarrow> 's \<Rightarrow> 's res) \<Rightarrow> 'o list \<Rightarrow> 's \<Rightarrow> 's res" where
  "run_ops step [] s = Inr s"
| "run_ops step (x # xs) s = bindR (step x s) (run_ops step xs)"

fun may_run :: "('o \<Rightarrow> 's \<Rightarrow> 's res) \<Rightarrow> ('o \<Rightarrow> 's \<Rightarrow> bool) \<Rightarrow> 'o list \<Rightarrow> 's \<Rightarrow> bool" where
  "may_run step ok [] s \<longleftrightarrow> True"
| "may_run step ok (x # xs) s \<longleftrightarrow> ok x s \<and> (case step x s of Inl e \<Rightarrow> True | Inr s' \<Rightarrow> may_run step ok xs s')"

text \<open>What a machine owes its clients: a permitted step succeeds and keeps the invariant.\<close>

locale guarded_machine =
  fixes step :: "'o \<Rightarrow> 's \<Rightarrow> 's res" and ok :: "'o \<Rightarrow> 's \<Rightarrow> bool" and inv :: "'s \<Rightarrow> bool"
  assumes step_ok: "inv s \<Longrightarrow> ok x s \<Longrightarrow> \<exists>s'. step x s = Inr s' \<and> inv s'"
begin

lemma first_ok:
  assumes "inv s" and "may_run step ok (x # xs) s"
  shows "\<exists>s'. step x s = Inr s' \<and> inv s' \<and> may_run step ok xs s' \<and> ok x s"
  using step_ok [of s x] assms by auto

lemma run_ok: "inv s \<Longrightarrow> may_run step ok xs s \<Longrightarrow> \<exists>s'. run_ops step xs s = Inr s' \<and> inv s'"
proof (induction xs arbitrary: s)
  case (Cons x xs)
  then obtain s1 where "step x s = Inr s1" "inv s1" "may_run step ok xs s1" using first_ok by blast
  with Cons.IH show ?case by simp
qed simp

text \<open>A quantity that every step adds to.\<close>

lemma run_sum:
  fixes f :: "'s \<Rightarrow> 'a :: ab_group_add" and g :: "'o list \<Rightarrow> 's \<Rightarrow> 'a"
  assumes "inv s" and "may_run step ok xs s" and "\<And>s. g [] s = 0"
    and "\<And>x xs s s'. inv s \<Longrightarrow> inv s' \<Longrightarrow> ok x s \<Longrightarrow> x \<in> X \<Longrightarrow> step x s = Inr s' \<Longrightarrow> g (x # xs) s = f s' - f s + g xs s'"
    and "set xs \<subseteq> X" and "run_ops step xs s = Inr s'"
  shows "f s' = f s + g xs s"
  using assms(1,2,5,6)
proof (induction xs arbitrary: s)
  case (Cons x xs)
  then obtain s1 where s1: "step x s = Inr s1" "inv s1" using step_ok by fastforce
  with Cons.prems have "may_run step ok xs s1" "set xs \<subseteq> X" "run_ops step xs s1 = Inr s'" by auto
  with Cons.IH [OF s1(2)] have "f s' = f s1 + g xs s1" by blast
  moreover have "g (x # xs) s = f s1 - f s + g xs s1" using assms(4) [OF Cons.prems(1) s1(2) _ _ s1(1)] Cons.prems by auto
  ultimately show ?case by simp
qed (simp add: assms(3))

end

text \<open>The machine of the scheduler, for every system whose classes keep their contract.\<close>

definition healthy :: "'q system \<Rightarrow> ('q \<Rightarrow> nat set) \<Rightarrow> (nat \<Rightarrow> int) \<Rightarrow> 'q machine \<Rightarrow> bool" where
  "healthy S queued owned m \<longleftrightarrow> system_ok S queued \<and> steady (kern S) queued owned (ncpus S) m \<and> typed_machine S m"

interpretation core: guarded_machine "mstep S" "allowed (ncpus S)" "healthy S queued owned" for S queued owned
proof
  fix m x
  assume a: "healthy S queued owned m" "allowed (ncpus S) x m"
  then obtain m' where m': "mstep S x m = Inr m'" "steady (kern S) queued owned (ncpus S) m'" using mstep_inv [of S queued owned m x] by (auto simp: healthy_def)
  moreover have "typed_machine S m'" using mstep_typed [OF _ _ _ a(2) m'(1)] a(1) by (auto simp: healthy_def)
  ultimately show "\<exists>m'. mstep S x m = Inr m' \<and> healthy S queued owned m'" using a(1) by (auto simp: healthy_def)
qed

abbreviation mrun :: "'q system \<Rightarrow> mop list \<Rightarrow> 'q machine \<Rightarrow> 'q machine res" where
  "mrun S \<equiv> run_ops (mstep S)"

abbreviation may :: "'q system \<Rightarrow> mop list \<Rightarrow> 'q machine \<Rightarrow> bool" where
  "may S \<equiv> may_run (mstep S) (allowed (ncpus S))"

section \<open>A machine at rest\<close>

text \<open>
  Every CPU runs its idle task, which has no address space of its own, no task waits or is queued, and the
  clamps are those of idle run queues. The other tasks are not born, and the priorities are well typed.
\<close>

definition at_rest :: "'q system \<Rightarrow> ('q \<Rightarrow> nat set) \<Rightarrow> (nat \<Rightarrow> int) \<Rightarrow> 'q machine \<Rightarrow> bool" where
  "at_rest S queued owned m \<longleftrightarrow>
     inj_on (\<lambda>c. rq_idle (rqs m c)) {..<ncpus S}
     \<and> (\<forall>c < ncpus S. rq_curr (rqs m c) = rq_idle (rqs m c) \<and> wake_list (rqs m c) = [] \<and> queued (classq (rqs m c)) = {}
         \<and> nr_uninterruptible (rqs m c) = 0 \<and> nr_iowait (rqs m c) = 0 \<and> prev_mm (rqs m c) = None
         \<and> idle_queue (UCLAMP_BUCKETS (clampsys m)) (clamps (rqs m c)))
     \<and> (\<forall>t. task_cpu (tk m t) < ncpus S \<and> ok_request (clampsys m) (tk m t)
         \<and> (if t \<in> idles (ncpus S) m
            then on_rq (tk m t) = OnRqQueued \<and> state (sched (tk m t)) = TASK_RUNNING \<and> mm (tk m t) = None \<and> active_mm (tk m t) \<noteq> None
            else unborn m t \<and> psi (tk m t) = fresh_psi \<and> (mm (tk m t) \<noteq> None \<longrightarrow> active_mm (tk m t) = mm (tk m t))))
     \<and> (\<forall>i. mm_count m i = owned i + int (card (borrowers (ncpus S) m i))) \<and> ok_system (clampsys m)
     \<and> typed_machine S m"

lemma at_rest_steady:
  assumes "at_rest S queued owned m"
  shows "steady k queued owned (ncpus S) m"
proof -
  let ?n = "ncpus S"
  have i: "rq_idle (rqs m c) \<in> idles ?n m" if "c < ?n" for c using that by (auto simp: idles_def)
  have idle: "on_rq (tk m t) = OnRqQueued" "state (sched (tk m t)) = TASK_RUNNING" "mm (tk m t) = None" "active_mm (tk m t) \<noteq> None" if "t \<in> idles ?n m" for t
    using assms that by (auto simp: at_rest_def)
  have born: "on_rq (tk m t) = NotQueued" "state (sched (tk m t)) = TASK_NEW" "psi (tk m t) = fresh_psi"
      "mm (tk m t) \<noteq> None \<longrightarrow> active_mm (tk m t) = mm (tk m t)" if "t \<notin> idles ?n m" for t
  proof -
    have "unborn m t" "psi (tk m t) = fresh_psi" "mm (tk m t) \<noteq> None \<longrightarrow> active_mm (tk m t) = mm (tk m t)"
      using assms that by (simp_all add: at_rest_def)
    then show "on_rq (tk m t) = NotQueued" "state (sched (tk m t)) = TASK_NEW" "psi (tk m t) = fresh_psi"
      "mm (tk m t) \<noteq> None \<longrightarrow> active_mm (tk m t) = mm (tk m t)" by (simp_all add: unborn_def)
  qed
  have q: "queue_of ?n m = (\<lambda>c. {})" using born by (auto simp: queue_of_def fun_eq_iff)
  have none: "\<not> waking m t" "\<not> asleep m t" for t using idle [of t] born [of t] by (cases "t \<in> idles ?n m"; auto simp: waking_def asleep_def)+
  have new: "on_rq (tk m t) \<noteq> OnRqMigrating \<and> (on_rq (tk m t) = OnRqQueued \<longrightarrow> state (sched (tk m t)) \<notin> {TASK_NEW, TASK_WAKING})" for t
    using idle [of t] born [of t] by (cases "t \<in> idles ?n m") auto
  have sh: "shape ?n {} m" using assms idle i none new by (auto simp: shape_def at_rest_def)
  have ck: "queue_inv k queued ?n (queue_of ?n m) m" using assms by (auto simp: queue_inv_def q at_rest_def intro: idle_queue_inv)
  have "life (psik k) (phase ?n m t) (psi (tk m t))" if "t \<notin> idles ?n m" for t
    using born [OF that] life.born by (simp add: phase_def fresh_psi_def)
  then have "life_inv k ?n m" by (simp add: life_inv_def)
  moreover have "load_inv ?n m" "io_inv (\<lambda>t. sched_remote_wakeup (tk m t)) ?n m"
    using assms none by (simp_all add: load_inv_def loading_def io_inv_def waiting_def at_rest_def)
  moreover have "mm_inv owned ?n m"
  proof -
    have "mm (tk m t) \<noteq> None \<longrightarrow> active_mm (tk m t) = mm (tk m t)" for t using idle(3) [of t] born(4) [of t] by (cases "t \<in> idles ?n m") simp_all
    then show ?thesis using assms idle(4) i by (simp add: mm_inv_def at_rest_def)
  qed
  ultimately show ?thesis using assms sh ck by (simp add: steady_def machine_inv_def at_rest_def)
qed

lemma at_rest_healthy: "system_ok S queued \<Longrightarrow> at_rest S queued owned m \<Longrightarrow> healthy S queued owned m"
  using at_rest_steady [of S queued owned m "kern S"] by (simp add: healthy_def at_rest_def)

lemma run_healthy:
  assumes "system_ok S queued" and "at_rest S queued owned m" and "may S xs m"
  shows "\<exists>m'. mrun S xs m = Inr m' \<and> healthy S queued owned m'"
  by (rule core.run_ok [OF at_rest_healthy [OF assms(1,2)] assms(3)])

lemma run_steady:
  assumes "system_ok S queued" and "at_rest S queued owned m" and "may S xs m"
  shows "\<exists>m'. mrun S xs m = Inr m' \<and> steady (kern S) queued owned (ncpus S) m'"
  using run_healthy [OF assms] by (auto simp: healthy_def)

section \<open>A small system\<close>

text \<open>
  Two CPUs of different caches, with classes that keep their tasks in one list. The idle tasks are 0 and 1;
  the address space 0 is that of the kernel.
\<close>

type_synonym listq = "(sched_class \<times> nat) list"

definition list_pick :: "sched_class \<Rightarrow> listq \<Rightarrow> nat option" where
  "list_pick x q = map_option snd (find (\<lambda>e. fst e = x) q)"

definition list_kernel :: "listq kernel" where
  "list_kernel = \<lparr>hdr = linux_5_11, psik = linux_psi, info_on = True, DEQUEUE_SLEEP = 1, DEQUEUE_SAVE = 2, DEQUEUE_MOVE = 4,
     DEQUEUE_NOCLOCK = 8, ENQUEUE_WAKEUP = 1, ENQUEUE_RESTORE = 2, ENQUEUE_NOCLOCK = 8, ENQUEUE_HEAD = 16, ENQUEUE_REPLENISH = 32,
     ENQUEUE_MIGRATED = 64, WF_FORK = 4, WF_MIGRATED = 32, WF_ON_CPU = 64,
     update_avg = (\<lambda>avg sample. avg + drop_bit 3 (sample - avg)),
     reweight_task = (\<lambda>l i. \<lparr>weight = sched_prio_to_weight ! nat i * 1024, inv_weight = sched_prio_to_wmult ! nat i\<rparr>),
     RQCF_REQ_SKIP = 1, RQCF_ACT_SKIP = 2,
     rq_clock_skip_update = (\<lambda>w. w OR 1), ttwu_queue_feat = True, cpu_active = (\<lambda>c. c < 2), sd_llc_id = (\<lambda>c. c),
     uclamp_class = (\<lambda>x. x = Fair \<or> x = Rt),
     cl_enqueue = (\<lambda>x q t p f. filter (\<lambda>e. snd e \<noteq> t) q @ [(x, t)]), cl_dequeue = (\<lambda>x q t p f. filter (\<lambda>e. snd e \<noteq> t) q),
     cl_put_prev = (\<lambda>x q t. filter (\<lambda>e. snd e \<noteq> t) q @ filter (\<lambda>e. snd e = t) q), cl_set_next = (\<lambda>x q t. q),
     cl_balance = (\<lambda>x q t. (q, list_pick x q \<noteq> None)),
     cl_pick = (\<lambda>x q i. (q, if x = Idle then Some i else list_pick x q)),
     cl_pick_fair = (\<lambda>q p. (q, case list_pick Fair q of Some t \<Rightarrow> Picked t | None \<Rightarrow> NoTask)),
     cl_preempts = (\<lambda>x q c t f. False), cl_woken = (\<lambda>x q t. q), cl_migrate = (\<lambda>x q t c. q),
     cl_tick = (\<lambda>x q t. (q, x = Fair)), cl_dead = (\<lambda>x q t. q), cl_changed = (\<lambda>x y q t pr. (q, x < y)),
     nr_running = length, h_nr_running = (\<lambda>q. length (filter (\<lambda>e. fst e = Fair) q))\<rparr>"

definition on_list :: "listq \<Rightarrow> nat set" where
  "on_list q = snd ` set q"

definition list_system :: "listq system" where
  "list_system = \<lparr>kern = list_kernel, report = burst_report, fork_sched = cfs_sched_fork, ncpus = 2\<rparr>"

lemma list_pick_on: "list_pick x q = Some t \<Longrightarrow> t \<in> on_list q"
  by (auto simp: list_pick_def on_list_def find_Some_iff) (metis image_eqI nth_mem snd_conv)

lemma list_contract: "class_contract list_kernel on_list"
proof -
  have 1: "on_list (filter (\<lambda>e. snd e \<noteq> t) q @ [(x, t)]) = insert t (on_list q)"
      "on_list (filter (\<lambda>e. snd e \<noteq> t) q) = on_list q - {t}"
      "on_list (filter (\<lambda>e. snd e \<noteq> t) q @ filter (\<lambda>e. snd e = t) q) = on_list q" for t q x
    by (auto simp: on_list_def image_iff)
  show ?thesis
    unfolding class_contract_def by (simp add: list_kernel_def 1 split: option.splits) (auto intro: list_pick_on)
qed

lemma list_system_ok: "system_ok list_system on_list"
  using list_contract linux_psi_contract(1) linux_5_11_headers by (simp add: system_ok_def list_system_def) (simp add: list_kernel_def flags_contract_def)

definition rest_task :: "nat \<Rightarrow> ktask" where
  "rest_task t = \<lparr>sched = new_task\<lparr>state := (if t < 2 then TASK_RUNNING else TASK_NEW), cls := (if t < 2 then Idle else Fair)\<rparr>,
     psi = fresh_psi, clamp = asking t, load = \<lparr>weight = 1024, inv_weight = 4194304\<rparr>,
     on_rq = (if t < 2 then OnRqQueued else NotQueued), task_cpu = (if t = 1 then 1 else 0),
     sched_contributes_to_load = False, sched_remote_wakeup = False, frozen = False, nofreeze = False, need_resched = False, nvcsw = 0, nivcsw = 0, nr_migrations = 0,
     mm = None, active_mm = (if t < 2 then Some 0 else None), pi_top_task = None\<rparr>"

definition rest_machine :: "listq machine" where
  "rest_machine = \<lparr>rqs = (\<lambda>c. \<lparr>acct = \<lparr>clock = 0, rq_run_delay = 0, rq_pcount = 0, rq_cpu_time = 0\<rparr>, clock_update_flags = 0, rq_curr = c,
       rq_idle = c, rq_stop = None, clamps = (init_uclamp_rq 5)\<lparr>uclamp_idle := True\<rparr>, nr_uninterruptible = 0, nr_iowait = 0,
       nr_switches = 0, idle_stamp = 0, avg_idle = 0, max_idle_balance_cost = 0, prev_mm = None, ttwu_pending = False, wake_list = [], classq = []\<rparr>),
     tk = rest_task, clampsys = five_buckets, mm_count = (\<lambda>i. if i = 0 then 3 else 0), sched_clock = (\<lambda>c. 0), printed = []\<rparr>"

lemma rest_task_typed: "well_typed b linux_5_11 (sched (rest_task t)) \<and> (if t < 2 then 0 \<le> prio (sched (rest_task t)) else classed linux_5_11 (sched (rest_task t)))"
  by (simp add: well_typed_iff [OF linux_5_11_headers] classed_def class_of_prio_eq [OF linux_5_11_headers] rest_task_def new_task_def)

lemma rest_machine_rests: "at_rest list_system on_list (\<lambda>i. if i = 0 then 1 else 0) rest_machine"
proof -
  have i: "idles 2 rest_machine = {0, 1}" by (auto simp: idles_def rest_machine_def)
  have b: "borrowers 2 rest_machine i = (if i = 0 then {0, 1} else {})" for i
    by (auto simp: borrowers_def rest_machine_def rest_task_def)
  have r: "ok_request five_buckets (rest_task t)" for t
    using asking_ok [of t] by (simp add: ok_request_def rest_task_def five_is_5 ok_task_def)
  have "typed_tasks x linux_5_11 2 rest_machine" for x
    unfolding typed_tasks_def i using rest_task_typed by (auto simp: rest_machine_def less_2_cases_iff)
  then have "typed_machine list_system rest_machine" by (simp add: list_system_def list_kernel_def)
  then show ?thesis
    unfolding at_rest_def list_system_def system.simps i b
    using idle_start r five_buckets_ok
    by (auto simp: rest_machine_def five_is_5 on_list_def) (auto simp: rest_task_def unborn_def new_task_def)
qed

text \<open>The task that runs next, after a preemption.\<close>

lemma schedule_curr:
  assumes "schedule_cpu k rp c True sig m = Inr m'"
    and "pick_next_task k (cls_of m (rq_curr (rqs m c))) (rq_curr (rqs m c)) (rq_idle (rqs m c)) (classq (rqs m c)) = Inr (q, nx)"
    and "info_on k"
  shows "rq_curr (rqs m' c) = nx"
proof -
  let ?p = "rq_curr (rqs m c)"
  define m1 where "m1 = update_rq_clock k c (upd_rq c (\<lambda>r. r\<lparr>clock_update_flags := push_bit 1 (clock_update_flags r)\<rparr>) m)"
  define m3 where "m3 = upd_tk ?p (\<lambda>p. p\<lparr>need_resched := False\<rparr>) (upd_rq c (\<lambda>r. r\<lparr>classq := q\<rparr>) m1)"
  have e: "cls_of m1 x = cls_of m x" "rq_idle (rqs m1 c) = rq_idle (rqs m c)" "classq (rqs m1 c) = classq (rqs m c)" for x
    by (simp_all add: m1_def update_rq_clock_eq upd_rq_def)
  have r: "(if ?p \<noteq> nx then schedule_switch k rp c ?p nx False m3 else Inr (clear_skip k c m3)) = Inr m'"
    using assms unfolding schedule_cpu_def schedule_block_def Let_def m1_def [symmetric] by (simp add: e m3_def cong: if_cong)
  show ?thesis
  proof (cases "?p = nx")
    case True
    then show ?thesis using r by (auto simp: clear_skip_def upd_rq_def m3_def upd_tk_def m1_def update_rq_clock_eq)
  next
    case False
    with r have "schedule_switch k rp c ?p nx False m3 = Inr m'" by simp
    from switch_time [OF this assms(3) False] show ?thesis by (simp add: switched_time_def)
  qed
qed

lemma wake_new_queue:
  assumes "wake_up_new_task k t d m = Inr m'"
  shows "\<exists>p. classq (rqs m' d) = cl_woken k (cls_of m t) (cl_enqueue k (cls_of m t) (classq (rqs m d)) t p (ENQUEUE_NOCLOCK k)) t"
    "rq_curr (rqs m' d) = rq_curr (rqs m d)" "rq_idle (rqs m' x) = rq_idle (rqs m x)" "cls_of m' x = cls_of m x"
proof -
  let ?m1 = "update_rq_clock k d (upd_tk t (\<lambda>p. p\<lparr>task_cpu := d\<rparr>) (set_state t TASK_RUNNING m))"
  obtain m2 where m2: "activate_task k d t (ENQUEUE_NOCLOCK k) ?m1 = Inr m2" "m' = task_woken k d t (check_preempt_curr k d t (WF_FORK k) m2)"
    using assms by (auto simp: wake_up_new_task_def bindR_Inr_iff Let_def)
  have c: "classq (rqs (check_preempt_curr k d t f m2) d) = classq (rqs m2 d)" "cls_of (check_preempt_curr k d t f m2) x = cls_of m2 x" for f x
    by (simp_all add: check_preempt_curr_def resched_curr_def upd_tk_def upd_rq_def Let_def)
  have same: "same_time m m'" by (rule time.kept_new [OF assms])
  then show "rq_curr (rqs m' d) = rq_curr (rqs m d)" "rq_idle (rqs m' x) = rq_idle (rqs m x)" by (simp_all add: same_view_def)
  have 1: "cls_of ?m1 x = cls_of m x" "classq (rqs ?m1 d) = classq (rqs m d)"
      "cls_of (upd_tk t (\<lambda>p. p\<lparr>task_cpu := d\<rparr>) (set_state t TASK_RUNNING m)) x = cls_of m x" for x
    by (simp_all add: update_rq_clock_eq upd_tk_def set_state_def)
  from m2(1) have "cls_of m2 x = cls_of ?m1 x" "\<exists>p. classq (rqs m2 d) = cl_enqueue k (cls_of ?m1 t) (classq (rqs ?m1 d)) t p (ENQUEUE_NOCLOCK k)" for x
    unfolding activate_task_def enqueue_task_def
    by (auto simp: bindR_Inr_iff Let_def update_rq_clock_eq upd_tk_def upd_rq_def split: if_splits)
  then show "\<exists>p. classq (rqs m' d) = cl_woken k (cls_of m t) (cl_enqueue k (cls_of m t) (classq (rqs m d)) t p (ENQUEUE_NOCLOCK k)) t"
      "cls_of m' x = cls_of m x"
    unfolding m2(2) task_woken_def by (auto simp: upd_rq_def c 1)
qed


text \<open>
  Task 2 is forked and runs on CPU 0 for 500 ns, sleeps there for I/O, and is woken up by CPU 1, to run on
  CPU 1, which finds it on its wake list.
\<close>

definition first_steps :: "mop list" where
  "first_steps = [Fork 0 2 (Some 7), WakeNew 2 0, Schedule 0 True False]"

definition sample_run :: "mop list" where
  "sample_run = first_steps @ [Elapse 0 500, IoWait 0 True, SetState 0 2, Schedule 0 False False, WakeUp 1 2 3 0 1, Pending 1]"

lemma run_append: "run_ops step (xs @ ys) s = bindR (run_ops step xs s) (run_ops step ys)"
proof (induction xs arbitrary: s)
  case (Cons x xs)
  then show ?case by (simp add: bindR_assoc) (rule bindR_cong; simp)
qed simp

lemma may_append: "run_ops step xs s = Inr s' \<Longrightarrow> may_run step ok xs s \<Longrightarrow> may_run step ok ys s' \<Longrightarrow> may_run step ok (xs @ ys) s"
  by (induction xs arbitrary: s) (auto simp: bindR_Inr_iff)

lemma first_steps_run:
  "\<exists>m. mrun list_system first_steps rest_machine = Inr m \<and> may list_system first_steps rest_machine
    \<and> rq_curr (rqs m 0) = 2 \<and> idles 2 m = {0, 1}"
proof -
  let ?S = list_system and ?k = list_kernel and ?owned = "\<lambda>i. if i = 0 then 1 else 0"
  have S: "kern ?S = ?k" "ncpus ?S = 2" by (simp_all add: list_system_def)
  note step = core.step_ok [of ?S on_list ?owned, unfolded S]
  have s0: "healthy ?S on_list ?owned rest_machine" by (rule at_rest_healthy [OF list_system_ok rest_machine_rests])
  have a1: "allowed 2 (Fork 0 2 (Some 7)) rest_machine" by (simp add: unborn_def rest_machine_def rest_task_def new_task_def)
  obtain child where child: "fork_child ?S 0 (Some 7) rest_machine = Inr child" using step [OF s0 a1] by (auto simp: bindR_Inr_iff)
  define m1 where "m1 = upd_tk 2 (\<lambda>p. child) rest_machine"
  have m1: "mstep ?S (Fork 0 2 (Some 7)) rest_machine = Inr m1" "healthy ?S on_list ?owned m1" using step [OF s0 a1] child by (simp_all add: m1_def)
  have ch: "on_rq child = NotQueued" "state (sched child) = TASK_NEW" "cls (sched child) = Fair"
    using child by (auto simp: fork_child_def fork_task_def list_system_def list_kernel_def rest_machine_def rest_task_def fork_defs linux_5_11_def new_task_def)
  have a2: "allowed 2 (WakeNew 2 0) m1" using ch by (simp add: unborn_def m1_def upd_tk_def)
  obtain m2 where m2: "mstep ?S (WakeNew 2 0) m1 = Inr m2" "healthy ?S on_list ?owned m2" using step [OF m1(2) a2] by blast
  have e1: "rq_curr (rqs m1 c) = c" "rq_idle (rqs m1 c) = c" "classq (rqs m1 c) = []" "cls_of m1 0 = Idle" "cls_of m1 2 = Fair" for c
    using ch by (simp_all add: m1_def upd_tk_def rest_machine_def rest_task_def)
  have w: "wake_up_new_task ?k 2 0 m1 = Inr m2" using m2(1) by (simp add: S)
  have e2: "rq_curr (rqs m2 0) = 0" "rq_idle (rqs m2 c) = c" "cls_of m2 0 = Idle" "classq (rqs m2 0) = [(Fair, 2)]" for c
    using wake_new_queue [OF w] by (simp_all add: e1) (simp add: list_kernel_def)
  have a3: "allowed 2 (Schedule 0 True False) m2" by simp
  obtain m3 where m3: "mstep ?S (Schedule 0 True False) m2 = Inr m3" "healthy ?S on_list ?owned m3" using step [OF m2(2) a3] by blast
  have p: "pick_next_task ?k Idle 0 0 [(Fair, 2)] = Inr ([(Fair, 2)], 2)"
    by (simp add: pick_next_task_def list_kernel_def list_pick_def less_eq_sched_class_def)
  have cu: "rq_curr (rqs m3 0) = 2"
    by (rule schedule_curr [where q = "[(Fair, 2)]"]) (use m3(1) in \<open>simp add: S\<close>, simp add: e2 p, simp add: list_kernel_def)
  have "rq_idle (rqs m3 c) = c" for c
    using schedule_idle [of ?k "report ?S" 0 True False m2 m3 c] m3(1) by (simp add: e2 S)
  then have "idles 2 m3 = {0, 1}" by (auto simp: idles_def)
  with cu show ?thesis
    by (intro exI [of _ m3]) (simp add: first_steps_def m1(1) m2(1) m3(1) S a1 a2 del: mstep.simps allowed.simps, simp)
qed


lemma sample_may: "may list_system sample_run rest_machine"
proof -
  obtain m where m: "mrun list_system first_steps rest_machine = Inr m" "may list_system first_steps rest_machine"
      "rq_curr (rqs m 0) = 2" "idles 2 m = {0, 1}"
    using first_steps_run by blast
  have n: "ncpus list_system = 2" by (simp add: list_system_def)
  have i: "2 \<notin> (\<lambda>c. rq_idle (rqs m c)) ` {..<2}" using m(4) by (simp add: idles_def)
  have "may list_system [Elapse 0 500, IoWait 0 True, SetState 0 2, Schedule 0 False False, WakeUp 1 2 3 0 1, Pending 1] m"
    using i by (simp add: n m(3) busy_def idles_def upd_psi_def upd_tk_def TASK_NEW_def TASK_WAKING_def split: sum.split)
  from may_append [OF m(1,2) this] show ?thesis by (simp add: sample_run_def)
qed

section \<open>The properties\<close>

text \<open>
  C27. Who runs where: after any run of the scheduler from a machine at rest (forks, wake-ups by the same or another
  CPU, preemptions, sleeps, migrations, changes of priority and policy, ends of tasks), which never fails, every CPU runs its idle task or a
  task that is queued on that CPU, no task runs on two CPUs, and the queue of every CPU holds exactly
  the runnable tasks assigned to it.
\<close>

theorem machine_currents:
  assumes "system_ok S queued" and "at_rest S queued owned m" and "may S xs m"
  shows "\<exists>m'. mrun S xs m = Inr m'
    \<and> (\<forall>c < ncpus S. rq_curr (rqs m' c) = rq_idle (rqs m' c)
        \<or> on_rq (tk m' (rq_curr (rqs m' c))) = OnRqQueued \<and> task_cpu (tk m' (rq_curr (rqs m' c))) = c)
    \<and> inj_on (\<lambda>c. rq_curr (rqs m' c)) {..<ncpus S}
    \<and> (\<forall>c < ncpus S. queued (classq (rqs m' c)) = {t. t \<notin> idles (ncpus S) m' \<and> on_rq (tk m' t) = OnRqQueued \<and> task_cpu (tk m' t) = c})"
proof -
  obtain m' where m': "mrun S xs m = Inr m'" "steady (kern S) queued owned (ncpus S) m'" using run_steady [OF assms] by blast
  then have sh: "shape (ncpus S) {} m'" and q: "queue_inv (kern S) queued (ncpus S) (queue_of (ncpus S) m') m'"
    by (auto simp: steady_def machine_inv_def)
  have "inj_on (\<lambda>c. rq_curr (rqs m' c)) {..<ncpus S}" using currs_inj [OF sh] by (auto simp: inj_on_def)
  with m'(1) sh q show ?thesis by (intro exI [of _ m']) (auto simp: shape_def queue_inv_def queue_of_def)
qed

theorem machine_currents_witness:
  "\<exists>m'. mrun list_system sample_run rest_machine = Inr m' \<and> rq_curr (rqs m' 0) \<noteq> rq_curr (rqs m' 1)"
proof -
  obtain m' where "mrun list_system sample_run rest_machine = Inr m'" "inj_on (\<lambda>c. rq_curr (rqs m' c)) {..<ncpus list_system}"
    using machine_currents [OF list_system_ok rest_machine_rests sample_may] by blast
  then show ?thesis using inj_onD [of "\<lambda>c. rq_curr (rqs m' c)" "{..<2}" 0 1] by (auto simp: list_system_def)
qed


text \<open>
  C28. The counters of the whole machine are exact: after any run the counters \<open>nr_uninterruptible\<close>, of which
  one alone may be off or even wrap around, add up to the number of tasks that sleep and count as load (also
  those on the way to another CPU), and \<open>nr_iowait\<close> of every CPU is the number of the tasks that sleep for
  I/O there, without those that have already been taken off for another CPU.
\<close>

theorem machine_counters:
  assumes "system_ok S queued" and "at_rest S queued owned m" and "may S xs m"
  shows "\<exists>m'. mrun S xs m = Inr m'
    \<and> finite {t. asleep m' t \<and> sched_contributes_to_load (tk m' t)}
    \<and> (\<Sum>c < ncpus S. nr_uninterruptible (rqs m' c)) = of_nat (card {t. asleep m' t \<and> sched_contributes_to_load (tk m' t)})
    \<and> (\<forall>c < ncpus S. nr_iowait (rqs m' c) = int (card {t. asleep m' t \<and> task_cpu (tk m' t) = c \<and> in_iowait (psi (tk m' t))
          \<and> \<not> (state (sched (tk m' t)) = TASK_WAKING \<and> sched_remote_wakeup (tk m' t))}))"
proof -
  obtain m' where m': "mrun S xs m = Inr m'" "steady (kern S) queued owned (ncpus S) m'" using run_steady [OF assms] by blast
  then show ?thesis by (intro exI [of _ m']) (simp add: steady_def machine_inv_def load_inv_def io_inv_def loading_def waiting_def)
qed

theorem machine_counters_witness:
  "\<exists>m'. mrun list_system sample_run rest_machine = Inr m'
    \<and> (\<Sum>c < 2. nr_uninterruptible (rqs m' c)) = of_nat (card {t. asleep m' t \<and> sched_contributes_to_load (tk m' t)})"
  using machine_counters [OF list_system_ok rest_machine_rests sample_may] by (auto simp: list_system_def)

text \<open>
  C33. Pressure stall information through the whole scheduler: after any run, the flags of every task but the idle
  ones are those of the phase it is in on this machine (new, queued, on a CPU, asleep, being woken up), and
  \<open>psi.c\<close> never had an inconsistent change to report, whatever CPUs did the steps.
\<close>

theorem machine_psi:
  assumes "system_ok S queued" and "at_rest S queued owned m" and "may S xs m" and "\<not> psi_disabled (psik (kern S))"
  shows "\<exists>m'. mrun S xs m = Inr m'
    \<and> (\<forall>t. t \<notin> idles (ncpus S) m' \<longrightarrow>
        psi_flags (psi (tk m' t)) = flags_of (phase (ncpus S) m' t) (psi (tk m' t)) \<and> \<not> psi_bug (psi (tk m' t)))"
proof -
  obtain m' where m': "mrun S xs m = Inr m'" "steady (kern S) queued owned (ncpus S) m'" using run_steady [OF assms(1-3)] by blast
  have "tracks (phase (ncpus S) m' t) (psi (tk m' t))" if "t \<notin> idles (ncpus S) m'" for t
    by (rule life_tracks [of "psik (kern S)"]) (use m'(2) that assms(1,4) in \<open>auto simp: steady_def machine_inv_def life_inv_def system_ok_def\<close>)
  with m'(1) show ?thesis by (auto simp: tracks_def)
qed

theorem machine_psi_witness:
  "\<exists>m'. mrun list_system sample_run rest_machine = Inr m' \<and> (2 \<in> idles 2 m' \<or> \<not> psi_bug (psi (tk m' 2)))"
  using machine_psi [OF list_system_ok rest_machine_rests sample_may] linux_psi_contract(2) by (auto simp: list_system_def list_kernel_def)

text \<open>
  References to address spaces: after any run every CPU has an address space, the count of each is that of its
  owners and one for every CPU that runs a thread without an address space of its own in it, and no
  reference waits to be dropped.
\<close>

theorem machine_mm_counts:
  assumes "system_ok S queued" and "at_rest S queued owned m" and "may S xs m"
  shows "\<exists>m'. mrun S xs m = Inr m'
    \<and> (\<forall>c < ncpus S. active_mm (tk m' (rq_curr (rqs m' c))) \<noteq> None \<and> prev_mm (rqs m' c) = None)
    \<and> (\<forall>i. mm_count m' i = owned i + int (card {c. c < ncpus S \<and> mm (tk m' (rq_curr (rqs m' c))) = None
          \<and> active_mm (tk m' (rq_curr (rqs m' c))) = Some i}))"
proof -
  obtain m' where m': "mrun S xs m = Inr m'" "steady (kern S) queued owned (ncpus S) m'" using run_steady [OF assms] by blast
  then show ?thesis by (intro exI [of _ m']) (simp add: steady_def machine_inv_def mm_inv_def borrowers_def)
qed

theorem machine_mm_counts_witness:
  "\<exists>m'. mrun list_system sample_run rest_machine = Inr m'
    \<and> mm_count m' 7 = int (card {c. c < 2 \<and> mm (tk m' (rq_curr (rqs m' c))) = None \<and> active_mm (tk m' (rq_curr (rqs m' c))) = Some 7})"
  using machine_mm_counts [OF list_system_ok rest_machine_rests sample_may] by (auto simp: list_system_def)

text \<open>
  The clamps on the machine: after any run no bucket was left and no warning raised, the buckets of a CPU count
  the tasks queued there whose class has clamps, and the clamp of the CPU is at least that of each of them.
\<close>

theorem machine_clamps:
  assumes "system_ok S queued" and "at_rest S queued owned m" and "may S xs m"
  shows "\<exists>m'. mrun S xs m = Inr m' \<and> (\<forall>c < ncpus S. \<not> uclamp_warned (clamps (rqs m' c))
    \<and> (\<forall>i. \<forall>b < UCLAMP_BUCKETS (clampsys m'). b_tasks (bucket (uclamps (clamps (rqs m' c)) i) ! b) =
          card {t. t \<in> queued (classq (rqs m' c)) \<and> uclamp_class (kern S) (cls_of m' t) \<and> bucket_id (uclamp (clamp (tk m' t)) i) = b})
    \<and> (\<forall>i t. t \<in> queued (classq (rqs m' c)) \<and> uclamp_class (kern S) (cls_of m' t) \<longrightarrow>
          se_value (uclamp (clamp (tk m' t)) i) \<le> rq_value (uclamps (clamps (rqs m' c)) i)))"
proof -
  obtain m' where m': "mrun S xs m = Inr m'" "steady (kern S) queued owned (ncpus S) m'" using run_steady [OF assms] by blast
  have n: "0 < UCLAMP_BUCKETS (clampsys m')" using m'(2) by (simp add: steady_def machine_inv_def ok_system_def)
  let ?A = "\<lambda>c. {t. t \<in> queued (classq (rqs m' c)) \<and> uclamp_class (kern S) (cls_of m' t)}"
  have inv: "clamp_inv (clampsys m') (?A c) (clamps (rqs m' c)) (\<lambda>t. clamp_view (kern S) (tk m' t))" if "c < ncpus S" for c
    using m'(2) that by (auto simp: steady_def machine_inv_def queue_inv_def)
  have cl: "clamped (UCLAMP_BUCKETS (clampsys m')) (?A c) (\<lambda>t. uclamp (clamp (tk m' t)) i) (uclamps (clamps (rqs m' c)) i)"
    "finite (?A c)" "\<not> uclamp_warned (clamps (rqs m' c))" if "c < ncpus S" for c i
    using inv [OF that] by (simp_all add: clamp_inv_def clamp_view_def)
  have count: "b_tasks (bucket (uclamps (clamps (rqs m' c)) i) ! b) = card {t \<in> ?A c. bucket_id (uclamp (clamp (tk m' t)) i) = b}"
    if "c < ncpus S" "b < UCLAMP_BUCKETS (clampsys m')" for c i b
    using cl(1) [OF that(1)] that(2) by (simp add: clamped_def counts_def)
  have atmost: "se_value (uclamp (clamp (tk m' t)) i) \<le> rq_value (uclamps (clamps (rqs m' c)) i)" if "c < ncpus S" "t \<in> ?A c" for c i t
    using clamped_value(1) [OF cl(1) n cl(2) that(2)] that(1) by simp
  show ?thesis using m'(1) cl(3) count atmost by (intro exI [of _ m']) simp
qed

theorem machine_clamps_witness:
  "\<exists>m'. mrun list_system sample_run rest_machine = Inr m' \<and> \<not> uclamp_warned (clamps (rqs m' 1))"
  using machine_clamps [OF list_system_ok rest_machine_rests sample_may] by (auto simp: list_system_def)

end
