(* ===== verification/Sched_Core_Tasks.thy ===== *)
theory Sched_Core_Tasks
  imports Sched_Core_Props
begin

unbundle bit_operations_syntax

text \<open>
  The life of a task on the machine: the CPU time it is charged and reported, its wake-ups, and its turn.
\<close>

section \<open>CPU time over a run\<close>

text \<open>What the clocks of the CPUs that run \<open>t\<close> advance in a run.\<close>

fun run_time :: "'q system \<Rightarrow> mop list \<Rightarrow> 'q machine \<Rightarrow> nat \<Rightarrow> u64" where
  "run_time S [] m t = 0"
| "run_time S (x # xs) m t =
     (case mstep S x m of Inl e \<Rightarrow> 0 | Inr m' \<Rightarrow> passed (ncpus S) m m' t + run_time S xs m' t)"

definition forks_not :: "nat \<Rightarrow> mop list \<Rightarrow> bool" where
  "forks_not t xs \<longleftrightarrow> list_all (\<lambda>x. case x of Fork c u a \<Rightarrow> u \<noteq> t | _ \<Rightarrow> True) xs"

definition slot_of :: "'q system \<Rightarrow> nat \<Rightarrow> 'q machine \<Rightarrow> bool" where
  "slot_of S t m \<longleftrightarrow> info_on (kern S) \<and> t \<notin> idles (ncpus S) m"

interpretation timed: guarded_machine "mstep S" "allowed (ncpus S)" "\<lambda>m. healthy S queued owned m \<and> slot_of S t m" for S queued owned t
proof
  fix m x
  assume a: "healthy S queued owned m \<and> slot_of S t m" "allowed (ncpus S) x m"
  then obtain m' where m': "mstep S x m = Inr m'" "healthy S queued owned m'" using core.step_ok by blast
  moreover have "slot_of S t m'" using a(1) mstep_idle [OF _ _ _ a(2) m'(1)] by (auto simp: slot_of_def idles_def healthy_def)
  ultimately show "\<exists>m'. mstep S x m = Inr m' \<and> healthy S queued owned m' \<and> slot_of S t m'" by blast
qed

lemma run_time_sum:
  assumes "healthy S queued owned m" and "slot_of S t m" and "may S xs m" and "forks_not t xs" and "mrun S xs m = Inr m'"
  shows "cpu_time (ncpus S) m' t = cpu_time (ncpus S) m t + run_time S xs m t"
proof (rule timed.run_sum [where g = "\<lambda>xs m. run_time S xs m t" and X = "{x. \<forall>c a. x \<noteq> Fork c t a}"])
  show "healthy S queued owned m \<and> slot_of S t m" "may S xs m" "mrun S xs m = Inr m'" using assms by simp_all
  show "set xs \<subseteq> {x. \<forall>c a. x \<noteq> Fork c t a}" using assms(4) by (auto simp: forks_not_def list_all_iff)
  show "run_time S (x # ys) s t = cpu_time (ncpus S) s' t - cpu_time (ncpus S) s t + run_time S ys s' t"
    if "healthy S queued owned s \<and> slot_of S t s" "healthy S queued owned s' \<and> slot_of S t s'" "allowed (ncpus S) x s"
      "x \<in> {x. \<forall>c a. x \<noteq> Fork c t a}" "mstep S x s = Inr s'" for x ys s s'
    using cpu_time_step [of S queued owned s s' x t] that by (auto simp: healthy_def slot_of_def)
qed simp

lemma run_time_append:
  "mrun S xs m = Inr m' \<Longrightarrow> run_time S (xs @ ys) m t = run_time S xs m t + run_time S ys m' t"
  by (induction xs arbitrary: m) (auto simp: bindR_Inr_iff)

lemma may_split: "may_run step ok (xs @ ys) s \<Longrightarrow> run_ops step xs s = Inr s' \<Longrightarrow> may_run step ok ys s'"
  by (induction xs arbitrary: s) (auto simp: bindR_Inr_iff)

lemma may_prefix: "may_run step ok (xs @ ys) s \<Longrightarrow> may_run step ok xs s"
  by (induction xs arbitrary: s) (auto split: sum.splits)

text \<open>A child of the CFS kernel starts with no time.\<close>

lemma load_sched: "set_load_weight k b p = Inr q \<Longrightarrow> sched q = sched p"
  by (auto simp: set_load_weight_def bindR_Inr_iff Let_def split: if_splits)

lemma fork_no_time:
  assumes "healthy S queued owned m" and "fork_sched S = cfs_sched_fork" and "allowed (ncpus S) (Fork c t a) m" and "info_on (kern S)"
    and "mstep S (Fork c t a) m = Inr m'"
  shows "cpu_time (ncpus S) m' t = 0" "slot_of S t m'"
proof -
  have sh: "shape (ncpus S) {} m" using assms(1) by (simp add: healthy_def steady_def machine_inv_def)
  have t: "t \<notin> currs (ncpus S) m" "t \<notin> idles (ncpus S) m" using not_current [OF sh, of t] assms(3) by (auto simp: unborn_def)
  obtain p where p: "fork_child S c a m = Inr p" "m' = upd_tk t (\<lambda>x. p) m" using assms(5) by (auto simp: bindR_Inr_iff)
  then have m': "rqs m' = rqs m" "tk m' t = p" by (simp_all add: upd_tk_def)
  have "accumulated_cputime (snd (cfs_sched_fork h on cu p)) = 0" for h on cu p
    by (simp add: cfs_sched_fork_def fork_class_def fork_reset_def Let_def)
  moreover have "\<exists>h on cu x. sched p = snd (cfs_sched_fork h on cu x)" using p(1)
    by (auto simp: fork_child_def fork_task_def assms(2) Let_def bindR_Inr_iff dest!: load_sched split: prod.splits if_splits) (metis snd_conv)+
  ultimately have acc: "accumulated_cputime (sched p) = 0" by auto
  have none: "rq_curr (rqs m c) \<noteq> t" if "c < ncpus S" for c using t(1) that by (auto simp: currs_def)
  show "cpu_time (ncpus S) m' t = 0" unfolding cpu_time_def m' acc by (simp add: none)
  show "slot_of S t m'" using t(2) assms(4) by (simp add: slot_of_def idles_def m'(1))
qed

section \<open>The report of a task that ends\<close>

lemma printed_block:
  assumes "schedule_block k c p False False m = Inr m'"
  shows "printed m' = printed m" "state (sched (tk m' p)) = state (sched (tk m p))"
  using assms
  by (auto simp: schedule_block_def deactivate_task_def dequeue_task_def update_rq_clock_eq bindR_Inr_iff Let_def upd_tk_def upd_rq_def
      case_prod_beta split: if_splits)

lemma printed_mm: "switch_mm c prev nx m = Inr m' \<Longrightarrow> printed m' = printed m"
  by (auto simp: switch_mm_def mmgrab_def upd_tk_def upd_rq_def Let_def split: if_splits option.splits)

lemma switch_printed:
  assumes "schedule_switch k rp c prev nx vol m = Inr m'" and "prev \<noteq> nx" and "state (sched (tk m prev)) = TASK_DEAD"
  shows "printed m' = printed m @ rp (int prev) TASK_DEAD (sched (tk m' prev))"
proof -
  let ?m1 = "upd_rq c (\<lambda>r. r\<lparr>nr_switches := nr_switches r + 1, rq_curr := nx\<rparr>) m"
  let ?m2 = "upd_tk prev (\<lambda>p. if vol then p\<lparr>nvcsw := nvcsw p + 1\<rparr> else p\<lparr>nivcsw := nivcsw p + 1\<rparr>) ?m1"
  obtain a b where "context_switch k rp c prev nx (upd_tk nx (\<lambda>p. p\<lparr>psi := b\<rparr>) (upd_tk prev (\<lambda>p. p\<lparr>psi := a\<rparr>) ?m2)) = Inr m'"
    using assms(1) unfolding schedule_switch_def Let_def by (auto split: prod.splits)
  moreover define X where "X = upd_tk nx (\<lambda>p. p\<lparr>psi := b\<rparr>) (upd_tk prev (\<lambda>p. p\<lparr>psi := a\<rparr>) ?m2)"
  ultimately obtain m3 where m3: "switch_mm c prev nx (prepare_task_switch k c prev nx X) = Inr m3"
      "m' = finish_task_switch k rp c prev (clear_skip k c m3)"
    by (auto simp: context_switch_def bindR_Inr_iff)
  have "state (sched (tk X prev)) = TASK_DEAD" "printed X = printed m"
    using assms(2,3) by (auto simp: X_def upd_tk_def upd_rq_def)
  then have st: "state (sched (tk m3 prev)) = TASK_DEAD" "printed m3 = printed m"
    using same_fields(4) [OF m3(1)] printed_mm [OF m3(1)] by (simp_all add: prepare_task_switch_def upd_rq_def case_prod_beta)
  show ?thesis unfolding m3(2) finish_fields
    by (simp add: finish_task_switch_def clear_skip_def upd_rq_def mmdrop_def st Let_def split: option.split)
qed

lemma dead_printed:
  assumes "do_task_dead k rp c m = Inr m'"
  shows "printed m' = printed m @ rp (int (rq_curr (rqs m c))) TASK_DEAD (sched (tk m' (rq_curr (rqs m c))))"
    "rq_curr (rqs m' c) \<noteq> rq_curr (rqs m c)"
proof -
  let ?t = "rq_curr (rqs m c)"
  define m0 where "m0 = upd_tk ?t (\<lambda>p. p\<lparr>nofreeze := True\<rparr>) (set_state ?t TASK_DEAD m)"
  define m1 where "m1 = update_rq_clock k c (upd_rq c (\<lambda>r. r\<lparr>clock_update_flags := push_bit 1 (clock_update_flags r)\<rparr>) m0)"
  have r: "schedule_cpu k rp c False False m0 = Inr m'" and n: "rq_curr (rqs m' c) \<noteq> ?t"
    using assms by (auto simp: do_task_dead_def m0_def bindR_Inr_iff Let_def split: if_splits)
  show "rq_curr (rqs m' c) \<noteq> ?t" by (rule n)
  have 1: "printed m1 = printed m" "state (sched (tk m1 ?t)) = TASK_DEAD" "rq_curr (rqs m0 c) = ?t"
    by (simp_all add: m1_def m0_def set_state_def update_rq_clock_eq upd_rq_def upd_tk_def)
  obtain m2 q nx where m2: "schedule_block k c ?t False False m1 = Inr m2"
      "(if ?t \<noteq> nx then schedule_switch k rp c ?t nx (\<not> False \<and> state (sched (tk m1 ?t)) \<noteq> 0)
          (upd_tk ?t (\<lambda>p. p\<lparr>need_resched := False\<rparr>) (upd_rq c (\<lambda>r. r\<lparr>classq := q\<rparr>) m2))
        else Inr (clear_skip k c (upd_tk ?t (\<lambda>p. p\<lparr>need_resched := False\<rparr>) (upd_rq c (\<lambda>r. r\<lparr>classq := q\<rparr>) m2)))) = Inr m'"
    using r unfolding schedule_cpu_def Let_def m1_def [symmetric] 1(3) by (auto simp: bindR_Inr_iff)
  have cu: "rq_curr (rqs m2 c) = ?t" using time.kept_block [OF m2(1)] by (simp add: same_view_def m1_def m0_def set_state_def update_rq_clock_eq upd_rq_def upd_tk_def)
  have d: "?t \<noteq> nx" using m2(2) n cu by (auto simp: clear_skip_def upd_rq_def upd_tk_def)
  let ?m3 = "upd_tk ?t (\<lambda>p. p\<lparr>need_resched := False\<rparr>) (upd_rq c (\<lambda>r. r\<lparr>classq := q\<rparr>) m2)"
  have "printed ?m3 = printed m" "state (sched (tk ?m3 ?t)) = TASK_DEAD"
    using printed_block [OF m2(1)] 1 by (simp_all add: upd_tk_def upd_rq_def)
  then show "printed m' = printed m @ rp (int ?t) TASK_DEAD (sched (tk m' ?t))"
    using switch_printed [of k rp c ?t nx _ ?m3 m'] m2(2) d by auto
qed


text \<open>
  C29. A task is charged for the time it runs, on all CPUs: from its fork by the CFS kernel on, through any run of
  the machine that does not reuse its slot, the accumulated CPU time of a task together with what has
  passed since it took the CPU it runs on is exactly what the clocks of the CPUs advanced while it
  was their current task, whatever wake-ups, migrations and preemptions there were.
\<close>

theorem machine_cpu_time:
  assumes "system_ok S queued" and "at_rest S queued owned m" and "fork_sched S = cfs_sched_fork" and "info_on (kern S)"
    and "may S (xs @ Fork c t a # ys) m" and "forks_not t ys"
  shows "\<exists>m1 m2. mrun S (xs @ [Fork c t a]) m = Inr m1 \<and> mrun S ys m1 = Inr m2
    \<and> accumulated_cputime (sched (tk m2 t)) +
        (\<Sum>d < ncpus S. if rq_curr (rqs m2 d) = t then clock (acct (rqs m2 d)) - last_arrival (info (sched (tk m2 t))) else 0)
      = run_time S ys m1 t"
proof -
  have h: "healthy S queued owned m" by (rule at_rest_healthy [OF assms(1,2)])
  obtain m0 where m0: "mrun S xs m = Inr m0" "healthy S queued owned m0" using core.run_ok [OF h may_prefix [OF assms(5)]] by blast
  have ok: "may S (Fork c t a # ys) m0" by (rule may_split [OF assms(5) m0(1)])
  then obtain m1 where m1: "mstep S (Fork c t a) m0 = Inr m1" "healthy S queued owned m1" "may S ys m1" using core.first_ok [OF m0(2) ok] by blast
  have z: "cpu_time (ncpus S) m1 t = 0" "slot_of S t m1" using fork_no_time [OF m0(2) assms(3) _ assms(4) m1(1)] ok by simp_all
  obtain m2 where m2: "mrun S ys m1 = Inr m2" using core.run_ok [OF m1(2,3)] by blast
  have "mrun S (xs @ [Fork c t a]) m = Inr m1" unfolding run_append m0(1) using m1(1) by simp
  moreover have "cpu_time (ncpus S) m2 t = run_time S ys m1 t" using run_time_sum [OF m1(2) z(2) m1(3) assms(6) m2] z(1) by simp
  ultimately show ?thesis using m2 unfolding cpu_time_def by blast
qed

definition then_steps :: "mop list" where
  "then_steps = [WakeNew 2 0, Schedule 0 True False, Elapse 0 500, IoWait 0 True, SetState 0 2, Schedule 0 False False, WakeUp 1 2 3 0 1, Pending 1]"

lemma sample_split: "sample_run = [] @ Fork 0 2 (Some 7) # then_steps"
  by (simp add: sample_run_def first_steps_def then_steps_def)

theorem machine_cpu_time_witness:
  "\<exists>m1 m2. mrun list_system [Fork 0 2 (Some 7)] rest_machine = Inr m1 \<and> mrun list_system then_steps m1 = Inr m2
    \<and> accumulated_cputime (sched (tk m2 2)) +
        (\<Sum>d < 2. if rq_curr (rqs m2 d) = 2 then clock (acct (rqs m2 d)) - last_arrival (info (sched (tk m2 2))) else 0)
      = run_time list_system then_steps m1 2"
  using machine_cpu_time [OF list_system_ok rest_machine_rests _ _ sample_may [unfolded sample_split]]
  by (simp add: list_system_def list_kernel_def forks_not_def then_steps_def)

text \<open>
  C31. What the CFS kernel reports of a task that ends is the time it ran, from fork to end and on all CPUs: a task
  that was forked and runs when it ends adds the one line with its number and the time the clocks of its
  CPUs advanced while it was current, and leaves its CPU for good.
\<close>

theorem machine_burst_reported:
  assumes "system_ok S queued" and "at_rest S queued owned m" and "fork_sched S = cfs_sched_fork" and "info_on (kern S)"
    and "report S = burst_report" and "may S (xs @ Fork c t a # ys @ [Dead d]) m" and "forks_not t ys"
    and "mrun S (xs @ Fork c t a # ys) m = Inr m2" and "rq_curr (rqs m2 d) = t"
  shows "\<exists>m1 m3. mrun S (xs @ [Fork c t a]) m = Inr m1 \<and> mstep S (Dead d) m2 = Inr m3 \<and> rq_curr (rqs m3 d) \<noteq> t
    \<and> printed m3 = printed m2 @ [''[PID '' @ show_int (int t) @ ''] CPU burst time : ''
        @ show_int (uint (run_time S (ys @ [Dead d]) m1 t)) @ '' ns'' @ nl]"
proof -
  have h: "healthy S queued owned m" by (rule at_rest_healthy [OF assms(1,2)])
  have all: "may S ((xs @ Fork c t a # ys) @ [Dead d]) m" using assms(6) by simp
  from assms(8) obtain m0 m1 where m0: "mrun S xs m = Inr m0" and m1: "mstep S (Fork c t a) m0 = Inr m1" and m2: "mrun S ys m1 = Inr m2"
    unfolding run_append run_ops.simps by (auto simp: bindR_Inr_iff simp del: mstep.simps)
  have h0: "healthy S queued owned m0" using core.run_ok [OF h may_prefix [OF assms(6)]] m0 by simp
  have ok: "may S (Fork c t a # ys @ [Dead d]) m0" by (rule may_split [OF assms(6) m0])
  have h1: "healthy S queued owned m1" and ok1: "may S (ys @ [Dead d]) m1" using core.first_ok [OF h0 ok] m1 by simp_all
  have z: "cpu_time (ncpus S) m1 t = 0" "slot_of S t m1" using fork_no_time [OF h0 assms(3) _ assms(4) m1] ok by simp_all
  have h2: "healthy S queued owned m2" using core.run_ok [OF h1 may_prefix [OF ok1]] m2 by simp
  have dd: "allowed (ncpus S) (Dead d) m2" using may_split [OF ok1 m2] by simp
  obtain m3 where m3: "mstep S (Dead d) m2 = Inr m3" "healthy S queued owned m3" using core.step_ok [OF h2 dd] by blast
  have run: "mrun S (ys @ [Dead d]) m1 = Inr m3" unfolding run_append m2 using m3(1) by simp
  have time: "cpu_time (ncpus S) m3 t = run_time S (ys @ [Dead d]) m1 t"
    using run_time_sum [OF h1 z(2) ok1 _ run] z(1) assms(7) by (simp add: forks_not_def)
  have pr: "printed m3 = printed m2 @ burst_report (int t) TASK_DEAD (sched (tk m3 t))" "rq_curr (rqs m3 d) \<noteq> t"
    using dead_printed [of "kern S" "report S" d m2 m3] m3(1) assms(5,9) by simp_all
  have "rq_curr (rqs m3 x) \<noteq> t" if "x < ncpus S" for x
  proof (cases "x = d")
    case False
    have "rq_curr (rqs m2 x) \<noteq> t" using currs_inj [of "ncpus S" "{}" m2 x d] that False h2 dd assms(9)
      by (auto simp: healthy_def steady_def machine_inv_def busy_def)
    moreover have "rq_curr (rqs m3 x) = rq_curr (rqs m2 x)"
      using m3(1) schedule_others [OF assms(4) _ False] by (auto simp: do_task_dead_def Let_def bindR_Inr_iff set_state_def upd_tk_def split: if_splits)
    ultimately show ?thesis by simp
  qed (use pr(2) in simp)
  then have "accumulated_cputime (sched (tk m3 t)) = run_time S (ys @ [Dead d]) m1 t" using time by (simp add: cpu_time_def)
  moreover have "mrun S (xs @ [Fork c t a]) m = Inr m1" unfolding run_append m0 using m1 by simp
  ultimately show ?thesis using m3(1) pr by (intro exI [of _ m1] exI [of _ m3]) (simp add: burst_report_def)
qed


theorem machine_burst_reported_witness:
  "\<exists>m1 m2 m3 x. mrun list_system [Fork 0 2 (Some 7), WakeNew 2 0, Schedule 0 True False] rest_machine = Inr m2
    \<and> mstep list_system (Dead 0) m2 = Inr m3 \<and> printed m3 = printed m2 @ [''[PID 2] CPU burst time : '' @ show_int (uint x) @ '' ns'' @ nl]
    \<and> x = run_time list_system [WakeNew 2 0, Schedule 0 True False, Dead 0] m1 2"
proof -
  obtain m2 where m2: "mrun list_system first_steps rest_machine = Inr m2" "may list_system first_steps rest_machine"
      "rq_curr (rqs m2 0) = 2" "idles 2 m2 = {0, 1}"
    using first_steps_run by blast
  have "may list_system [Dead 0] m2" using m2(3,4) by (simp add: list_system_def busy_def split: sum.split)
  from may_append [OF m2(1,2) this]
  have may: "may list_system ([] @ Fork 0 2 (Some 7) # [WakeNew 2 0, Schedule 0 True False] @ [Dead 0]) rest_machine"
    by (simp add: first_steps_def)
  have run: "mrun list_system ([] @ Fork 0 2 (Some 7) # [WakeNew 2 0, Schedule 0 True False]) rest_machine = Inr m2"
    using m2(1) by (simp add: first_steps_def)
  have k: "fork_sched list_system = cfs_sched_fork" "info_on (kern list_system)" "report list_system = burst_report"
    "forks_not 2 [WakeNew 2 0, Schedule 0 True False]"
    by (simp_all add: list_system_def list_kernel_def forks_not_def)
  have two: "show_int 2 = ''2''" by code_simp
  from machine_burst_reported [OF list_system_ok rest_machine_rests k(1,2,3) may k(4) run m2(3)]
  obtain m1 m3 where "mstep list_system (Dead 0) m2 = Inr m3"
    "printed m3 = printed m2 @ [''[PID 2] CPU burst time : '' @ show_int (uint (run_time list_system ([WakeNew 2 0, Schedule 0 True False] @ [Dead 0]) m1 2)) @ '' ns'' @ nl]"
    by (auto simp: two simp del: mstep.simps run_time.simps)
  then show ?thesis using run by (intro exI conjI) simp_all
qed

section \<open>Wake-ups\<close>

text \<open>A task that is awake on CPU \<open>d\<close>: queued there and running.\<close>

definition awake_on :: "'q machine \<Rightarrow> nat \<Rightarrow> nat \<Rightarrow> bool" where
  "awake_on m t d \<longleftrightarrow> on_rq (tk m t) = OnRqQueued \<and> state (sched (tk m t)) = TASK_RUNNING \<and> task_cpu (tk m t) = d"

lemma enqueue_keeps:
  assumes "enqueue_task k c t f m = Inr m'"
  shows "on_rq (tk m' x) = on_rq (tk m x)" "state (sched (tk m' x)) = state (sched (tk m x))" "task_cpu (tk m' x) = task_cpu (tk m x)"
    "wake_list (rqs m' d) = wake_list (rqs m d)"
  using assms by (auto simp: enqueue_task_def update_rq_clock_eq upd_tk_def upd_rq_def Let_def bindR_Inr_iff split: if_splits)

lemma do_wakeup_keeps:
  "on_rq (tk (ttwu_do_wakeup k c t f m) x) = on_rq (tk m x)" "task_cpu (tk (ttwu_do_wakeup k c t f m) x) = task_cpu (tk m x)"
  "state (sched (tk (ttwu_do_wakeup k c t f m) x)) = (if x = t then TASK_RUNNING else state (sched (tk m x)))"
  by (auto simp: ttwu_do_wakeup_def idle_average_def task_woken_def set_state_def check_preempt_curr_def resched_curr_def upd_tk_def upd_rq_def Let_def)

lemma do_activate_awake:
  assumes "ttwu_do_activate k c t f m = Inr m'"
  shows "task_cpu (tk m t) = c \<Longrightarrow> awake_on m' t c" "x \<noteq> t \<Longrightarrow> awake_on m x d \<Longrightarrow> awake_on m' x d"
proof -
  let ?m1 = "if sched_contributes_to_load (tk m t) then upd_rq c (\<lambda>r. r\<lparr>nr_uninterruptible := nr_uninterruptible r - 1\<rparr>) m else m"
  let ?m2 = "if \<not> f AND WF_MIGRATED k \<noteq> 0 \<and> in_iowait (psi (tk ?m1 t))
    then upd_rq (task_cpu (tk ?m1 t)) (\<lambda>r. r\<lparr>nr_iowait := nr_iowait r - 1\<rparr>) ?m1 else ?m1"
  obtain g m3 where m3: "enqueue_task k c t g ?m2 = Inr m3" "m' = ttwu_do_wakeup k c t f (upd_tk t (\<lambda>p. p\<lparr>on_rq := OnRqQueued\<rparr>) m3)"
    using assms unfolding ttwu_do_activate_def activate_task_def Let_def by (auto simp: bindR_Inr_iff)
  have tk: "tk ?m2 = tk m" by (simp add: upd_rq_def)
  show "task_cpu (tk m t) = c \<Longrightarrow> awake_on m' t c" "x \<noteq> t \<Longrightarrow> awake_on m x d \<Longrightarrow> awake_on m' x d"
    using enqueue_keeps [OF m3(1)] unfolding m3(2) awake_on_def do_wakeup_keeps tk by (simp_all add: upd_tk_def)
qed

lemma activate_all_awake:
  assumes "activate_all k c ts m = Inr m'"
  shows "t \<in> set ts \<or> awake_on m t c \<Longrightarrow> awake_on m' t c"
  using assms
proof (induction ts arbitrary: m)
  case (Cons u ts)
  let ?m = "if task_cpu (tk m u) \<noteq> c then set_task_cpu k u c m else m"
  obtain g m2 where r: "ttwu_do_activate k c u g ?m = Inr m2" "activate_all k c ts m2 = Inr m'"
    using Cons.prems(2) by (simp only: activate_all.simps Let_def bindR_Inr_iff) blast
  have u: "task_cpu (tk ?m u) = c" "x \<noteq> u \<Longrightarrow> tk ?m x = tk m x" for x by (auto simp: set_task_cpu_def upd_tk_def upd_rq_def Let_def)
  have "t \<in> set ts \<or> awake_on m2 t c"
  proof (cases "t = u")
    case True
    with do_activate_awake(1) [OF r(1) u(1)] show ?thesis by simp
  next
    case False
    then have "awake_on m t c \<Longrightarrow> awake_on ?m t c" by (simp only: awake_on_def u(2) [OF False])
    with do_activate_awake(2) [OF r(1) False] Cons.prems(1) False show ?thesis by auto
  qed
  with Cons.IH r(2) show ?case by blast
qed simp


lemma pending_awake:
  assumes "sched_ttwu_pending k d m = Inr m'" and "t \<in> set (wake_list (rqs m d)) \<or> awake_on m t d"
  shows "awake_on m' t d"
proof (cases "wake_list (rqs m d) = []")
  case True
  with assms show ?thesis by (auto simp: sched_ttwu_pending_def Let_def)
next
  case False
  let ?m = "update_rq_clock k d (upd_rq d (\<lambda>r. r\<lparr>ttwu_pending := False, wake_list := []\<rparr>) m)"
  have "awake_on ?m t d = awake_on m t d" by (simp add: awake_on_def update_rq_clock_eq upd_rq_def)
  moreover have "activate_all k d (wake_list (rqs m d)) ?m = Inr m'" using assms(1) False by (simp add: sched_ttwu_pending_def Let_def)
  ultimately show ?thesis using activate_all_awake assms(2) by blast
qed

lemma ttwu_queue_awake:
  assumes "ttwu_queue k this t d f m = Inr m'" and "task_cpu (tk m t) = d"
  shows "t \<in> set (wake_list (rqs m' d)) \<or> awake_on m' t d"
proof (cases "fst (ttwu_queue_wakelist k this t d f m)")
  case True
  with assms(1) show ?thesis by (auto simp: ttwu_queue_def ttwu_queue_wakelist_def queue_wakelist_def upd_rq_def upd_tk_def split: if_splits)
next
  case False
  with assms(1) have "ttwu_do_activate k d t f (update_rq_clock k d m) = Inr m'"
    by (auto simp: ttwu_queue_def ttwu_queue_wakelist_def split: if_splits)
  from do_activate_awake(1) [OF this] assms(2) show ?thesis by (simp add: update_rq_clock_eq)
qed

lemma wake_up_awake:
  assumes "try_to_wake_up k this t states f d m = Inr (b, m')" and "on_rq (tk m t) = NotQueued" and "t \<noteq> rq_curr (rqs m this)"
    and "state (sched (tk m t)) AND states \<noteq> 0"
  shows "t \<in> set (wake_list (rqs m' d)) \<or> awake_on m' t d"
proof -
  let ?m2 = "set_state t TASK_WAKING m"
  let ?m' = "if in_iowait (psi (tk ?m2 t)) then upd_rq (task_cpu (tk ?m2 t)) (\<lambda>r. r\<lparr>nr_iowait := nr_iowait r - 1\<rparr>) ?m2 else ?m2"
  let ?m3 = "if task_cpu (tk ?m2 t) \<noteq> d then set_task_cpu k t d (upd_tk t (\<lambda>p. p\<lparr>psi := psi_ttwu_dequeue (psik k) (psi p)\<rparr>) ?m') else ?m2"
  have "\<exists>g. ttwu_queue k this t d g ?m3 = Inr m'"
    using assms unfolding try_to_wake_up_def Let_def by (auto simp: bindR_Inr_iff split: if_splits)
  moreover have "task_cpu (tk ?m3 t) = d" by (auto simp: set_task_cpu_def upd_tk_def Let_def)
  ultimately show ?thesis using ttwu_queue_awake by blast
qed

text \<open>
  C30. No wake-up is lost: at any moment of any run, a sleeping task that is woken up in a state that is waited
  for is, once the CPU it was sent to has handled its wake list, queued and running on that CPU, whether
  it was woken up directly or through that list; a wake-up for other states changes nothing.
\<close>

theorem wakeup_not_lost:
  assumes "system_ok S queued" and "at_rest S queued owned m" and "may S (xs @ [WakeUp this t states fg d, Pending d]) m"
    and "mrun S xs m = Inr m1" and "on_rq (tk m1 t) = NotQueued"
  shows "\<exists>m2. mrun S [WakeUp this t states fg d, Pending d] m1 = Inr m2
    \<and> (if state (sched (tk m1 t)) AND states \<noteq> 0 then awake_on m2 t d else mstep S (WakeUp this t states fg d) m1 = Inr m1)"
proof -
  have h: "healthy S queued owned m" by (rule at_rest_healthy [OF assms(1,2)])
  have h1: "healthy S queued owned m1" using core.run_ok [OF h may_prefix [OF assms(3)]] assms(4) by simp
  note ok = may_split [OF assms(3,4)]
  obtain m2 where m2: "mstep S (WakeUp this t states fg d) m1 = Inr m2" "healthy S queued owned m2" "may S [Pending d] m2" "this < ncpus S"
    using core.first_ok [OF h1 ok] by auto
  obtain m3 where m3: "mstep S (Pending d) m2 = Inr m3" using core.first_ok [OF m2(2,3)] by blast
  have cur: "t \<noteq> rq_curr (rqs m1 this)" using h1 m2(4) not_current [of "ncpus S" "{}" m1 t] assms(5)
    by (auto simp: healthy_def steady_def machine_inv_def currs_def)
  have run: "mrun S [WakeUp this t states fg d, Pending d] m1 = Inr m3" using m2(1) m3 by simp
  show ?thesis
  proof (cases "state (sched (tk m1 t)) AND states = 0")
    case True
    then have "mstep S (WakeUp this t states fg d) m1 = Inr m1" using cur by (simp add: try_to_wake_up_def)
    with True run show ?thesis by (intro exI [of _ m3]) (simp del: mstep.simps)
  next
    case False
    obtain b where "try_to_wake_up (kern S) this t states fg d m1 = Inr (b, m2)" using m2(1) by (auto simp: bindR_Inr_iff)
    from pending_awake [OF _ wake_up_awake [OF this assms(5) cur False]] m3 have "awake_on m3 t d" by simp
    with False run show ?thesis by (intro exI [of _ m3]) simp
  qed
qed

text \<open>A task that calls the scheduler with another state than running is off its queue afterwards.\<close>

lemma switch_keeps:
  assumes "schedule_switch k rp c prev nx vol m = Inr m'"
  shows "on_rq (tk m' t) = on_rq (tk m t)" "state (sched (tk m' t)) = state (sched (tk m t))"
proof -
  let ?m1 = "upd_rq c (\<lambda>r. r\<lparr>nr_switches := nr_switches r + 1, rq_curr := nx\<rparr>) m"
  let ?m2 = "upd_tk prev (\<lambda>p. if vol then p\<lparr>nvcsw := nvcsw p + 1\<rparr> else p\<lparr>nivcsw := nivcsw p + 1\<rparr>) ?m1"
  obtain a b where "context_switch k rp c prev nx (upd_tk nx (\<lambda>p. p\<lparr>psi := b\<rparr>) (upd_tk prev (\<lambda>p. p\<lparr>psi := a\<rparr>) ?m2)) = Inr m'"
    using assms(1) unfolding schedule_switch_def Let_def by (auto split: prod.splits)
  moreover define X where "X = upd_tk nx (\<lambda>p. p\<lparr>psi := b\<rparr>) (upd_tk prev (\<lambda>p. p\<lparr>psi := a\<rparr>) ?m2)"
  ultimately obtain m3 where m3: "switch_mm c prev nx (prepare_task_switch k c prev nx X) = Inr m3"
      "m' = finish_task_switch k rp c prev (clear_skip k c m3)"
    by (auto simp: context_switch_def bindR_Inr_iff)
  have "on_rq (tk X t) = on_rq (tk m t)" "state (sched (tk X t)) = state (sched (tk m t))" by (auto simp: X_def upd_tk_def upd_rq_def)
  moreover have "on_rq (tk m3 t) = on_rq (tk X t)" "state (sched (tk m3 t)) = state (sched (tk X t))"
    using m3(1) by (auto simp: switch_mm_def mmgrab_def upd_tk_def upd_rq_def Let_def prepare_task_switch_def case_prod_beta
        split: if_splits option.splits)
  ultimately show "on_rq (tk m' t) = on_rq (tk m t)" "state (sched (tk m' t)) = state (sched (tk m t))"
    unfolding m3(2) by (auto simp: finish_task_switch_def clear_skip_def mmdrop_def upd_rq_def Let_def split: option.splits)
qed

lemma schedule_sleeps:
  assumes "flags_contract k" and "schedule_cpu k rp c False False m = Inr m'" and "state (sched (tk m (rq_curr (rqs m c)))) \<noteq> 0"
  shows "on_rq (tk m' (rq_curr (rqs m c))) = NotQueued" "state (sched (tk m' (rq_curr (rqs m c)))) = state (sched (tk m (rq_curr (rqs m c))))"
proof -
  let ?t = "rq_curr (rqs m c)"
  define m1 where "m1 = update_rq_clock k c (upd_rq c (\<lambda>r. r\<lparr>clock_update_flags := push_bit 1 (clock_update_flags r)\<rparr>) m)"
  obtain m2 q nx where m2: "schedule_block k c ?t False False m1 = Inr m2"
      "(if ?t \<noteq> nx then schedule_switch k rp c ?t nx (\<not> False \<and> state (sched (tk m1 ?t)) \<noteq> 0)
          (upd_tk ?t (\<lambda>p. p\<lparr>need_resched := False\<rparr>) (upd_rq c (\<lambda>r. r\<lparr>classq := q\<rparr>) m2))
        else Inr (clear_skip k c (upd_tk ?t (\<lambda>p. p\<lparr>need_resched := False\<rparr>) (upd_rq c (\<lambda>r. r\<lparr>classq := q\<rparr>) m2)))) = Inr m'"
    using assms(2) unfolding schedule_cpu_def Let_def m1_def [symmetric] by (auto simp: bindR_Inr_iff)
  have "tk m1 = tk m" by (simp add: m1_def update_rq_clock_eq upd_rq_def)
  moreover have "(DEQUEUE_SLEEP k OR DEQUEUE_NOCLOCK k) AND DEQUEUE_SLEEP k \<noteq> 0" using assms(1) by (simp add: flags_contract_def)
  ultimately have b: "on_rq (tk m2 ?t) = NotQueued" "state (sched (tk m2 ?t)) = state (sched (tk m ?t))"
    using m2(1) assms(3) printed_block(2) [OF m2(1)]
    by (auto simp: schedule_block_def deactivate_task_def dequeue_task_def update_rq_clock_eq bindR_Inr_iff Let_def upd_tk_def upd_rq_def
        case_prod_beta split: if_splits)
  let ?m3 = "upd_tk ?t (\<lambda>p. p\<lparr>need_resched := False\<rparr>) (upd_rq c (\<lambda>r. r\<lparr>classq := q\<rparr>) m2)"
  have e: "on_rq (tk ?m3 ?t) = NotQueued" "state (sched (tk ?m3 ?t)) = state (sched (tk m ?t))" using b by (simp_all add: upd_tk_def upd_rq_def)
  show "on_rq (tk m' ?t) = NotQueued" "state (sched (tk m' ?t)) = state (sched (tk m ?t))"
    using m2(2) e switch_keeps [of k rp c ?t nx _ ?m3 m' ?t] by (auto simp: clear_skip_def upd_rq_def split: if_splits)
qed

text \<open>Task 2 sleeps on CPU 0 and is woken up by CPU 1 to run there.\<close>

theorem wakeup_not_lost_witness:
  "\<exists>m1 m2. mrun list_system (first_steps @ [SetState 0 2, Schedule 0 False False]) rest_machine = Inr m1
    \<and> mrun list_system [WakeUp 1 2 3 0 1, Pending 1] m1 = Inr m2 \<and> awake_on m2 2 1"
proof -
  let ?S = list_system and ?xs = "[SetState 0 2, Schedule 0 False False]"
  obtain m where m: "mrun ?S first_steps rest_machine = Inr m" "may ?S first_steps rest_machine" "rq_curr (rqs m 0) = 2" "idles 2 m = {0, 1}"
    using first_steps_run by blast
  have k: "kern ?S = list_kernel" "ncpus ?S = 2" "flags_contract list_kernel"
    by (simp_all add: list_system_def list_kernel_def flags_contract_def)
  have i: "2 \<notin> (\<lambda>c. rq_idle (rqs m c)) ` {..<2}" using m(4) by (simp add: idles_def)
  have "may ?S (?xs @ [WakeUp 1 2 3 0 1, Pending 1]) m"
    using i by (simp add: k m(3) busy_def idles_def TASK_NEW_def TASK_WAKING_def split: sum.split)
  from may_append [OF m(1,2) this] have may: "may ?S ((first_steps @ ?xs) @ [WakeUp 1 2 3 0 1, Pending 1]) rest_machine" by simp
  have h: "healthy ?S on_list (\<lambda>i. if i = 0 then 1 else 0) rest_machine"
    by (rule at_rest_healthy [OF list_system_ok rest_machine_rests])
  obtain m1 where m1: "mrun ?S (first_steps @ ?xs) rest_machine = Inr m1" using core.run_ok [OF h may_prefix [OF may]] by blast
  have "schedule_cpu list_kernel (report ?S) 0 False False (set_state 2 2 m) = Inr m1"
    using m1 by (simp add: run_append m k bindR_Inr_iff)
  from schedule_sleeps [OF k(3) this] m(3) have s: "on_rq (tk m1 2) = NotQueued" "state (sched (tk m1 2)) = 2"
    by (simp_all add: set_state_def upd_tk_def)
  from wakeup_not_lost [OF list_system_ok rest_machine_rests may m1 s(1)] s(2) m1 show ?thesis by auto
qed


section \<open>Whose turn it is\<close>

text \<open>
  What the classes promise about their tasks: \<open>members x q\<close> are those of class \<open>x\<close> on the queue. A class picks one of
  its tasks if it has any; putting back and picking change no members; the fair class gives up after
  pulling tasks of other classes, and returns nothing only when the queue is empty. The counters of the
  queue count its tasks.
\<close>

definition turn_contract :: "'q kernel \<Rightarrow> (sched_class \<Rightarrow> 'q \<Rightarrow> nat set) \<Rightarrow> bool" where
  "turn_contract k members \<longleftrightarrow>
     (\<forall>x y q t. members y (cl_put_prev k x q t) = members y q) \<and>
     (\<forall>x y q i. members y (fst (cl_pick k x q i)) = members y q) \<and>
     (\<forall>q i. snd (cl_pick k Idle q i) = Some i) \<and>
     (\<forall>x q i. x \<noteq> Idle \<longrightarrow> (case snd (cl_pick k x q i) of None \<Rightarrow> members x q = {} | Some t \<Rightarrow> t \<in> members x q)) \<and>
     (\<forall>q p. case cl_pick_fair k q p of (q1, RetryTask) \<Rightarrow> True | (q1, NoTask) \<Rightarrow> nr_running k q1 = 0
        | (q1, Picked t) \<Rightarrow> t \<in> members Fair q1 \<and> (nr_running k q = h_nr_running k q \<longrightarrow> nr_running k q1 = h_nr_running k q1)) \<and>
     (\<forall>x q. finite (members x q)) \<and> (\<forall>q. h_nr_running k q = card (members Fair q)) \<and>
     (\<forall>q. nr_running k q = card (members Fair q) + card (members Rt q) + card (members Dl q) + card (members Stop q))"

definition is_turn :: "(sched_class \<Rightarrow> 'q \<Rightarrow> nat set) \<Rightarrow> nat \<Rightarrow> 'q \<Rightarrow> nat \<Rightarrow> bool" where
  "is_turn members i q t \<longleftrightarrow>
     (\<exists>x. x \<noteq> Idle \<and> t \<in> members x q \<and> (\<forall>y. x < y \<longrightarrow> members y q = {})) \<or> (t = i \<and> (\<forall>y. y \<noteq> Idle \<longrightarrow> members y q = {}))"

lemma class_cases: "(\<forall>x :: sched_class. P x) \<longleftrightarrow> P Idle \<and> P Fair \<and> P Rt \<and> P Dl \<and> P Stop"
  by (metis sched_class.exhaust)

lemma class_less [simp]:
  "x < y \<longleftrightarrow> class_rank x < class_rank y" "x \<le> y \<longleftrightarrow> class_rank x \<le> class_rank y" for x y :: sched_class
  by (simp_all add: less_sched_class_def less_eq_sched_class_def)

lemma pick_class_turn:
  assumes con: "turn_contract k members" and "\<forall>y. y \<noteq> Idle \<and> y \<notin> set xs \<longrightarrow> members y q = {}"
    and "sorted_wrt (\<lambda>x y. y < x) xs" and "Idle \<in> set xs" and "pick_class k xs i q = Inr (q', t)"
  shows "is_turn members i q' t"
  using assms(2-5)
proof (induction xs arbitrary: q)
  case (Cons x xs)
  obtain q1 r where p: "cl_pick k x q i = (q1, r)" by (cases "cl_pick k x q i")
  have "members y (fst (cl_pick k x q i)) = members y q" for y using con by (simp add: turn_contract_def)
  then have q1: "members y q1 = members y q" for y by (simp add: p)
  have idle: "r = Some i" if "x = Idle" using con that p unfolding turn_contract_def by (metis snd_conv)
  have own: "case r of None \<Rightarrow> members x q = {} | Some u \<Rightarrow> u \<in> members x q" if "x \<noteq> Idle"
    using con that p unfolding turn_contract_def by (metis snd_conv)
  show ?case
  proof (cases r)
    case None
    with idle own have x: "x \<noteq> Idle" "members x q = {}" by auto
    show ?thesis
      by (rule Cons.IH [of q1]) (use Cons.prems x None p in \<open>auto simp: q1\<close>)
  next
    case (Some u)
    then have r: "q' = q1" "t = u" using Cons.prems(4) p by auto
    have up: "members y q1 = {}" if "x < y" "y \<noteq> Idle" for y
    proof -
      have "y \<notin> set (x # xs)" using Cons.prems(2) that(1) by auto
      with Cons.prems(1) that(2) show ?thesis by (simp add: q1)
    qed
    show ?thesis
    proof (cases "x = Idle")
      case True
      then have "\<forall>y. y \<noteq> Idle \<longrightarrow> Idle < y" by (auto simp: class_cases)
      with idle [OF True] up True Some r show ?thesis by (auto simp: is_turn_def)
    next
      case False
      then have "\<forall>y. x < y \<longrightarrow> y \<noteq> Idle" by auto
      with own [OF False] up False Some r show ?thesis by (auto simp: is_turn_def q1)
    qed
  qed
qed simp

text \<open>
  C32. The shortcut of \<open>pick_next_task\<close> is sound: whichever way it takes, the shortcut for fair tasks, the retry after
  pulling tasks or the loop over the classes, the task it returns belongs to the highest class that has a task
  on the resulting queue, and the idle task is returned only when there is none.
\<close>

theorem pick_highest_class:
  assumes "turn_contract k members" and "pick_next_task k cl prev i q = Inr (q', t)"
  shows "is_turn members i q' t"
proof -
  have slow: "is_turn members i q' t" if "pick_slow k cl prev i q0 = Inr (q', t)" for q0
  proof (rule pick_class_turn [OF assms(1)])
    show "pick_class k [Stop, Dl, Rt, Fair, Idle] i (put_prev_task_balance k cl prev q0) = Inr (q', t)" using that by (simp add: pick_slow_def)
    have "y \<in> set [Stop, Dl, Rt, Fair, Idle]" for y :: sched_class by (cases y) auto
    then show "\<forall>y. y \<noteq> Idle \<and> y \<notin> set [Stop, Dl, Rt, Fair, Idle] \<longrightarrow> members y (put_prev_task_balance k cl prev q0) = {}" by blast
  qed auto
  obtain q1 r where p: "cl_pick_fair k q prev = (q1, r)" by (cases "cl_pick_fair k q prev")
  have fin: "finite (members x q1)" for x using assms(1) by (simp add: turn_contract_def)
  have nr: "h_nr_running k q1 = card (members Fair q1)"
    "nr_running k q1 = card (members Fair q1) + card (members Rt q1) + card (members Dl q1) + card (members Stop q1)"
    using assms(1) by (simp_all add: turn_contract_def)
  have fair: "case r of RetryTask \<Rightarrow> True | NoTask \<Rightarrow> nr_running k q1 = 0
      | Picked u \<Rightarrow> u \<in> members Fair q1 \<and> (nr_running k q = h_nr_running k q \<longrightarrow> nr_running k q1 = h_nr_running k q1)"
    using assms(1) p unfolding turn_contract_def by (metis (mono_tags, lifting) case_prod_conv)
  show ?thesis
  proof (cases "cl \<le> Fair \<and> nr_running k q = h_nr_running k q")
    case fast: True
    show ?thesis
    proof (cases r)
      case RetryTask
      with slow [of q1] assms(2) fast p show ?thesis by (simp add: pick_next_task_def)
    next
      case NoTask
      let ?q = "cl_put_prev k cl q1 prev"
      have m: "members y (fst (cl_pick k Idle ?q i)) = members y q1" "snd (cl_pick k Idle ?q i) = Some i" for y
        using assms(1) by (simp_all add: turn_contract_def)
      have "members y q1 = {}" if "y \<noteq> Idle" for y using fair NoTask nr(2) fin that by (cases y) auto
      moreover have "q' = fst (cl_pick k Idle ?q i)" "t = i" using assms(2) fast p NoTask m(2)
        by (auto simp: pick_next_task_def split: prod.splits)
      ultimately show ?thesis using m(1) by (simp add: is_turn_def)
    next
      case (Picked u)
      have "members y q1 = {}" if "Fair < y" for y using fair Picked fast nr fin that by (cases y) auto
      moreover have "q' = q1" "t = u" using assms(2) fast p Picked by (auto simp: pick_next_task_def)
      ultimately show ?thesis using fair Picked unfolding is_turn_def by auto
    qed
  next
    case False
    with slow [of q] assms(2) show ?thesis unfolding pick_next_task_def by presburger
  qed
qed

definition list_members :: "sched_class \<Rightarrow> listq \<Rightarrow> nat set" where
  "list_members x q = snd ` {e \<in> set q. fst e = x}"


definition counting_kernel :: "listq kernel" where
  "counting_kernel = list_kernel\<lparr>cl_pick_fair := (\<lambda>q p. (q, case list_pick Fair q of Some t \<Rightarrow> Picked t | None \<Rightarrow> if q = [] then NoTask else RetryTask)),
     h_nr_running := (\<lambda>q. card (list_members Fair q)),
     nr_running := (\<lambda>q. card (list_members Fair q) + card (list_members Rt q) + card (list_members Dl q) + card (list_members Stop q))\<rparr>"

lemma list_pick_member: "case list_pick x q of None \<Rightarrow> list_members x q = {} | Some t \<Rightarrow> t \<in> list_members x q"
proof (cases "find (\<lambda>e. fst e = x) q")
  case None
  then have "list_members x q = {}" by (auto simp: list_members_def find_None_iff)
  with None show ?thesis by (simp add: list_pick_def)
next
  case (Some e)
  then have "e \<in> set q" "fst e = x" by (auto simp: find_Some_iff)
  then show ?thesis using Some by (auto simp: list_pick_def list_members_def)
qed

lemma counting_contract: "turn_contract counting_kernel (\<lambda>x q. list_members x q)"
proof -
  have put: "list_members y (filter (\<lambda>e. snd e \<noteq> t) q @ filter (\<lambda>e. snd e = t) q) = list_members y q" for y q t
    by (auto simp: list_members_def image_iff)
  have fin: "finite (list_members x q)" for x q by (simp add: list_members_def)
  have nil: "list_members y [] = {}" "list_pick y [] = None" for y by (simp_all add: list_members_def list_pick_def)
  have none: "list_members y q = {}" if "list_pick y q = None" for y q using list_pick_member [of y q] that by simp
  have some: "t \<in> list_members y q" if "list_pick y q = Some t" for y q t using list_pick_member [of y q] that by simp
  show ?thesis
    unfolding turn_contract_def counting_kernel_def list_kernel_def
    using put fin list_pick_member by (simp add: nil split: option.splits) (auto dest: none some)
qed

theorem pick_highest_class_witness:
  "\<exists>q'. pick_next_task counting_kernel Fair 3 0 [(Fair, 3), (Rt, 5)] = Inr (q', 5) \<and> is_turn (\<lambda>x q. list_members x q) 0 q' 5"
proof -
  have "\<exists>q'. pick_next_task counting_kernel Fair 3 0 [(Fair, 3), (Rt, 5)] = Inr (q', 5)"
    by (simp add: pick_next_task_def counting_kernel_def list_kernel_def list_members_def list_pick_def pick_slow_def put_prev_task_balance_def)
  then show ?thesis using pick_highest_class [OF counting_contract] by blast
qed

end
