(* ===== verification/Sched_Policy_Props.thy ===== *)
theory Sched_Policy_Props
  imports Sched_Core_Props
begin

unbundle bit_operations_syntax

text \<open>
  The properties of policies and priorities: the types of the tasks on a running machine, what a caller
  without privilege can reach, what the system calls for nice values and policies do, and the weights.
\<close>

section \<open>A run with changes of policy\<close>

definition root_env :: policy_env where
  "root_env = \<lparr>capable_nice = True, rlimit_nice = (\<lambda>t. 0), rlimit_rtprio = (\<lambda>t. 0), current_euid = 0, task_euid = (\<lambda>t. 1000), task_uid = (\<lambda>t. 1000),
     security_setscheduler = (\<lambda>t. 0), security_setnice = (\<lambda>t n. 0), security_getscheduler = (\<lambda>t. 0), checkparam_dl = (\<lambda>a. True),
     dl_param_changed = (\<lambda>t a. False), dl_overflow = (\<lambda>t p a. False), dl_entity_preempt = (\<lambda>t u. False), rt_group_refuses = (\<lambda>t. False),
     dl_span_refuses = (\<lambda>t. False), find_process_by_pid = (\<lambda>i. if i = 2 then Some 2 else None)\<rparr>"

text \<open>Task 2 runs with another nice value, becomes a round robin task, and inherits the priority of task 3.\<close>

definition rr_attr :: sched_attr where
  "rr_attr = (plain_attr 2 0)\<lparr>sched_priority := 30\<rparr>"

definition policy_run :: "mop list" where
  "policy_run = first_steps @ [Renice 2 5, SetSched root_env 2 rr_attr True True, Boost root_env 2 (Some 3)]"

lemma kept_idle: "healthy S queued owned m \<Longrightarrow> allowed (ncpus S) x m \<Longrightarrow> mstep S x m = Inr m' \<Longrightarrow> idles (ncpus S) m' = idles (ncpus S) m"
  using mstep_idle [of S queued owned m x m'] by (simp add: healthy_def idles_def)

text \<open>Steps on a task that is not idle are allowed one after the other.\<close>

lemma may_follow:
  assumes "healthy (S :: 'q system) queued owned m" and "\<And>m' :: 'q machine. idles (ncpus S) m' = idles (ncpus S) m \<Longrightarrow> list_all (\<lambda>x. allowed (ncpus S) x m') xs"
  shows "may S xs m"
  using assms
proof (induction xs arbitrary: m)
  case (Cons x xs)
  have x: "allowed (ncpus S) x m" using Cons.prems(2) [of m] by simp
  obtain m1 where m1: "mstep S x m = Inr m1" "healthy S queued owned m1" using core.step_ok [OF Cons.prems(1) x] by blast
  have "may S xs m1" by (rule Cons.IH [OF m1(2)]) (use Cons.prems(2) kept_idle [OF Cons.prems(1) x m1(1)] in auto)
  with x m1(1) show ?case by (simp del: mstep.simps)
qed simp

lemma run_idles: "healthy S queued owned m \<Longrightarrow> may S xs m \<Longrightarrow> mrun S xs m = Inr m' \<Longrightarrow> idles (ncpus S) m' = idles (ncpus S) m"
proof (induction xs arbitrary: m)
  case (Cons x xs)
  then obtain s where "mstep S x m = Inr s" "healthy S queued owned s" "may S xs s" "allowed (ncpus S) x m" using core.first_ok by blast
  with Cons kept_idle [of S queued owned m x s] show ?case by (simp del: mstep.simps)
qed simp

lemma run_idle:
  assumes "may list_system xs rest_machine" and "mrun list_system xs rest_machine = Inr m"
  shows "idles 2 m = {0, 1}"
  using run_idles [OF at_rest_healthy [OF list_system_ok rest_machine_rests] assms]
  by (auto simp: list_system_def idles_def rest_machine_def)

lemma policy_may: "may list_system policy_run rest_machine"
proof -
  obtain m where m: "mrun list_system first_steps rest_machine = Inr m" "may list_system first_steps rest_machine"
      "rq_curr (rqs m 0) = 2" "idles 2 m = {0, 1}"
    using first_steps_run by blast
  have n: "ncpus list_system = 2" by (simp add: list_system_def)
  have h: "healthy list_system on_list (\<lambda>i. if i = 0 then 1 else 0) m"
    using run_healthy [OF list_system_ok rest_machine_rests m(2)] m(1) by simp
  have "may list_system [Renice 2 5, SetSched root_env 2 rr_attr True True, Boost root_env 2 (Some 3)] m"
    by (rule may_follow [OF h]) (simp add: n m(4) fit_attr_def rr_attr_def plain_attr_def del: One_nat_def)
  from may_append [OF m(1,2) this] show ?thesis by (simp add: policy_run_def)
qed

section \<open>Types\<close>

text \<open>
  C5. Every task is well typed, always: after any run of the machine, with forks, changes of nice values and policies
  and inherited priorities in any order, a task that is not idle has a valid policy, a static priority of 100 to
  139, a real-time priority of 1 to 99 if its policy is a real-time policy and 0 otherwise, a normal priority
  that is the one of its policy, an effective priority that is never worse than that, and
  the class that belongs to its effective priority. In the FIFO kernel alone the normal priority may also be
  the 50 that \<open>sched_fork\<close> stored with the real-time priority 50.
\<close>

theorem machine_types:
  assumes "system_ok S queued" and "at_rest S queued owned m" and "may S xs m"
  shows "\<exists>m'. mrun S xs m = Inr m' \<and> (\<forall>t. t \<notin> idles (ncpus S) m' \<longrightarrow> (let p = sched (tk m' t); h = hdr (kern S) in
      valid_policy h (policy p) \<and> static_prio p \<in> {100..139}
      \<and> (if rt_policy h (policy p) then rt_priority p \<in> {1..99} else rt_priority p = 0)
      \<and> (normal_prio p = calc_normal_prio h p \<or> fork_sched S = fifo_sched_fork \<and> policy p = 1 \<and> rt_priority p = 50 \<and> normal_prio p = 50)
      \<and> prio p \<in> {-1..normal_prio p}
      \<and> cls p = (if prio p < 0 then Dl else if prio p < 100 then Rt else Fair)))"
proof -
  obtain m' where m': "mrun S xs m = Inr m'" "healthy S queued owned m'" using run_healthy [OF assms] by blast
  have h: "linux_headers (hdr (kern S))" using assms(1) by (simp add: system_ok_def)
  have "\<forall>t. t \<notin> idles (ncpus S) m' \<longrightarrow> well_typed (forcing S) (hdr (kern S)) (sched (tk m' t)) \<and> classed (hdr (kern S)) (sched (tk m' t))"
    using m'(2) by (simp add: healthy_def typed_tasks_def)
  note this [unfolded well_typed_def classed_def class_of_prio_eq [OF h] forcing_def linux_eqs(16) [OF h]]
  with m'(1) show ?thesis unfolding Let_def by blast
qed

theorem machine_types_witness:
  "\<exists>m'. mrun list_system policy_run rest_machine = Inr m'
    \<and> static_prio (sched (tk m' 2)) \<in> {100..139} \<and> prio (sched (tk m' 2)) \<le> normal_prio (sched (tk m' 2))"
proof -
  obtain m' where m': "mrun list_system policy_run rest_machine = Inr m'"
      "\<forall>t. t \<notin> idles 2 m' \<longrightarrow> static_prio (sched (tk m' t)) \<in> {100..139} \<and> prio (sched (tk m' t)) \<le> normal_prio (sched (tk m' t))"
    using machine_types [OF list_system_ok rest_machine_rests policy_may] by (auto simp: list_system_def Let_def)
  have "2 \<notin> idles 2 m'" using run_idle [OF policy_may m'(1)] by simp
  with m' show ?thesis by blast
qed

section \<open>Permissions\<close>

text \<open>What the checks leave to a caller without the capability.\<close>

lemma permitted:
  assumes h: "linux_headers h" and np: "\<not> not_permitted h env t p a pol reset" and "\<not> capable_nice env"
  shows "check_same_owner env t" "pol \<noteq> 6" "sched_reset_on_fork p \<Longrightarrow> reset"
    "pol = 1 \<or> pol = 2 \<Longrightarrow> pol = policy p \<or> rlimit_rtprio env t \<noteq> 0"
    "pol = 1 \<or> pol = 2 \<Longrightarrow> sched_priority a \<le> max (rt_priority p) (rlimit_rtprio env t)"
    "pol = 0 \<or> pol = 3 \<Longrightarrow> sched_nice a + 120 < static_prio p \<Longrightarrow> 20 - sched_nice a \<le> rlimit_nice env t"
    "policy p = 5 \<Longrightarrow> pol \<noteq> 5 \<Longrightarrow> 140 - static_prio p \<le> rlimit_nice env t"
proof -
  have nr: "nice_to_rlimit h x = 20 - x" for x using h by (simp add: linux_headers_def)
  note np = np [unfolded not_permitted_def can_nice_def task_nice_def linux_eqs [OF h] nr]
  show "check_same_owner env t" "pol \<noteq> 6" "sched_reset_on_fork p \<Longrightarrow> reset" using np by blast+
  show "pol = 1 \<or> pol = 2 \<Longrightarrow> pol = policy p \<or> rlimit_rtprio env t \<noteq> 0" using np by blast
  show "sched_priority a \<le> max (rt_priority p) (rlimit_rtprio env t)" if "pol = 1 \<or> pol = 2"
  proof -
    from np that have "\<not> (sched_priority a > rt_priority p \<and> sched_priority a > rlimit_rtprio env t)" by blast
    then show ?thesis by linarith
  qed
  show "20 - sched_nice a \<le> rlimit_nice env t" if "pol = 0 \<or> pol = 3" "sched_nice a + 120 < static_prio p"
  proof -
    from that have "sched_nice a < static_prio p - 120" by simp
    with np that(1) assms(3) show ?thesis by blast
  qed
  show "140 - static_prio p \<le> rlimit_nice env t" if "policy p = 5" "pol \<noteq> 5"
  proof -
    from np that assms(3) have "20 - (static_prio p - 120) \<le> rlimit_nice env t" by blast
    then show ?thesis by simp
  qed
qed

lemma asked_settings:
  assumes h: "linux_headers h" and a: "fit_attr a" and s: "settings s = settings (asked h a (p\<lparr>sched_reset_on_fork := r\<rparr>))"
    and pol: "pol = (if sched_policy a < 0 then policy p else sched_policy a)"
  shows "sched_reset_on_fork s = r"
    "settings s = (policy p, static_prio p, rt_priority p, r) \<and> sched_flags a AND SCHED_FLAG_KEEP_PARAMS h \<noteq> 0
     \<or> policy s = pol \<and> rt_priority s = sched_priority a
       \<and> static_prio s = (if pol = 0 \<or> pol = 3 then sched_nice a + 120 else static_prio p)"
proof -
  have "- 1 \<le> sched_policy a" using a by (simp add: fit_attr_def)
  then have "pol = (if sched_policy a = - 1 then policy p else sched_policy a)" using pol by auto
  with s show "sched_reset_on_fork s = r" "settings s = (policy p, static_prio p, rt_priority p, r) \<and> sched_flags a AND SCHED_FLAG_KEEP_PARAMS h \<noteq> 0
     \<or> policy s = pol \<and> rt_priority s = sched_priority a
       \<and> static_prio s = (if pol = 0 \<or> pol = 3 then sched_nice a + 120 else static_prio p)"
    by (simp_all add: asked_def attr_params_def Let_def SETPARAM_POLICY_def linux_eqs [OF h] split: if_splits)
qed

text \<open>The ways in which \<open>__sched_setscheduler\<close> succeeds.\<close>

lemma settled_cases:
  assumes h: "linux_headers h" and a: "fit_attr a" and st: "settled h env t a user p 0 s"
  obtains pol reset where "pol = (if sched_policy a < 0 then policy (sched p) else sched_policy a)"
    "reset = (if sched_policy a < 0 then sched_reset_on_fork (sched p) else sched_flags a AND SCHED_FLAG_RESET_ON_FORK h \<noteq> 0)"
    "\<not> invalid_attr h env p a pol" "user \<Longrightarrow> \<not> capable_nice env \<Longrightarrow> \<not> not_permitted h env t (sched p) a pol reset"
    "sched_reset_on_fork s = reset"
    "settings s = (policy (sched p), static_prio (sched p), rt_priority (sched p), reset)
       \<and> (sched_flags a AND SCHED_FLAG_KEEP_PARAMS h \<noteq> 0 \<or> pol = policy (sched p) \<and> \<not> params_change h env t (sched p) a pol)
     \<or> policy s = pol \<and> rt_priority s = sched_priority a
       \<and> static_prio s = (if pol = 0 \<or> pol = 3 then sched_nice a + 120 else static_prio (sched p))"
proof -
  define pol where "pol = (if sched_policy a < 0 then policy (sched p) else sched_policy a)"
  define reset where "reset = (if sched_policy a < 0 then sched_reset_on_fork (sched p) else sched_flags a AND SCHED_FLAG_RESET_ON_FORK h \<noteq> 0)"
  have fact: "\<not> invalid_attr h env p a pol \<and> (user \<and> \<not> capable_nice env \<longrightarrow> \<not> not_permitted h env t (sched p) a pol reset)
      \<and> (settings s = settings (asked h a ((sched p)\<lparr>sched_reset_on_fork := reset\<rparr>))
        \<or> pol = policy (sched p) \<and> \<not> params_change h env t (sched p) a pol \<and> s = (sched p)\<lparr>sched_reset_on_fork := reset\<rparr>)"
    using st unfolding settled_def Let_def pol_def [symmetric] reset_def [symmetric] by simp
  have "sched_reset_on_fork s = reset \<and> (settings s = (policy (sched p), static_prio (sched p), rt_priority (sched p), reset)
       \<and> (sched_flags a AND SCHED_FLAG_KEEP_PARAMS h \<noteq> 0 \<or> pol = policy (sched p) \<and> \<not> params_change h env t (sched p) a pol)
     \<or> policy s = pol \<and> rt_priority s = sched_priority a
       \<and> static_prio s = (if pol = 0 \<or> pol = 3 then sched_nice a + 120 else static_prio (sched p)))"
    (is "?kept \<and> ?ways")
  proof (cases "settings s = settings (asked h a ((sched p)\<lparr>sched_reset_on_fork := reset\<rparr>))")
    case True
    from asked_settings [OF h a this pol_def] show ?thesis by blast
  next
    case False
    with fact have same: "pol = policy (sched p) \<and> \<not> params_change h env t (sched p) a pol" and s: "s = (sched p)\<lparr>sched_reset_on_fork := reset\<rparr>" by blast+
    have "?kept" "settings s = (policy (sched p), static_prio (sched p), rt_priority (sched p), reset)" unfolding s by simp_all
    with same show ?thesis by blast
  qed
  then show thesis using fact that [OF pol_def reset_def] by blast
qed

lemma reach_setscheduler:
  assumes "healthy S queued owned m" and "t \<notin> idles (ncpus S) m" and "fit_attr a"
  shows "\<exists>r m'. setscheduler_task (kern S) env t a user inherit m = Inr (r, m') \<and> settled (hdr (kern S)) env t a user (tk m t) r (sched (tk m' t))"
  using setscheduler_task_inv [of "kern S" queued owned "ncpus S" m "forcing S" t a env user inherit] assms
  by (auto simp: healthy_def system_ok_def)

text \<open>
  C6. No privilege without permission: whatever attributes a caller without the capability for nice values asks for,
  on any machine that a run reaches, a call that fails leaves the task alone, and one that succeeds was made for a task
  of the same owner and does not make it a deadline task, does not give it a real-time policy it
  did not have unless its limit allows one, does not raise its real-time priority above its limit, does not lower its
  nice value below its limit, does not release it from the idle policy unless its limit allows its nice value,
  and does not clear the flag that resets its children.
\<close>

theorem unprivileged_cannot_raise:
  assumes "system_ok S queued" and "at_rest S queued owned m" and "may S xs m" and "mrun S xs m = Inr m1"
    and "t \<notin> idles (ncpus S) m1" and "fit_attr a" and "\<not> capable_nice env"
    and "setscheduler_task (kern S) env t a True inherit m1 = Inr (r, m2)" and "p = sched (tk m1 t)" and "q = sched (tk m2 t)"
  shows "if r \<noteq> 0 then q = p
    else check_same_owner env t \<and> (policy q = 6 \<longrightarrow> policy p = 6)
      \<and> (policy q = 1 \<or> policy q = 2 \<longrightarrow> policy q = policy p \<or> rlimit_rtprio env t \<noteq> 0)
      \<and> rt_priority q \<le> max (rt_priority p) (rlimit_rtprio env t)
      \<and> (static_prio q < static_prio p \<longrightarrow> 140 - static_prio q \<le> rlimit_nice env t)
      \<and> (policy p = 5 \<and> policy q \<noteq> 5 \<longrightarrow> 140 - static_prio p \<le> rlimit_nice env t)
      \<and> (sched_reset_on_fork p \<longrightarrow> sched_reset_on_fork q)"
proof (cases "r = 0")
  case True
  have hm: "healthy S queued owned m1" using run_healthy [OF assms(1-3)] assms(4) by simp
  let ?h = "hdr (kern S)"
  have h: "linux_headers ?h" and wt: "well_typed (forcing S) ?h p" using hm assms(9) typed_at(1) by (auto simp: healthy_def system_ok_def)
  have st: "settled ?h env t a True (tk m1 t) 0 q" using reach_setscheduler [OF hm assms(5,6), of env True inherit] assms(8,10) True by simp
  show ?thesis
  proof (rule settled_cases [OF h assms(6) st])
    fix pol reset
    assume inv: "\<not> invalid_attr ?h env (tk m1 t) a pol" and n: "True \<Longrightarrow> \<not> capable_nice env \<Longrightarrow> \<not> not_permitted ?h env t (sched (tk m1 t)) a pol reset"
      and reset: "sched_reset_on_fork q = reset"
      and out: "settings q = (policy (sched (tk m1 t)), static_prio (sched (tk m1 t)), rt_priority (sched (tk m1 t)), reset)
           \<and> (sched_flags a AND SCHED_FLAG_KEEP_PARAMS ?h \<noteq> 0 \<or> pol = policy (sched (tk m1 t)) \<and> \<not> params_change ?h env t (sched (tk m1 t)) a pol)
         \<or> policy q = pol \<and> rt_priority q = sched_priority a \<and> static_prio q = (if pol = 0 \<or> pol = 3 then sched_nice a + 120 else static_prio (sched (tk m1 t)))"
    have np: "\<not> not_permitted ?h env t p a pol reset" using n assms(7) by (simp add: assms(9))
    note P = permitted [OF h np assms(7)]
    have rt: "pol \<noteq> 1 \<and> pol \<noteq> 2 \<Longrightarrow> sched_priority a = 0" using inv unfolding invalid_attr_def linux_eqs [OF h] by blast
    have rp: "0 \<le> rt_priority p" using wt unfolding well_typed_iff [OF h] by auto
    from out consider (old) "settings q = (policy p, static_prio p, rt_priority p, reset)"
      | (new) "policy q = pol" "rt_priority q = sched_priority a" "static_prio q = (if pol = 0 \<or> pol = 3 then sched_nice a + 120 else static_prio p)"
      unfolding assms(9) [symmetric] by blast
    then show ?thesis
    proof cases
      case old
      then show ?thesis using True P(1,3) by auto
    next
      case q: new
      have 1: "rt_priority q \<le> max (rt_priority p) (rlimit_rtprio env t)" using P(5) rt rp q(2) by (cases "pol = 1 \<or> pol = 2") auto
      have 2: "static_prio q < static_prio p \<longrightarrow> 140 - static_prio q \<le> rlimit_nice env t" using P(6) q(3) by (cases "pol = 0 \<or> pol = 3") auto
      show ?thesis using True 1 2 P(1,2,3,4,7) unfolding q(1) reset by simp
    qed
  qed
next
  case False
  have "healthy S queued owned m1" using run_healthy [OF assms(1-3)] assms(4) by simp
  with reach_setscheduler [OF this assms(5,6), of env True inherit] False assms(8-10) show ?thesis by (auto simp: settled_def Let_def)
qed

definition user_env :: policy_env where
  "user_env = root_env\<lparr>capable_nice := False, current_euid := 1000\<rparr>"

text \<open>A normal task asks for a real-time policy.\<close>

theorem unprivileged_cannot_raise_witness:
  "\<exists>m1 r m2. mrun list_system first_steps rest_machine = Inr m1 \<and> setscheduler_task list_kernel user_env 2 rr_attr True True m1 = Inr (r, m2)
    \<and> rt_priority (sched (tk m2 2)) \<le> max (rt_priority (sched (tk m1 2))) 0"
proof -
  obtain m1 where m: "mrun list_system first_steps rest_machine = Inr m1" "may list_system first_steps rest_machine" "idles 2 m1 = {0, 1}"
    using first_steps_run by blast
  have n: "kern list_system = list_kernel" "ncpus list_system = 2" by (simp_all add: list_system_def)
  have f: "fit_attr rr_attr" "2 \<notin> idles (ncpus list_system) m1" "\<not> capable_nice user_env" "rlimit_rtprio user_env 2 = 0"
    by (simp_all add: fit_attr_def rr_attr_def plain_attr_def n m(3) user_env_def root_env_def)
  have "healthy list_system on_list (\<lambda>i. if i = 0 then 1 else 0) m1" using run_healthy [OF list_system_ok rest_machine_rests m(2)] m(1) by simp
  from reach_setscheduler [OF this f(2,1)] obtain r m2 where r: "setscheduler_task (kern list_system) user_env 2 rr_attr True True m1 = Inr (r, m2)" by blast
  from unprivileged_cannot_raise [OF list_system_ok rest_machine_rests m(2,1) f(2,1,3) r refl refl] f(4)
  have "rt_priority (sched (tk m2 2)) \<le> max (rt_priority (sched (tk m1 2))) 0" by (auto split: if_splits)
  with m(1) r show ?thesis by (simp add: n)
qed

section \<open>The system calls\<close>

lemma flag_restored:
  assumes "pol AND 0x40000000 \<noteq> (0 :: int)"
  shows "(pol AND NOT 0x40000000) OR 0x40000000 = pol"
proof -
  have e: "(0x40000000 :: int) = 2 ^ 30" by simp
  have b: "bit (0x40000000 :: int) i \<longleftrightarrow> i = 30" for i unfolding e by (subst bit_exp_iff) auto
  have "bit pol 30"
  proof (rule ccontr)
    assume "\<not> bit pol 30"
    then have "pol AND 0x40000000 = 0" by (intro bit_eqI) (auto simp: bit_and_iff b)
    with assms show False by simp
  qed
  then have "(pol AND NOT R) OR R = pol" if "\<forall>i. bit R i \<longleftrightarrow> i = 30" for R :: int
    using that by (intro bit_eqI) (auto simp: bit_and_iff bit_or_iff bit_not_iff)
  with b show ?thesis by blast
qed

lemma attr_fits:
  assumes h: "linux_headers h" and wt: "well_typed b h p" and pol: "0 \<le> pol"
  shows "fit_attr (cfs_attr h p pol param)" "fit_attr (fifo_attr h p pol param)"
proof -
  have "0 \<le> pol AND NOT 0x40000000" using pol by simp
  then have n: "- 1 \<le> pol AND NOT 0x40000000" by linarith
  have r: "SCHED_RESET_ON_FORK h = 0x40000000" using h by (simp add: linux_headers_def)
  show "fit_attr (cfs_attr h p pol param)" "fit_attr (fifo_attr h p pol param)"
    using n typed_static [OF wt] pol by (simp_all add: fit_attr_def cfs_attr_def fifo_attr_def reset_flag_def Let_def linux_eqs [OF h] r)
qed

text \<open>A policy that is set without keeping parameters is the one of the task, with its real-time priority.\<close>

lemma settled_policy:
  assumes h: "linux_headers h" and a: "fit_attr a" "0 \<le> sched_policy a" "sched_flags a AND SCHED_FLAG_KEEP_PARAMS h = 0" and st: "settled h env t a user p 0 s"
  shows "policy s = sched_policy a" "(if rt_policy h (policy s) then rt_priority s else 0) = sched_priority a" "sched_priority a \<le> 99"
    "sched_reset_on_fork s \<longleftrightarrow> sched_flags a AND SCHED_FLAG_RESET_ON_FORK h \<noteq> 0"
proof -
  obtain pol reset where pol: "pol = sched_policy a" "\<not> invalid_attr h env p a pol" "sched_reset_on_fork s = reset" "reset \<longleftrightarrow> sched_flags a AND SCHED_FLAG_RESET_ON_FORK h \<noteq> 0"
    and out: "policy s = policy (sched p) \<and> rt_priority s = rt_priority (sched p) \<and> pol = policy (sched p) \<and> \<not> params_change h env t (sched p) a pol
     \<or> policy s = pol \<and> rt_priority s = sched_priority a"
    by (rule settled_cases [OF h a(1) st]) (use a(2,3) in auto)
  show "sched_reset_on_fork s \<longleftrightarrow> sched_flags a AND SCHED_FLAG_RESET_ON_FORK h \<noteq> 0" using pol(3,4) by simp
  show ps: "policy s = sched_policy a" using out pol(1) by auto
  show "sched_priority a \<le> 99" using pol(2) by (cases "mm p") (auto simp: invalid_attr_def linux_eqs [OF h])
  have z: "\<not> rt_policy h pol \<Longrightarrow> sched_priority a = 0" using pol(2) by (auto simp: invalid_attr_def)
  have "rt_policy h pol \<Longrightarrow> rt_priority s = sched_priority a" using out by (auto simp: params_change_def)
  with z show "(if rt_policy h (policy s) then rt_priority s else 0) = sched_priority a" unfolding ps pol(1) by simp
qed

lemma small_param: "param \<in> {- (2 ^ 31)..<2 ^ 31} \<Longrightarrow> param mod 2 ^ 32 \<le> 99 \<Longrightarrow> param mod 2 ^ 32 = (param :: int)"
proof (cases "0 \<le> param")
  case False
  assume "param \<in> {- (2 ^ 31)..<2 ^ 31}" "param mod 2 ^ 32 \<le> 99"
  moreover have "param mod 2 ^ 32 = (param + 2 ^ 32) mod 2 ^ 32" by simp
  moreover have "(param + 2 ^ 32) mod 2 ^ 32 = param + 2 ^ 32" by (rule mod_pos_pos_trivial) (use False calculation(1) in auto)
  ultimately show ?thesis by auto
qed simp

text \<open>
  C34. What \<open>sched_setscheduler\<close> of the CFS kernel stores, \<open>sched_getscheduler\<close> and \<open>sched_getparam\<close> return: on any
  machine that a run reaches, after a call that succeeds they give back the policy, with the
  flag for a reset on fork if it was asked for, and the priority, for every policy and every 32-bit number.
\<close>

theorem setscheduler_roundtrip:
  assumes "system_ok S queued" and "at_rest S queued owned m" and "may S xs m" and "mrun S xs m = Inr m1"
    and "find_process_by_pid env pid = Some t" and "t \<notin> idles (ncpus S) m1" and "security_getscheduler env t = 0"
    and "param \<in> {- (2 ^ 31)..<2 ^ 31}" and "sys_sched_setscheduler (kern S) cfs_attr env pid pol (At param) m1 = Inr (0, m2)"
  shows "sys_sched_getscheduler (kern S) env pid m2 = pol \<and> sys_sched_getparam (kern S) env pid (At ()) m2 = (0, Some param)"
proof -
  let ?h = "hdr (kern S)" and ?a = "cfs_attr (hdr (kern S)) (sched (tk m1 t)) pol param" and ?q = "sched (tk m2 t)"
  have hm: "healthy S queued owned m1" using run_healthy [OF assms(1-3)] assms(4) by simp
  have h: "linux_headers ?h" and wt: "well_typed (forcing S) ?h (sched (tk m1 t))" using hm typed_at(1) by (auto simp: healthy_def system_ok_def)
  have e: "SCHED_RESET_ON_FORK ?h = 0x40000000" "SCHED_FLAG_RESET_ON_FORK ?h = 1" "SCHED_FLAG_KEEP_PARAMS ?h = 16" "EINVAL ?h = 22"
    using h by (simp_all add: linux_headers_def)
  have p0: "0 \<le> pol" "0 \<le> pid" using assms(9) e(4) by (auto simp: sys_sched_setscheduler_def do_sched_setscheduler_def Let_def split: if_splits)
  then have run: "setscheduler_task (kern S) env t ?a True True m1 = Inr (0, m2)"
    using assms(5,9) by (simp add: sys_sched_setscheduler_def do_sched_setscheduler_def setscheduler_param_def Let_def)
  have fit: "fit_attr ?a" by (rule attr_fits(1) [OF h wt p0(1)])
  have st: "settled ?h env t ?a True (tk m1 t) 0 ?q" using reach_setscheduler [OF hm assms(6) fit, of env True True] run by simp
  have A: "sched_policy ?a = (if pol AND 0x40000000 \<noteq> 0 then pol AND NOT 0x40000000 else pol)" "sched_flags ?a = (if pol AND 0x40000000 \<noteq> 0 then 1 else 0)"
      "sched_priority ?a = param mod 2 ^ 32"
    using p0 by (auto simp: cfs_attr_def reset_flag_def SETPARAM_POLICY_def e)
  have "0 \<le> sched_policy ?a" "sched_flags ?a AND SCHED_FLAG_KEEP_PARAMS ?h = 0" using p0 by (simp_all add: A e)
  from settled_policy [OF h fit this st]
  have q: "policy ?q = (if pol AND 0x40000000 \<noteq> 0 then pol AND NOT 0x40000000 else pol)" "sched_reset_on_fork ?q \<longleftrightarrow> pol AND 0x40000000 \<noteq> 0"
      "(if rt_policy ?h (policy ?q) then rt_priority ?q else 0) = param mod 2 ^ 32" "param mod 2 ^ 32 \<le> 99"
    by (simp_all add: A e)
  have "sys_sched_getscheduler (kern S) env pid m2 = pol"
    using p0 assms(5,7) flag_restored [of pol] by (auto simp: sys_sched_getscheduler_def q(1,2) e)
  moreover have "sys_sched_getparam (kern S) env pid (At ()) m2 = (0, Some param)"
    using p0 assms(5,7) q(3) [unfolded small_param [OF assms(8) q(4)]] by (auto simp: sys_sched_getparam_def Let_def split: if_splits)
  ultimately show ?thesis by blast
qed

text \<open>On the machine at rest, task 2 becomes a round robin task.\<close>

lemma rest_may: "may list_system [] rest_machine" "mrun list_system [] rest_machine = Inr rest_machine" "2 \<notin> idles (ncpus list_system) rest_machine"
  by (auto simp: idles_def list_system_def rest_machine_def)

lemma rest_sets:
  assumes "a = \<lparr>sched_policy = pol, sched_priority = pr, sched_nice = 0, sched_flags = 0, sched_util_min = 0, sched_util_max = 0\<rparr>"
    and "pol = 1 \<or> pol = 2" and "1 \<le> pr" and "pr \<le> 99"
  shows "\<exists>m2. setscheduler_task list_kernel root_env 2 a True True rest_machine = Inr (0, m2)"
proof -
  have f: "fit_attr a" using assms by (auto simp: fit_attr_def)
  have hm: "healthy list_system on_list (\<lambda>i. if i = 0 then 1 else 0) rest_machine" by (rule at_rest_healthy [OF list_system_ok rest_machine_rests])
  have k: "kern list_system = list_kernel" "hdr list_kernel = linux_5_11" by (simp_all add: list_system_def list_kernel_def)
  obtain r m2 where r: "setscheduler_task list_kernel root_env 2 a True True rest_machine = Inr (r, m2)"
    using reach_setscheduler [OF hm rest_may(3) f, of root_env True True] unfolding k(1) by blast
  have v: "\<not> invalid_attr linux_5_11 root_env (tk rest_machine 2) a pol"
    using assms by (auto simp: invalid_attr_def linux_5_11_def rest_machine_def rest_task_def)
  have "\<exists>M. setscheduler_task list_kernel root_env 2 a True True rest_machine = bindR M (\<lambda>m3. Inr (0, m3))"
    using assms v by (intro exI [of _ "setscheduler_change list_kernel 2 a True False (update_rq_clock list_kernel 0 rest_machine)"])
      (auto simp: setscheduler_task_def Let_def k root_env_def linux_5_11_def update_rq_clock_eq rest_machine_def rest_task_def new_task_def)
  then obtain M where "bindR M (\<lambda>m3. Inr (0, m3)) = Inr (r, m2)" using r by metis
  then have "r = 0" by (auto simp: bindR_Inr_iff)
  with r show ?thesis by blast
qed

theorem setscheduler_roundtrip_witness:
  "\<exists>m2. sys_sched_setscheduler list_kernel cfs_attr root_env 2 2 (At 30) rest_machine = Inr (0, m2)
    \<and> sys_sched_getscheduler list_kernel root_env 2 m2 = 2 \<and> sys_sched_getparam list_kernel root_env 2 (At ()) m2 = (0, Some 30)"
proof -
  have k: "kern list_system = list_kernel" "hdr list_kernel = linux_5_11" by (simp_all add: list_system_def list_kernel_def)
  have env: "find_process_by_pid root_env 2 = Some 2" "security_getscheduler root_env 2 = 0" by (simp_all add: root_env_def)
  have "cfs_attr linux_5_11 (sched (tk rest_machine 2)) 2 30 = \<lparr>sched_policy = 2, sched_priority = 30, sched_nice = 0, sched_flags = 0, sched_util_min = 0, sched_util_max = 0\<rparr>"
    by (simp add: cfs_attr_def reset_flag_def SETPARAM_POLICY_def linux_5_11_def rest_machine_def rest_task_def new_task_def)
  from rest_sets [OF this] obtain m2 where "setscheduler_task list_kernel root_env 2 (cfs_attr linux_5_11 (sched (tk rest_machine 2)) 2 30) True True rest_machine = Inr (0, m2)" by auto
  then have m2: "sys_sched_setscheduler list_kernel cfs_attr root_env 2 2 (At 30) rest_machine = Inr (0, m2)"
    by (simp add: sys_sched_setscheduler_def do_sched_setscheduler_def setscheduler_param_def k(2) env)
  from setscheduler_roundtrip [OF list_system_ok rest_machine_rests rest_may(1,2) env(1) rest_may(3) env(2), of 30 2 m2] m2 show ?thesis by (simp add: k(1))
qed

text \<open>
  C36. The FIFO kernel and requests for the normal policy, on any machine that a run reaches: a
  \<open>sched_setscheduler\<close> for the normal policy that succeeds makes the task a FIFO task of priority 50, whatever its
  argument; a caller without the capability and without a limit for real-time priorities cannot make
  it for a task that is not a FIFO task yet, although it asks for no privilege; and \<open>sched_setattr\<close> with the same
  policy, which the kernel does not change, does give the normal policy.
\<close>

theorem fifo_kernel_requests:
  assumes "system_ok S queued" and "at_rest S queued owned m" and "may S xs m" and "mrun S xs m = Inr m1"
    and "find_process_by_pid env pid = Some t" and "t \<notin> idles (ncpus S) m1" and "security_getscheduler env t = 0" and "0 \<le> pid" and "nice \<in> {-20..19}"
  shows "\<exists>r m2 r' m3. sys_sched_setscheduler (kern S) fifo_attr env pid 0 (At param) m1 = Inr (r, m2)
    \<and> sys_sched_setattr (kern S) env pid (At (48, Inr (plain_attr 0 nice))) 0 m1 = Inr (r', m3)
    \<and> (r = 0 \<longrightarrow> sys_sched_getscheduler (kern S) env pid m2 = 1 \<and> sys_sched_getparam (kern S) env pid (At ()) m2 = (0, Some 50))
    \<and> (\<not> capable_nice env \<and> rlimit_rtprio env t = 0 \<and> policy (sched (tk m1 t)) \<noteq> 1 \<longrightarrow> r = - 1)
    \<and> (r' = 0 \<longrightarrow> sys_sched_getscheduler (kern S) env pid m3 = 0)"
proof -
  let ?h = "hdr (kern S)" and ?a = "(plain_attr 1 0)\<lparr>sched_priority := 50, sched_nice := static_prio (sched (tk m1 t)) - 120\<rparr>" and ?b = "plain_attr 0 nice"
  have hm: "healthy S queued owned m1" using run_healthy [OF assms(1-3)] assms(4) by simp
  have h: "linux_headers ?h" and wt: "well_typed (forcing S) ?h (sched (tk m1 t))" using hm typed_at(1) by (auto simp: healthy_def system_ok_def)
  have e: "SCHED_RESET_ON_FORK ?h = 0x40000000" "SCHED_FLAG_RESET_ON_FORK ?h = 1" "EPERM ?h = 1"
      "SCHED_ATTR_SIZE_VER0 ?h = 48" "PAGE_SIZE ?h = 4096" using h by (simp_all add: linux_headers_def)
  have a: "fifo_attr ?h (sched (tk m1 t)) 0 param = ?a"
    by (simp add: fifo_attr_def reset_flag_def plain_attr_def SETPARAM_POLICY_def Let_def linux_eqs [OF h])
  have run: "sys_sched_setscheduler (kern S) fifo_attr env pid 0 (At param) m1 = setscheduler_task (kern S) env t ?a True True m1"
    using assms(5,8) by (simp add: sys_sched_setscheduler_def do_sched_setscheduler_def setscheduler_param_def a)
  have run': "sys_sched_setattr (kern S) env pid (At (48, Inr ?b)) 0 m1 = setscheduler_task (kern S) env t ?b True True m1"
    using assms(5,8,9) by (simp add: sys_sched_setattr_def sched_copy_attr_def plain_attr_def Let_def linux_eqs [OF h] e)
  have fa: "fit_attr ?a" "fit_attr ?b" using typed_static [OF wt] assms(9) by (auto simp: fit_attr_def plain_attr_def)
  obtain r m2 where r: "setscheduler_task (kern S) env t ?a True True m1 = Inr (r, m2)" "settled ?h env t ?a True (tk m1 t) r (sched (tk m2 t))"
    using reach_setscheduler [OF hm assms(6) fa(1)] by blast
  obtain r' m3 where r': "setscheduler_task (kern S) env t ?b True True m1 = Inr (r', m3)" "settled ?h env t ?b True (tk m1 t) r' (sched (tk m3 t))"
    using reach_setscheduler [OF hm assms(6) fa(2)] by blast
  have z: "sched_flags ?a = 0" "sched_flags ?b = 0" "sched_policy ?a = 1" "sched_policy ?b = 0" "sched_priority ?a = 50" by (simp_all add: plain_attr_def)
  have "sys_sched_getscheduler (kern S) env pid m2 = 1 \<and> sys_sched_getparam (kern S) env pid (At ()) m2 = (0, Some 50)" if "r = 0"
    using settled_policy [OF h fa(1) _ _ r(2) [unfolded that]] assms(5,7,8) unfolding z
    by (simp add: sys_sched_getscheduler_def sys_sched_getparam_def linux_eqs [OF h])
  moreover have "sys_sched_getscheduler (kern S) env pid m3 = 0" if "r' = 0"
    using settled_policy [OF h fa(2) _ _ r'(2) [unfolded that]] assms(5,7,8) unfolding z by (simp add: sys_sched_getscheduler_def)
  moreover have "r = - 1" if "\<not> capable_nice env" "rlimit_rtprio env t = 0" "policy (sched (tk m1 t)) \<noteq> 1"
  proof -
    have "\<not> invalid_attr ?h env (tk m1 t) ?a 1" by (simp add: invalid_attr_def linux_eqs [OF h] plain_attr_def)
    moreover have "not_permitted ?h env t (sched (tk m1 t)) ?a 1 False" using that by (simp add: not_permitted_def linux_eqs [OF h] plain_attr_def)
    ultimately show ?thesis using r(1) that(1) by (simp add: setscheduler_task_def Let_def z e(3))
  qed
  ultimately show ?thesis unfolding run run' using r(1) r'(1) by (intro exI [of _ r] exI [of _ m2] exI [of _ r'] exI [of _ m3]) simp
qed

theorem fifo_kernel_requests_witness:
  "\<exists>m2. sys_sched_setscheduler list_kernel fifo_attr user_env 2 0 (At 0) rest_machine = Inr (- 1, m2)"
proof -
  have k: "kern list_system = list_kernel" by (simp add: list_system_def)
  have env: "find_process_by_pid user_env 2 = Some 2" "security_getscheduler user_env 2 = 0" "\<not> capable_nice user_env" "rlimit_rtprio user_env 2 = 0"
    by (simp_all add: user_env_def root_env_def)
  have "policy (sched (tk rest_machine 2)) \<noteq> 1" by (simp add: rest_machine_def rest_task_def new_task_def)
  then show ?thesis
    using fifo_kernel_requests [OF list_system_ok rest_machine_rests rest_may(1,2) env(1) rest_may(3) env(2), of 0 0] env(3,4) by (auto simp: k)
qed

section \<open>Nice values\<close>

text \<open>
  C35. The system call \<open>nice\<close>, on any machine that a run reaches and for every increment: the nice value becomes the sum
  with the increment, cut to -20 and 19 (that the increment itself is cut to 40 first makes no difference); a lower
  value needs the capability or a limit that allows it, and otherwise the call returns -1 and changes nothing; the
  answer of the security module is returned without a change.
\<close>

theorem nice_syscall:
  assumes "system_ok S queued" and "at_rest S queued owned m" and "may S xs m" and "mrun S xs m = Inr m1"
    and "t \<notin> idles (ncpus S) m1" and "wanted = max (-20) (min 19 (static_prio (sched (tk m1 t)) - 120 + increment))"
  shows "\<exists>r m2. sys_nice (kern S) env t increment m1 = Inr (r, m2)
    \<and> (if increment < 0 \<and> \<not> capable_nice env \<and> rlimit_nice env t < 20 - wanted then r = - 1 \<and> m2 = m1
       else if security_setnice env t wanted \<noteq> 0 then r = security_setnice env t wanted \<and> m2 = m1
       else r = 0 \<and> static_prio (sched (tk m2 t)) = wanted + 120)"
proof -
  let ?h = "hdr (kern S)"
  have hm: "healthy S queued owned m1" using run_healthy [OF assms(1-3)] assms(4) by simp
  have h: "linux_headers ?h" and wt: "well_typed (forcing S) ?h (sched (tk m1 t))" using hm typed_at(1) by (auto simp: healthy_def system_ok_def)
  have e: "NICE_WIDTH ?h = 40" "EPERM ?h = 1" "nice_to_rlimit ?h x = 20 - x" for x using h by (simp_all add: linux_headers_def)
  have w: "max (-20) (min 19 (static_prio (sched (tk m1 t)) - 120 + max (- 40) (min 40 increment))) = wanted"
    using typed_static [OF wt] unfolding assms(6) by auto
  have neg: "max (- 40) (min 40 increment) < 0 \<longleftrightarrow> increment < 0" by auto
  obtain m2 where m2: "set_user_nice (kern S) t wanted m1 = Inr m2"
      "static_prio (sched (tk m2 t)) = (if wanted \<in> {-20..19} then wanted + 120 else static_prio (sched (tk m1 t)))"
    using set_user_nice_inv [of "kern S" queued owned "ncpus S" m1 "forcing S" t wanted] hm assms(5) by (auto simp: healthy_def system_ok_def)
  have "wanted \<in> {-20..19}" unfolding assms(6) by auto
  with m2 show ?thesis
    unfolding sys_nice_def Let_def task_nice_def can_nice_def linux_eqs [OF h] e w neg m2(1) bindR_simps by auto
qed

theorem nice_syscall_witness:
  "\<exists>m2. sys_nice list_kernel user_env 2 30 rest_machine = Inr (0, m2) \<and> static_prio (sched (tk m2 2)) = 139"
proof -
  have k: "kern list_system = list_kernel" by (simp add: list_system_def)
  have "19 = max (- 20) (min 19 (static_prio (sched (tk rest_machine 2)) - 120 + 30))" by (simp add: rest_machine_def rest_task_def new_task_def)
  from nice_syscall [OF list_system_ok rest_machine_rests rest_may this, of user_env] show ?thesis by (auto simp: k user_env_def root_env_def)
qed

lemma tables:
  "\<forall>i \<in> {..<40}. \<bar>sched_prio_to_weight ! i * sched_prio_to_wmult ! i - 2 ^ 32\<bar> < sched_prio_to_weight ! i"
  "\<forall>i \<in> {..<39}. 120 * sched_prio_to_weight ! Suc i \<le> 100 * sched_prio_to_weight ! i \<and> 100 * sched_prio_to_weight ! i \<le> 128 * sched_prio_to_weight ! Suc i"
  by code_simp+

lemma table_entry:
  assumes h: "linux_headers (hdr k)" and sp: "static_prio (sched p) = 100 + int i" "i < 40"
    and np: "\<not> idle_policy (hdr k) (policy (sched p))" and nu: "\<not> (u \<and> cls (sched p) = Fair)"
  shows "set_load_weight k u p = Inr (p\<lparr>load := \<lparr>weight = sched_prio_to_weight ! i * 1024, inv_weight = sched_prio_to_wmult ! i\<rparr>\<rparr>)"
proof -
  have "scale_load (hdr k) x = x * 1024" for x using h by (simp add: linux_headers_def)
  moreover have "length sched_prio_to_weight = 40" "length sched_prio_to_wmult = 40" by (simp_all add: sched_prio_to_weight_def sched_prio_to_wmult_def)
  ultimately show ?thesis using np nu sp by (auto simp: set_load_weight_def aget_def linux_eqs [OF h] Let_def)
qed

text \<open>
  C37. The weights of nice values: the tables have an entry for every nice value; the stored inverse of a weight is a
  rounding of 2 to the 32 over it; and each step in the nice value changes the weight by a factor of 1.2 to 1.28, so
  that of two tasks one step apart the nicer one gets between 43.8 and 45.5 percent of the time.
\<close>

theorem nice_weights:
  assumes "linux_headers (hdr k)" and "static_prio (sched p) \<in> {100..138}" and "static_prio (sched q) = static_prio (sched p) + 1"
    and "policy (sched p) \<noteq> 5" and "policy (sched q) \<noteq> 5" and "cls (sched p) \<noteq> Fair \<or> \<not> u" and "cls (sched q) \<noteq> Fair \<or> \<not> u"
  shows "\<exists>p' q'. set_load_weight k u p = Inr p' \<and> set_load_weight k u q = Inr q'
    \<and> \<bar>weight (load p') * inv_weight (load p') - 2 ^ 42\<bar> < weight (load p') \<and> \<bar>weight (load q') * inv_weight (load q') - 2 ^ 42\<bar> < weight (load q')
    \<and> 120 * weight (load q') \<le> 100 * weight (load p') \<and> 100 * weight (load p') \<le> 128 * weight (load q')"
proof -
  define i where "i = nat (static_prio (sched p) - 100)"
  have i: "static_prio (sched p) = 100 + int i" "static_prio (sched q) = 100 + int (Suc i)" "i < 39" using assms(2,3) by (auto simp: i_def)
  have np: "\<not> idle_policy (hdr k) (policy (sched p))" "\<not> idle_policy (hdr k) (policy (sched q))" using assms(4,5) by (simp_all add: linux_eqs [OF assms(1)])
  have w: "set_load_weight k u p = Inr (p\<lparr>load := \<lparr>weight = sched_prio_to_weight ! i * 1024, inv_weight = sched_prio_to_wmult ! i\<rparr>\<rparr>)"
      "set_load_weight k u q = Inr (q\<lparr>load := \<lparr>weight = sched_prio_to_weight ! Suc i * 1024, inv_weight = sched_prio_to_wmult ! Suc i\<rparr>\<rparr>)"
    using i assms(6,7) by (auto intro!: table_entry [OF assms(1)] simp: np)
  have inv: "\<bar>sched_prio_to_weight ! j * 1024 * sched_prio_to_wmult ! j - 2 ^ 42\<bar> < sched_prio_to_weight ! j * 1024" if "j < 40" for j
  proof -
    have "\<bar>sched_prio_to_weight ! j * sched_prio_to_wmult ! j - 2 ^ 32\<bar> < sched_prio_to_weight ! j" using tables(1) that by simp
    moreover have "sched_prio_to_weight ! j * 1024 * sched_prio_to_wmult ! j - 2 ^ 42 = 1024 * (sched_prio_to_weight ! j * sched_prio_to_wmult ! j - 2 ^ 32)" by simp
    ultimately show ?thesis by (simp only: abs_mult) simp
  qed
  have "120 * sched_prio_to_weight ! Suc i \<le> 100 * sched_prio_to_weight ! i \<and> 100 * sched_prio_to_weight ! i \<le> 128 * sched_prio_to_weight ! Suc i"
    using tables(2) i(3) by simp
  then show ?thesis unfolding w using inv [of i] inv [of "Suc i"] i(3) by simp
qed

theorem nice_weights_witness:
  "\<exists>p' q'. set_load_weight list_kernel False (rest_task 2) = Inr p'
    \<and> set_load_weight list_kernel False ((rest_task 2)\<lparr>sched := new_task\<lparr>static_prio := 121\<rparr>\<rparr>) = Inr q'
    \<and> 120 * weight (load q') \<le> 100 * weight (load p') \<and> 100 * weight (load p') \<le> 128 * weight (load q')"
proof -
  have "linux_headers (hdr list_kernel)" using linux_5_11_headers by (simp add: list_kernel_def)
  from nice_weights [OF this, of "rest_task 2" "(rest_task 2)\<lparr>sched := new_task\<lparr>static_prio := 121\<rparr>\<rparr>" False]
  show ?thesis by (auto simp: rest_task_def new_task_def)
qed

end
