(* ===== verification/Workload.thy ===== *)
theory Workload
  imports Clib
begin

text \<open>
  The two test programs of \<open>src/Assignment_4\<close>: \<open>cfs.c\<close> and \<open>cfs_nice.c\<close>. Each forks 21 children, lets
  them work, and prints the order in which they were created and in which they ended.

  \<open>fork\<close> and \<open>wait\<close> are the system's: \<open>forks i\<close> is what the parent's i-th call of \<open>fork\<close> returns, \<open>waits\<close>
  are the results of the calls of \<open>wait\<close> (-1 after the last one). The output is a list of lines, with the
  Korean headings as constructors of their own. Standard output is line buffered on a terminal, where a
  line is written at once, and fully buffered otherwise: then a child inherits what its parent has not
  written yet and writes it when it exits. The texts are shorter than the buffer.
\<close>

section \<open>Standard output\<close>

datatype line = Title | BeginHeading | EndHeading | WorkHeading | Closing | Begins int | Ends int | Work string

record stdout =
  pending :: "line list"
  written :: "line list"

definition new_stdout :: stdout where
  "new_stdout = \<lparr>pending = [], written = []\<rparr>"

definition say :: "bool \<Rightarrow> line \<Rightarrow> stdout \<Rightarrow> stdout" where
  "say tty l out = (if tty then out\<lparr>written := written out @ [l]\<rparr> else out\<lparr>pending := pending out @ [l]\<rparr>)"

definition say_all :: "bool \<Rightarrow> line list \<Rightarrow> stdout \<Rightarrow> stdout" where
  "say_all tty ls out = foldl (\<lambda>out l. say tty l out) out ls"

text \<open>\<open>exit\<close> writes what is left; a forked process has a copy of the buffer and has written nothing.\<close>

definition exit_flush :: "stdout \<Rightarrow> line list" where
  "exit_flush out = written out @ pending out"

definition forked :: "stdout \<Rightarrow> stdout" where
  "forked out = out\<lparr>written := []\<rparr>"

record child =
  pid :: int
  niceness :: int
  child_lines :: "line list"

record outcome =
  status :: int
  printed :: "line list"
  children :: "child list"

section \<open>cfs.c\<close>

definition WORK :: int where "WORK = 10000"

text \<open>The value of \<open>temp\<close> after the two loops of \<open>task\<close>.\<close>

definition task :: int where
  "task = foldl (\<lambda>temp i. foldl (\<lambda>temp j. i + j) temp [1..WORK]) 0 [1..WORK]"

text \<open>The loop over \<open>i\<close> with \<open>n\<close> passes left; \<open>False\<close> when \<open>fork\<close> failed and the program exits with 1.\<close>

fun cfs_forks :: "bool \<Rightarrow> (nat \<Rightarrow> int) \<Rightarrow> nat \<Rightarrow> nat \<Rightarrow> stdout \<Rightarrow> child list \<Rightarrow> bool \<times> stdout \<times> child list" where
  "cfs_forks tty forks i 0 out cs = (True, out, cs)"
| "cfs_forks tty forks i (Suc n) out cs =
     (let p = forks i in
      if p < 0 then (False, out, cs)
      else
        let c = \<lparr>pid = p, niceness = 0, child_lines = exit_flush (forked out)\<rparr> in
        cfs_forks tty forks (i + 1) n (say tty (Begins p) out) (cs @ [c]))"

text \<open>\<open>while ((pid = wait(NULL)) > 0)\<close>\<close>

fun cfs_waits :: "bool \<Rightarrow> int list \<Rightarrow> stdout \<Rightarrow> stdout" where
  "cfs_waits tty [] out = out"
| "cfs_waits tty (p # ps) out = (if p > 0 then cfs_waits tty ps (say tty (Ends p) out) else out)"

definition cfs_main :: "bool \<Rightarrow> (nat \<Rightarrow> int) \<Rightarrow> int list \<Rightarrow> outcome" where
  "cfs_main tty forks waits =
     (case cfs_forks tty forks 0 21 (say tty BeginHeading (say tty Title new_stdout)) [] of
        (ok, out, cs) \<Rightarrow>
          if \<not> ok then \<lparr>status = 1, printed = exit_flush out, children = cs\<rparr>
          else
            let out1 = cfs_waits tty waits (say tty EndHeading out) in
            \<lparr>status = 0, printed = exit_flush (say tty Closing out1), children = cs\<rparr>)"

section \<open>cfs_nice.c\<close>

definition EASY :: nat where "EASY = 20000"
definition NORMAL :: nat where "NORMAL = 50000"
definition HARD :: nat where "HARD = 100000"

text \<open>
  The lines a task prints: one at every tenth of the outer loop. The inner loop only computes \<open>temp\<close>,
  which is not used.
\<close>

definition progress_lines :: "nat \<Rightarrow> string \<Rightarrow> line list" where
  "progress_lines n name = concat (map (\<lambda>i. if i mod (n div 10) = 0 then [Work name] else []) [0..<n])"

definition easy_task :: "line list" where "easy_task = progress_lines EASY ''EASY''"
definition normal_task :: "line list" where "normal_task = progress_lines NORMAL ''NORMAL''"
definition hard_task :: "line list" where "hard_task = progress_lines HARD ''HARD''"

text \<open>
  \<open>nice\<close> clamps to the range of nice values; only a privileged process may lower its value, for another
  one the call fails and changes nothing.
\<close>

definition set_nice :: "bool \<Rightarrow> int \<Rightarrow> int \<Rightarrow> int" where
  "set_nice priv n inc =
     (let v = max (- 20) (min 19 (n + inc)) in if v < n \<and> \<not> priv then n else v)"

text \<open>The nice value and the work of the child with index \<open>i\<close>, whose parent has the nice value \<open>n\<close>.\<close>

definition child_job :: "bool \<Rightarrow> nat \<Rightarrow> int \<Rightarrow> int \<times> line list" where
  "child_job priv i n =
     (if i div 7 = 0 then (set_nice priv n 19, easy_task)
      else if i div 7 = 1 then (set_nice priv n 0, normal_task)
      else if i div 7 = 2 then (set_nice priv n (- 20), hard_task)
      else (n, []))"

fun nice_forks ::
  "bool \<Rightarrow> bool \<Rightarrow> int \<Rightarrow> (nat \<Rightarrow> int) \<Rightarrow> nat \<Rightarrow> nat \<Rightarrow> stdout \<Rightarrow> int list \<Rightarrow> child list \<Rightarrow> (bool \<times> int list \<times> child list) res" where
  "nice_forks tty priv n0 forks i 0 out begin_order cs = Inr (True, begin_order, cs)"
| "nice_forks tty priv n0 forks i (Suc n) out begin_order cs =
     (let p = forks i in
      if p < 0 then Inr (False, begin_order, cs)
      else
        let (v, ls) = child_job priv i n0;
            c = \<lparr>pid = p, niceness = v, child_lines = exit_flush (say_all tty ls (forked out))\<rparr> in
        bindR (aset begin_order (int i) p) (\<lambda>b. nice_forks tty priv n0 forks (i + 1) n out b (cs @ [c])))"

fun nice_waits :: "int list \<Rightarrow> nat \<Rightarrow> int list \<Rightarrow> int list res" where
  "nice_waits [] idx end_order = Inr end_order"
| "nice_waits (p # ps) idx end_order =
     (if p > 0 then bindR (aset end_order (int idx) p) (nice_waits ps (idx + 1)) else Inr end_order)"

definition nice_main :: "bool \<Rightarrow> bool \<Rightarrow> int \<Rightarrow> (nat \<Rightarrow> int) \<Rightarrow> int list \<Rightarrow> outcome res" where
  "nice_main tty priv n0 forks waits =
     (let out = say tty WorkHeading (say tty Title new_stdout) in
      bindR (nice_forks tty priv n0 forks 0 21 out (replicate 21 0) []) (\<lambda>(ok, begin_order, cs).
        if \<not> ok then Inr \<lparr>status = 1, printed = exit_flush out, children = cs\<rparr>
        else bindR (nice_waits waits 0 (replicate 21 0)) (\<lambda>end_order.
          let out1 = say_all tty (map Begins (take 21 begin_order)) (say tty BeginHeading out);
              out2 = say_all tty (map Ends (take 21 end_order)) (say tty EndHeading out1) in
          Inr \<lparr>status = 0, printed = exit_flush (say tty Closing out2), children = cs\<rparr>)))"

end
