(* ===== verification/Workload_Props.thy ===== *)
theory Workload_Props
  imports Workload
begin

text \<open>
  The properties of the test programs: what they print, on a terminal and into a file, and that the
  arrays of \<open>cfs_nice.c\<close> are large enough.
\<close>

section \<open>Output\<close>

lemma say_fields:
  "written (say tty l out) = written out @ (if tty then [l] else [])"
  "pending (say tty l out) = pending out @ (if tty then [] else [l])"
  by (simp_all add: say_def)

lemma say_all_fields:
  "written (say_all tty ls out) = written out @ (if tty then ls else [])"
  "pending (say_all tty ls out) = pending out @ (if tty then [] else ls)"
  by (induction ls arbitrary: out) (simp_all add: say_all_def say_fields)

lemma say_all_Cons: "say_all tty (l # ls) out = say_all tty ls (say tty l out)"
  and say_all_append: "say_all tty (ls @ ms) out = say_all tty ms (say_all tty ls out)"
  and say_all_Nil: "say_all tty [] out = out"
  by (simp_all add: say_all_def)

lemmas io_simps = say_fields say_all_fields exit_flush_def forked_def new_stdout_def

section \<open>cfs.c\<close>

lemma task_value: "task = 2 * WORK"
proof -
  have row: "foldl (\<lambda>temp j. i + j) t xs = (if xs = [] then t else i + last xs)" for i t :: int and xs
    by (induction xs rule: rev_induct) simp_all
  have all: "foldl (\<lambda>temp i. i + w) t xs = (if xs = [] then t else last xs + w)" for w t :: int and xs
    by (induction xs rule: rev_induct) simp_all
  have u: "[1..WORK] \<noteq> []" "last [1..WORK] = WORK"
    using upto_rec2 [of 1 WORK] by (simp_all add: WORK_def)
  show ?thesis unfolding task_def row using all [of WORK 0 "[1..WORK]"] u by simp
qed

text \<open>A run in which no call of \<open>fork\<close> fails: the children and the lines of the parent.\<close>

lemma cfs_forks_ok:
  assumes "\<forall>j < m. 0 < forks j" and "i + n = m"
  shows "cfs_forks tty forks i n out cs =
    (True, say_all tty (map (Begins \<circ> forks) [i..<m]) out,
     cs @ map (\<lambda>j. \<lparr>pid = forks j, niceness = 0,
       child_lines = pending (say_all tty (map (Begins \<circ> forks) [i..<j]) out)\<rparr>) [i..<m])"
  using assms(2)
proof (induction n arbitrary: i out cs)
  case (Suc n)
  have i: "0 < forks i" "[i..<m] = i # [Suc i..<m]" using Suc.prems assms(1) by (simp_all add: upt_conv_Cons)
  have "map (Begins \<circ> forks) [i..<j] = Begins (forks i) # map (Begins \<circ> forks) [Suc i..<j]"
    if "j \<in> set [Suc i..<m]" for j
  proof -
    have "i < j" using that by simp
    then show ?thesis by (simp add: upt_conv_Cons)
  qed
  then have c: "map (\<lambda>j. \<lparr>pid = forks j, niceness = 0,
        child_lines = pending (say_all tty (map (Begins \<circ> forks) [i..<j]) out)\<rparr>) [Suc i..<m] =
      map (\<lambda>j. \<lparr>pid = forks j, niceness = 0,
        child_lines = pending (say_all tty (map (Begins \<circ> forks) [Suc i..<j]) (say tty (Begins (forks i)) out))\<rparr>) [Suc i..<m]"
    by (simp only: say_all_Cons cong: map_cong)
  show ?case
    using i(1) Suc.IH [of "Suc i"] Suc.prems
    by (simp add: i(2) c [unfolded o_def] o_def Let_def say_all_Cons say_all_Nil exit_flush_def forked_def del: map_eq_conv)
qed (simp add: say_all_Nil)

lemma cfs_waits_ok: "\<forall>p\<in>set ps. 0 < p \<Longrightarrow> cfs_waits tty ps out = say_all tty (map Ends ps) out"
  by (induction ps arbitrary: out) (simp_all add: say_all_Nil say_all_Cons)

text \<open>
  \<open>cfs.c\<close>: when all 21 calls of \<open>fork\<close> succeed and \<open>wait\<close> reports the children, the parent prints
  them in the order of creation and then in the order in which they ended, and exits with 0. On a
  terminal the children print nothing; into a file or a pipe child i repeats the heading and the
  i lines of the children before it.
\<close>

theorem cfs_prints_orders:
  assumes "\<forall>i < 21. 0 < forks i" and "mset waits = mset (map forks [0..<21])"
  shows "status (cfs_main tty forks waits) = 0
    \<and> printed (cfs_main tty forks waits) =
        [Title, BeginHeading] @ map (Begins \<circ> forks) [0..<21] @ [EndHeading] @ map Ends waits @ [Closing]
    \<and> map pid (children (cfs_main tty forks waits)) = map forks [0..<21]
    \<and> map child_lines (children (cfs_main tty forks waits)) =
        map (\<lambda>i. if tty then [] else [Title, BeginHeading] @ map (Begins \<circ> forks) [0..<i]) [0..<21]"
proof -
  have "\<forall>p\<in>set waits. 0 < p"
    using assms mset_eq_setD [OF assms(2)] by auto
  note w = cfs_waits_ok [OF this]
  note f = cfs_forks_ok [OF assms(1), of 0 21, simplified]
  show ?thesis
    by (simp only: cfs_main_def f w Let_def prod.case if_False if_True not_True_eq_False)
      (simp add: io_simps o_def)
qed

theorem cfs_prints_orders_witness:
  "printed (cfs_main False (\<lambda>i. int i + 100) (rev (map (\<lambda>i. int i + 100) [0..<21]))) =
     [Title, BeginHeading] @ map (Begins \<circ> (\<lambda>i. int i + 100)) [0..<21] @ [EndHeading]
       @ map Ends (rev (map (\<lambda>i. int i + 100) [0..<21])) @ [Closing]"
  using cfs_prints_orders [of "\<lambda>i. int i + 100" "rev (map (\<lambda>i. int i + 100) [0..<21])" False] by simp

section \<open>cfs_nice.c\<close>

lemma concat_map_Nil: "concat (map (\<lambda>i. []) xs) = []"
  by simp

lemma progress_count:
  assumes "0 < k"
  shows "concat (map (\<lambda>i. if i mod k = 0 then [x] else []) [0..<m * k]) = replicate m x"
proof (induction m)
  case (Suc m)
  have "[0..<Suc m * k] = [0..<m * k] @ [m * k..<m * k + k]"
    by (metis add.commute le0 mult_Suc upt_add_eq_append)
  moreover have "[m * k..<m * k + k] = m * k # [Suc (m * k)..<m * k + k]" using assms by (simp add: upt_conv_Cons)
  moreover have "concat (map (\<lambda>i. if i mod k = 0 then [x] else []) [Suc (m * k)..<m * k + k]) = []"
  proof -
    have "i mod k \<noteq> 0" if "m * k < i" "i < m * k + k" for i
    proof
      assume "i mod k = 0"
      then obtain q where "i = k * q" by (metis mod_0_imp_dvd dvdE)
      with that have "m < q" "q < Suc m"
        by (metis mult.commute mult_less_cancel1, metis add.commute mult.commute mult_Suc mult_less_cancel1)
      then show False by simp
    qed
    then have "map (\<lambda>i. if i mod k = 0 then [x] else []) [Suc (m * k)..<m * k + k] = map (\<lambda>i. []) [Suc (m * k)..<m * k + k]"
      by (simp add: Suc_le_eq)
    then show ?thesis by (simp only: concat_map_Nil)
  qed
  ultimately show ?case
    using Suc by (simp only: map_append concat_append list.map concat.simps mod_mult_self2_is_0 simp_thms if_True)
      (simp add: replicate_append_same)
qed simp

lemma progress_lines_10: "0 < k \<Longrightarrow> progress_lines (10 * k) name = replicate 10 (Work name)"
  using progress_count [of k "Work name" 10] by (simp add: progress_lines_def)

lemma tasks_print_ten:
  "easy_task = replicate 10 (Work ''EASY'')" "normal_task = replicate 10 (Work ''NORMAL'')"
  "hard_task = replicate 10 (Work ''HARD'')"
  using progress_lines_10 [of 2000 "''EASY''"] progress_lines_10 [of 5000 "''NORMAL''"]
    progress_lines_10 [of 10000 "''HARD''"]
  by (simp_all add: easy_task_def normal_task_def hard_task_def EASY_def NORMAL_def HARD_def)

text \<open>The child with index i.\<close>

definition nice_child :: "bool \<Rightarrow> bool \<Rightarrow> int \<Rightarrow> (nat \<Rightarrow> int) \<Rightarrow> stdout \<Rightarrow> nat \<Rightarrow> child" where
  "nice_child tty priv n0 forks out i =
     \<lparr>pid = forks i, niceness = fst (child_job priv i n0),
      child_lines = exit_flush (say_all tty (snd (child_job priv i n0)) (forked out))\<rparr>"

lemma nice_forks_ok:
  assumes "\<forall>j < m. 0 < forks j" and "i + n = m" and "length b = m"
  shows "nice_forks tty priv n0 forks i n out b cs =
    Inr (True, take i b @ map forks [i..<m], cs @ map (nice_child tty priv n0 forks out) [i..<m])"
  using assms(2,3)
proof (induction n arbitrary: i b cs)
  case (Suc n)
  have i: "0 < forks i" "[i..<m] = i # [Suc i..<m]" "i < length b"
    using Suc.prems assms(1) by (simp_all add: upt_conv_Cons)
  then have "take (Suc i) (b[i := forks i]) = take i b @ [forks i]" by (simp add: take_Suc_conv_app_nth)
  with i Suc.IH [of "Suc i" "b[i := forks i]"] Suc.prems show ?case
    by (simp add: aset_in nice_child_def case_prod_beta Let_def)
qed simp

lemma nice_waits_ok:
  assumes "\<forall>p\<in>set ps. 0 < p" and "i \<le> length e"
  shows "nice_waits ps i e =
    (if i + length ps \<le> length e then Inr (take i e @ ps @ drop (i + length ps) e) else Inl OutOfBounds)"
  using assms
proof (induction ps arbitrary: i e)
  case (Cons p ps)
  show ?case
  proof (cases "i < length e")
    case True
    then have "take (Suc i) (e[i := p]) = take i e @ [p]" by (simp add: take_Suc_conv_app_nth)
    with True Cons.IH [of "Suc i" "e[i := p]"] Cons.prems show ?thesis by (simp add: aset_in)
  qed (use Cons.prems in \<open>simp add: aset_out\<close>)
qed simp

lemma map_thirds:
  assumes "\<And>i. i < 7 \<Longrightarrow> f i = a" and "\<And>i. 7 \<le> i \<Longrightarrow> i < 14 \<Longrightarrow> f i = b" and "\<And>i. 14 \<le> i \<Longrightarrow> i < 21 \<Longrightarrow> f i = c"
  shows "map f [0..<21] = replicate 7 a @ replicate 7 b @ replicate 7 c"
  using assms by (intro nth_equalityI) (auto simp: nth_append)

lemma child_job_thirds:
  "i < 7 \<Longrightarrow> child_job priv i 0 = (19, replicate 10 (Work ''EASY''))"
  "7 \<le> i \<Longrightarrow> i < 14 \<Longrightarrow> child_job priv i 0 = (0, replicate 10 (Work ''NORMAL''))"
  "14 \<le> i \<Longrightarrow> i < 21 \<Longrightarrow> child_job priv i 0 = (if priv then - 20 else 0, replicate 10 (Work ''HARD''))"
proof -
  show "child_job priv i 0 = (19, replicate 10 (Work ''EASY''))" if "i < 7"
    using that by (simp add: child_job_def set_nice_def tasks_print_ten)
  show "child_job priv i 0 = (0, replicate 10 (Work ''NORMAL''))" if "7 \<le> i" "i < 14"
  proof -
    have "i div 7 = 1" using that by linarith
    then show ?thesis by (simp add: child_job_def set_nice_def tasks_print_ten)
  qed
  show "child_job priv i 0 = (if priv then - 20 else 0, replicate 10 (Work ''HARD''))" if "14 \<le> i" "i < 21"
  proof -
    have "i div 7 = 2" using that by linarith
    then show ?thesis by (simp add: child_job_def set_nice_def tasks_print_ten)
  qed
qed

text \<open>
  C24. \<open>cfs_nice.c\<close>: when \<open>fork\<close> never fails, the first seven children run the easy task at the lowest
  priority, the next seven the normal one and the last seven the hard one, at the highest priority if the
  program is privileged and at the normal one otherwise, each printing
  ten lines of progress; the parent prints the orders of creation and of ending. \<open>end_order\<close> is large
  enough exactly as long as \<open>wait\<close> reports at most 21 processes. Into a file every child repeats
  the heading.
\<close>

theorem nice_prints_orders:
  assumes "\<forall>i < 21. 0 < forks i" and "\<forall>p\<in>set waits. 0 < p"
  shows "if 21 < length waits then nice_main tty priv 0 forks waits = Inl OutOfBounds
    else \<exists>r. nice_main tty priv 0 forks waits = Inr r \<and> status r = 0
      \<and> printed r = [Title, WorkHeading, BeginHeading] @ map (Begins \<circ> forks) [0..<21] @ [EndHeading]
          @ map Ends (waits @ replicate (21 - length waits) 0) @ [Closing]
      \<and> map pid (children r) = map forks [0..<21]
      \<and> map niceness (children r) = replicate 7 19 @ replicate 7 0 @ replicate 7 (if priv then - 20 else 0)
      \<and> map child_lines (children r) = map (\<lambda>ls. (if tty then [] else [Title, WorkHeading]) @ replicate 10 ls)
          (replicate 7 (Work ''EASY'') @ replicate 7 (Work ''NORMAL'') @ replicate 7 (Work ''HARD''))"
proof -
  note f = nice_forks_ok [OF assms(1), of 0 21 "replicate 21 0", simplified]
  note w = nice_waits_ok [OF assms(2), of 0 "replicate 21 0"]
  let ?out = "say tty WorkHeading (say tty Title new_stdout)"
  let ?cs = "map (nice_child tty priv 0 forks ?out) [0..<21]"
  have n: "map niceness ?cs = replicate 7 19 @ replicate 7 0 @ replicate 7 (if priv then - 20 else 0)"
    unfolding map_map by (rule map_thirds) (simp_all add: nice_child_def child_job_thirds)
  have l: "map child_lines ?cs = map (\<lambda>ls. (if tty then [] else [Title, WorkHeading]) @ replicate 10 ls)
        (replicate 7 (Work ''EASY'') @ replicate 7 (Work ''NORMAL'') @ replicate 7 (Work ''HARD''))"
    unfolding map_map map_append map_replicate
    by (rule map_thirds) (simp_all add: nice_child_def child_job_thirds io_simps)
  have p: "map pid ?cs = map forks [0..<21]" by (simp add: nice_child_def)
  show ?thesis
  proof (cases "21 < length waits")
    case True
    then show ?thesis by (simp add: nice_main_def f w Let_def)
  next
    case False
    then have "nice_main tty priv 0 forks waits = Inr \<lparr>status = 0,
        printed = [Title, WorkHeading, BeginHeading] @ map (Begins \<circ> forks) [0..<21] @ [EndHeading]
          @ map Ends (waits @ replicate (21 - length waits) 0) @ [Closing], children = ?cs\<rparr>"
      by (simp add: nice_main_def f w Let_def io_simps)
    with n l p False show ?thesis by simp
  qed
qed

theorem nice_prints_orders_witness:
  "(\<exists>r. nice_main True True 0 (\<lambda>i. int i + 100) (rev (map (\<lambda>i. int i + 100) [0..<21])) = Inr r
      \<and> map niceness (children r) = replicate 7 19 @ replicate 7 0 @ replicate 7 (- 20))"
  using nice_prints_orders [of "\<lambda>i. int i + 100" "rev (map (\<lambda>i. int i + 100) [0..<21])" True True] by auto

end
