(* ===== verification/Spec2Isabelle.thy ===== *)
theory Spec2Isabelle
  imports Paging_Props Intersection_Props Mytop_Loop Myps_Props Mylscpu_Props Syscalls Sched_Props Uclamp_Props Psi_Props Sched_Core_Tasks Sched_Policy_Props Workload_Props
begin

text \<open>
  A verification development for the operating systems course repository under \<open>src/\<close>: seven user
  programs, four system calls and the changes to the Linux scheduler, all in C.

  \<^bold>\<open>The programs and their theories.\<close> Every routine of the source is one definition, composed as in the
  source. State is passed explicitly in records; a failure of a C program (an access outside an array, a
  string longer than its buffer, a division by zero, a call of \<open>exit\<close>) is a value of the type \<open>c_error\<close> of
  \<open>Prelude\<close>, so that a theorem with the result \<open>Inr\<close> is also a theorem of memory safety.

  \<^item> \<open>Assignment_5/simulator.c\<close>, the page replacement simulator: \<open>Paging\<close> has the arrays of frames and
    reference bits, one step function per algorithm (\<open>opt_step\<close>, \<open>fifo_step\<close>, \<open>lru_step\<close>, \<open>sc_step\<close>), the
    printed tables, the reading of the file and the interactive loop (\<open>sim_main\<close>). \<open>Paging_Spec\<close> states demand
    paging without arrays, \<open>Paging_Frames\<close> the interface between the two as the locales \<open>demand_pager\<close>,
    \<open>predicted_pager\<close> and \<open>optimal_pager\<close>, and \<open>Paging_Algorithms\<close> and \<open>Paging_Clock\<close> interpret them for the
    four algorithms. \<open>Paging_Props\<close>: OPT is optimal, LRU has no anomaly, FIFO and Second-Chance are the
    textbook queues, bounds on the faults, the input is read back, the loop ends at \<open>exit\<close>.
  \<^item> \<open>Assignment_6/program.c\<close>, the intersection: \<open>Intersection\<close> has the shared variables and the code of
    \<open>job0\<close> and the car threads between two synchronisation calls; \<open>Intersection_Run\<close> the run that hands
    control over without loss; \<open>Intersection_Threads\<close> all interleavings of the threads as a step relation with
    its reachable configurations, in which a wait ends by a signal only; \<open>Intersection_Wakeups\<close> adds the returns of
    \<open>pthread_cond_wait\<close> without a signal as steps of their own and counts them. \<open>Intersection_Refine\<close> is the
    simulation with the abstract traffic rules, \<open>Intersection_Schedule\<close> embeds the run into the interleavings, and
    \<open>Intersection_Orderly\<close> bounds the steps of every interleaving and shows that those that lose no signal end like the
    run. \<open>Intersection_Props\<close>: a turn follows the rules; without a return from a wait that no signal caused, never two
    perpendicular cars and one thread at a time, and what one such return does; completion up to nine cars in every
    interleaving that loses no signal; overruns and deadlocks.
  \<^item> \<open>Assignment_2/myps.c\<close>, \<open>mytop.c\<close> and \<open>mylscpu.c\<close>: \<open>Proc\<close> has the environment they read, a snapshot of the
    file system with its directories, the users, the clock and the terminal, and the routines the programs
    share; \<open>Longdouble\<close> is the x87 format of \<open>long double\<close>, \<open>Timelib\<close> the calendar. \<open>Myps\<close>, \<open>Mytop\<close> and
    \<open>Mylscpu\<close> are the programs, with the screen of \<open>mytop\<close> as the list of its \<open>mvprintw\<close> calls. \<open>Proc_Laws\<close>
    and \<open>Line_Laws\<close> have the laws of reading and rounding. \<open>Mytop_Sort\<close> verifies the bubble sort over a
    locale for the comparison. \<open>Myps_Props\<close>, \<open>Mytop_Props\<close>, \<open>Mytop_Loop\<close> and \<open>Mylscpu_Props\<close>: the processes
    listed, the alignment of the table, what is read from the files of \<open>/proc\<close>, the order of the list,
    percentages, when the screen can be drawn, the invariant of the main loop and the options \<open>-n\<close> and
    \<open>-d\<close>, the wrapping of lines, the topology of the CPUs and the texts that overrun.
  \<^item> \<open>Assignment_3\<close>, the system calls \<open>sys_basic_add\<close>, \<open>sub\<close>, \<open>mul\<close> and \<open>mod\<close> and the calculator
    \<open>syscall_operation.c\<close>: \<open>Syscalls\<close>, with the results in 32 bits, the faults, and a line of the calculator.
  \<^item> \<open>Assignment_4\<close>, the scheduler: \<open>Sched\<close> has the accounting of \<open>stats.h\<close> with the added
    \<open>accumulated_cputime\<close>, and of the two versions of \<open>core.c\<close> the priorities, \<open>sched_fork\<close>, the attributes of
    \<open>sched_setscheduler\<close> and the report of a task that ends. \<open>Sched_Props\<close>: the accounting is exact over any
    sequence of events, the report states the whole CPU time, and what a child gets in the two kernels.
    \<open>Psi\<close> has the pressure stall functions of \<open>stats.h\<close>; \<open>Psi_Props\<close> the life of a task as a step relation and
    the invariant that its flags are those of its phase. \<open>Workload\<close> and \<open>Workload_Props\<close>: the test programs \<open>cfs.c\<close> and \<open>cfs_nice.c\<close> and what they print.
  \<^item> \<open>Assignment_4/cfs/core.c\<close>, the core of the scheduler: \<open>Uclamp\<close> has the utilisation clamps of tasks and run queues with
    \<open>Uclamp_Props\<close> for their buckets. \<open>Sched_Core\<close> is the machine, with the run queues of all CPUs and all tasks in one record, and on it the
    queues, wake-ups with the wake lists, new tasks, migration, \<open>__schedule\<close>, the context switch, the tick and the
    end of a task. \<open>Sched_Policy\<close> has nice values, load weights, priority inheritance, \<open>__sched_setscheduler\<close> and the system calls
    that set and get policies. \<open>Sched_Core_Inv\<close>, \<open>Sched_Core_Wake\<close>, \<open>Sched_Core_Switch\<close> and \<open>Sched_Policy_Inv\<close> state the invariant of the machine
    and prove it for each operation; \<open>Sched_Types\<close> says which policies, priorities and classes belong together.
    \<open>Sched_Machine\<close> puts the operations together as the steps of a machine, with what a step requires. \<open>Sched_Views\<close> has
    the locales \<open>task_view\<close> and \<open>settled_view\<close> for what steps leave alone, interpreted in \<open>Sched_Time\<close> for the accounting and for
    the priorities; \<open>Sched_Core_Props\<close> has the locale \<open>guarded_machine\<close> for runs, interpreted for the machine, once more with the time of a task in
    \<open>Sched_Core_Tasks\<close>. The theorems hold for any run from a machine at rest: which task runs where, exact counters,
    exact CPU time through migrations, no lost wake-up, the highest class first, consistent pressure stall flags and references to address spaces
    (\<open>Sched_Core_Props\<close>, \<open>Sched_Core_Tasks\<close>); well-typed tasks, no privilege without permission, what the system calls
    store and return (\<open>Sched_Policy_Props\<close>).

  \<open>Clib\<close> has the functions of the C library the programs use (\<open>scanf\<close>, \<open>atoi\<close>, \<open>printf\<close> of numbers, \<open>fgets\<close>).

  \<^bold>\<open>Loops.\<close> Every loop is a function that terminates, with one exception: the interactive loop of the
  simulator may run for ever and is a partial function into \<open>option\<close>, where \<open>None\<close> is a run without end, and
  its end at \<open>exit\<close> is proved as such. The managing thread of the intersection moves through
  \<open>start_point_list\<close> and fails past its end, which bounds its loop; no interleaving of its threads has more than 264
  steps (\<open>schedule_bounded\<close>), unless waits return without a signal; the calculator ends with its input, where it
  fails or spins. The main loop of \<open>mytop\<close> runs over the sequence of environments and
  keys it meets. \<open>int\<close> values are integers with the reduction to 32 bits written out where a result can
  leave the range, and words in \<open>Syscalls\<close> and \<open>Sched\<close>.

  \<^bold>\<open>Parameters.\<close> Code outside the repository is an argument: the environment of \<open>Proc\<close>, \<open>put_user\<close> with its
  documented contract \<open>put_user_spec\<close>, the constants and macros of the kernel's headers as the record \<open>headers\<close>
  with the values of Linux 5.11 as \<open>linux_headers\<close>, \<open>psi.c\<close> with the contract \<open>psi_contract\<close>, the scheduling
  classes and flags of the other kernel files as the record \<open>kernel\<close> with \<open>class_contract\<close> (queues hold what was queued), \<open>turn_contract\<close> (a
  class picks a task it has) and \<open>flags_contract\<close>, the credentials and limits of a caller as \<open>policy_env\<close>, the random start points of the intersection, the results of
  \<open>fork\<close> and \<open>wait\<close>.

  \<^bold>\<open>Not modelled.\<close> Of \<open>cfs/core.c\<close>: the scheduling classes and load balancing (a pull is a \<open>Move\<close> step), hotplug, affinities,
  \<open>sched_getattr\<close> and \<open>sched_yield\<close>, control groups and the propagation of their clamps, load averages, tracing and debugging
  output; operations that hold a run queue lock are one step, so that races inside them are not considered.
  The rest of \<open>fifo/core.c\<close> is the same text as \<open>cfs/core.c\<close>; of \<open>sched.h\<close> only the fields in use are modelled;
  \<open>syscalls.h\<close> is the list of prototypes of Linux 5.11.22 and \<open>syscall_64.tbl\<close> its table of numbers. \<open>ncurses\<close> and \<open>pthread\<close> themselves are not part of the
  repository: the screen is the sequence of calls, and the destruction of the mutexes is left out. Messages on \<open>stderr\<close> are not part of the outputs.
\<close>

end
